(* ===== verification/Prelude.thy ===== *)
theory Prelude
  imports Main "HOL-Library.Word"
begin

unbundle bit_operations_syntax

text \<open>
  Shared vocabulary of the development: the machine integers of the Rust
  source, the three-way outcome of a fallible function (a value, an error value, or a
  panic), the arithmetic and slice primitives whose failure the source either handles or
  would panic on, and little-endian bytes.

  \<^item> An unsigned word that is inspected bit by bit (\<open>u8\<close>, \<open>u16\<close>, \<open>u32\<close>, \<open>u64\<close>) is a
    word of its width.
  \<^item> A \<open>usize\<close>, and a \<open>u32\<close> used as a counter or row number, is a \<open>nat\<close>; every operation
    on it that can leave the range goes through one of the operations below, which say
    what happens then (panic as in a build with overflow checks, \<open>None\<close>, or saturation).
  \<^item> A byte slice is a list of \<open>u8\<close>.
\<close>

section \<open>Machine types\<close>

type_synonym u8 = "8 word"
type_synonym u16 = "16 word"
type_synonym u32 = "32 word"
type_synonym u64 = "64 word"
type_synonym bytes = "u8 list"

section \<open>Outcomes\<close>

text \<open>
  \<open>Ok\<close> and \<open>Err\<close> are the constructors of Rust's \<open>Result\<close>; \<open>Panic\<close> is an abort: an index
  out of bounds, a slice out of range, an arithmetic overflow in a checked build.
\<close>

datatype ('e, 'a) res = Ok 'a | Err 'e | Panic

named_theorems res_iff \<open>inversion of outcomes of a bind\<close>
named_theorems no_panic_intro \<open>operations that cannot panic\<close>

fun res_bind :: "('e, 'a) res \<Rightarrow> ('a \<Rightarrow> ('e, 'b) res) \<Rightarrow> ('e, 'b) res" where
  "res_bind (Ok x) f = f x"
| "res_bind (Err e) f = Err e"
| "res_bind Panic f = Panic"

fun map_err :: "('e \<Rightarrow> 'f) \<Rightarrow> ('e, 'a) res \<Rightarrow> ('f, 'a) res" where
  "map_err g (Ok x) = Ok x"
| "map_err g (Err e) = Err (g e)"
| "map_err g Panic = Panic"

fun ok_or :: "'a option \<Rightarrow> 'e \<Rightarrow> ('e, 'a) res" where
  "ok_or (Some x) e = Ok x"
| "ok_or None e = Err e"

fun unwrap_res :: "'a option \<Rightarrow> ('e, 'a) res" where
  "unwrap_res (Some x) = Ok x"
| "unwrap_res None = Panic"

fun res_ok :: "('e, 'a) res \<Rightarrow> 'a option" where
  "res_ok (Ok x) = Some x"
| "res_ok (Err e) = None"
| "res_ok Panic = None"

abbreviation no_panic :: "('e, 'a) res \<Rightarrow> bool" where
  "no_panic r \<equiv> r \<noteq> Panic"

lemma res_bind_Ok_iff [res_iff]:
  "res_bind m f = Ok y \<longleftrightarrow> (\<exists>x. m = Ok x \<and> f x = Ok y)"
  by (cases m) auto

lemma res_bind_Err_iff [res_iff]:
  "res_bind m f = Err e \<longleftrightarrow> m = Err e \<or> (\<exists>x. m = Ok x \<and> f x = Err e)"
  by (cases m) auto

lemma res_bind_Panic_iff [res_iff]:
  "res_bind m f = Panic \<longleftrightarrow> m = Panic \<or> (\<exists>x. m = Ok x \<and> f x = Panic)"
  by (cases m) auto

lemma map_err_iff [res_iff]:
  "map_err g m = Ok y \<longleftrightarrow> m = Ok y"
  "map_err g m = Panic \<longleftrightarrow> m = Panic"
  "map_err g m = Err e \<longleftrightarrow> (\<exists>e'. m = Err e' \<and> e = g e')"
  by (cases m; auto)+

lemma ok_or_iff [res_iff]:
  "ok_or opt e = Ok y \<longleftrightarrow> opt = Some y"
  "ok_or opt e = Err e' \<longleftrightarrow> opt = None \<and> e' = e"
  "ok_or opt e = Panic \<longleftrightarrow> False"
  by (cases opt; auto)+

lemma unwrap_res_iff [res_iff]:
  "unwrap_res opt = Ok y \<longleftrightarrow> opt = Some y"
  "unwrap_res opt = Err e' \<longleftrightarrow> False"
  "unwrap_res opt = Panic \<longleftrightarrow> opt = None"
  by (cases opt; auto)+

lemma res_ok_iff [res_iff]:
  "res_ok m = Some x \<longleftrightarrow> m = Ok x"
  "res_ok m = None \<longleftrightarrow> (\<forall>x. m \<noteq> Ok x)"
  by (cases m; auto)+

lemma no_panic_bind [no_panic_intro]:
  assumes "no_panic m" and "\<And>x. m = Ok x \<Longrightarrow> no_panic (f x)"
  shows "no_panic (res_bind m f)"
  using assms by (cases m) auto

lemma no_panic_map_err [no_panic_intro]: "no_panic m \<Longrightarrow> no_panic (map_err g m)"
  by (cases m) auto

lemma no_panic_ok_or [no_panic_intro]: "no_panic (ok_or opt e)"
  by (cases opt) auto

lemma res_bind_cong [fundef_cong]:
  assumes "m = m'" and "\<And>x. m' = Ok x \<Longrightarrow> f x = f' x"
  shows "res_bind m f = res_bind m' f'"
  using assms by (cases m') auto

lemma res_bind_assoc: "res_bind (res_bind m f) g = res_bind m (\<lambda>x. res_bind (f x) g)"
  by (cases m) auto

lemma no_panic_cases:
  assumes "no_panic r" and "\<And>x. r = Ok x \<Longrightarrow> P" and "\<And>e. r = Err e \<Longrightarrow> P"
  shows P
  using assms by (cases r) auto

text \<open>A \<open>for\<close> loop over a list that pushes one value per round and stops at the first error.\<close>

fun res_map :: "('a \<Rightarrow> ('e, 'b) res) \<Rightarrow> 'a list \<Rightarrow> ('e, 'b list) res" where
  "res_map f [] = Ok []"
| "res_map f (x # xs) = res_bind (f x) (\<lambda>y. res_bind (res_map f xs) (\<lambda>ys. Ok (y # ys)))"

lemma res_map_Ok_iff: "res_map f xs = Ok ys \<longleftrightarrow> list_all2 (\<lambda>x y. f x = Ok y) xs ys"
  by (induction xs arbitrary: ys) (auto simp: res_iff list_all2_Cons1)

lemma no_panic_res_map [no_panic_intro]:
  "(\<And>x. x \<in> set xs \<Longrightarrow> no_panic (f x)) \<Longrightarrow> no_panic (res_map f xs)"
  by (induction xs) (auto simp: res_iff)

section \<open>Sizes\<close>

text \<open>
  The widths of a 64-bit target. Rust guarantees that no slice is longer than
  \<open>isize::MAX\<close> bytes, which is \<open>slice_ok\<close>.
\<close>

definition usize_max :: nat where
  "usize_max = 18446744073709551615"

definition isize_max :: nat where
  "isize_max = 9223372036854775807"

definition u32_max :: nat where
  "u32_max = 4294967295"

definition slice_ok :: "'a list \<Rightarrow> bool" where
  "slice_ok xs \<longleftrightarrow> length xs \<le> isize_max"

definition checked_add :: "nat \<Rightarrow> nat \<Rightarrow> nat option" where
  "checked_add a b = (if a + b \<le> usize_max then Some (a + b) else None)"

definition checked_mul :: "nat \<Rightarrow> nat \<Rightarrow> nat option" where
  "checked_mul a b = (if a * b \<le> usize_max then Some (a * b) else None)"

definition checked_sub :: "nat \<Rightarrow> nat \<Rightarrow> nat option" where
  "checked_sub a b = (if b \<le> a then Some (a - b) else None)"

definition saturating_add :: "nat \<Rightarrow> nat \<Rightarrow> nat" where
  "saturating_add a b = min (a + b) usize_max"

definition saturating_sub :: "nat \<Rightarrow> nat \<Rightarrow> nat" where
  "saturating_sub a b = a - b"

text \<open>Plain \<open>+\<close> and \<open>-\<close> on \<open>usize\<close>, and plain \<open>+\<close> on a \<open>u32\<close> counter.\<close>

definition usize_add :: "nat \<Rightarrow> nat \<Rightarrow> ('e, nat) res" where
  "usize_add a b = (if a + b \<le> usize_max then Ok (a + b) else Panic)"

definition usize_sub :: "nat \<Rightarrow> nat \<Rightarrow> ('e, nat) res" where
  "usize_sub a b = (if b \<le> a then Ok (a - b) else Panic)"

definition u32_add :: "nat \<Rightarrow> nat \<Rightarrow> ('e, nat) res" where
  "u32_add a b = (if a + b \<le> u32_max then Ok (a + b) else Panic)"

lemma usize_add_iff [res_iff]:
  "usize_add a b = Ok c \<longleftrightarrow> a + b \<le> usize_max \<and> c = a + b"
  "usize_add a b = Err e \<longleftrightarrow> False"
  "usize_add a b = Panic \<longleftrightarrow> usize_max < a + b"
  by (auto simp: usize_add_def)

lemma usize_sub_iff [res_iff]:
  "usize_sub a b = Ok c \<longleftrightarrow> b \<le> a \<and> c = a - b"
  "usize_sub a b = Err e \<longleftrightarrow> False"
  "usize_sub a b = Panic \<longleftrightarrow> a < b"
  by (auto simp: usize_sub_def)

lemma u32_add_iff [res_iff]:
  "u32_add a b = Ok c \<longleftrightarrow> a + b \<le> u32_max \<and> c = a + b"
  "u32_add a b = Err e \<longleftrightarrow> False"
  "u32_add a b = Panic \<longleftrightarrow> u32_max < a + b"
  by (auto simp: u32_add_def)

lemma slice_ok_length: "slice_ok xs \<Longrightarrow> length xs \<le> 9223372036854775807"
  by (simp add: slice_ok_def isize_max_def)

lemma slice_ok_take [simp, intro]: "slice_ok xs \<Longrightarrow> slice_ok (take n xs)"
  by (simp add: slice_ok_def)

lemma slice_ok_drop [simp, intro]: "slice_ok xs \<Longrightarrow> slice_ok (drop n xs)"
  by (simp add: slice_ok_def)

lemma slice_ok_Nil [simp]: "slice_ok []"
  by (simp add: slice_ok_def)

section \<open>Slices\<close>

text \<open>
  \<open>xs.get(i)\<close>, \<open>xs.get(a..b)\<close> and \<open>xs.get(a..)\<close> return an option; \<open>xs[i]\<close> and
  \<open>xs[a..b]\<close> panic out of range.
\<close>

definition get_at :: "'a list \<Rightarrow> nat \<Rightarrow> 'a option" where
  "get_at xs i = (if i < length xs then Some (xs ! i) else None)"

definition get_range :: "'a list \<Rightarrow> nat \<Rightarrow> nat \<Rightarrow> 'a list option" where
  "get_range xs a b = (if a \<le> b \<and> b \<le> length xs then Some (take (b - a) (drop a xs)) else None)"

definition get_from :: "'a list \<Rightarrow> nat \<Rightarrow> 'a list option" where
  "get_from xs a = (if a \<le> length xs then Some (drop a xs) else None)"

definition index_range :: "'a list \<Rightarrow> nat \<Rightarrow> nat \<Rightarrow> ('e, 'a list) res" where
  "index_range xs a b = unwrap_res (get_range xs a b)"

definition index_from :: "'a list \<Rightarrow> nat \<Rightarrow> ('e, 'a list) res" where
  "index_from xs a = unwrap_res (get_from xs a)"

primrec position :: "('a \<Rightarrow> bool) \<Rightarrow> 'a list \<Rightarrow> nat option" where
  "position p [] = None"
| "position p (x # xs) = (if p x then Some 0 else map_option Suc (position p xs))"

lemma get_at_iff [res_iff]:
  "get_at xs i = Some x \<longleftrightarrow> i < length xs \<and> x = xs ! i"
  "get_at xs i = None \<longleftrightarrow> length xs \<le> i"
  by (auto simp: get_at_def)

lemma get_range_iff [res_iff]:
  "get_range xs a b = Some ys \<longleftrightarrow> a \<le> b \<and> b \<le> length xs \<and> ys = take (b - a) (drop a xs)"
  "get_range xs a b = None \<longleftrightarrow> b < a \<or> length xs < b"
  by (auto simp: get_range_def)

lemma get_from_iff [res_iff]:
  "get_from xs a = Some ys \<longleftrightarrow> a \<le> length xs \<and> ys = drop a xs"
  "get_from xs a = None \<longleftrightarrow> length xs < a"
  by (auto simp: get_from_def)

lemma index_range_iff [res_iff]:
  "index_range xs a b = Ok ys \<longleftrightarrow> a \<le> b \<and> b \<le> length xs \<and> ys = take (b - a) (drop a xs)"
  "index_range xs a b = Err e \<longleftrightarrow> False"
  "index_range xs a b = Panic \<longleftrightarrow> b < a \<or> length xs < b"
  by (auto simp: index_range_def res_iff)

lemma index_from_iff [res_iff]:
  "index_from xs a = Ok ys \<longleftrightarrow> a \<le> length xs \<and> ys = drop a xs"
  "index_from xs a = Err e \<longleftrightarrow> False"
  "index_from xs a = Panic \<longleftrightarrow> length xs < a"
  by (auto simp: index_from_def res_iff)

lemma position_Some_iff:
  "position p xs = Some n \<longleftrightarrow> n < length xs \<and> p (xs ! n) \<and> (\<forall>i < n. \<not> p (xs ! i))"
proof (induction xs arbitrary: n)
  case Nil
  then show ?case by simp
next
  case (Cons x xs)
  then show ?case by (cases n) (auto simp: All_less_Suc2)
qed

lemma position_None_iff: "position p xs = None \<longleftrightarrow> (\<forall>x \<in> set xs. \<not> p x)"
  by (induction xs) auto

lemma position_less: "position p xs = Some n \<Longrightarrow> n < length xs"
  by (simp add: position_Some_iff)

section \<open>Little-endian bytes\<close>

fun from_le_bytes :: "bytes \<Rightarrow> 'a::len word" where
  "from_le_bytes [] = 0"
| "from_le_bytes (b # bs) = ucast b OR push_bit 8 (from_le_bytes bs)"

definition to_le_bytes :: "nat \<Rightarrow> 'a::len word \<Rightarrow> bytes" where
  "to_le_bytes n w = map (\<lambda>i. ucast (drop_bit (8 * i) w)) [0..<n]"

lemma bit_from_le_bytes:
  "bit (from_le_bytes bs :: 'a::len word) n \<longleftrightarrow>
     n < LENGTH('a) \<and> n div 8 < length bs \<and> bit (bs ! (n div 8)) (n mod 8)"
proof (induction bs arbitrary: n)
  case Nil
  then show ?case by simp
next
  case (Cons b bs)
  show ?case
  proof (cases "n < 8")
    case True
    then show ?thesis by (auto simp: bit_or_iff bit_push_bit_iff bit_unsigned_iff)
  next
    case False
    then have d: "n div 8 = Suc ((n - 8) div 8)" and m: "n mod 8 = (n - 8) mod 8"
      by (auto simp: div_if mod_if)
    have "\<not> bit b n" using False bit_imp_le_length [of b n] by auto
    with False show ?thesis
      by (auto simp: bit_or_iff bit_push_bit_iff bit_unsigned_iff Cons.IH d m)
  qed
qed

lemma length_to_le_bytes [simp]: "length (to_le_bytes n w) = n"
  by (simp add: to_le_bytes_def)

lemma from_to_le_bytes:
  assumes "8 * n = LENGTH('a)"
  shows "from_le_bytes (to_le_bytes n w) = (w :: 'a::len word)"
proof (rule bit_word_eqI)
  fix i assume i: "i < LENGTH('a)"
  then have "i div 8 < n" using assms by (simp add: less_mult_imp_div_less mult.commute)
  moreover have "8 * (i div 8) + i mod 8 = i" by simp
  ultimately show "bit (from_le_bytes (to_le_bytes n w) :: 'a word) i = bit w i"
    using i by (simp add: bit_from_le_bytes to_le_bytes_def bit_unsigned_iff bit_drop_bit_eq)
qed

lemma to_from_le_bytes:
  assumes "8 * length bs \<le> LENGTH('a)"
  shows "to_le_bytes (length bs) (from_le_bytes bs :: 'a::len word) = bs"
proof (rule nth_equalityI)
  fix i assume "i < length (to_le_bytes (length bs) (from_le_bytes bs :: 'a word))"
  then have i: "i < length bs" by simp
  show "to_le_bytes (length bs) (from_le_bytes bs :: 'a word) ! i = bs ! i"
  proof (rule bit_word_eqI)
    fix k assume "k < LENGTH(8)"
    then have k: "k < 8" by simp
    have "(8 * i + k) div 8 = i" "(8 * i + k) mod 8 = k" using k by auto
    moreover have "8 * i + k < LENGTH('a)" using i k assms by linarith
    ultimately show "bit (to_le_bytes (length bs) (from_le_bytes bs :: 'a word) ! i) k = bit (bs ! i) k"
      using i k by (simp add: to_le_bytes_def bit_unsigned_iff bit_drop_bit_eq bit_from_le_bytes)
  qed
qed simp

end
