(* ===== verification/Errors.thy ===== *)
theory Errors
  imports Prelude
begin

text \<open>
  Error and diagnostic values (\<open>src/error.rs\<close>). An \<open>error\<close> is a kind, an optional
  byte offset and a static context string; a diagnostic records a tolerated deviation.
  The serde derivations and the \<open>std::error::Error\<close> marker are not modelled.
\<close>

section \<open>Error kinds\<close>

datatype ErrorKind =
    Truncated | Malformed | Unsupported | OutOfRange
  | RecursionLimit | InvalidUtf8 | InvalidPrefixTarget | UnknownOpcode

fun ErrorKind_as_str :: "ErrorKind \<Rightarrow> string" where
  "ErrorKind_as_str Truncated = ''truncated input''"
| "ErrorKind_as_str Malformed = ''malformed structure''"
| "ErrorKind_as_str Unsupported = ''unsupported structure''"
| "ErrorKind_as_str OutOfRange = ''value out of range''"
| "ErrorKind_as_str RecursionLimit = ''recursion limit exceeded''"
| "ErrorKind_as_str InvalidUtf8 = ''invalid UTF-8''"
| "ErrorKind_as_str InvalidPrefixTarget = ''invalid prefix target''"
| "ErrorKind_as_str UnknownOpcode = ''unknown opcode''"

section \<open>Errors\<close>

record error =
  err_kind :: ErrorKind
  err_offset :: "nat option"
  err_context :: string

type_synonym 'a result = "(error, 'a) res"

definition error_new :: "ErrorKind \<Rightarrow> nat \<Rightarrow> string \<Rightarrow> error" where
  "error_new k off ctx = \<lparr>err_kind = k, err_offset = Some off, err_context = ctx\<rparr>"

definition error_detached :: "ErrorKind \<Rightarrow> string \<Rightarrow> error" where
  "error_detached k ctx = \<lparr>err_kind = k, err_offset = None, err_context = ctx\<rparr>"

definition error_rebase :: "error \<Rightarrow> nat \<Rightarrow> error" where
  "error_rebase e base =
     (case err_offset e of
        Some off \<Rightarrow> \<lparr>err_kind = err_kind e, err_offset = Some (saturating_add off base),
                    err_context = err_context e\<rparr>
      | None \<Rightarrow> \<lparr>err_kind = err_kind e, err_offset = Some base, err_context = err_context e\<rparr>)"

lemma error_new_sel [simp]:
  "err_kind (error_new k off ctx) = k"
  "err_offset (error_new k off ctx) = Some off"
  "err_context (error_new k off ctx) = ctx"
  by (simp_all add: error_new_def)

lemma error_detached_sel [simp]:
  "err_kind (error_detached k ctx) = k"
  "err_offset (error_detached k ctx) = None"
  by (simp_all add: error_detached_def)

lemma error_rebase_kind [simp]: "err_kind (error_rebase e b) = err_kind e"
  by (simp add: error_rebase_def split: option.splits)

lemma error_rebase_context [simp]: "err_context (error_rebase e b) = err_context e"
  by (simp add: error_rebase_def split: option.splits)

lemma error_rebase_new:
  "error_rebase (error_new k off ctx) b = error_new k (saturating_add off b) ctx"
  by (simp add: error_rebase_def error_new_def)

section \<open>Strictness and diagnostics\<close>

datatype Strictness = Strict | Permissive

fun is_strict :: "Strictness \<Rightarrow> bool" where
  "is_strict Strict = True"
| "is_strict Permissive = False"

datatype DiagnosticCode =
    FatHeaderSize | StreamNamePadding | DuplicateStreamName | StreamRangeClamped
  | ReservedTablePresent | TableNotSorted | VersionStringPadding | CliHeaderSize
  | SectionRangeClamped | EhSectionSize | BitnessFlagsInconsistent | UnknownHeapSizeBits

fun DiagnosticCode_as_str :: "DiagnosticCode \<Rightarrow> string" where
  "DiagnosticCode_as_str FatHeaderSize = ''fat method header size is not 3 dwords''"
| "DiagnosticCode_as_str StreamNamePadding = ''stream name is not NUL-padded''"
| "DiagnosticCode_as_str DuplicateStreamName = ''duplicate stream name''"
| "DiagnosticCode_as_str StreamRangeClamped = ''stream range clamped to metadata region''"
| "DiagnosticCode_as_str ReservedTablePresent = ''reserved table id flagged present''"
| "DiagnosticCode_as_str TableNotSorted = ''table declared sorted is not sorted''"
| "DiagnosticCode_as_str VersionStringPadding = ''version string is not NUL-terminated''"
| "DiagnosticCode_as_str CliHeaderSize = ''CLI header size is not 72''"
| "DiagnosticCode_as_str SectionRangeClamped = ''section raw range clamped to file''"
| "DiagnosticCode_as_str EhSectionSize = ''exception section size is inconsistent''"
| "DiagnosticCode_as_str BitnessFlagsInconsistent = ''32BITPREFERRED without 32BITREQUIRED''"
| "DiagnosticCode_as_str UnknownHeapSizeBits = ''unknown HeapSizes bits''"

record diagnostic =
  diag_code :: DiagnosticCode
  diag_offset :: "nat option"
  diag_detail :: nat

definition diagnostic_new :: "DiagnosticCode \<Rightarrow> nat \<Rightarrow> nat \<Rightarrow> diagnostic" where
  "diagnostic_new c off d = \<lparr>diag_code = c, diag_offset = Some off, diag_detail = d\<rparr>"

lemma diagnostic_new_sel [simp]:
  "diag_code (diagnostic_new c off d) = c"
  "diag_offset (diagnostic_new c off d) = Some off"
  "diag_detail (diagnostic_new c off d) = d"
  by (simp_all add: diagnostic_new_def)

end
