(* ===== verification/Reader.thy ===== *)
theory Reader
  imports Errors
begin

text \<open>
  The bounds-checked little-endian cursor (\<open>src/reader.rs\<close>). Every operation takes
  the cursor and returns the value with the advanced cursor. The contract all fixed-width
  reads share, "succeed and advance by exactly the width, or fail with \<open>Truncated\<close> at the
  absolute offset the read started at", is the locale \<open>fixed_read\<close>; it is interpreted on
  every read of the module.
\<close>

section \<open>The cursor\<close>

record reader =
  r_data :: bytes
  r_pos :: nat
  r_base :: nat
  r_context :: string

definition reader_new :: "bytes \<Rightarrow> nat \<Rightarrow> string \<Rightarrow> reader" where
  "reader_new dat base ctx = \<lparr>r_data = dat, r_pos = 0, r_base = base, r_context = ctx\<rparr>"

definition reader_absolute :: "reader \<Rightarrow> nat" where
  "reader_absolute r = saturating_add (r_base r) (r_pos r)"

definition reader_remaining :: "reader \<Rightarrow> nat result" where
  "reader_remaining r = usize_sub (length (r_data r)) (r_pos r)"

definition reader_is_empty :: "reader \<Rightarrow> bool" where
  "reader_is_empty r \<longleftrightarrow> length (r_data r) \<le> r_pos r"

definition reader_err :: "reader \<Rightarrow> ErrorKind \<Rightarrow> error" where
  "reader_err r k = error_new k (reader_absolute r) (r_context r)"

definition reader_seek :: "reader \<Rightarrow> nat \<Rightarrow> reader result" where
  "reader_seek r pos =
     (if length (r_data r) < pos then Err (reader_err r OutOfRange) else Ok (r\<lparr>r_pos := pos\<rparr>))"

definition reader_skip :: "reader \<Rightarrow> nat \<Rightarrow> reader result" where
  "reader_skip r n =
     res_bind (ok_or (checked_add (r_pos r) n) (reader_err r OutOfRange)) (\<lambda>e. reader_seek r e)"

definition is_power_of_two :: "nat \<Rightarrow> bool" where
  "is_power_of_two n \<longleftrightarrow> n \<noteq> 0 \<and> n AND (n - 1) = 0"

definition reader_align_to :: "reader \<Rightarrow> nat \<Rightarrow> nat \<Rightarrow> reader result" where
  "reader_align_to r origin align =
     (if \<not> is_power_of_two align then Panic
      else let rel = saturating_sub (r_pos r) origin;
               pad = unat ((- (of_nat rel :: u64)) AND (of_nat align - 1))
           in reader_skip r pad)"

definition reader_take :: "nat \<Rightarrow> reader \<Rightarrow> (bytes \<times> reader) result" where
  "reader_take n r =
     res_bind (ok_or (checked_add (r_pos r) n) (reader_err r Truncated)) (\<lambda>e.
     res_bind (ok_or (get_range (r_data r) (r_pos r) e) (reader_err r Truncated)) (\<lambda>slice.
     Ok (slice, r\<lparr>r_pos := e\<rparr>)))"

definition reader_rest :: "reader \<Rightarrow> bytes result" where
  "reader_rest r = index_from (r_data r) (r_pos r)"

definition reader_u8 :: "reader \<Rightarrow> (u8 \<times> reader) result" where
  "reader_u8 r =
     res_bind (ok_or (get_at (r_data r) (r_pos r)) (reader_err r Truncated)) (\<lambda>b.
     res_bind (usize_add (r_pos r) 1) (\<lambda>p.
     Ok (b, r\<lparr>r_pos := p\<rparr>)))"

definition reader_peek_u8 :: "reader \<Rightarrow> u8 result" where
  "reader_peek_u8 r = ok_or (get_at (r_data r) (r_pos r)) (reader_err r Truncated)"

text \<open>\<open>as i8\<close>, \<open>as i32\<close> and \<open>as i64\<close> reread the bits as two's complement.\<close>

definition reader_i8 :: "reader \<Rightarrow> (int \<times> reader) result" where
  "reader_i8 r = res_bind (reader_u8 r) (\<lambda>(w, r). Ok (sint w, r))"

definition reader_u16 :: "reader \<Rightarrow> (u16 \<times> reader) result" where
  "reader_u16 r = res_bind (reader_take 2 r) (\<lambda>(b, r). Ok (from_le_bytes b, r))"

definition reader_u32 :: "reader \<Rightarrow> (u32 \<times> reader) result" where
  "reader_u32 r = res_bind (reader_take 4 r) (\<lambda>(b, r). Ok (from_le_bytes b, r))"

definition reader_i32 :: "reader \<Rightarrow> (int \<times> reader) result" where
  "reader_i32 r = res_bind (reader_u32 r) (\<lambda>(w, r). Ok (sint w, r))"

definition reader_u64 :: "reader \<Rightarrow> (u64 \<times> reader) result" where
  "reader_u64 r = res_bind (reader_take 8 r) (\<lambda>(b, r). Ok (from_le_bytes b, r))"

definition reader_i64 :: "reader \<Rightarrow> (int \<times> reader) result" where
  "reader_i64 r = res_bind (reader_u64 r) (\<lambda>(w, r). Ok (sint w, r))"

text \<open>A float is kept as its IEEE bit pattern: the decoder only moves it.\<close>

definition reader_f32 :: "reader \<Rightarrow> (u32 \<times> reader) result" where
  "reader_f32 r = reader_u32 r"

definition reader_f64 :: "reader \<Rightarrow> (u64 \<times> reader) result" where
  "reader_f64 r = reader_u64 r"

text \<open>The cursor-free column read of the table decoder.\<close>

definition read_uint_at :: "bytes \<Rightarrow> nat \<Rightarrow> u8 \<Rightarrow> u32 option" where
  "read_uint_at bs off width =
     (if width = 2 then
        Option.bind (checked_add off 2) (\<lambda>e.
        Option.bind (get_range bs off e) (\<lambda>b. Some (ucast (from_le_bytes b :: u16))))
      else if width = 4 then
        Option.bind (checked_add off 4) (\<lambda>e.
        Option.bind (get_range bs off e) (\<lambda>b. Some (from_le_bytes b)))
      else None)"

section \<open>Invariant\<close>

text \<open>The cursor never leaves its slice.\<close>

definition reader_wf :: "reader \<Rightarrow> bool" where
  "reader_wf r \<longleftrightarrow> slice_ok (r_data r) \<and> r_pos r \<le> length (r_data r)"

abbreviation reader_at :: "reader \<Rightarrow> nat \<Rightarrow> bytes" where
  "reader_at r n \<equiv> take n (drop (r_pos r) (r_data r))"

abbreviation reader_adv :: "reader \<Rightarrow> nat \<Rightarrow> reader" where
  "reader_adv r n \<equiv> r\<lparr>r_pos := r_pos r + n\<rparr>"

lemma reader_new_sel [simp]:
  "r_data (reader_new d b c) = d" "r_pos (reader_new d b c) = 0"
  "r_base (reader_new d b c) = b" "r_context (reader_new d b c) = c"
  by (simp_all add: reader_new_def)

lemma reader_new_wf [simp]: "reader_wf (reader_new d b c) \<longleftrightarrow> slice_ok d"
  by (simp add: reader_wf_def)

lemma reader_adv_wf [simp]:
  "reader_wf (reader_adv r n) \<longleftrightarrow> slice_ok (r_data r) \<and> r_pos r + n \<le> length (r_data r)"
  by (simp add: reader_wf_def)

lemma reader_seek_iff [res_iff]:
  "reader_seek r p = Ok r' \<longleftrightarrow> p \<le> length (r_data r) \<and> r' = r\<lparr>r_pos := p\<rparr>"
  "reader_seek r p = Err e \<longleftrightarrow> length (r_data r) < p \<and> e = reader_err r OutOfRange"
  "reader_seek r p = Panic \<longleftrightarrow> False"
  by (auto simp: reader_seek_def)

lemma reader_remaining_wf: "reader_wf r \<Longrightarrow> reader_remaining r = Ok (length (r_data r) - r_pos r)"
  by (simp add: reader_wf_def reader_remaining_def usize_sub_def)

lemma reader_rest_wf: "reader_wf r \<Longrightarrow> reader_rest r = Ok (drop (r_pos r) (r_data r))"
  by (simp add: reader_wf_def reader_rest_def index_from_def get_from_def)

lemma reader_skip_iff [res_iff]:
  "reader_wf r \<Longrightarrow> reader_skip r n = Ok r' \<longleftrightarrow>
     r_pos r + n \<le> length (r_data r) \<and> r' = reader_adv r n"
  "reader_skip r n = Panic \<longleftrightarrow> False"
  by (auto simp: reader_skip_def checked_add_def res_iff reader_wf_def usize_max_def
           dest!: slice_ok_length)

lemma reader_skip_Err:
  "reader_wf r \<Longrightarrow> reader_skip r n = Err e \<longleftrightarrow>
     length (r_data r) < r_pos r + n \<and> e = reader_err r OutOfRange"
  by (auto simp: reader_skip_def checked_add_def res_iff reader_wf_def usize_max_def
           dest!: slice_ok_length)

section \<open>The contract of a fixed-width read\<close>

locale fixed_read =
  fixes rd :: "reader \<Rightarrow> ('a \<times> reader) result"
    and width :: nat
    and val :: "bytes \<Rightarrow> 'a"
  assumes read_ok: "reader_wf r \<Longrightarrow> r_pos r + width \<le> length (r_data r) \<Longrightarrow>
      rd r = Ok (val (reader_at r width), reader_adv r width)"
    and read_err: "reader_wf r \<Longrightarrow> length (r_data r) < r_pos r + width \<Longrightarrow>
      rd r = Err (reader_err r Truncated)"
begin

lemma Ok_iff: "reader_wf r \<Longrightarrow> rd r = Ok vr \<longleftrightarrow>
    r_pos r + width \<le> length (r_data r) \<and> vr = (val (reader_at r width), reader_adv r width)"
  by (cases "r_pos r + width \<le> length (r_data r)") (auto simp: read_ok read_err)

lemma Err_iff: "reader_wf r \<Longrightarrow> rd r = Err e \<longleftrightarrow>
    length (r_data r) < r_pos r + width \<and> e = reader_err r Truncated"
  by (cases "r_pos r + width \<le> length (r_data r)") (auto simp: read_ok read_err)

lemma total: "reader_wf r \<Longrightarrow> no_panic (rd r)"
  by (cases "r_pos r + width \<le> length (r_data r)") (auto simp: read_ok read_err)

lemma keeps: "reader_wf r \<Longrightarrow> rd r = Ok (v, r') \<Longrightarrow>
    reader_wf r' \<and> r_data r' = r_data r \<and> r_base r' = r_base r \<and> r_context r' = r_context r
    \<and> r_pos r' = r_pos r + width"
  by (auto simp: Ok_iff reader_wf_def)

lemma on_prefix:
  assumes "reader_wf r" and "drop (r_pos r) (r_data r) = xs @ ys" and "length xs = width"
  shows "rd r = Ok (val xs, reader_adv r width)"
proof -
  have "length (r_data r) - r_pos r = length xs + length ys"
    using assms(2) by (metis length_append length_drop)
  then have "r_pos r + width \<le> length (r_data r)" using assms(1,3) by (auto simp: reader_wf_def)
  then show ?thesis using assms by (simp add: read_ok)
qed

end

text \<open>A read that maps the value of another read keeps the contract.\<close>

lemma fixed_read_map:
  assumes "fixed_read rd w val"
  shows "fixed_read (\<lambda>r. res_bind (rd r) (\<lambda>(b, r). Ok (f b, r))) w (\<lambda>bs. f (val bs))"
proof -
  from assms have *: "\<And>r. reader_wf r \<Longrightarrow> r_pos r + w \<le> length (r_data r) \<Longrightarrow>
      rd r = Ok (val (reader_at r w), reader_adv r w)"
    "\<And>r. reader_wf r \<Longrightarrow> length (r_data r) < r_pos r + w \<Longrightarrow> rd r = Err (reader_err r Truncated)"
    by (simp_all add: fixed_read.read_ok fixed_read.read_err)
  show ?thesis by unfold_locales (simp_all add: *)
qed

lemma reader_take_ok:
  "reader_wf r \<Longrightarrow> r_pos r + n \<le> length (r_data r) \<Longrightarrow>
     reader_take n r = Ok (reader_at r n, reader_adv r n)"
  by (auto simp: reader_take_def checked_add_def get_range_def reader_wf_def usize_max_def
           dest!: slice_ok_length)

lemma reader_take_err:
  "reader_wf r \<Longrightarrow> length (r_data r) < r_pos r + n \<Longrightarrow>
     reader_take n r = Err (reader_err r Truncated)"
  by (auto simp: reader_take_def checked_add_def get_range_def)

interpretation rd_take: fixed_read "reader_take n" n "\<lambda>b. b" for n
  by unfold_locales (simp_all add: reader_take_ok reader_take_err)

interpretation rd_u8: fixed_read reader_u8 1 hd
proof unfold_locales
  fix r assume "reader_wf r" and "r_pos r + 1 \<le> length (r_data r)"
  then show "reader_u8 r = Ok (hd (reader_at r 1), reader_adv r 1)"
    by (auto simp: reader_u8_def get_at_def usize_add_def reader_wf_def usize_max_def
          take_Suc hd_drop_conv_nth dest!: slice_ok_length)
next
  fix r assume "reader_wf r" and "length (r_data r) < r_pos r + 1"
  then show "reader_u8 r = Err (reader_err r Truncated)"
    by (simp add: reader_u8_def get_at_def)
qed

interpretation rd_i8: fixed_read reader_i8 1 "\<lambda>b. sint (hd b)"
  unfolding reader_i8_def [abs_def] by (rule fixed_read_map) (rule rd_u8.fixed_read_axioms)

interpretation rd_u16: fixed_read reader_u16 2 from_le_bytes
  unfolding reader_u16_def [abs_def] by (rule fixed_read_map) (rule rd_take.fixed_read_axioms)

interpretation rd_u32: fixed_read reader_u32 4 from_le_bytes
  unfolding reader_u32_def [abs_def] by (rule fixed_read_map) (rule rd_take.fixed_read_axioms)

interpretation rd_u64: fixed_read reader_u64 8 from_le_bytes
  unfolding reader_u64_def [abs_def] by (rule fixed_read_map) (rule rd_take.fixed_read_axioms)

interpretation rd_i32: fixed_read reader_i32 4 "\<lambda>b. sint (from_le_bytes b :: u32)"
  unfolding reader_i32_def [abs_def] by (rule fixed_read_map) (rule rd_u32.fixed_read_axioms)

interpretation rd_i64: fixed_read reader_i64 8 "\<lambda>b. sint (from_le_bytes b :: u64)"
  unfolding reader_i64_def [abs_def] by (rule fixed_read_map) (rule rd_u64.fixed_read_axioms)

interpretation rd_f32: fixed_read reader_f32 4 from_le_bytes
  unfolding reader_f32_def [abs_def] by (rule rd_u32.fixed_read_axioms)

interpretation rd_f64: fixed_read reader_f64 8 from_le_bytes
  unfolding reader_f64_def [abs_def] by (rule rd_u64.fixed_read_axioms)

lemmas read_iff =
  rd_take.Ok_iff rd_take.Err_iff rd_u8.Ok_iff rd_u8.Err_iff rd_i8.Ok_iff rd_i8.Err_iff
  rd_u16.Ok_iff rd_u16.Err_iff rd_u32.Ok_iff rd_u32.Err_iff rd_u64.Ok_iff rd_u64.Err_iff
  rd_i32.Ok_iff rd_i32.Err_iff rd_i64.Ok_iff rd_i64.Err_iff
  rd_f32.Ok_iff rd_f32.Err_iff rd_f64.Ok_iff rd_f64.Err_iff

lemmas read_total =
  rd_take.total rd_u8.total rd_i8.total rd_u16.total rd_u32.total rd_u64.total
  rd_i32.total rd_i64.total rd_f32.total rd_f64.total

lemma reader_peek_total [no_panic_intro]: "no_panic (reader_peek_u8 r)"
  by (simp add: reader_peek_u8_def no_panic_ok_or)

section \<open>Alignment\<close>

lemma align4_pad:
  assumes "p < 2 ^ 63"
  shows "unat ((- (of_nat p :: u64)) AND 3) = (4 - p mod 4) mod 4"
proof -
  have "unat ((- (of_nat p :: u64)) AND 3) = unat (take_bit 2 (- (of_nat p :: u64)))"
    by (simp add: take_bit_eq_mask mask_eq_exp_minus_1)
  also have "\<dots> = unat (- (of_nat p :: u64)) mod 4"
    by (simp only: unsigned_take_bit_eq) (simp add: take_bit_eq_mod)
  also have "unat (- (of_nat p :: u64)) = nat ((- int p) mod 2 ^ 64)"
    using assms by (simp add: unat_eq_nat_uint uint_word_ariths(4) unsigned_of_nat take_bit_eq_mod zmod_int)
  also have "\<dots> mod 4 = nat ((- int p) mod 2 ^ 64 mod 4)"
    by (subst nat_mod_distrib) simp_all
  also have "(- int p) mod 2 ^ 64 mod 4 = (- int p) mod (4 :: int)"
    by (rule mod_mod_cancel) simp
  also have "nat ((- int p) mod 4) = (4 - p mod 4) mod 4"
  proof -
    have "int p mod 4 = int (p mod 4)" by (simp add: zmod_int)
    moreover have "p mod 4 < 4" by simp
    ultimately show ?thesis by (auto simp: zmod_zminus1_eq_if)
  qed
  finally show ?thesis .
qed

lemma reader_align4:
  assumes "reader_wf r"
  shows "reader_align_to r 0 4 =
    (let p = r_pos r + (4 - r_pos r mod 4) mod 4
     in if p \<le> length (r_data r) then Ok (r\<lparr>r_pos := p\<rparr>) else Err (reader_err r OutOfRange))"
proof -
  from assms have "r_pos r < 2 ^ 63" by (auto simp: reader_wf_def dest!: slice_ok_length)
  then have "reader_align_to r 0 4 = reader_skip r ((4 - r_pos r mod 4) mod 4)"
    by (simp add: reader_align_to_def is_power_of_two_def saturating_sub_def align4_pad)
  then show ?thesis using assms
    by (cases "reader_skip r ((4 - r_pos r mod 4) mod 4)")
       (auto simp: res_iff reader_skip_Err Let_def)
qed

section \<open>Column reads\<close>

lemma read_uint_at_2:
  assumes "slice_ok bs"
  shows "read_uint_at bs off 2 =
    (if off + 2 \<le> length bs then Some (ucast (from_le_bytes (take 2 (drop off bs)) :: u16)) else None)"
  using slice_ok_length [OF assms]
  by (auto simp: read_uint_at_def checked_add_def get_range_def usize_max_def)

lemma read_uint_at_4:
  assumes "slice_ok bs"
  shows "read_uint_at bs off 4 =
    (if off + 4 \<le> length bs then Some (from_le_bytes (take 4 (drop off bs))) else None)"
  using slice_ok_length [OF assms]
  by (auto simp: read_uint_at_def checked_add_def get_range_def usize_max_def)

lemma read_uint_at_Some:
  assumes "slice_ok bs" and "w = 2 \<or> w = 4" and "off + unat w \<le> length bs"
  shows "\<exists>v. read_uint_at bs off w = Some v"
  using assms by (auto simp: read_uint_at_2 read_uint_at_4)

end
