(* ===== verification/Token.thy ===== *)
theory Token
  imports Reader
begin

text \<open>
  Table ids, tokens, row ids and heap indices (\<open>src/token.rs\<close>). The variant
  \<open>TableId::X\<close> is the constructor \<open>T_X\<close>. A typed \<open>Rid<marker::X>\<close> carries its table
  only in its Rust type; here a row id is its \<open>u32\<close> and the operations that use the marker
  take the table as an argument. The index newtypes are their \<open>u32\<close>. The \<open>Debug\<close> and
  \<open>Hash\<close> implementations are not modelled.
\<close>

section \<open>Table ids\<close>

datatype (plugins only: size code) TableId =
    T_Module | T_TypeRef | T_TypeDef | T_FieldPtr | T_Field | T_MethodPtr | T_MethodDef |
    T_ParamPtr | T_Param | T_InterfaceImpl | T_MemberRef | T_Constant | T_CustomAttribute |
    T_FieldMarshal | T_DeclSecurity | T_ClassLayout | T_FieldLayout | T_StandAloneSig |
    T_EventMap | T_EventPtr | T_Event | T_PropertyMap | T_PropertyPtr | T_Property |
    T_MethodSemantics | T_MethodImpl | T_ModuleRef | T_TypeSpec | T_ImplMap | T_FieldRva |
    T_EncLog | T_EncMap | T_Assembly | T_AssemblyProcessor | T_AssemblyOs | T_AssemblyRef |
    T_AssemblyRefProcessor | T_AssemblyRefOs | T_File | T_ExportedType |
    T_ManifestResource | T_NestedClass | T_GenericParam | T_MethodSpec |
    T_GenericParamConstraint | T_Document | T_MethodDebugInformation | T_LocalScope |
    T_LocalVariable | T_LocalConstant | T_ImportScope | T_StateMachineMethod |
    T_CustomDebugInformation

primrec TableId_to_u8 :: "TableId \<Rightarrow> u8" where
  "TableId_to_u8 T_Module = 0x00"
| "TableId_to_u8 T_TypeRef = 0x01"
| "TableId_to_u8 T_TypeDef = 0x02"
| "TableId_to_u8 T_FieldPtr = 0x03"
| "TableId_to_u8 T_Field = 0x04"
| "TableId_to_u8 T_MethodPtr = 0x05"
| "TableId_to_u8 T_MethodDef = 0x06"
| "TableId_to_u8 T_ParamPtr = 0x07"
| "TableId_to_u8 T_Param = 0x08"
| "TableId_to_u8 T_InterfaceImpl = 0x09"
| "TableId_to_u8 T_MemberRef = 0x0A"
| "TableId_to_u8 T_Constant = 0x0B"
| "TableId_to_u8 T_CustomAttribute = 0x0C"
| "TableId_to_u8 T_FieldMarshal = 0x0D"
| "TableId_to_u8 T_DeclSecurity = 0x0E"
| "TableId_to_u8 T_ClassLayout = 0x0F"
| "TableId_to_u8 T_FieldLayout = 0x10"
| "TableId_to_u8 T_StandAloneSig = 0x11"
| "TableId_to_u8 T_EventMap = 0x12"
| "TableId_to_u8 T_EventPtr = 0x13"
| "TableId_to_u8 T_Event = 0x14"
| "TableId_to_u8 T_PropertyMap = 0x15"
| "TableId_to_u8 T_PropertyPtr = 0x16"
| "TableId_to_u8 T_Property = 0x17"
| "TableId_to_u8 T_MethodSemantics = 0x18"
| "TableId_to_u8 T_MethodImpl = 0x19"
| "TableId_to_u8 T_ModuleRef = 0x1A"
| "TableId_to_u8 T_TypeSpec = 0x1B"
| "TableId_to_u8 T_ImplMap = 0x1C"
| "TableId_to_u8 T_FieldRva = 0x1D"
| "TableId_to_u8 T_EncLog = 0x1E"
| "TableId_to_u8 T_EncMap = 0x1F"
| "TableId_to_u8 T_Assembly = 0x20"
| "TableId_to_u8 T_AssemblyProcessor = 0x21"
| "TableId_to_u8 T_AssemblyOs = 0x22"
| "TableId_to_u8 T_AssemblyRef = 0x23"
| "TableId_to_u8 T_AssemblyRefProcessor = 0x24"
| "TableId_to_u8 T_AssemblyRefOs = 0x25"
| "TableId_to_u8 T_File = 0x26"
| "TableId_to_u8 T_ExportedType = 0x27"
| "TableId_to_u8 T_ManifestResource = 0x28"
| "TableId_to_u8 T_NestedClass = 0x29"
| "TableId_to_u8 T_GenericParam = 0x2A"
| "TableId_to_u8 T_MethodSpec = 0x2B"
| "TableId_to_u8 T_GenericParamConstraint = 0x2C"
| "TableId_to_u8 T_Document = 0x30"
| "TableId_to_u8 T_MethodDebugInformation = 0x31"
| "TableId_to_u8 T_LocalScope = 0x32"
| "TableId_to_u8 T_LocalVariable = 0x33"
| "TableId_to_u8 T_LocalConstant = 0x34"
| "TableId_to_u8 T_ImportScope = 0x35"
| "TableId_to_u8 T_StateMachineMethod = 0x36"
| "TableId_to_u8 T_CustomDebugInformation = 0x37"

definition TableId_ALL :: "TableId list" where
  "TableId_ALL = [
    T_Module, T_TypeRef, T_TypeDef, T_FieldPtr, T_Field, T_MethodPtr, T_MethodDef,
    T_ParamPtr, T_Param, T_InterfaceImpl, T_MemberRef, T_Constant, T_CustomAttribute,
    T_FieldMarshal, T_DeclSecurity, T_ClassLayout, T_FieldLayout, T_StandAloneSig,
    T_EventMap, T_EventPtr, T_Event, T_PropertyMap, T_PropertyPtr, T_Property,
    T_MethodSemantics, T_MethodImpl, T_ModuleRef, T_TypeSpec, T_ImplMap, T_FieldRva,
    T_EncLog, T_EncMap, T_Assembly, T_AssemblyProcessor, T_AssemblyOs, T_AssemblyRef,
    T_AssemblyRefProcessor, T_AssemblyRefOs, T_File, T_ExportedType, T_ManifestResource,
    T_NestedClass, T_GenericParam, T_MethodSpec, T_GenericParamConstraint, T_Document,
    T_MethodDebugInformation, T_LocalScope, T_LocalVariable, T_LocalConstant, T_ImportScope,
    T_StateMachineMethod, T_CustomDebugInformation]"

definition TableId_from_u8 :: "u8 \<Rightarrow> TableId option" where
  "TableId_from_u8 val = map_of [
    (0x00, T_Module), (0x01, T_TypeRef), (0x02, T_TypeDef), (0x03, T_FieldPtr),
    (0x04, T_Field), (0x05, T_MethodPtr), (0x06, T_MethodDef), (0x07, T_ParamPtr),
    (0x08, T_Param), (0x09, T_InterfaceImpl), (0x0A, T_MemberRef), (0x0B, T_Constant),
    (0x0C, T_CustomAttribute), (0x0D, T_FieldMarshal), (0x0E, T_DeclSecurity),
    (0x0F, T_ClassLayout), (0x10, T_FieldLayout), (0x11, T_StandAloneSig),
    (0x12, T_EventMap), (0x13, T_EventPtr), (0x14, T_Event), (0x15, T_PropertyMap),
    (0x16, T_PropertyPtr), (0x17, T_Property), (0x18, T_MethodSemantics),
    (0x19, T_MethodImpl), (0x1A, T_ModuleRef), (0x1B, T_TypeSpec), (0x1C, T_ImplMap),
    (0x1D, T_FieldRva), (0x1E, T_EncLog), (0x1F, T_EncMap), (0x20, T_Assembly),
    (0x21, T_AssemblyProcessor), (0x22, T_AssemblyOs), (0x23, T_AssemblyRef),
    (0x24, T_AssemblyRefProcessor), (0x25, T_AssemblyRefOs), (0x26, T_File),
    (0x27, T_ExportedType), (0x28, T_ManifestResource), (0x29, T_NestedClass),
    (0x2A, T_GenericParam), (0x2B, T_MethodSpec), (0x2C, T_GenericParamConstraint),
    (0x30, T_Document), (0x31, T_MethodDebugInformation), (0x32, T_LocalScope),
    (0x33, T_LocalVariable), (0x34, T_LocalConstant), (0x35, T_ImportScope),
    (0x36, T_StateMachineMethod), (0x37, T_CustomDebugInformation)] val"

primrec TableId_name :: "TableId \<Rightarrow> string" where
  "TableId_name T_Module = ''Module''"
| "TableId_name T_TypeRef = ''TypeRef''"
| "TableId_name T_TypeDef = ''TypeDef''"
| "TableId_name T_FieldPtr = ''FieldPtr''"
| "TableId_name T_Field = ''Field''"
| "TableId_name T_MethodPtr = ''MethodPtr''"
| "TableId_name T_MethodDef = ''MethodDef''"
| "TableId_name T_ParamPtr = ''ParamPtr''"
| "TableId_name T_Param = ''Param''"
| "TableId_name T_InterfaceImpl = ''InterfaceImpl''"
| "TableId_name T_MemberRef = ''MemberRef''"
| "TableId_name T_Constant = ''Constant''"
| "TableId_name T_CustomAttribute = ''CustomAttribute''"
| "TableId_name T_FieldMarshal = ''FieldMarshal''"
| "TableId_name T_DeclSecurity = ''DeclSecurity''"
| "TableId_name T_ClassLayout = ''ClassLayout''"
| "TableId_name T_FieldLayout = ''FieldLayout''"
| "TableId_name T_StandAloneSig = ''StandAloneSig''"
| "TableId_name T_EventMap = ''EventMap''"
| "TableId_name T_EventPtr = ''EventPtr''"
| "TableId_name T_Event = ''Event''"
| "TableId_name T_PropertyMap = ''PropertyMap''"
| "TableId_name T_PropertyPtr = ''PropertyPtr''"
| "TableId_name T_Property = ''Property''"
| "TableId_name T_MethodSemantics = ''MethodSemantics''"
| "TableId_name T_MethodImpl = ''MethodImpl''"
| "TableId_name T_ModuleRef = ''ModuleRef''"
| "TableId_name T_TypeSpec = ''TypeSpec''"
| "TableId_name T_ImplMap = ''ImplMap''"
| "TableId_name T_FieldRva = ''FieldRva''"
| "TableId_name T_EncLog = ''EncLog''"
| "TableId_name T_EncMap = ''EncMap''"
| "TableId_name T_Assembly = ''Assembly''"
| "TableId_name T_AssemblyProcessor = ''AssemblyProcessor''"
| "TableId_name T_AssemblyOs = ''AssemblyOs''"
| "TableId_name T_AssemblyRef = ''AssemblyRef''"
| "TableId_name T_AssemblyRefProcessor = ''AssemblyRefProcessor''"
| "TableId_name T_AssemblyRefOs = ''AssemblyRefOs''"
| "TableId_name T_File = ''File''"
| "TableId_name T_ExportedType = ''ExportedType''"
| "TableId_name T_ManifestResource = ''ManifestResource''"
| "TableId_name T_NestedClass = ''NestedClass''"
| "TableId_name T_GenericParam = ''GenericParam''"
| "TableId_name T_MethodSpec = ''MethodSpec''"
| "TableId_name T_GenericParamConstraint = ''GenericParamConstraint''"
| "TableId_name T_Document = ''Document''"
| "TableId_name T_MethodDebugInformation = ''MethodDebugInformation''"
| "TableId_name T_LocalScope = ''LocalScope''"
| "TableId_name T_LocalVariable = ''LocalVariable''"
| "TableId_name T_LocalConstant = ''LocalConstant''"
| "TableId_name T_ImportScope = ''ImportScope''"
| "TableId_name T_StateMachineMethod = ''StateMachineMethod''"
| "TableId_name T_CustomDebugInformation = ''CustomDebugInformation''"

definition TableId_is_pdb :: "TableId \<Rightarrow> bool" where
  "TableId_is_pdb t \<longleftrightarrow> 0x30 \<le> TableId_to_u8 t"

definition TableId_is_ptr_table :: "TableId \<Rightarrow> bool" where
  "TableId_is_ptr_table t \<longleftrightarrow>
     t \<in> {T_FieldPtr, T_MethodPtr, T_ParamPtr, T_EventPtr, T_PropertyPtr}"

definition TableId_ptr_target :: "TableId \<Rightarrow> TableId option" where
  "TableId_ptr_target t =
     (case t of
        T_FieldPtr \<Rightarrow> Some T_Field
      | T_MethodPtr \<Rightarrow> Some T_MethodDef
      | T_ParamPtr \<Rightarrow> Some T_Param
      | T_EventPtr \<Rightarrow> Some T_Event
      | T_PropertyPtr \<Rightarrow> Some T_Property
      | _ \<Rightarrow> None)"

definition TableId_ptr_source :: "TableId \<Rightarrow> TableId option" where
  "TableId_ptr_source t =
     (case t of
        T_Field \<Rightarrow> Some T_FieldPtr
      | T_MethodDef \<Rightarrow> Some T_MethodPtr
      | T_Param \<Rightarrow> Some T_ParamPtr
      | T_Event \<Rightarrow> Some T_EventPtr
      | T_Property \<Rightarrow> Some T_PropertyPtr
      | _ \<Rightarrow> None)"

lemma TableId_ALL_complete [simp]: "t \<in> set TableId_ALL"
  by (cases t) (simp_all add: TableId_ALL_def)

lemma TableId_ALL_numeric: "sorted_wrt (<) (map (\<lambda>t. unat (TableId_to_u8 t)) TableId_ALL)"
  by (simp add: TableId_ALL_def)

lemma TableId_ALL_distinct [simp]: "distinct TableId_ALL"
proof -
  have "distinct (map (\<lambda>t. unat (TableId_to_u8 t)) TableId_ALL)"
    using TableId_ALL_numeric by (simp only: strict_sorted_iff)
  then show ?thesis by (simp only: distinct_map)
qed

lemma TableId_from_to [simp]: "TableId_from_u8 (TableId_to_u8 t) = Some t"
  by (cases t) (simp_all add: TableId_from_u8_def)

lemma TableId_to_inj [simp]: "TableId_to_u8 s = TableId_to_u8 t \<longleftrightarrow> s = t"
  by (metis TableId_from_to option.inject)

lemma TableId_to_from:
  assumes "TableId_from_u8 v = Some t"
  shows "TableId_to_u8 t = v"
  using map_of_SomeD [OF assms [unfolded TableId_from_u8_def]] by auto

lemma TableId_from_iff: "TableId_from_u8 v = Some t \<longleftrightarrow> v = TableId_to_u8 t"
  using TableId_to_from by auto

lemma TableId_to_u8_less: "unat (TableId_to_u8 t) < 56"
  by (cases t) simp_all

text \<open>The derived order of the enum is the order of its numbers.\<close>

instantiation TableId :: linorder
begin

definition less_eq_TableId :: "TableId \<Rightarrow> TableId \<Rightarrow> bool" where
  "less_eq_TableId s t \<longleftrightarrow> TableId_to_u8 s \<le> TableId_to_u8 t"

definition less_TableId :: "TableId \<Rightarrow> TableId \<Rightarrow> bool" where
  "less_TableId s t \<longleftrightarrow> TableId_to_u8 s < TableId_to_u8 t"

instance
  by standard (auto simp: less_eq_TableId_def less_TableId_def simp flip: TableId_to_inj)

end

section \<open>Tokens\<close>

datatype Token = Token (token_value: u32)

definition RID_MASK :: u32 where
  "RID_MASK = 0x00FFFFFF"

definition token_new :: "TableId \<Rightarrow> u32 \<Rightarrow> Token" where
  "token_new t rid = Token (push_bit 24 (ucast (TableId_to_u8 t)) OR (rid AND RID_MASK))"

definition token_table_byte :: "Token \<Rightarrow> u8" where
  "token_table_byte tok = ucast (drop_bit 24 (token_value tok))"

definition token_table :: "Token \<Rightarrow> TableId option" where
  "token_table tok = TableId_from_u8 (ucast (drop_bit 24 (token_value tok)))"

definition token_rid :: "Token \<Rightarrow> u32" where
  "token_rid tok = token_value tok AND RID_MASK"

definition token_is_null :: "Token \<Rightarrow> bool" where
  "token_is_null tok \<longleftrightarrow> token_rid tok = 0"

text \<open>\<open>as_rid\<close>, with the marker's table as the first argument.\<close>

definition token_as_rid :: "TableId \<Rightarrow> Token \<Rightarrow> u32 option" where
  "token_as_rid t tok =
     (if token_table tok = Some t \<and> \<not> token_is_null tok then Some (token_rid tok) else None)"

lemma token_is_null_iff: "token_is_null tok \<longleftrightarrow> token_rid tok = 0"
  by (simp add: token_is_null_def)

section \<open>Row ids, user strings\<close>

definition rid_is_null :: "u32 \<Rightarrow> bool" where
  "rid_is_null rid \<longleftrightarrow> rid = 0"

definition rid_index :: "u32 \<Rightarrow> nat option result" where
  "rid_index rid =
     (if rid = 0 then Ok None
      else res_bind (usize_sub (unat rid) 1) (\<lambda>i. Ok (Some i)))"

definition rid_token :: "TableId \<Rightarrow> u32 \<Rightarrow> Token" where
  "rid_token t rid = token_new t rid"

definition us_token_offset :: "u32 \<Rightarrow> u32" where
  "us_token_offset tok = tok AND RID_MASK"

definition us_token_has_table_byte :: "u32 \<Rightarrow> bool" where
  "us_token_has_table_byte tok \<longleftrightarrow> drop_bit 24 tok = 0x70"

section \<open>Bits of a token\<close>

lemma and_RID_MASK: "w AND RID_MASK = take_bit 24 w"
  by (simp add: RID_MASK_def take_bit_eq_mask mask_eq_exp_minus_1)

lemma token_new_table [simp]: "token_table (token_new t rid) = Some t"
proof -
  have "ucast (drop_bit 24 (push_bit 24 (ucast (TableId_to_u8 t)) OR take_bit 24 rid)) = TableId_to_u8 t"
    by (rule bit_word_eqI)
      (auto simp: bit_unsigned_iff bit_drop_bit_eq bit_or_iff bit_push_bit_iff bit_take_bit_iff)
  then show ?thesis by (simp add: token_table_def token_new_def and_RID_MASK)
qed

lemma token_new_rid: "token_rid (token_new t rid) = take_bit 24 rid"
  by (rule bit_word_eqI)
    (auto simp: token_rid_def token_new_def and_RID_MASK bit_or_iff bit_push_bit_iff bit_take_bit_iff)

lemma token_rid_less: "unat (token_rid tok) < 2 ^ 24"
proof -
  have "unat (take_bit 24 (token_value tok)) = take_bit 24 (unat (token_value tok))"
    by (rule unsigned_take_bit_eq)
  also have "\<dots> < 2 ^ 24" by (rule take_bit_nat_less_exp)
  finally show ?thesis by (simp only: token_rid_def and_RID_MASK)
qed

lemma token_new_small: "unat rid < 2 ^ 24 \<Longrightarrow> token_rid (token_new t rid) = rid"
proof -
  assume "unat rid < 2 ^ 24"
  then have "unat (take_bit 24 rid) = unat rid"
    by (simp only: unsigned_take_bit_eq) (rule take_bit_nat_eq_self)
  then have "take_bit 24 rid = rid" by (simp only: word_unat_eq_iff)
  then show ?thesis by (simp add: token_new_rid)
qed

lemma token_new_of_table:
  assumes "token_table tok = Some t"
  shows "token_new t (token_rid tok) = tok"
proof -
  have b: "TableId_to_u8 t = ucast (drop_bit 24 (token_value tok))"
    using assms by (simp add: token_table_def TableId_from_iff)
  have "push_bit 24 (ucast (TableId_to_u8 t)) OR take_bit 24 (take_bit 24 (token_value tok)) = token_value tok"
    unfolding b
    by (rule bit_word_eqI) (auto simp: bit_unsigned_iff bit_drop_bit_eq bit_or_iff bit_push_bit_iff bit_take_bit_iff)
  then show ?thesis by (cases tok) (simp add: token_new_def token_rid_def and_RID_MASK)
qed

lemma token_eq_iff:
  assumes "token_table a = Some t" and "token_table b = Some s"
  shows "a = b \<longleftrightarrow> t = s \<and> token_rid a = token_rid b"
  using assms by (metis option.inject token_new_of_table)

lemma rid_index_no_panic [no_panic_intro]: "no_panic (rid_index rid)"
  by (simp add: rid_index_def res_iff) (metis One_nat_def Suc_leI not_less unat_gt_0)

text \<open>The five pairs.\<close>

lemma ptr_target_iff:
  "TableId_ptr_target p = Some t \<longleftrightarrow>
     (p, t) \<in> {(T_FieldPtr, T_Field), (T_MethodPtr, T_MethodDef), (T_ParamPtr, T_Param),
              (T_EventPtr, T_Event), (T_PropertyPtr, T_Property)}"
  by (cases p) (auto simp: TableId_ptr_target_def)

lemma ptr_source_iff:
  "TableId_ptr_source t = Some p \<longleftrightarrow>
     (p, t) \<in> {(T_FieldPtr, T_Field), (T_MethodPtr, T_MethodDef), (T_ParamPtr, T_Param),
              (T_EventPtr, T_Event), (T_PropertyPtr, T_Property)}"
  by (cases t) (auto simp: TableId_ptr_source_def)

section \<open>Properties\<close>

text \<open>The table numbering is a bijection between the 53 table ids and the bytes that
  \<open>from_u8\<close> accepts, and \<open>TableId::ALL\<close> lists every id once, in ascending numeric order.\<close>

lemma table_id_bijection:
  "(TableId_from_u8 b = Some t \<longleftrightarrow> TableId_to_u8 t = b)
   \<and> t \<in> set TableId_ALL \<and> distinct TableId_ALL \<and> length TableId_ALL = 53
   \<and> sorted TableId_ALL"
proof -
  have "sorted (map (\<lambda>t. unat (TableId_to_u8 t)) TableId_ALL)"
    using TableId_ALL_numeric by (simp only: strict_sorted_iff)
  then have "sorted TableId_ALL"
    by (simp add: sorted_map less_eq_TableId_def [abs_def] word_le_nat_alt)
  then show ?thesis by (auto simp: TableId_from_iff) (simp add: TableId_ALL_def)
qed

text \<open>A token splits into its table and row id and is rebuilt from them: a token of a known
  table equals \<open>Token::new\<close> of its parts, and \<open>Token::new\<close> keeps the table and exactly the low
  24 bits of the row id, so every row id below \<open>2 ^ 24\<close> survives.\<close>

lemma token_roundtrip:
  "token_table (token_new t rid) = Some t
   \<and> token_rid (token_new t rid) = take_bit 24 rid
   \<and> (unat rid < 2 ^ 24 \<longrightarrow> token_as_rid t (token_new t rid) = (if rid = 0 then None else Some rid))
   \<and> (token_table tok = Some s \<longrightarrow> token_new s (token_rid tok) = tok)"
  using token_new_small [of rid t] token_new_of_table [of tok s] token_new_rid [of t rid]
  by (auto simp only: token_new_table token_as_rid_def token_is_null_iff simp_thms if_True split: if_splits)

text \<open>The \<open>*Ptr\<close> tables and the tables they redirect into are paired one to one:
  \<open>ptr_target\<close> and \<open>ptr_source\<close> are inverse partial maps, defined exactly on the indirection
  tables and on their targets, and no table is both.\<close>

lemma ptr_tables_inverse:
  "(TableId_ptr_target p = Some t \<longleftrightarrow> TableId_ptr_source t = Some p)
   \<and> (TableId_is_ptr_table p \<longleftrightarrow> TableId_ptr_target p \<noteq> None)
   \<and> \<not> (TableId_ptr_target p \<noteq> None \<and> TableId_ptr_source p \<noteq> None)"
proof (intro conjI)
  show "TableId_ptr_target p = Some t \<longleftrightarrow> TableId_ptr_source t = Some p"
    by (simp only: ptr_target_iff ptr_source_iff)
  show "TableId_is_ptr_table p \<longleftrightarrow> TableId_ptr_target p \<noteq> None"
    by (cases p) (simp_all add: TableId_is_ptr_table_def TableId_ptr_target_def)
  show "\<not> (TableId_ptr_target p \<noteq> None \<and> TableId_ptr_source p \<noteq> None)"
    by (cases p) (simp_all add: TableId_ptr_target_def TableId_ptr_source_def)
qed

end
