(* ===== verification/Coded.thy ===== *)
theory Coded
  imports Token
begin

text \<open>
  Coded indices (\<open>src/tables/coded.rs\<close>): a table tag in the low bits of a column, a row id
  in the rest. The kind \<open>CodedIndex::X\<close> is the constructor \<open>C_X\<close>; a tag the specification
  leaves undefined is \<open>None\<close> in the tag list.
\<close>

section \<open>The kinds\<close>

datatype CodedIndex =
    C_TypeDefOrRef | C_HasConstant | C_HasCustomAttribute | C_HasFieldMarshal |
    C_HasDeclSecurity | C_MemberRefParent | C_HasSemantics | C_MethodDefOrRef |
    C_MemberForwarded | C_Implementation | C_CustomAttributeType | C_ResolutionScope |
    C_TypeOrMethodDef | C_HasCustomDebugInformation

definition CodedIndex_ALL :: "CodedIndex list" where
  "CodedIndex_ALL = [
    C_TypeDefOrRef, C_HasConstant, C_HasCustomAttribute, C_HasFieldMarshal,
    C_HasDeclSecurity, C_MemberRefParent, C_HasSemantics, C_MethodDefOrRef,
    C_MemberForwarded, C_Implementation, C_CustomAttributeType, C_ResolutionScope,
    C_TypeOrMethodDef, C_HasCustomDebugInformation]"

primrec tag_bits :: "CodedIndex \<Rightarrow> nat" where
  "tag_bits C_TypeDefOrRef = 2"
| "tag_bits C_HasConstant = 2"
| "tag_bits C_HasCustomAttribute = 5"
| "tag_bits C_HasFieldMarshal = 1"
| "tag_bits C_HasDeclSecurity = 2"
| "tag_bits C_MemberRefParent = 3"
| "tag_bits C_HasSemantics = 1"
| "tag_bits C_MethodDefOrRef = 1"
| "tag_bits C_MemberForwarded = 1"
| "tag_bits C_Implementation = 2"
| "tag_bits C_CustomAttributeType = 3"
| "tag_bits C_ResolutionScope = 2"
| "tag_bits C_TypeOrMethodDef = 1"
| "tag_bits C_HasCustomDebugInformation = 5"

primrec coded_tables :: "CodedIndex \<Rightarrow> TableId option list" where
  "coded_tables C_TypeDefOrRef = [
     Some T_TypeDef, Some T_TypeRef, Some T_TypeSpec]"
| "coded_tables C_HasConstant = [
     Some T_Field, Some T_Param, Some T_Property]"
| "coded_tables C_HasCustomAttribute = [
     Some T_MethodDef, Some T_Field, Some T_TypeRef, Some T_TypeDef, Some T_Param,
     Some T_InterfaceImpl, Some T_MemberRef, Some T_Module, Some T_DeclSecurity,
     Some T_Property, Some T_Event, Some T_StandAloneSig, Some T_ModuleRef, Some T_TypeSpec,
     Some T_Assembly, Some T_AssemblyRef, Some T_File, Some T_ExportedType,
     Some T_ManifestResource, Some T_GenericParam, Some T_GenericParamConstraint,
     Some T_MethodSpec]"
| "coded_tables C_HasFieldMarshal = [
     Some T_Field, Some T_Param]"
| "coded_tables C_HasDeclSecurity = [
     Some T_TypeDef, Some T_MethodDef, Some T_Assembly]"
| "coded_tables C_MemberRefParent = [
     Some T_TypeDef, Some T_TypeRef, Some T_ModuleRef, Some T_MethodDef, Some T_TypeSpec]"
| "coded_tables C_HasSemantics = [
     Some T_Event, Some T_Property]"
| "coded_tables C_MethodDefOrRef = [
     Some T_MethodDef, Some T_MemberRef]"
| "coded_tables C_MemberForwarded = [
     Some T_Field, Some T_MethodDef]"
| "coded_tables C_Implementation = [
     Some T_File, Some T_AssemblyRef, Some T_ExportedType]"
| "coded_tables C_CustomAttributeType = [
     None, None, Some T_MethodDef, Some T_MemberRef, None]"
| "coded_tables C_ResolutionScope = [
     Some T_Module, Some T_ModuleRef, Some T_AssemblyRef, Some T_TypeRef]"
| "coded_tables C_TypeOrMethodDef = [
     Some T_TypeDef, Some T_MethodDef]"
| "coded_tables C_HasCustomDebugInformation = [
     Some T_MethodDef, Some T_Field, Some T_TypeRef, Some T_TypeDef, Some T_Param,
     Some T_InterfaceImpl, Some T_MemberRef, Some T_Module, Some T_DeclSecurity,
     Some T_Property, Some T_Event, Some T_StandAloneSig, Some T_ModuleRef, Some T_TypeSpec,
     Some T_Assembly, Some T_AssemblyRef, Some T_File, Some T_ExportedType,
     Some T_ManifestResource, Some T_GenericParam, Some T_GenericParamConstraint,
     Some T_MethodSpec, Some T_Document, Some T_LocalScope, Some T_LocalVariable,
     Some T_LocalConstant, Some T_ImportScope]"

primrec coded_name :: "CodedIndex \<Rightarrow> string" where
  "coded_name C_TypeDefOrRef = ''TypeDefOrRef''"
| "coded_name C_HasConstant = ''HasConstant''"
| "coded_name C_HasCustomAttribute = ''HasCustomAttribute''"
| "coded_name C_HasFieldMarshal = ''HasFieldMarshal''"
| "coded_name C_HasDeclSecurity = ''HasDeclSecurity''"
| "coded_name C_MemberRefParent = ''MemberRefParent''"
| "coded_name C_HasSemantics = ''HasSemantics''"
| "coded_name C_MethodDefOrRef = ''MethodDefOrRef''"
| "coded_name C_MemberForwarded = ''MemberForwarded''"
| "coded_name C_Implementation = ''Implementation''"
| "coded_name C_CustomAttributeType = ''CustomAttributeType''"
| "coded_name C_ResolutionScope = ''ResolutionScope''"
| "coded_name C_TypeOrMethodDef = ''TypeOrMethodDef''"
| "coded_name C_HasCustomDebugInformation = ''HasCustomDebugInformation''"

definition tag_mask :: "CodedIndex \<Rightarrow> u32" where
  "tag_mask k = push_bit (tag_bits k) 1 - 1"

definition small_row_limit :: "CodedIndex \<Rightarrow> nat" where
  "small_row_limit k = push_bit (16 - tag_bits k) 1"

definition coded_column_width :: "CodedIndex \<Rightarrow> nat \<Rightarrow> u8" where
  "coded_column_width k max_rows = (if max_rows < small_row_limit k then 2 else 4)"

definition coded_decode :: "CodedIndex \<Rightarrow> u32 \<Rightarrow> nat \<Rightarrow> Token result" where
  "coded_decode k val off =
     (let tag = unat (val AND tag_mask k);
          rid = drop_bit (tag_bits k) val
      in case get_at (coded_tables k) tag of
           Some (Some table) \<Rightarrow> Ok (token_new table rid)
         | _ \<Rightarrow> Err (error_new Malformed off ''coded index''))"

definition coded_encode :: "CodedIndex \<Rightarrow> Token \<Rightarrow> u32 option" where
  "coded_encode k token =
     Option.bind (token_table token) (\<lambda>table.
     Option.bind (position (\<lambda>t. t = Some table) (coded_tables k)) (\<lambda>tag.
     let rid = token_rid token in
     if rid \<le> drop_bit (tag_bits k) (- 1) then Some (push_bit (tag_bits k) rid OR of_nat tag)
     else None))"

section \<open>Geometry of the kinds\<close>

lemma tag_bits_bounds: "1 \<le> tag_bits k" "tag_bits k \<le> 5"
  by (cases k; simp)+

lemma coded_tables_fit: "length (coded_tables k) \<le> 2 ^ tag_bits k"
  by (cases k) simp_all

text \<open>The bit count is minimal, except that \<open>HasCustomAttribute\<close> and its like fill their half.\<close>

lemma coded_tables_minimal: "2 ^ (tag_bits k - 1) < length (coded_tables k)"
  by (cases k) simp_all

lemma coded_tables_once: "distinct (filter (\<lambda>t. t \<noteq> None) (coded_tables k))"
  by (cases k) simp_all

lemma and_tag_mask: "v AND tag_mask k = take_bit (tag_bits k) v"
  by (simp add: tag_mask_def take_bit_eq_mask mask_eq_exp_minus_1 push_bit_eq_mult)

lemma position_once:
  assumes "distinct (filter (\<lambda>t. t \<noteq> None) xs)" and "i < length xs" and "xs ! i = Some t"
  shows "position (\<lambda>x. x = Some t) xs = Some i"
  using assms
proof (induction xs arbitrary: i)
  case (Cons x xs)
  show ?case
  proof (cases i)
    case 0
    with Cons.prems show ?thesis by simp
  next
    case (Suc j)
    with Cons.prems have j: "j < length xs" "xs ! j = Some t" by auto
    then have "Some t \<in> set (filter (\<lambda>t. t \<noteq> None) xs)" by (auto simp: in_set_conv_nth)
    with Cons.prems(1) have "x \<noteq> Some t" by auto
    moreover have "position (\<lambda>x. x = Some t) xs = Some j"
      using Cons.IH j Cons.prems(1) by (auto split: if_splits)
    ultimately show ?thesis using Suc by simp
  qed
qed simp

section \<open>Decoding and encoding\<close>

lemma coded_decode_iff [res_iff]:
  "coded_decode k v off = Ok tok \<longleftrightarrow>
     (\<exists>t. unat (take_bit (tag_bits k) v) < length (coded_tables k)
        \<and> coded_tables k ! unat (take_bit (tag_bits k) v) = Some t
        \<and> tok = token_new t (drop_bit (tag_bits k) v))"
  "coded_decode k v off = Panic \<longleftrightarrow> False"
  by (auto simp: coded_decode_def and_tag_mask get_at_def Let_def split: option.splits)

lemma coded_decode_Err:
  "coded_decode k v off = Err e \<longleftrightarrow>
     (\<forall>t. get_at (coded_tables k) (unat (take_bit (tag_bits k) v)) \<noteq> Some (Some t))
     \<and> e = error_new Malformed off ''coded index''"
  by (auto simp: coded_decode_def and_tag_mask Let_def split: option.splits)

lemma coded_rid_fits: "token_rid tok \<le> mask (32 - tag_bits k)"
  by (cases k) (use token_rid_less [of tok] in \<open>simp_all add: word_le_nat_alt mask_eq_exp_minus_1\<close>)

lemma coded_encode_Some:
  "coded_encode k tok = Some v \<longleftrightarrow>
     (\<exists>t tag. token_table tok = Some t \<and> position (\<lambda>x. x = Some t) (coded_tables k) = Some tag
        \<and> v = push_bit (tag_bits k) (token_rid tok) OR of_nat tag)"
  by (auto simp: coded_encode_def coded_rid_fits Let_def Option.bind_eq_Some_conv)

lemma join_tag:
  assumes "tag < 2 ^ b" and "b \<le> 5"
  shows "take_bit b (push_bit b w OR of_nat tag :: u32) = of_nat tag"
    and "drop_bit b (push_bit b w OR of_nat tag :: u32) = take_bit (32 - b) w"
    and "unat (of_nat tag :: u32) = tag"
proof -
  have "(2::nat) ^ b \<le> 2 ^ 5" using assms(2) by (intro power_increasing) auto
  then have t: "tag < 2 ^ 32" using assms(1) by simp
  then show u: "unat (of_nat tag :: u32) = tag" by (simp add: unat_of_nat take_bit_nat_eq_self)
  have nb: "\<not> bit (of_nat tag :: u32) n" if "b \<le> n" for n
  proof
    assume "bit (of_nat tag :: u32) n"
    then have "bit (unat (of_nat tag :: u32)) n" by (simp only: bit_unsigned_iff possible_bit_nat simp_thms)
    then have "bit tag n" by (simp only: u)
    moreover have "take_bit b tag = tag" using assms(1) by (rule take_bit_nat_eq_self)
    ultimately show False using that by (metis bit_take_bit_iff not_less)
  qed
  show "take_bit b (push_bit b w OR of_nat tag :: u32) = of_nat tag"
    by (rule bit_word_eqI) (use nb in \<open>auto simp: bit_take_bit_iff bit_or_iff bit_push_bit_iff not_less\<close>)
  show "drop_bit b (push_bit b w OR of_nat tag :: u32) = take_bit (32 - b) w"
    by (rule bit_word_eqI)
      (use nb in \<open>auto simp: bit_take_bit_iff bit_or_iff bit_push_bit_iff bit_drop_bit_eq
          dest: bit_imp_le_length\<close>)
qed

lemma split_tag: "push_bit b (drop_bit b v) OR take_bit b v = (v :: u32)"
  by (rule bit_word_eqI) (auto simp: bit_take_bit_iff bit_or_iff bit_push_bit_iff bit_drop_bit_eq)

lemma encode_then_decode:
  assumes "coded_encode k tok = Some v"
  shows "coded_decode k v off = Ok tok"
proof -
  from assms obtain t tag where t: "token_table tok = Some t"
    and p: "position (\<lambda>x. x = Some t) (coded_tables k) = Some tag"
    and v: "v = push_bit (tag_bits k) (token_rid tok) OR of_nat tag"
    by (auto simp: coded_encode_Some)
  from p have tag: "tag < length (coded_tables k)" "coded_tables k ! tag = Some t"
    by (auto simp: position_Some_iff)
  then have tl: "tag < 2 ^ tag_bits k" using coded_tables_fit [of k] by simp
  have "take_bit (32 - tag_bits k) (token_rid tok) = token_rid tok"
  proof -
    have "token_rid tok = take_bit 24 (token_value tok)" by (simp add: token_rid_def and_RID_MASK)
    moreover have "min (32 - tag_bits k) 24 = 24" using tag_bits_bounds(2) [of k] by simp
    ultimately show ?thesis by simp
  qed
  with join_tag [OF tl tag_bits_bounds(2)] tag t show ?thesis
    by (simp add: coded_decode_iff v token_new_of_table)
qed

lemma decode_then_encode:
  assumes "coded_decode k v off = Ok tok" and "unat (drop_bit (tag_bits k) v) < 2 ^ 24"
  shows "coded_encode k tok = Some v"
proof -
  let ?tag = "unat (take_bit (tag_bits k) v)"
  from assms(1) obtain t where t: "?tag < length (coded_tables k)" "coded_tables k ! ?tag = Some t"
    and tok: "tok = token_new t (drop_bit (tag_bits k) v)" by (auto simp: coded_decode_iff)
  have "position (\<lambda>x. x = Some t) (coded_tables k) = Some ?tag"
    by (rule position_once) (use t coded_tables_once in auto)
  moreover have "token_rid tok = drop_bit (tag_bits k) v"
    unfolding tok by (rule token_new_small) (rule assms(2))
  ultimately show ?thesis by (simp add: coded_encode_Some tok split_tag)
qed

section \<open>Properties\<close>

text \<open>C11: Encoding and decoding a coded index are inverse: what \<open>encode\<close> produces decodes to
  the same token, and a raw column whose row id fits the 24 bits of a token is re-encoded to the
  same raw value.\<close>

theorem coded_roundtrip:
  "(coded_encode k tok = Some v \<longrightarrow> coded_decode k v off = Ok tok)
   \<and> (coded_decode k v off = Ok tok \<and> unat (drop_bit (tag_bits k) v) < 2 ^ 24
        \<longrightarrow> coded_encode k tok = Some v)"
  using encode_then_decode decode_then_encode by blast

theorem coded_roundtrip_witness:
  "coded_decode C_CustomAttributeType 0x3A 0 = Ok (Token 0x06000007)
   \<and> coded_encode C_CustomAttributeType (Token 0x06000007) = Some 0x3A"
proof -
  have d: "coded_decode C_CustomAttributeType 0x3A 0 = Ok (Token 0x06000007)"
    by (simp add: coded_decode_def tag_mask_def get_at_def token_new_def RID_MASK_def)
  then show ?thesis using coded_roundtrip [of C_CustomAttributeType "Token 0x06000007" "0x3A" 0] by simp
qed

text \<open>\<open>encode\<close> refuses a token exactly when its table is unknown or not one of the kind's
  tables; the width guard in the source never fires, because a token's row id has 24 bits and at
  most 5 go to the tag.\<close>

lemma coded_encode_refuses:
  "coded_encode k tok = None \<longleftrightarrow> \<not> (\<exists>t. token_table tok = Some t \<and> Some t \<in> set (coded_tables k))"
proof (cases "token_table tok")
  case None
  then show ?thesis by (simp add: coded_encode_def)
next
  case (Some t)
  show ?thesis
  proof (cases "position (\<lambda>x. x = Some t) (coded_tables k)")
    case None
    then have "Some t \<notin> set (coded_tables k)" by (auto simp: position_None_iff)
    with Some None show ?thesis by (simp add: coded_encode_def)
  next
    case (Some tag)
    then have "Some t \<in> set (coded_tables k)"
      unfolding position_Some_iff in_set_conv_nth by blast
    moreover have "coded_encode k tok = Some (push_bit (tag_bits k) (token_rid tok) OR of_nat tag)"
      using Some \<open>token_table tok = Some t\<close> unfolding coded_encode_Some by blast
    ultimately show ?thesis using \<open>token_table tok = Some t\<close> by simp
  qed
qed

text \<open>The table a raw value selects by its tag.\<close>

definition tagged_table :: "CodedIndex \<Rightarrow> u32 \<Rightarrow> TableId option" where
  "tagged_table k v =
     (case get_at (coded_tables k) (unat (take_bit (tag_bits k) v)) of Some t \<Rightarrow> t | None \<Rightarrow> None)"

lemma low_bits_split:
  "take_bit (24 + b) v = take_bit (24 + b) (w :: u32) \<longleftrightarrow>
     take_bit b v = take_bit b w \<and> take_bit 24 (drop_bit b v) = take_bit 24 (drop_bit b w)"
proof
  assume eq: "take_bit (24 + b) v = take_bit (24 + b) w"
  have "take_bit b v = take_bit b (take_bit (24 + b) v)" "take_bit b w = take_bit b (take_bit (24 + b) w)" by simp_all
  moreover have "take_bit 24 (drop_bit b v) = drop_bit b (take_bit (24 + b) v)"
    "take_bit 24 (drop_bit b w) = drop_bit b (take_bit (24 + b) w)"
    by (simp_all add: drop_bit_take_bit)
  ultimately show "take_bit b v = take_bit b w \<and> take_bit 24 (drop_bit b v) = take_bit 24 (drop_bit b w)"
    using eq by metis
next
  have "take_bit (24 + b) v = push_bit b (take_bit 24 (drop_bit b v)) OR take_bit b v" for v :: u32
    by (rule bit_word_eqI) (auto simp: bit_take_bit_iff bit_or_iff bit_push_bit_iff bit_drop_bit_eq)
  then show "take_bit b v = take_bit b w \<and> take_bit 24 (drop_bit b v) = take_bit 24 (drop_bit b w)
      \<Longrightarrow> take_bit (24 + b) v = take_bit (24 + b) w" by metis
qed

lemma tagged_position:
  assumes "tagged_table k v = Some t"
  shows "position (\<lambda>x. x = Some t) (coded_tables k) = Some (unat (take_bit (tag_bits k) v))"
  using assms by (intro position_once [OF coded_tables_once])
    (auto simp: tagged_table_def get_at_def split: if_splits)

lemma coded_decode_tagged:
  "coded_decode k v off =
     (case tagged_table k v of
        Some t \<Rightarrow> Ok (token_new t (drop_bit (tag_bits k) v))
      | None \<Rightarrow> Err (error_new Malformed off ''coded index''))"
  by (auto simp: coded_decode_def tagged_table_def and_tag_mask Let_def split: option.splits)

text \<open>C34: What a raw value decodes to. If its tag selects no table of the kind, decoding is an error;
  otherwise it is a token of that table whose row id is the low 24 bits of the raw one, and another
  raw value decodes to the same token exactly when it agrees in the low \<open>24 + tag_bits\<close> bits: row ids
  that differ by a multiple of \<open>2 ^ 24\<close> are taken for each other, without an error.\<close>

theorem coded_decode_aliases:
  "case tagged_table k v of
     None \<Rightarrow> coded_decode k v off = Err (error_new Malformed off ''coded index'')
   | Some t \<Rightarrow> \<exists>tok. coded_decode k v off = Ok tok \<and> token_table tok = Some t
       \<and> token_rid tok = take_bit 24 (drop_bit (tag_bits k) v)
       \<and> (\<forall>w. coded_decode k w off' = Ok tok \<longleftrightarrow> take_bit (24 + tag_bits k) w = take_bit (24 + tag_bits k) v)"
proof (cases "tagged_table k v")
  case (Some t)
  let ?tok = "token_new t (drop_bit (tag_bits k) v)"
  have "coded_decode k w off' = Ok ?tok \<longleftrightarrow> take_bit (24 + tag_bits k) w = take_bit (24 + tag_bits k) v" for w
  proof
    assume "coded_decode k w off' = Ok ?tok"
    then obtain u where u: "tagged_table k w = Some u" "token_new u (drop_bit (tag_bits k) w) = ?tok"
      by (auto simp: coded_decode_tagged split: option.splits)
    have "u = t" using arg_cong [OF u(2), of token_table] by simp
    then have "take_bit (tag_bits k) w = take_bit (tag_bits k) v"
      using tagged_position [OF u(1)] tagged_position [OF Some] by (simp add: word_unat_eq_iff)
    moreover have "take_bit 24 (drop_bit (tag_bits k) w) = take_bit 24 (drop_bit (tag_bits k) v)"
      using arg_cong [OF u(2), of token_rid] by (simp add: token_new_rid)
    ultimately show "take_bit (24 + tag_bits k) w = take_bit (24 + tag_bits k) v" by (simp only: low_bits_split simp_thms)
  next
    assume "take_bit (24 + tag_bits k) w = take_bit (24 + tag_bits k) v"
    then have b: "take_bit (tag_bits k) w = take_bit (tag_bits k) v"
      "take_bit 24 (drop_bit (tag_bits k) w) = take_bit 24 (drop_bit (tag_bits k) v)"
      by (simp_all only: low_bits_split)
    then have "tagged_table k w = Some t" using Some by (simp add: tagged_table_def)
    then show "coded_decode k w off' = Ok ?tok" using b(2) by (simp add: coded_decode_tagged token_new_def and_RID_MASK)
  qed
  then show ?thesis using Some by (simp add: coded_decode_tagged [of k v] token_new_rid)
qed (simp add: coded_decode_tagged)

theorem coded_decode_aliases_witness:
  "coded_decode C_TypeDefOrRef 0x05 0 = Ok (Token 0x01000001)
   \<and> coded_decode C_TypeDefOrRef 0x04000005 0 = Ok (Token 0x01000001)
   \<and> coded_decode C_TypeDefOrRef 0x04000009 0 \<noteq> Ok (Token 0x01000001)"
proof -
  have t: "tagged_table C_TypeDefOrRef 0x05 = Some T_TypeRef"
    by (simp add: tagged_table_def get_at_def take_bit_eq_mask mask_eq_exp_minus_1)
  have d: "coded_decode C_TypeDefOrRef 0x05 0 = Ok (Token 0x01000001)"
    by (simp add: coded_decode_def tag_mask_def get_at_def token_new_def RID_MASK_def)
  from coded_decode_aliases [of C_TypeDefOrRef "0x05" 0 0] t d
  have iff: "coded_decode C_TypeDefOrRef w 0 = Ok (Token 0x01000001) \<longleftrightarrow> take_bit 26 w = take_bit 26 0x05" for w
    by auto
  show ?thesis unfolding iff using d by (simp add: take_bit_eq_mask mask_eq_exp_minus_1)
qed

text \<open>The two-byte column is chosen exactly when every row of the largest tagged table fits
  it together with any tag.\<close>

lemma coded_column_width_exact:
  "coded_column_width k m = 2 \<longleftrightarrow> m * 2 ^ tag_bits k + (2 ^ tag_bits k - 1) < 2 ^ 16"
  by (cases k) (auto simp: coded_column_width_def small_row_limit_def push_bit_eq_mult)

end
