(* ===== verification/Schema.thy ===== *)
theory Schema
  imports Coded
begin

text \<open>
  The geometry of the metadata tables and the row cursor (\<open>src/tables/mod.rs\<close>): what a column
  holds, where it lies in a row, and how a row is read column by column. The fixed arrays of
  \<open>MAX_COLUMNS\<close> entries are lists; indexing one out of range is a panic.
\<close>

definition CTX_TABLES :: string where
  "CTX_TABLES = ''table stream''"

definition MAX_COLUMNS :: nat where
  "MAX_COLUMNS = 9"

definition TABLE_SLOTS :: nat where
  "TABLE_SLOTS = 64"

datatype ColumnKind =
    CK_U16 | CK_U32 | CK_String | CK_Blob | CK_Guid | CK_Rid TableId | CK_Coded CodedIndex

record TableLayout =
  tl_row_count :: nat
  tl_row_size :: nat
  tl_column_count :: nat
  tl_column_offsets :: "nat list"
  tl_column_widths :: "u8 list"
  tl_data_offset :: nat

definition table_layout_default :: TableLayout where
  "table_layout_default =
     \<lparr>tl_row_count = 0, tl_row_size = 0, tl_column_count = 0,
      tl_column_offsets = replicate MAX_COLUMNS 0, tl_column_widths = replicate MAX_COLUMNS 0,
      tl_data_offset = 0\<rparr>"

definition byte_size :: "TableLayout \<Rightarrow> nat" where
  "byte_size l = tl_row_count l * tl_row_size l"

text \<open>Indexing a slice or an array by position.\<close>

definition index_at :: "'a list \<Rightarrow> nat \<Rightarrow> ('e, 'a) res" where
  "index_at xs i = unwrap_res (get_at xs i)"

lemma index_at_iff [res_iff]:
  "index_at xs i = Ok x \<longleftrightarrow> i < length xs \<and> x = xs ! i"
  "index_at xs i = Err e \<longleftrightarrow> False"
  "index_at xs i = Panic \<longleftrightarrow> length xs \<le> i"
  by (auto simp: index_at_def res_iff)

section \<open>The row cursor\<close>

record RowCursor =
  rc_bytes :: bytes
  rc_layout :: TableLayout
  rc_column :: nat
  rc_base :: nat

definition cursor_uint :: "RowCursor \<Rightarrow> (u32 \<times> RowCursor) result" where
  "cursor_uint c =
     (let index = rc_column c in
      if tl_column_count (rc_layout c) \<le> index then Err (error_new Malformed (rc_base c) ''table row'')
      else
      res_bind (index_at (tl_column_offsets (rc_layout c)) index) (\<lambda>offset.
      res_bind (index_at (tl_column_widths (rc_layout c)) index) (\<lambda>width.
      res_bind (ok_or (read_uint_at (rc_bytes c) offset width)
                  (error_new Truncated (saturating_add (rc_base c) offset) ''table row'')) (\<lambda>v.
      Ok (v, c\<lparr>rc_column := index + 1\<rparr>)))))"

definition cursor_coded :: "CodedIndex \<Rightarrow> RowCursor \<Rightarrow> (Token \<times> RowCursor) result" where
  "cursor_coded k c =
     (let offset = (case get_at (tl_column_offsets (rc_layout c)) (rc_column c) of Some off \<Rightarrow> off | None \<Rightarrow> 0) in
      res_bind (cursor_uint c) (\<lambda>(val, c').
      res_bind (coded_decode k val (saturating_add (rc_base c) offset)) (\<lambda>token.
      Ok (token, c'))))"

text \<open>The readers \<open>col_read!\<close> expands to, by the kind of the column.\<close>

definition cursor_u16 :: "RowCursor \<Rightarrow> (u16 \<times> RowCursor) result" where
  "cursor_u16 c = res_bind (cursor_uint c) (\<lambda>(v, c). Ok (ucast v, c))"

text \<open>
  The reference reading of a row: its columns from left to right, each as its raw value or, for
  a coded index, the token it denotes.
\<close>

datatype ColValue = CV_Uint (cv_uint: u32) | CV_Token (cv_token: Token)

fun read_column :: "ColumnKind \<Rightarrow> RowCursor \<Rightarrow> (ColValue \<times> RowCursor) result" where
  "read_column (CK_Coded k) c = res_bind (cursor_coded k c) (\<lambda>(t, c). Ok (CV_Token t, c))"
| "read_column _ c = res_bind (cursor_uint c) (\<lambda>(v, c). Ok (CV_Uint v, c))"

fun read_columns :: "ColumnKind list \<Rightarrow> RowCursor \<Rightarrow> (ColValue list \<times> RowCursor) result" where
  "read_columns [] c = Ok ([], c)"
| "read_columns (k # ks) c =
     res_bind (read_column k c) (\<lambda>(v, c). res_bind (read_columns ks c) (\<lambda>(vs, c). Ok (v # vs, c)))"

end
