(* ===== verification/Rows.thy ===== *)
theory Rows
  imports Schema
begin

text \<open>
  The rows of the fifty-three tables (\<open>src/tables/rows.rs\<close>). The macro \<open>define_rows!\<close>
  declares for every table a struct, its \<open>COLUMNS\<close> and a \<open>decode\<close> that reads the
  columns in order; here they are \<open>XRow\<close>, \<open>XRow_COLUMNS\<close> and \<open>XRow_decode\<close>.
  A field \<open>f\<close> of the row of table \<open>x\<close> is the selector \<open>x_f\<close> (\<open>mod_f\<close> for
  the module table). The accessors the
  macro adds to \<open>Tables\<close> are instances of \<open>row_indirect\<close>.
\<close>

named_theorems row_defs \<open>column lists and decoders of the rows\<close>

record ModuleRow =
  mod_generation :: u16
  mod_name :: u32
  mod_mvid :: u32
  mod_enc_id :: u32
  mod_enc_base_id :: u32

definition ModuleRow_COLUMNS :: "ColumnKind list" where
  [row_defs]: "ModuleRow_COLUMNS = [
    CK_U16, CK_String, CK_Guid, CK_Guid, CK_Guid]"

definition ModuleRow_decode :: "RowCursor \<Rightarrow> (ModuleRow \<times> RowCursor) result" where
  [row_defs]: "ModuleRow_decode c =
     res_bind (cursor_u16 c) (\<lambda>(x0, c).
     res_bind (cursor_uint c) (\<lambda>(x1, c).
     res_bind (cursor_uint c) (\<lambda>(x2, c).
     res_bind (cursor_uint c) (\<lambda>(x3, c).
     res_bind (cursor_uint c) (\<lambda>(x4, c).
     Ok (\<lparr>mod_generation = x0, mod_name = x1, mod_mvid = x2, mod_enc_id = x3,
         mod_enc_base_id = x4\<rparr>, c))))))"

record TypeRefRow =
  type_ref_resolution_scope :: Token
  type_ref_type_name :: u32
  type_ref_type_namespace :: u32

definition TypeRefRow_COLUMNS :: "ColumnKind list" where
  [row_defs]: "TypeRefRow_COLUMNS = [
    CK_Coded C_ResolutionScope, CK_String, CK_String]"

definition TypeRefRow_decode :: "RowCursor \<Rightarrow> (TypeRefRow \<times> RowCursor) result" where
  [row_defs]: "TypeRefRow_decode c =
     res_bind (cursor_coded C_ResolutionScope c) (\<lambda>(x0, c).
     res_bind (cursor_uint c) (\<lambda>(x1, c).
     res_bind (cursor_uint c) (\<lambda>(x2, c).
     Ok (\<lparr>type_ref_resolution_scope = x0, type_ref_type_name = x1,
         type_ref_type_namespace = x2\<rparr>, c))))"

record TypeDefRow =
  type_def_flags :: u32
  type_def_type_name :: u32
  type_def_type_namespace :: u32
  type_def_extends :: Token
  type_def_field_list :: u32
  type_def_method_list :: u32

definition TypeDefRow_COLUMNS :: "ColumnKind list" where
  [row_defs]: "TypeDefRow_COLUMNS = [
    CK_U32, CK_String, CK_String, CK_Coded C_TypeDefOrRef, CK_Rid T_Field,
    CK_Rid T_MethodDef]"

definition TypeDefRow_decode :: "RowCursor \<Rightarrow> (TypeDefRow \<times> RowCursor) result" where
  [row_defs]: "TypeDefRow_decode c =
     res_bind (cursor_uint c) (\<lambda>(x0, c).
     res_bind (cursor_uint c) (\<lambda>(x1, c).
     res_bind (cursor_uint c) (\<lambda>(x2, c).
     res_bind (cursor_coded C_TypeDefOrRef c) (\<lambda>(x3, c).
     res_bind (cursor_uint c) (\<lambda>(x4, c).
     res_bind (cursor_uint c) (\<lambda>(x5, c).
     Ok (\<lparr>type_def_flags = x0, type_def_type_name = x1, type_def_type_namespace = x2,
         type_def_extends = x3, type_def_field_list = x4, type_def_method_list = x5\<rparr>, c)))))))"

record FieldPtrRow =
  field_ptr_field :: u32

definition FieldPtrRow_COLUMNS :: "ColumnKind list" where
  [row_defs]: "FieldPtrRow_COLUMNS = [
    CK_Rid T_Field]"

definition FieldPtrRow_decode :: "RowCursor \<Rightarrow> (FieldPtrRow \<times> RowCursor) result" where
  [row_defs]: "FieldPtrRow_decode c =
     res_bind (cursor_uint c) (\<lambda>(x0, c).
     Ok (\<lparr>field_ptr_field = x0\<rparr>, c))"

record FieldRow =
  field_flags :: u16
  field_name :: u32
  field_signature :: u32

definition FieldRow_COLUMNS :: "ColumnKind list" where
  [row_defs]: "FieldRow_COLUMNS = [
    CK_U16, CK_String, CK_Blob]"

definition FieldRow_decode :: "RowCursor \<Rightarrow> (FieldRow \<times> RowCursor) result" where
  [row_defs]: "FieldRow_decode c =
     res_bind (cursor_u16 c) (\<lambda>(x0, c).
     res_bind (cursor_uint c) (\<lambda>(x1, c).
     res_bind (cursor_uint c) (\<lambda>(x2, c).
     Ok (\<lparr>field_flags = x0, field_name = x1, field_signature = x2\<rparr>, c))))"

record MethodPtrRow =
  method_ptr_method :: u32

definition MethodPtrRow_COLUMNS :: "ColumnKind list" where
  [row_defs]: "MethodPtrRow_COLUMNS = [
    CK_Rid T_MethodDef]"

definition MethodPtrRow_decode :: "RowCursor \<Rightarrow> (MethodPtrRow \<times> RowCursor) result" where
  [row_defs]: "MethodPtrRow_decode c =
     res_bind (cursor_uint c) (\<lambda>(x0, c).
     Ok (\<lparr>method_ptr_method = x0\<rparr>, c))"

record MethodDefRow =
  method_def_rva :: u32
  method_def_impl_flags :: u16
  method_def_flags :: u16
  method_def_name :: u32
  method_def_signature :: u32
  method_def_param_list :: u32

definition MethodDefRow_COLUMNS :: "ColumnKind list" where
  [row_defs]: "MethodDefRow_COLUMNS = [
    CK_U32, CK_U16, CK_U16, CK_String, CK_Blob, CK_Rid T_Param]"

definition MethodDefRow_decode :: "RowCursor \<Rightarrow> (MethodDefRow \<times> RowCursor) result" where
  [row_defs]: "MethodDefRow_decode c =
     res_bind (cursor_uint c) (\<lambda>(x0, c).
     res_bind (cursor_u16 c) (\<lambda>(x1, c).
     res_bind (cursor_u16 c) (\<lambda>(x2, c).
     res_bind (cursor_uint c) (\<lambda>(x3, c).
     res_bind (cursor_uint c) (\<lambda>(x4, c).
     res_bind (cursor_uint c) (\<lambda>(x5, c).
     Ok (\<lparr>method_def_rva = x0, method_def_impl_flags = x1, method_def_flags = x2,
         method_def_name = x3, method_def_signature = x4, method_def_param_list = x5\<rparr>, c)))))))"

record ParamPtrRow =
  param_ptr_param :: u32

definition ParamPtrRow_COLUMNS :: "ColumnKind list" where
  [row_defs]: "ParamPtrRow_COLUMNS = [
    CK_Rid T_Param]"

definition ParamPtrRow_decode :: "RowCursor \<Rightarrow> (ParamPtrRow \<times> RowCursor) result" where
  [row_defs]: "ParamPtrRow_decode c =
     res_bind (cursor_uint c) (\<lambda>(x0, c).
     Ok (\<lparr>param_ptr_param = x0\<rparr>, c))"

record ParamRow =
  param_flags :: u16
  param_sequence :: u16
  param_name :: u32

definition ParamRow_COLUMNS :: "ColumnKind list" where
  [row_defs]: "ParamRow_COLUMNS = [
    CK_U16, CK_U16, CK_String]"

definition ParamRow_decode :: "RowCursor \<Rightarrow> (ParamRow \<times> RowCursor) result" where
  [row_defs]: "ParamRow_decode c =
     res_bind (cursor_u16 c) (\<lambda>(x0, c).
     res_bind (cursor_u16 c) (\<lambda>(x1, c).
     res_bind (cursor_uint c) (\<lambda>(x2, c).
     Ok (\<lparr>param_flags = x0, param_sequence = x1, param_name = x2\<rparr>, c))))"

record InterfaceImplRow =
  interface_impl_class :: u32
  interface_impl_interface :: Token

definition InterfaceImplRow_COLUMNS :: "ColumnKind list" where
  [row_defs]: "InterfaceImplRow_COLUMNS = [
    CK_Rid T_TypeDef, CK_Coded C_TypeDefOrRef]"

definition InterfaceImplRow_decode :: "RowCursor \<Rightarrow> (InterfaceImplRow \<times> RowCursor) result" where
  [row_defs]: "InterfaceImplRow_decode c =
     res_bind (cursor_uint c) (\<lambda>(x0, c).
     res_bind (cursor_coded C_TypeDefOrRef c) (\<lambda>(x1, c).
     Ok (\<lparr>interface_impl_class = x0, interface_impl_interface = x1\<rparr>, c)))"

record MemberRefRow =
  member_ref_class :: Token
  member_ref_name :: u32
  member_ref_signature :: u32

definition MemberRefRow_COLUMNS :: "ColumnKind list" where
  [row_defs]: "MemberRefRow_COLUMNS = [
    CK_Coded C_MemberRefParent, CK_String, CK_Blob]"

definition MemberRefRow_decode :: "RowCursor \<Rightarrow> (MemberRefRow \<times> RowCursor) result" where
  [row_defs]: "MemberRefRow_decode c =
     res_bind (cursor_coded C_MemberRefParent c) (\<lambda>(x0, c).
     res_bind (cursor_uint c) (\<lambda>(x1, c).
     res_bind (cursor_uint c) (\<lambda>(x2, c).
     Ok (\<lparr>member_ref_class = x0, member_ref_name = x1, member_ref_signature = x2\<rparr>, c))))"

record ConstantRow =
  constant_type_raw :: u16
  constant_parent :: Token
  constant_value :: u32

definition ConstantRow_COLUMNS :: "ColumnKind list" where
  [row_defs]: "ConstantRow_COLUMNS = [
    CK_U16, CK_Coded C_HasConstant, CK_Blob]"

definition ConstantRow_decode :: "RowCursor \<Rightarrow> (ConstantRow \<times> RowCursor) result" where
  [row_defs]: "ConstantRow_decode c =
     res_bind (cursor_u16 c) (\<lambda>(x0, c).
     res_bind (cursor_coded C_HasConstant c) (\<lambda>(x1, c).
     res_bind (cursor_uint c) (\<lambda>(x2, c).
     Ok (\<lparr>constant_type_raw = x0, constant_parent = x1, constant_value = x2\<rparr>, c))))"

record CustomAttributeRow =
  custom_attribute_parent :: Token
  custom_attribute_constructor :: Token
  custom_attribute_value :: u32

definition CustomAttributeRow_COLUMNS :: "ColumnKind list" where
  [row_defs]: "CustomAttributeRow_COLUMNS = [
    CK_Coded C_HasCustomAttribute, CK_Coded C_CustomAttributeType, CK_Blob]"

definition CustomAttributeRow_decode :: "RowCursor \<Rightarrow> (CustomAttributeRow \<times> RowCursor) result" where
  [row_defs]: "CustomAttributeRow_decode c =
     res_bind (cursor_coded C_HasCustomAttribute c) (\<lambda>(x0, c).
     res_bind (cursor_coded C_CustomAttributeType c) (\<lambda>(x1, c).
     res_bind (cursor_uint c) (\<lambda>(x2, c).
     Ok (\<lparr>custom_attribute_parent = x0, custom_attribute_constructor = x1,
         custom_attribute_value = x2\<rparr>, c))))"

record FieldMarshalRow =
  field_marshal_parent :: Token
  field_marshal_native_type :: u32

definition FieldMarshalRow_COLUMNS :: "ColumnKind list" where
  [row_defs]: "FieldMarshalRow_COLUMNS = [
    CK_Coded C_HasFieldMarshal, CK_Blob]"

definition FieldMarshalRow_decode :: "RowCursor \<Rightarrow> (FieldMarshalRow \<times> RowCursor) result" where
  [row_defs]: "FieldMarshalRow_decode c =
     res_bind (cursor_coded C_HasFieldMarshal c) (\<lambda>(x0, c).
     res_bind (cursor_uint c) (\<lambda>(x1, c).
     Ok (\<lparr>field_marshal_parent = x0, field_marshal_native_type = x1\<rparr>, c)))"

record DeclSecurityRow =
  decl_security_action :: u16
  decl_security_parent :: Token
  decl_security_permission_set :: u32

definition DeclSecurityRow_COLUMNS :: "ColumnKind list" where
  [row_defs]: "DeclSecurityRow_COLUMNS = [
    CK_U16, CK_Coded C_HasDeclSecurity, CK_Blob]"

definition DeclSecurityRow_decode :: "RowCursor \<Rightarrow> (DeclSecurityRow \<times> RowCursor) result" where
  [row_defs]: "DeclSecurityRow_decode c =
     res_bind (cursor_u16 c) (\<lambda>(x0, c).
     res_bind (cursor_coded C_HasDeclSecurity c) (\<lambda>(x1, c).
     res_bind (cursor_uint c) (\<lambda>(x2, c).
     Ok (\<lparr>decl_security_action = x0, decl_security_parent = x1,
         decl_security_permission_set = x2\<rparr>, c))))"

record ClassLayoutRow =
  class_layout_packing_size :: u16
  class_layout_class_size :: u32
  class_layout_parent :: u32

definition ClassLayoutRow_COLUMNS :: "ColumnKind list" where
  [row_defs]: "ClassLayoutRow_COLUMNS = [
    CK_U16, CK_U32, CK_Rid T_TypeDef]"

definition ClassLayoutRow_decode :: "RowCursor \<Rightarrow> (ClassLayoutRow \<times> RowCursor) result" where
  [row_defs]: "ClassLayoutRow_decode c =
     res_bind (cursor_u16 c) (\<lambda>(x0, c).
     res_bind (cursor_uint c) (\<lambda>(x1, c).
     res_bind (cursor_uint c) (\<lambda>(x2, c).
     Ok (\<lparr>class_layout_packing_size = x0, class_layout_class_size = x1,
         class_layout_parent = x2\<rparr>, c))))"

record FieldLayoutRow =
  field_layout_offset :: u32
  field_layout_field :: u32

definition FieldLayoutRow_COLUMNS :: "ColumnKind list" where
  [row_defs]: "FieldLayoutRow_COLUMNS = [
    CK_U32, CK_Rid T_Field]"

definition FieldLayoutRow_decode :: "RowCursor \<Rightarrow> (FieldLayoutRow \<times> RowCursor) result" where
  [row_defs]: "FieldLayoutRow_decode c =
     res_bind (cursor_uint c) (\<lambda>(x0, c).
     res_bind (cursor_uint c) (\<lambda>(x1, c).
     Ok (\<lparr>field_layout_offset = x0, field_layout_field = x1\<rparr>, c)))"

record StandAloneSigRow =
  stand_alone_sig_signature :: u32

definition StandAloneSigRow_COLUMNS :: "ColumnKind list" where
  [row_defs]: "StandAloneSigRow_COLUMNS = [
    CK_Blob]"

definition StandAloneSigRow_decode :: "RowCursor \<Rightarrow> (StandAloneSigRow \<times> RowCursor) result" where
  [row_defs]: "StandAloneSigRow_decode c =
     res_bind (cursor_uint c) (\<lambda>(x0, c).
     Ok (\<lparr>stand_alone_sig_signature = x0\<rparr>, c))"

record EventMapRow =
  event_map_parent :: u32
  event_map_event_list :: u32

definition EventMapRow_COLUMNS :: "ColumnKind list" where
  [row_defs]: "EventMapRow_COLUMNS = [
    CK_Rid T_TypeDef, CK_Rid T_Event]"

definition EventMapRow_decode :: "RowCursor \<Rightarrow> (EventMapRow \<times> RowCursor) result" where
  [row_defs]: "EventMapRow_decode c =
     res_bind (cursor_uint c) (\<lambda>(x0, c).
     res_bind (cursor_uint c) (\<lambda>(x1, c).
     Ok (\<lparr>event_map_parent = x0, event_map_event_list = x1\<rparr>, c)))"

record EventPtrRow =
  event_ptr_event :: u32

definition EventPtrRow_COLUMNS :: "ColumnKind list" where
  [row_defs]: "EventPtrRow_COLUMNS = [
    CK_Rid T_Event]"

definition EventPtrRow_decode :: "RowCursor \<Rightarrow> (EventPtrRow \<times> RowCursor) result" where
  [row_defs]: "EventPtrRow_decode c =
     res_bind (cursor_uint c) (\<lambda>(x0, c).
     Ok (\<lparr>event_ptr_event = x0\<rparr>, c))"

record EventRow =
  event_event_flags :: u16
  event_name :: u32
  event_event_type :: Token

definition EventRow_COLUMNS :: "ColumnKind list" where
  [row_defs]: "EventRow_COLUMNS = [
    CK_U16, CK_String, CK_Coded C_TypeDefOrRef]"

definition EventRow_decode :: "RowCursor \<Rightarrow> (EventRow \<times> RowCursor) result" where
  [row_defs]: "EventRow_decode c =
     res_bind (cursor_u16 c) (\<lambda>(x0, c).
     res_bind (cursor_uint c) (\<lambda>(x1, c).
     res_bind (cursor_coded C_TypeDefOrRef c) (\<lambda>(x2, c).
     Ok (\<lparr>event_event_flags = x0, event_name = x1, event_event_type = x2\<rparr>, c))))"

record PropertyMapRow =
  property_map_parent :: u32
  property_map_property_list :: u32

definition PropertyMapRow_COLUMNS :: "ColumnKind list" where
  [row_defs]: "PropertyMapRow_COLUMNS = [
    CK_Rid T_TypeDef, CK_Rid T_Property]"

definition PropertyMapRow_decode :: "RowCursor \<Rightarrow> (PropertyMapRow \<times> RowCursor) result" where
  [row_defs]: "PropertyMapRow_decode c =
     res_bind (cursor_uint c) (\<lambda>(x0, c).
     res_bind (cursor_uint c) (\<lambda>(x1, c).
     Ok (\<lparr>property_map_parent = x0, property_map_property_list = x1\<rparr>, c)))"

record PropertyPtrRow =
  property_ptr_property :: u32

definition PropertyPtrRow_COLUMNS :: "ColumnKind list" where
  [row_defs]: "PropertyPtrRow_COLUMNS = [
    CK_Rid T_Property]"

definition PropertyPtrRow_decode :: "RowCursor \<Rightarrow> (PropertyPtrRow \<times> RowCursor) result" where
  [row_defs]: "PropertyPtrRow_decode c =
     res_bind (cursor_uint c) (\<lambda>(x0, c).
     Ok (\<lparr>property_ptr_property = x0\<rparr>, c))"

record PropertyRow =
  property_flags :: u16
  property_name :: u32
  property_type_signature :: u32

definition PropertyRow_COLUMNS :: "ColumnKind list" where
  [row_defs]: "PropertyRow_COLUMNS = [
    CK_U16, CK_String, CK_Blob]"

definition PropertyRow_decode :: "RowCursor \<Rightarrow> (PropertyRow \<times> RowCursor) result" where
  [row_defs]: "PropertyRow_decode c =
     res_bind (cursor_u16 c) (\<lambda>(x0, c).
     res_bind (cursor_uint c) (\<lambda>(x1, c).
     res_bind (cursor_uint c) (\<lambda>(x2, c).
     Ok (\<lparr>property_flags = x0, property_name = x1, property_type_signature = x2\<rparr>, c))))"

record MethodSemanticsRow =
  method_semantics_semantics :: u16
  method_semantics_method :: u32
  method_semantics_association :: Token

definition MethodSemanticsRow_COLUMNS :: "ColumnKind list" where
  [row_defs]: "MethodSemanticsRow_COLUMNS = [
    CK_U16, CK_Rid T_MethodDef, CK_Coded C_HasSemantics]"

definition MethodSemanticsRow_decode :: "RowCursor \<Rightarrow> (MethodSemanticsRow \<times> RowCursor) result" where
  [row_defs]: "MethodSemanticsRow_decode c =
     res_bind (cursor_u16 c) (\<lambda>(x0, c).
     res_bind (cursor_uint c) (\<lambda>(x1, c).
     res_bind (cursor_coded C_HasSemantics c) (\<lambda>(x2, c).
     Ok (\<lparr>method_semantics_semantics = x0, method_semantics_method = x1,
         method_semantics_association = x2\<rparr>, c))))"

record MethodImplRow =
  method_impl_class :: u32
  method_impl_method_body :: Token
  method_impl_method_declaration :: Token

definition MethodImplRow_COLUMNS :: "ColumnKind list" where
  [row_defs]: "MethodImplRow_COLUMNS = [
    CK_Rid T_TypeDef, CK_Coded C_MethodDefOrRef, CK_Coded C_MethodDefOrRef]"

definition MethodImplRow_decode :: "RowCursor \<Rightarrow> (MethodImplRow \<times> RowCursor) result" where
  [row_defs]: "MethodImplRow_decode c =
     res_bind (cursor_uint c) (\<lambda>(x0, c).
     res_bind (cursor_coded C_MethodDefOrRef c) (\<lambda>(x1, c).
     res_bind (cursor_coded C_MethodDefOrRef c) (\<lambda>(x2, c).
     Ok (\<lparr>method_impl_class = x0, method_impl_method_body = x1,
         method_impl_method_declaration = x2\<rparr>, c))))"

record ModuleRefRow =
  module_ref_name :: u32

definition ModuleRefRow_COLUMNS :: "ColumnKind list" where
  [row_defs]: "ModuleRefRow_COLUMNS = [
    CK_String]"

definition ModuleRefRow_decode :: "RowCursor \<Rightarrow> (ModuleRefRow \<times> RowCursor) result" where
  [row_defs]: "ModuleRefRow_decode c =
     res_bind (cursor_uint c) (\<lambda>(x0, c).
     Ok (\<lparr>module_ref_name = x0\<rparr>, c))"

record TypeSpecRow =
  type_spec_signature :: u32

definition TypeSpecRow_COLUMNS :: "ColumnKind list" where
  [row_defs]: "TypeSpecRow_COLUMNS = [
    CK_Blob]"

definition TypeSpecRow_decode :: "RowCursor \<Rightarrow> (TypeSpecRow \<times> RowCursor) result" where
  [row_defs]: "TypeSpecRow_decode c =
     res_bind (cursor_uint c) (\<lambda>(x0, c).
     Ok (\<lparr>type_spec_signature = x0\<rparr>, c))"

record ImplMapRow =
  impl_map_mapping_flags :: u16
  impl_map_member_forwarded :: Token
  impl_map_import_name :: u32
  impl_map_import_scope :: u32

definition ImplMapRow_COLUMNS :: "ColumnKind list" where
  [row_defs]: "ImplMapRow_COLUMNS = [
    CK_U16, CK_Coded C_MemberForwarded, CK_String, CK_Rid T_ModuleRef]"

definition ImplMapRow_decode :: "RowCursor \<Rightarrow> (ImplMapRow \<times> RowCursor) result" where
  [row_defs]: "ImplMapRow_decode c =
     res_bind (cursor_u16 c) (\<lambda>(x0, c).
     res_bind (cursor_coded C_MemberForwarded c) (\<lambda>(x1, c).
     res_bind (cursor_uint c) (\<lambda>(x2, c).
     res_bind (cursor_uint c) (\<lambda>(x3, c).
     Ok (\<lparr>impl_map_mapping_flags = x0, impl_map_member_forwarded = x1,
         impl_map_import_name = x2, impl_map_import_scope = x3\<rparr>, c)))))"

record FieldRvaRow =
  field_rva_rva :: u32
  field_rva_field :: u32

definition FieldRvaRow_COLUMNS :: "ColumnKind list" where
  [row_defs]: "FieldRvaRow_COLUMNS = [
    CK_U32, CK_Rid T_Field]"

definition FieldRvaRow_decode :: "RowCursor \<Rightarrow> (FieldRvaRow \<times> RowCursor) result" where
  [row_defs]: "FieldRvaRow_decode c =
     res_bind (cursor_uint c) (\<lambda>(x0, c).
     res_bind (cursor_uint c) (\<lambda>(x1, c).
     Ok (\<lparr>field_rva_rva = x0, field_rva_field = x1\<rparr>, c)))"

record EncLogRow =
  enc_log_token :: u32
  enc_log_func_code :: u32

definition EncLogRow_COLUMNS :: "ColumnKind list" where
  [row_defs]: "EncLogRow_COLUMNS = [
    CK_U32, CK_U32]"

definition EncLogRow_decode :: "RowCursor \<Rightarrow> (EncLogRow \<times> RowCursor) result" where
  [row_defs]: "EncLogRow_decode c =
     res_bind (cursor_uint c) (\<lambda>(x0, c).
     res_bind (cursor_uint c) (\<lambda>(x1, c).
     Ok (\<lparr>enc_log_token = x0, enc_log_func_code = x1\<rparr>, c)))"

record EncMapRow =
  enc_map_token :: u32

definition EncMapRow_COLUMNS :: "ColumnKind list" where
  [row_defs]: "EncMapRow_COLUMNS = [
    CK_U32]"

definition EncMapRow_decode :: "RowCursor \<Rightarrow> (EncMapRow \<times> RowCursor) result" where
  [row_defs]: "EncMapRow_decode c =
     res_bind (cursor_uint c) (\<lambda>(x0, c).
     Ok (\<lparr>enc_map_token = x0\<rparr>, c))"

record AssemblyRow =
  assembly_hash_alg_id :: u32
  assembly_major_version :: u16
  assembly_minor_version :: u16
  assembly_build_number :: u16
  assembly_revision_number :: u16
  assembly_flags :: u32
  assembly_public_key :: u32
  assembly_name :: u32
  assembly_culture :: u32

definition AssemblyRow_COLUMNS :: "ColumnKind list" where
  [row_defs]: "AssemblyRow_COLUMNS = [
    CK_U32, CK_U16, CK_U16, CK_U16, CK_U16, CK_U32, CK_Blob, CK_String, CK_String]"

definition AssemblyRow_decode :: "RowCursor \<Rightarrow> (AssemblyRow \<times> RowCursor) result" where
  [row_defs]: "AssemblyRow_decode c =
     res_bind (cursor_uint c) (\<lambda>(x0, c).
     res_bind (cursor_u16 c) (\<lambda>(x1, c).
     res_bind (cursor_u16 c) (\<lambda>(x2, c).
     res_bind (cursor_u16 c) (\<lambda>(x3, c).
     res_bind (cursor_u16 c) (\<lambda>(x4, c).
     res_bind (cursor_uint c) (\<lambda>(x5, c).
     res_bind (cursor_uint c) (\<lambda>(x6, c).
     res_bind (cursor_uint c) (\<lambda>(x7, c).
     res_bind (cursor_uint c) (\<lambda>(x8, c).
     Ok (\<lparr>assembly_hash_alg_id = x0, assembly_major_version = x1,
         assembly_minor_version = x2, assembly_build_number = x3,
         assembly_revision_number = x4, assembly_flags = x5, assembly_public_key = x6,
         assembly_name = x7, assembly_culture = x8\<rparr>, c))))))))))"

record AssemblyProcessorRow =
  assembly_processor_processor :: u32

definition AssemblyProcessorRow_COLUMNS :: "ColumnKind list" where
  [row_defs]: "AssemblyProcessorRow_COLUMNS = [
    CK_U32]"

definition AssemblyProcessorRow_decode :: "RowCursor \<Rightarrow> (AssemblyProcessorRow \<times> RowCursor) result" where
  [row_defs]: "AssemblyProcessorRow_decode c =
     res_bind (cursor_uint c) (\<lambda>(x0, c).
     Ok (\<lparr>assembly_processor_processor = x0\<rparr>, c))"

record AssemblyOsRow =
  assembly_os_os_platform_id :: u32
  assembly_os_os_major_version :: u32
  assembly_os_os_minor_version :: u32

definition AssemblyOsRow_COLUMNS :: "ColumnKind list" where
  [row_defs]: "AssemblyOsRow_COLUMNS = [
    CK_U32, CK_U32, CK_U32]"

definition AssemblyOsRow_decode :: "RowCursor \<Rightarrow> (AssemblyOsRow \<times> RowCursor) result" where
  [row_defs]: "AssemblyOsRow_decode c =
     res_bind (cursor_uint c) (\<lambda>(x0, c).
     res_bind (cursor_uint c) (\<lambda>(x1, c).
     res_bind (cursor_uint c) (\<lambda>(x2, c).
     Ok (\<lparr>assembly_os_os_platform_id = x0, assembly_os_os_major_version = x1,
         assembly_os_os_minor_version = x2\<rparr>, c))))"

record AssemblyRefRow =
  assembly_ref_major_version :: u16
  assembly_ref_minor_version :: u16
  assembly_ref_build_number :: u16
  assembly_ref_revision_number :: u16
  assembly_ref_flags :: u32
  assembly_ref_public_key_or_token :: u32
  assembly_ref_name :: u32
  assembly_ref_culture :: u32
  assembly_ref_hash_value :: u32

definition AssemblyRefRow_COLUMNS :: "ColumnKind list" where
  [row_defs]: "AssemblyRefRow_COLUMNS = [
    CK_U16, CK_U16, CK_U16, CK_U16, CK_U32, CK_Blob, CK_String, CK_String, CK_Blob]"

definition AssemblyRefRow_decode :: "RowCursor \<Rightarrow> (AssemblyRefRow \<times> RowCursor) result" where
  [row_defs]: "AssemblyRefRow_decode c =
     res_bind (cursor_u16 c) (\<lambda>(x0, c).
     res_bind (cursor_u16 c) (\<lambda>(x1, c).
     res_bind (cursor_u16 c) (\<lambda>(x2, c).
     res_bind (cursor_u16 c) (\<lambda>(x3, c).
     res_bind (cursor_uint c) (\<lambda>(x4, c).
     res_bind (cursor_uint c) (\<lambda>(x5, c).
     res_bind (cursor_uint c) (\<lambda>(x6, c).
     res_bind (cursor_uint c) (\<lambda>(x7, c).
     res_bind (cursor_uint c) (\<lambda>(x8, c).
     Ok (\<lparr>assembly_ref_major_version = x0, assembly_ref_minor_version = x1,
         assembly_ref_build_number = x2, assembly_ref_revision_number = x3,
         assembly_ref_flags = x4, assembly_ref_public_key_or_token = x5,
         assembly_ref_name = x6, assembly_ref_culture = x7, assembly_ref_hash_value = x8\<rparr>, c))))))))))"

record AssemblyRefProcessorRow =
  assembly_ref_processor_processor :: u32
  assembly_ref_processor_assembly_ref :: u32

definition AssemblyRefProcessorRow_COLUMNS :: "ColumnKind list" where
  [row_defs]: "AssemblyRefProcessorRow_COLUMNS = [
    CK_U32, CK_Rid T_AssemblyRef]"

definition AssemblyRefProcessorRow_decode :: "RowCursor \<Rightarrow> (AssemblyRefProcessorRow \<times> RowCursor) result" where
  [row_defs]: "AssemblyRefProcessorRow_decode c =
     res_bind (cursor_uint c) (\<lambda>(x0, c).
     res_bind (cursor_uint c) (\<lambda>(x1, c).
     Ok (\<lparr>assembly_ref_processor_processor = x0, assembly_ref_processor_assembly_ref = x1\<rparr>, c)))"

record AssemblyRefOsRow =
  assembly_ref_os_os_platform_id :: u32
  assembly_ref_os_os_major_version :: u32
  assembly_ref_os_os_minor_version :: u32
  assembly_ref_os_assembly_ref :: u32

definition AssemblyRefOsRow_COLUMNS :: "ColumnKind list" where
  [row_defs]: "AssemblyRefOsRow_COLUMNS = [
    CK_U32, CK_U32, CK_U32, CK_Rid T_AssemblyRef]"

definition AssemblyRefOsRow_decode :: "RowCursor \<Rightarrow> (AssemblyRefOsRow \<times> RowCursor) result" where
  [row_defs]: "AssemblyRefOsRow_decode c =
     res_bind (cursor_uint c) (\<lambda>(x0, c).
     res_bind (cursor_uint c) (\<lambda>(x1, c).
     res_bind (cursor_uint c) (\<lambda>(x2, c).
     res_bind (cursor_uint c) (\<lambda>(x3, c).
     Ok (\<lparr>assembly_ref_os_os_platform_id = x0, assembly_ref_os_os_major_version = x1,
         assembly_ref_os_os_minor_version = x2, assembly_ref_os_assembly_ref = x3\<rparr>, c)))))"

record FileRow =
  file_flags :: u32
  file_name :: u32
  file_hash_value :: u32

definition FileRow_COLUMNS :: "ColumnKind list" where
  [row_defs]: "FileRow_COLUMNS = [
    CK_U32, CK_String, CK_Blob]"

definition FileRow_decode :: "RowCursor \<Rightarrow> (FileRow \<times> RowCursor) result" where
  [row_defs]: "FileRow_decode c =
     res_bind (cursor_uint c) (\<lambda>(x0, c).
     res_bind (cursor_uint c) (\<lambda>(x1, c).
     res_bind (cursor_uint c) (\<lambda>(x2, c).
     Ok (\<lparr>file_flags = x0, file_name = x1, file_hash_value = x2\<rparr>, c))))"

record ExportedTypeRow =
  exported_type_flags :: u32
  exported_type_type_def_id :: u32
  exported_type_type_name :: u32
  exported_type_type_namespace :: u32
  exported_type_implementation :: Token

definition ExportedTypeRow_COLUMNS :: "ColumnKind list" where
  [row_defs]: "ExportedTypeRow_COLUMNS = [
    CK_U32, CK_U32, CK_String, CK_String, CK_Coded C_Implementation]"

definition ExportedTypeRow_decode :: "RowCursor \<Rightarrow> (ExportedTypeRow \<times> RowCursor) result" where
  [row_defs]: "ExportedTypeRow_decode c =
     res_bind (cursor_uint c) (\<lambda>(x0, c).
     res_bind (cursor_uint c) (\<lambda>(x1, c).
     res_bind (cursor_uint c) (\<lambda>(x2, c).
     res_bind (cursor_uint c) (\<lambda>(x3, c).
     res_bind (cursor_coded C_Implementation c) (\<lambda>(x4, c).
     Ok (\<lparr>exported_type_flags = x0, exported_type_type_def_id = x1,
         exported_type_type_name = x2, exported_type_type_namespace = x3,
         exported_type_implementation = x4\<rparr>, c))))))"

record ManifestResourceRow =
  manifest_resource_offset :: u32
  manifest_resource_flags :: u32
  manifest_resource_name :: u32
  manifest_resource_implementation :: Token

definition ManifestResourceRow_COLUMNS :: "ColumnKind list" where
  [row_defs]: "ManifestResourceRow_COLUMNS = [
    CK_U32, CK_U32, CK_String, CK_Coded C_Implementation]"

definition ManifestResourceRow_decode :: "RowCursor \<Rightarrow> (ManifestResourceRow \<times> RowCursor) result" where
  [row_defs]: "ManifestResourceRow_decode c =
     res_bind (cursor_uint c) (\<lambda>(x0, c).
     res_bind (cursor_uint c) (\<lambda>(x1, c).
     res_bind (cursor_uint c) (\<lambda>(x2, c).
     res_bind (cursor_coded C_Implementation c) (\<lambda>(x3, c).
     Ok (\<lparr>manifest_resource_offset = x0, manifest_resource_flags = x1,
         manifest_resource_name = x2, manifest_resource_implementation = x3\<rparr>, c)))))"

record NestedClassRow =
  nested_class_nested_class :: u32
  nested_class_enclosing_class :: u32

definition NestedClassRow_COLUMNS :: "ColumnKind list" where
  [row_defs]: "NestedClassRow_COLUMNS = [
    CK_Rid T_TypeDef, CK_Rid T_TypeDef]"

definition NestedClassRow_decode :: "RowCursor \<Rightarrow> (NestedClassRow \<times> RowCursor) result" where
  [row_defs]: "NestedClassRow_decode c =
     res_bind (cursor_uint c) (\<lambda>(x0, c).
     res_bind (cursor_uint c) (\<lambda>(x1, c).
     Ok (\<lparr>nested_class_nested_class = x0, nested_class_enclosing_class = x1\<rparr>, c)))"

record GenericParamRow =
  generic_param_number :: u16
  generic_param_flags :: u16
  generic_param_owner :: Token
  generic_param_name :: u32

definition GenericParamRow_COLUMNS :: "ColumnKind list" where
  [row_defs]: "GenericParamRow_COLUMNS = [
    CK_U16, CK_U16, CK_Coded C_TypeOrMethodDef, CK_String]"

definition GenericParamRow_decode :: "RowCursor \<Rightarrow> (GenericParamRow \<times> RowCursor) result" where
  [row_defs]: "GenericParamRow_decode c =
     res_bind (cursor_u16 c) (\<lambda>(x0, c).
     res_bind (cursor_u16 c) (\<lambda>(x1, c).
     res_bind (cursor_coded C_TypeOrMethodDef c) (\<lambda>(x2, c).
     res_bind (cursor_uint c) (\<lambda>(x3, c).
     Ok (\<lparr>generic_param_number = x0, generic_param_flags = x1, generic_param_owner = x2,
         generic_param_name = x3\<rparr>, c)))))"

record MethodSpecRow =
  method_spec_method :: Token
  method_spec_instantiation :: u32

definition MethodSpecRow_COLUMNS :: "ColumnKind list" where
  [row_defs]: "MethodSpecRow_COLUMNS = [
    CK_Coded C_MethodDefOrRef, CK_Blob]"

definition MethodSpecRow_decode :: "RowCursor \<Rightarrow> (MethodSpecRow \<times> RowCursor) result" where
  [row_defs]: "MethodSpecRow_decode c =
     res_bind (cursor_coded C_MethodDefOrRef c) (\<lambda>(x0, c).
     res_bind (cursor_uint c) (\<lambda>(x1, c).
     Ok (\<lparr>method_spec_method = x0, method_spec_instantiation = x1\<rparr>, c)))"

record GenericParamConstraintRow =
  generic_param_constraint_owner :: u32
  generic_param_constraint_constraint :: Token

definition GenericParamConstraintRow_COLUMNS :: "ColumnKind list" where
  [row_defs]: "GenericParamConstraintRow_COLUMNS = [
    CK_Rid T_GenericParam, CK_Coded C_TypeDefOrRef]"

definition GenericParamConstraintRow_decode :: "RowCursor \<Rightarrow> (GenericParamConstraintRow \<times> RowCursor) result" where
  [row_defs]: "GenericParamConstraintRow_decode c =
     res_bind (cursor_uint c) (\<lambda>(x0, c).
     res_bind (cursor_coded C_TypeDefOrRef c) (\<lambda>(x1, c).
     Ok (\<lparr>generic_param_constraint_owner = x0, generic_param_constraint_constraint = x1\<rparr>, c)))"

record DocumentRow =
  document_name :: u32
  document_hash_algorithm :: u32
  document_hash :: u32
  document_language :: u32

definition DocumentRow_COLUMNS :: "ColumnKind list" where
  [row_defs]: "DocumentRow_COLUMNS = [
    CK_Blob, CK_Guid, CK_Blob, CK_Guid]"

definition DocumentRow_decode :: "RowCursor \<Rightarrow> (DocumentRow \<times> RowCursor) result" where
  [row_defs]: "DocumentRow_decode c =
     res_bind (cursor_uint c) (\<lambda>(x0, c).
     res_bind (cursor_uint c) (\<lambda>(x1, c).
     res_bind (cursor_uint c) (\<lambda>(x2, c).
     res_bind (cursor_uint c) (\<lambda>(x3, c).
     Ok (\<lparr>document_name = x0, document_hash_algorithm = x1, document_hash = x2,
         document_language = x3\<rparr>, c)))))"

record MethodDebugInformationRow =
  method_debug_information_document :: u32
  method_debug_information_sequence_points :: u32

definition MethodDebugInformationRow_COLUMNS :: "ColumnKind list" where
  [row_defs]: "MethodDebugInformationRow_COLUMNS = [
    CK_Rid T_Document, CK_Blob]"

definition MethodDebugInformationRow_decode :: "RowCursor \<Rightarrow> (MethodDebugInformationRow \<times> RowCursor) result" where
  [row_defs]: "MethodDebugInformationRow_decode c =
     res_bind (cursor_uint c) (\<lambda>(x0, c).
     res_bind (cursor_uint c) (\<lambda>(x1, c).
     Ok (\<lparr>method_debug_information_document = x0,
         method_debug_information_sequence_points = x1\<rparr>, c)))"

record LocalScopeRow =
  local_scope_method :: u32
  local_scope_import_scope :: u32
  local_scope_variable_list :: u32
  local_scope_constant_list :: u32
  local_scope_start_offset :: u32
  local_scope_length :: u32

definition LocalScopeRow_COLUMNS :: "ColumnKind list" where
  [row_defs]: "LocalScopeRow_COLUMNS = [
    CK_Rid T_MethodDef, CK_Rid T_ImportScope, CK_Rid T_LocalVariable,
    CK_Rid T_LocalConstant, CK_U32, CK_U32]"

definition LocalScopeRow_decode :: "RowCursor \<Rightarrow> (LocalScopeRow \<times> RowCursor) result" where
  [row_defs]: "LocalScopeRow_decode c =
     res_bind (cursor_uint c) (\<lambda>(x0, c).
     res_bind (cursor_uint c) (\<lambda>(x1, c).
     res_bind (cursor_uint c) (\<lambda>(x2, c).
     res_bind (cursor_uint c) (\<lambda>(x3, c).
     res_bind (cursor_uint c) (\<lambda>(x4, c).
     res_bind (cursor_uint c) (\<lambda>(x5, c).
     Ok (\<lparr>local_scope_method = x0, local_scope_import_scope = x1,
         local_scope_variable_list = x2, local_scope_constant_list = x3,
         local_scope_start_offset = x4, local_scope_length = x5\<rparr>, c)))))))"

record LocalVariableRow =
  local_variable_attributes :: u16
  local_variable_index :: u16
  local_variable_name :: u32

definition LocalVariableRow_COLUMNS :: "ColumnKind list" where
  [row_defs]: "LocalVariableRow_COLUMNS = [
    CK_U16, CK_U16, CK_String]"

definition LocalVariableRow_decode :: "RowCursor \<Rightarrow> (LocalVariableRow \<times> RowCursor) result" where
  [row_defs]: "LocalVariableRow_decode c =
     res_bind (cursor_u16 c) (\<lambda>(x0, c).
     res_bind (cursor_u16 c) (\<lambda>(x1, c).
     res_bind (cursor_uint c) (\<lambda>(x2, c).
     Ok (\<lparr>local_variable_attributes = x0, local_variable_index = x1, local_variable_name = x2\<rparr>, c))))"

record LocalConstantRow =
  local_constant_name :: u32
  local_constant_signature :: u32

definition LocalConstantRow_COLUMNS :: "ColumnKind list" where
  [row_defs]: "LocalConstantRow_COLUMNS = [
    CK_String, CK_Blob]"

definition LocalConstantRow_decode :: "RowCursor \<Rightarrow> (LocalConstantRow \<times> RowCursor) result" where
  [row_defs]: "LocalConstantRow_decode c =
     res_bind (cursor_uint c) (\<lambda>(x0, c).
     res_bind (cursor_uint c) (\<lambda>(x1, c).
     Ok (\<lparr>local_constant_name = x0, local_constant_signature = x1\<rparr>, c)))"

record ImportScopeRow =
  import_scope_parent :: u32
  import_scope_imports :: u32

definition ImportScopeRow_COLUMNS :: "ColumnKind list" where
  [row_defs]: "ImportScopeRow_COLUMNS = [
    CK_Rid T_ImportScope, CK_Blob]"

definition ImportScopeRow_decode :: "RowCursor \<Rightarrow> (ImportScopeRow \<times> RowCursor) result" where
  [row_defs]: "ImportScopeRow_decode c =
     res_bind (cursor_uint c) (\<lambda>(x0, c).
     res_bind (cursor_uint c) (\<lambda>(x1, c).
     Ok (\<lparr>import_scope_parent = x0, import_scope_imports = x1\<rparr>, c)))"

record StateMachineMethodRow =
  state_machine_method_move_next_method :: u32
  state_machine_method_kickoff_method :: u32

definition StateMachineMethodRow_COLUMNS :: "ColumnKind list" where
  [row_defs]: "StateMachineMethodRow_COLUMNS = [
    CK_Rid T_MethodDef, CK_Rid T_MethodDef]"

definition StateMachineMethodRow_decode :: "RowCursor \<Rightarrow> (StateMachineMethodRow \<times> RowCursor) result" where
  [row_defs]: "StateMachineMethodRow_decode c =
     res_bind (cursor_uint c) (\<lambda>(x0, c).
     res_bind (cursor_uint c) (\<lambda>(x1, c).
     Ok (\<lparr>state_machine_method_move_next_method = x0,
         state_machine_method_kickoff_method = x1\<rparr>, c)))"

record CustomDebugInformationRow =
  custom_debug_information_parent :: Token
  custom_debug_information_kind :: u32
  custom_debug_information_value :: u32

definition CustomDebugInformationRow_COLUMNS :: "ColumnKind list" where
  [row_defs]: "CustomDebugInformationRow_COLUMNS = [
    CK_Coded C_HasCustomDebugInformation, CK_Guid, CK_Blob]"

definition CustomDebugInformationRow_decode :: "RowCursor \<Rightarrow> (CustomDebugInformationRow \<times> RowCursor) result" where
  [row_defs]: "CustomDebugInformationRow_decode c =
     res_bind (cursor_coded C_HasCustomDebugInformation c) (\<lambda>(x0, c).
     res_bind (cursor_uint c) (\<lambda>(x1, c).
     res_bind (cursor_uint c) (\<lambda>(x2, c).
     Ok (\<lparr>custom_debug_information_parent = x0, custom_debug_information_kind = x1,
         custom_debug_information_value = x2\<rparr>, c))))"

section \<open>Columns by table\<close>

primrec columns_of :: "TableId \<Rightarrow> ColumnKind list" where
  "columns_of T_Module = ModuleRow_COLUMNS"
| "columns_of T_TypeRef = TypeRefRow_COLUMNS"
| "columns_of T_TypeDef = TypeDefRow_COLUMNS"
| "columns_of T_FieldPtr = FieldPtrRow_COLUMNS"
| "columns_of T_Field = FieldRow_COLUMNS"
| "columns_of T_MethodPtr = MethodPtrRow_COLUMNS"
| "columns_of T_MethodDef = MethodDefRow_COLUMNS"
| "columns_of T_ParamPtr = ParamPtrRow_COLUMNS"
| "columns_of T_Param = ParamRow_COLUMNS"
| "columns_of T_InterfaceImpl = InterfaceImplRow_COLUMNS"
| "columns_of T_MemberRef = MemberRefRow_COLUMNS"
| "columns_of T_Constant = ConstantRow_COLUMNS"
| "columns_of T_CustomAttribute = CustomAttributeRow_COLUMNS"
| "columns_of T_FieldMarshal = FieldMarshalRow_COLUMNS"
| "columns_of T_DeclSecurity = DeclSecurityRow_COLUMNS"
| "columns_of T_ClassLayout = ClassLayoutRow_COLUMNS"
| "columns_of T_FieldLayout = FieldLayoutRow_COLUMNS"
| "columns_of T_StandAloneSig = StandAloneSigRow_COLUMNS"
| "columns_of T_EventMap = EventMapRow_COLUMNS"
| "columns_of T_EventPtr = EventPtrRow_COLUMNS"
| "columns_of T_Event = EventRow_COLUMNS"
| "columns_of T_PropertyMap = PropertyMapRow_COLUMNS"
| "columns_of T_PropertyPtr = PropertyPtrRow_COLUMNS"
| "columns_of T_Property = PropertyRow_COLUMNS"
| "columns_of T_MethodSemantics = MethodSemanticsRow_COLUMNS"
| "columns_of T_MethodImpl = MethodImplRow_COLUMNS"
| "columns_of T_ModuleRef = ModuleRefRow_COLUMNS"
| "columns_of T_TypeSpec = TypeSpecRow_COLUMNS"
| "columns_of T_ImplMap = ImplMapRow_COLUMNS"
| "columns_of T_FieldRva = FieldRvaRow_COLUMNS"
| "columns_of T_EncLog = EncLogRow_COLUMNS"
| "columns_of T_EncMap = EncMapRow_COLUMNS"
| "columns_of T_Assembly = AssemblyRow_COLUMNS"
| "columns_of T_AssemblyProcessor = AssemblyProcessorRow_COLUMNS"
| "columns_of T_AssemblyOs = AssemblyOsRow_COLUMNS"
| "columns_of T_AssemblyRef = AssemblyRefRow_COLUMNS"
| "columns_of T_AssemblyRefProcessor = AssemblyRefProcessorRow_COLUMNS"
| "columns_of T_AssemblyRefOs = AssemblyRefOsRow_COLUMNS"
| "columns_of T_File = FileRow_COLUMNS"
| "columns_of T_ExportedType = ExportedTypeRow_COLUMNS"
| "columns_of T_ManifestResource = ManifestResourceRow_COLUMNS"
| "columns_of T_NestedClass = NestedClassRow_COLUMNS"
| "columns_of T_GenericParam = GenericParamRow_COLUMNS"
| "columns_of T_MethodSpec = MethodSpecRow_COLUMNS"
| "columns_of T_GenericParamConstraint = GenericParamConstraintRow_COLUMNS"
| "columns_of T_Document = DocumentRow_COLUMNS"
| "columns_of T_MethodDebugInformation = MethodDebugInformationRow_COLUMNS"
| "columns_of T_LocalScope = LocalScopeRow_COLUMNS"
| "columns_of T_LocalVariable = LocalVariableRow_COLUMNS"
| "columns_of T_LocalConstant = LocalConstantRow_COLUMNS"
| "columns_of T_ImportScope = ImportScopeRow_COLUMNS"
| "columns_of T_StateMachineMethod = StateMachineMethodRow_COLUMNS"
| "columns_of T_CustomDebugInformation = CustomDebugInformationRow_COLUMNS"

lemma columns_of_bounds: "columns_of t \<noteq> []" "length (columns_of t) \<le> MAX_COLUMNS"
  by (cases t; simp add: row_defs MAX_COLUMNS_def)+

section \<open>The attributes of rows\<close>

definition constant_element_type :: "ConstantRow \<Rightarrow> u8" where
  "constant_element_type r = ucast (constant_type_raw r)"

definition constant_padding :: "ConstantRow \<Rightarrow> u8" where
  "constant_padding r = ucast (drop_bit 8 (constant_type_raw r))"

definition method_is_il :: "MethodDefRow \<Rightarrow> bool" where
  "method_is_il r \<longleftrightarrow> method_def_impl_flags r AND 0x0003 = 0x0000"

definition method_is_native :: "MethodDefRow \<Rightarrow> bool" where
  "method_is_native r \<longleftrightarrow> method_def_impl_flags r AND 0x0003 = 0x0001"

definition method_is_runtime :: "MethodDefRow \<Rightarrow> bool" where
  "method_is_runtime r \<longleftrightarrow> method_def_impl_flags r AND 0x0003 = 0x0003"

definition method_is_static :: "MethodDefRow \<Rightarrow> bool" where
  "method_is_static r \<longleftrightarrow> method_def_flags r AND 0x0010 \<noteq> 0"

definition method_is_abstract :: "MethodDefRow \<Rightarrow> bool" where
  "method_is_abstract r \<longleftrightarrow> method_def_flags r AND 0x0400 \<noteq> 0"

definition method_is_pinvoke :: "MethodDefRow \<Rightarrow> bool" where
  "method_is_pinvoke r \<longleftrightarrow> method_def_flags r AND 0x2000 \<noteq> 0"

definition has_no_body :: "MethodDefRow \<Rightarrow> bool" where
  "has_no_body r \<longleftrightarrow> method_def_rva r = 0 \<or> \<not> method_is_il r"

definition type_layout_kind :: "TypeDefRow \<Rightarrow> u8" where
  "type_layout_kind r = drop_bit 3 (ucast (type_def_flags r AND 0x00000018))"

definition type_is_interface :: "TypeDefRow \<Rightarrow> bool" where
  "type_is_interface r \<longleftrightarrow> type_def_flags r AND 0x00000020 \<noteq> 0"

definition type_is_nested :: "TypeDefRow \<Rightarrow> bool" where
  "type_is_nested r \<longleftrightarrow> (let vis = type_def_flags r AND 0x00000007 in 2 \<le> vis)"

definition field_is_static :: "FieldRow \<Rightarrow> bool" where
  "field_is_static r \<longleftrightarrow> field_flags r AND 0x0010 \<noteq> 0"

definition field_has_rva :: "FieldRow \<Rightarrow> bool" where
  "field_has_rva r \<longleftrightarrow> field_flags r AND 0x0100 \<noteq> 0"

definition field_is_literal :: "FieldRow \<Rightarrow> bool" where
  "field_is_literal r \<longleftrightarrow> field_flags r AND 0x0040 \<noteq> 0"

section \<open>What every row type promises\<close>

text \<open>
  The contract of the trait \<open>TableRow\<close>: decoding reads exactly the columns of the table, in
  order, and builds the row from their values.
\<close>

locale row_type =
  fixes table :: TableId
    and decode :: "RowCursor \<Rightarrow> ('r \<times> RowCursor) result"
    and build :: "ColValue list \<Rightarrow> 'r"
  assumes decodes: "decode c = res_bind (read_columns (columns_of table) c) (\<lambda>(vs, c). Ok (build vs, c))"

lemmas row_read = res_bind_assoc cursor_u16_def case_prod_beta'

section \<open>The row types keep the contract\<close>

interpretation r_mod: row_type T_Module ModuleRow_decode
  "\<lambda>vs. \<lparr>mod_generation = ucast (cv_uint (vs ! 0)), mod_name = cv_uint (vs ! 1),
     mod_mvid = cv_uint (vs ! 2), mod_enc_id = cv_uint (vs ! 3),
     mod_enc_base_id = cv_uint (vs ! 4)\<rparr>"
  by unfold_locales (simp add: row_defs row_read)

interpretation r_type_ref: row_type T_TypeRef TypeRefRow_decode
  "\<lambda>vs. \<lparr>type_ref_resolution_scope = cv_token (vs ! 0), type_ref_type_name = cv_uint (vs ! 1),
     type_ref_type_namespace = cv_uint (vs ! 2)\<rparr>"
  by unfold_locales (simp add: row_defs row_read)

interpretation r_type_def: row_type T_TypeDef TypeDefRow_decode
  "\<lambda>vs. \<lparr>type_def_flags = cv_uint (vs ! 0), type_def_type_name = cv_uint (vs ! 1),
     type_def_type_namespace = cv_uint (vs ! 2), type_def_extends = cv_token (vs ! 3),
     type_def_field_list = cv_uint (vs ! 4), type_def_method_list = cv_uint (vs ! 5)\<rparr>"
  by unfold_locales (simp add: row_defs row_read)

interpretation r_field_ptr: row_type T_FieldPtr FieldPtrRow_decode
  "\<lambda>vs. \<lparr>field_ptr_field = cv_uint (vs ! 0)\<rparr>"
  by unfold_locales (simp add: row_defs row_read)

interpretation r_field: row_type T_Field FieldRow_decode
  "\<lambda>vs. \<lparr>field_flags = ucast (cv_uint (vs ! 0)), field_name = cv_uint (vs ! 1),
     field_signature = cv_uint (vs ! 2)\<rparr>"
  by unfold_locales (simp add: row_defs row_read)

interpretation r_method_ptr: row_type T_MethodPtr MethodPtrRow_decode
  "\<lambda>vs. \<lparr>method_ptr_method = cv_uint (vs ! 0)\<rparr>"
  by unfold_locales (simp add: row_defs row_read)

interpretation r_method_def: row_type T_MethodDef MethodDefRow_decode
  "\<lambda>vs. \<lparr>method_def_rva = cv_uint (vs ! 0), method_def_impl_flags = ucast (cv_uint (vs ! 1)),
     method_def_flags = ucast (cv_uint (vs ! 2)), method_def_name = cv_uint (vs ! 3),
     method_def_signature = cv_uint (vs ! 4), method_def_param_list = cv_uint (vs ! 5)\<rparr>"
  by unfold_locales (simp add: row_defs row_read)

interpretation r_param_ptr: row_type T_ParamPtr ParamPtrRow_decode
  "\<lambda>vs. \<lparr>param_ptr_param = cv_uint (vs ! 0)\<rparr>"
  by unfold_locales (simp add: row_defs row_read)

interpretation r_param: row_type T_Param ParamRow_decode
  "\<lambda>vs. \<lparr>param_flags = ucast (cv_uint (vs ! 0)), param_sequence = ucast (cv_uint (vs ! 1)),
     param_name = cv_uint (vs ! 2)\<rparr>"
  by unfold_locales (simp add: row_defs row_read)

interpretation r_interface_impl: row_type T_InterfaceImpl InterfaceImplRow_decode
  "\<lambda>vs. \<lparr>interface_impl_class = cv_uint (vs ! 0), interface_impl_interface = cv_token (vs ! 1)\<rparr>"
  by unfold_locales (simp add: row_defs row_read)

interpretation r_member_ref: row_type T_MemberRef MemberRefRow_decode
  "\<lambda>vs. \<lparr>member_ref_class = cv_token (vs ! 0), member_ref_name = cv_uint (vs ! 1),
     member_ref_signature = cv_uint (vs ! 2)\<rparr>"
  by unfold_locales (simp add: row_defs row_read)

interpretation r_constant: row_type T_Constant ConstantRow_decode
  "\<lambda>vs. \<lparr>constant_type_raw = ucast (cv_uint (vs ! 0)), constant_parent = cv_token (vs ! 1),
     constant_value = cv_uint (vs ! 2)\<rparr>"
  by unfold_locales (simp add: row_defs row_read)

interpretation r_custom_attribute: row_type T_CustomAttribute CustomAttributeRow_decode
  "\<lambda>vs. \<lparr>custom_attribute_parent = cv_token (vs ! 0),
     custom_attribute_constructor = cv_token (vs ! 1),
     custom_attribute_value = cv_uint (vs ! 2)\<rparr>"
  by unfold_locales (simp add: row_defs row_read)

interpretation r_field_marshal: row_type T_FieldMarshal FieldMarshalRow_decode
  "\<lambda>vs. \<lparr>field_marshal_parent = cv_token (vs ! 0), field_marshal_native_type = cv_uint (vs ! 1)\<rparr>"
  by unfold_locales (simp add: row_defs row_read)

interpretation r_decl_security: row_type T_DeclSecurity DeclSecurityRow_decode
  "\<lambda>vs. \<lparr>decl_security_action = ucast (cv_uint (vs ! 0)),
     decl_security_parent = cv_token (vs ! 1),
     decl_security_permission_set = cv_uint (vs ! 2)\<rparr>"
  by unfold_locales (simp add: row_defs row_read)

interpretation r_class_layout: row_type T_ClassLayout ClassLayoutRow_decode
  "\<lambda>vs. \<lparr>class_layout_packing_size = ucast (cv_uint (vs ! 0)),
     class_layout_class_size = cv_uint (vs ! 1), class_layout_parent = cv_uint (vs ! 2)\<rparr>"
  by unfold_locales (simp add: row_defs row_read)

interpretation r_field_layout: row_type T_FieldLayout FieldLayoutRow_decode
  "\<lambda>vs. \<lparr>field_layout_offset = cv_uint (vs ! 0), field_layout_field = cv_uint (vs ! 1)\<rparr>"
  by unfold_locales (simp add: row_defs row_read)

interpretation r_stand_alone_sig: row_type T_StandAloneSig StandAloneSigRow_decode
  "\<lambda>vs. \<lparr>stand_alone_sig_signature = cv_uint (vs ! 0)\<rparr>"
  by unfold_locales (simp add: row_defs row_read)

interpretation r_event_map: row_type T_EventMap EventMapRow_decode
  "\<lambda>vs. \<lparr>event_map_parent = cv_uint (vs ! 0), event_map_event_list = cv_uint (vs ! 1)\<rparr>"
  by unfold_locales (simp add: row_defs row_read)

interpretation r_event_ptr: row_type T_EventPtr EventPtrRow_decode
  "\<lambda>vs. \<lparr>event_ptr_event = cv_uint (vs ! 0)\<rparr>"
  by unfold_locales (simp add: row_defs row_read)

interpretation r_event: row_type T_Event EventRow_decode
  "\<lambda>vs. \<lparr>event_event_flags = ucast (cv_uint (vs ! 0)), event_name = cv_uint (vs ! 1),
     event_event_type = cv_token (vs ! 2)\<rparr>"
  by unfold_locales (simp add: row_defs row_read)

interpretation r_property_map: row_type T_PropertyMap PropertyMapRow_decode
  "\<lambda>vs. \<lparr>property_map_parent = cv_uint (vs ! 0), property_map_property_list = cv_uint (vs ! 1)\<rparr>"
  by unfold_locales (simp add: row_defs row_read)

interpretation r_property_ptr: row_type T_PropertyPtr PropertyPtrRow_decode
  "\<lambda>vs. \<lparr>property_ptr_property = cv_uint (vs ! 0)\<rparr>"
  by unfold_locales (simp add: row_defs row_read)

interpretation r_property: row_type T_Property PropertyRow_decode
  "\<lambda>vs. \<lparr>property_flags = ucast (cv_uint (vs ! 0)), property_name = cv_uint (vs ! 1),
     property_type_signature = cv_uint (vs ! 2)\<rparr>"
  by unfold_locales (simp add: row_defs row_read)

interpretation r_method_semantics: row_type T_MethodSemantics MethodSemanticsRow_decode
  "\<lambda>vs. \<lparr>method_semantics_semantics = ucast (cv_uint (vs ! 0)),
     method_semantics_method = cv_uint (vs ! 1),
     method_semantics_association = cv_token (vs ! 2)\<rparr>"
  by unfold_locales (simp add: row_defs row_read)

interpretation r_method_impl: row_type T_MethodImpl MethodImplRow_decode
  "\<lambda>vs. \<lparr>method_impl_class = cv_uint (vs ! 0), method_impl_method_body = cv_token (vs ! 1),
     method_impl_method_declaration = cv_token (vs ! 2)\<rparr>"
  by unfold_locales (simp add: row_defs row_read)

interpretation r_module_ref: row_type T_ModuleRef ModuleRefRow_decode
  "\<lambda>vs. \<lparr>module_ref_name = cv_uint (vs ! 0)\<rparr>"
  by unfold_locales (simp add: row_defs row_read)

interpretation r_type_spec: row_type T_TypeSpec TypeSpecRow_decode
  "\<lambda>vs. \<lparr>type_spec_signature = cv_uint (vs ! 0)\<rparr>"
  by unfold_locales (simp add: row_defs row_read)

interpretation r_impl_map: row_type T_ImplMap ImplMapRow_decode
  "\<lambda>vs. \<lparr>impl_map_mapping_flags = ucast (cv_uint (vs ! 0)),
     impl_map_member_forwarded = cv_token (vs ! 1), impl_map_import_name = cv_uint (vs ! 2),
     impl_map_import_scope = cv_uint (vs ! 3)\<rparr>"
  by unfold_locales (simp add: row_defs row_read)

interpretation r_field_rva: row_type T_FieldRva FieldRvaRow_decode
  "\<lambda>vs. \<lparr>field_rva_rva = cv_uint (vs ! 0), field_rva_field = cv_uint (vs ! 1)\<rparr>"
  by unfold_locales (simp add: row_defs row_read)

interpretation r_enc_log: row_type T_EncLog EncLogRow_decode
  "\<lambda>vs. \<lparr>enc_log_token = cv_uint (vs ! 0), enc_log_func_code = cv_uint (vs ! 1)\<rparr>"
  by unfold_locales (simp add: row_defs row_read)

interpretation r_enc_map: row_type T_EncMap EncMapRow_decode
  "\<lambda>vs. \<lparr>enc_map_token = cv_uint (vs ! 0)\<rparr>"
  by unfold_locales (simp add: row_defs row_read)

interpretation r_assembly: row_type T_Assembly AssemblyRow_decode
  "\<lambda>vs. \<lparr>assembly_hash_alg_id = cv_uint (vs ! 0),
     assembly_major_version = ucast (cv_uint (vs ! 1)),
     assembly_minor_version = ucast (cv_uint (vs ! 2)),
     assembly_build_number = ucast (cv_uint (vs ! 3)),
     assembly_revision_number = ucast (cv_uint (vs ! 4)), assembly_flags = cv_uint (vs ! 5),
     assembly_public_key = cv_uint (vs ! 6), assembly_name = cv_uint (vs ! 7),
     assembly_culture = cv_uint (vs ! 8)\<rparr>"
  by unfold_locales (simp add: row_defs row_read)

interpretation r_assembly_processor: row_type T_AssemblyProcessor AssemblyProcessorRow_decode
  "\<lambda>vs. \<lparr>assembly_processor_processor = cv_uint (vs ! 0)\<rparr>"
  by unfold_locales (simp add: row_defs row_read)

interpretation r_assembly_os: row_type T_AssemblyOs AssemblyOsRow_decode
  "\<lambda>vs. \<lparr>assembly_os_os_platform_id = cv_uint (vs ! 0),
     assembly_os_os_major_version = cv_uint (vs ! 1),
     assembly_os_os_minor_version = cv_uint (vs ! 2)\<rparr>"
  by unfold_locales (simp add: row_defs row_read)

interpretation r_assembly_ref: row_type T_AssemblyRef AssemblyRefRow_decode
  "\<lambda>vs. \<lparr>assembly_ref_major_version = ucast (cv_uint (vs ! 0)),
     assembly_ref_minor_version = ucast (cv_uint (vs ! 1)),
     assembly_ref_build_number = ucast (cv_uint (vs ! 2)),
     assembly_ref_revision_number = ucast (cv_uint (vs ! 3)),
     assembly_ref_flags = cv_uint (vs ! 4),
     assembly_ref_public_key_or_token = cv_uint (vs ! 5),
     assembly_ref_name = cv_uint (vs ! 6), assembly_ref_culture = cv_uint (vs ! 7),
     assembly_ref_hash_value = cv_uint (vs ! 8)\<rparr>"
  by unfold_locales (simp add: row_defs row_read)

interpretation r_assembly_ref_processor: row_type T_AssemblyRefProcessor AssemblyRefProcessorRow_decode
  "\<lambda>vs. \<lparr>assembly_ref_processor_processor = cv_uint (vs ! 0),
     assembly_ref_processor_assembly_ref = cv_uint (vs ! 1)\<rparr>"
  by unfold_locales (simp add: row_defs row_read)

interpretation r_assembly_ref_os: row_type T_AssemblyRefOs AssemblyRefOsRow_decode
  "\<lambda>vs. \<lparr>assembly_ref_os_os_platform_id = cv_uint (vs ! 0),
     assembly_ref_os_os_major_version = cv_uint (vs ! 1),
     assembly_ref_os_os_minor_version = cv_uint (vs ! 2),
     assembly_ref_os_assembly_ref = cv_uint (vs ! 3)\<rparr>"
  by unfold_locales (simp add: row_defs row_read)

interpretation r_file: row_type T_File FileRow_decode
  "\<lambda>vs. \<lparr>file_flags = cv_uint (vs ! 0), file_name = cv_uint (vs ! 1),
     file_hash_value = cv_uint (vs ! 2)\<rparr>"
  by unfold_locales (simp add: row_defs row_read)

interpretation r_exported_type: row_type T_ExportedType ExportedTypeRow_decode
  "\<lambda>vs. \<lparr>exported_type_flags = cv_uint (vs ! 0), exported_type_type_def_id = cv_uint (vs ! 1),
     exported_type_type_name = cv_uint (vs ! 2),
     exported_type_type_namespace = cv_uint (vs ! 3),
     exported_type_implementation = cv_token (vs ! 4)\<rparr>"
  by unfold_locales (simp add: row_defs row_read)

interpretation r_manifest_resource: row_type T_ManifestResource ManifestResourceRow_decode
  "\<lambda>vs. \<lparr>manifest_resource_offset = cv_uint (vs ! 0),
     manifest_resource_flags = cv_uint (vs ! 1), manifest_resource_name = cv_uint (vs ! 2),
     manifest_resource_implementation = cv_token (vs ! 3)\<rparr>"
  by unfold_locales (simp add: row_defs row_read)

interpretation r_nested_class: row_type T_NestedClass NestedClassRow_decode
  "\<lambda>vs. \<lparr>nested_class_nested_class = cv_uint (vs ! 0),
     nested_class_enclosing_class = cv_uint (vs ! 1)\<rparr>"
  by unfold_locales (simp add: row_defs row_read)

interpretation r_generic_param: row_type T_GenericParam GenericParamRow_decode
  "\<lambda>vs. \<lparr>generic_param_number = ucast (cv_uint (vs ! 0)),
     generic_param_flags = ucast (cv_uint (vs ! 1)),
     generic_param_owner = cv_token (vs ! 2), generic_param_name = cv_uint (vs ! 3)\<rparr>"
  by unfold_locales (simp add: row_defs row_read)

interpretation r_method_spec: row_type T_MethodSpec MethodSpecRow_decode
  "\<lambda>vs. \<lparr>method_spec_method = cv_token (vs ! 0), method_spec_instantiation = cv_uint (vs ! 1)\<rparr>"
  by unfold_locales (simp add: row_defs row_read)

interpretation r_generic_param_constraint: row_type T_GenericParamConstraint GenericParamConstraintRow_decode
  "\<lambda>vs. \<lparr>generic_param_constraint_owner = cv_uint (vs ! 0),
     generic_param_constraint_constraint = cv_token (vs ! 1)\<rparr>"
  by unfold_locales (simp add: row_defs row_read)

interpretation r_document: row_type T_Document DocumentRow_decode
  "\<lambda>vs. \<lparr>document_name = cv_uint (vs ! 0), document_hash_algorithm = cv_uint (vs ! 1),
     document_hash = cv_uint (vs ! 2), document_language = cv_uint (vs ! 3)\<rparr>"
  by unfold_locales (simp add: row_defs row_read)

interpretation r_method_debug_information: row_type T_MethodDebugInformation MethodDebugInformationRow_decode
  "\<lambda>vs. \<lparr>method_debug_information_document = cv_uint (vs ! 0),
     method_debug_information_sequence_points = cv_uint (vs ! 1)\<rparr>"
  by unfold_locales (simp add: row_defs row_read)

interpretation r_local_scope: row_type T_LocalScope LocalScopeRow_decode
  "\<lambda>vs. \<lparr>local_scope_method = cv_uint (vs ! 0), local_scope_import_scope = cv_uint (vs ! 1),
     local_scope_variable_list = cv_uint (vs ! 2),
     local_scope_constant_list = cv_uint (vs ! 3),
     local_scope_start_offset = cv_uint (vs ! 4), local_scope_length = cv_uint (vs ! 5)\<rparr>"
  by unfold_locales (simp add: row_defs row_read)

interpretation r_local_variable: row_type T_LocalVariable LocalVariableRow_decode
  "\<lambda>vs. \<lparr>local_variable_attributes = ucast (cv_uint (vs ! 0)),
     local_variable_index = ucast (cv_uint (vs ! 1)), local_variable_name = cv_uint (vs ! 2)\<rparr>"
  by unfold_locales (simp add: row_defs row_read)

interpretation r_local_constant: row_type T_LocalConstant LocalConstantRow_decode
  "\<lambda>vs. \<lparr>local_constant_name = cv_uint (vs ! 0), local_constant_signature = cv_uint (vs ! 1)\<rparr>"
  by unfold_locales (simp add: row_defs row_read)

interpretation r_import_scope: row_type T_ImportScope ImportScopeRow_decode
  "\<lambda>vs. \<lparr>import_scope_parent = cv_uint (vs ! 0), import_scope_imports = cv_uint (vs ! 1)\<rparr>"
  by unfold_locales (simp add: row_defs row_read)

interpretation r_state_machine_method: row_type T_StateMachineMethod StateMachineMethodRow_decode
  "\<lambda>vs. \<lparr>state_machine_method_move_next_method = cv_uint (vs ! 0),
     state_machine_method_kickoff_method = cv_uint (vs ! 1)\<rparr>"
  by unfold_locales (simp add: row_defs row_read)

interpretation r_custom_debug_information: row_type T_CustomDebugInformation CustomDebugInformationRow_decode
  "\<lambda>vs. \<lparr>custom_debug_information_parent = cv_token (vs ! 0),
     custom_debug_information_kind = cv_uint (vs ! 1),
     custom_debug_information_value = cv_uint (vs ! 2)\<rparr>"
  by unfold_locales (simp add: row_defs row_read)

end
