(* ===== verification/Codec.thy ===== *)
theory Codec
  imports Reader
begin

text \<open>
  Writers for the fixed-width reads. \<open>fixed_codec\<close> extends the contract of a fixed-width read by
  the encoding it inverts: the bytes read are the encoding of the value and of no other. The
  decoders of instructions, method bodies and table rows are shown exact against encodings
  built from these.
\<close>

locale fixed_codec = fixed_read rd width val
  for rd :: "reader \<Rightarrow> ('a \<times> reader) result" and width :: nat and val :: "bytes \<Rightarrow> 'a" +
  fixes enc :: "'a \<Rightarrow> bytes"
    and ok :: "'a \<Rightarrow> bool"
  assumes val_iff: "length bs = width \<Longrightarrow> val bs = v \<longleftrightarrow> ok v \<and> bs = enc v"
begin

lemma Ok_enc:
  assumes "reader_wf r"
  shows "rd r = Ok (v, r') \<longleftrightarrow>
     ok v \<and> length (enc v) = width \<and> (\<exists>ys. drop (r_pos r) (r_data r) = enc v @ ys) \<and> r' = reader_adv r width"
    (is "?l \<longleftrightarrow> ?r")
proof
  assume ?l
  then have *: "r_pos r + width \<le> length (r_data r)" "v = val (reader_at r width)" "r' = reader_adv r width"
    using assms by (auto simp: Ok_iff)
  then have "length (reader_at r width) = width" by simp
  with val_iff [OF this, of v] * show ?r by (metis append_take_drop_id)
next
  assume r: ?r
  then obtain ys where ys: "drop (r_pos r) (r_data r) = enc v @ ys" and l: "length (enc v) = width" by blast
  have "val (enc v) = v" using val_iff [OF l] r by blast
  with on_prefix [OF assms ys l] r show ?l by simp
qed

lemma Ok_width: "reader_wf r \<Longrightarrow> rd r = Ok (v, r') \<Longrightarrow> ok v \<and> length (enc v) = width"
  by (simp add: Ok_enc)

end

definition le2 :: "u16 \<Rightarrow> bytes" where "le2 w = to_le_bytes 2 w"
definition le4 :: "u32 \<Rightarrow> bytes" where "le4 w = to_le_bytes 4 w"
definition le8 :: "u64 \<Rightarrow> bytes" where "le8 w = to_le_bytes 8 w"

definition i8_ok :: "int \<Rightarrow> bool" where "i8_ok v \<longleftrightarrow> - (2 ^ 7) \<le> v \<and> v < 2 ^ 7"
definition i32_ok :: "int \<Rightarrow> bool" where "i32_ok v \<longleftrightarrow> - (2 ^ 31) \<le> v \<and> v < 2 ^ 31"
definition i64_ok :: "int \<Rightarrow> bool" where "i64_ok v \<longleftrightarrow> - (2 ^ 63) \<le> v \<and> v < 2 ^ 63"

lemma length_le [simp]: "length (le2 a) = 2" "length (le4 b) = 4" "length (le8 c) = 8"
  by (simp_all add: le2_def le4_def le8_def)

lemma from_le_le [simp]:
  "from_le_bytes (le2 a) = a" "from_le_bytes (le4 b) = b" "from_le_bytes (le8 c) = c"
  by (simp_all add: le2_def le4_def le8_def from_to_le_bytes)

lemma from_le_iff:
  "length bs = 2 \<Longrightarrow> from_le_bytes bs = a \<longleftrightarrow> bs = le2 a"
  "length bs = 4 \<Longrightarrow> from_le_bytes bs = b \<longleftrightarrow> bs = le4 b"
  "length bs = 8 \<Longrightarrow> from_le_bytes bs = c \<longleftrightarrow> bs = le8 c"
  using to_from_le_bytes [of bs, where 'a = 16] to_from_le_bytes [of bs, where 'a = 32]
    to_from_le_bytes [of bs, where 'a = 64]
  by (auto simp: le2_def le4_def le8_def from_to_le_bytes)

lemma sint_eq_iff:
  "sint (w :: u8) = v \<longleftrightarrow> i8_ok v \<and> w = word_of_int v"
  "sint (x :: u32) = v \<longleftrightarrow> i32_ok v \<and> x = word_of_int v"
  "sint (y :: u64) = v \<longleftrightarrow> i64_ok v \<and> y = word_of_int v"
  using sint_range_size [of w] sint_range_size [of x] sint_range_size [of y]
  by (auto simp: i8_ok_def i32_ok_def i64_ok_def word_size signed_take_bit_int_eq_self
      sint_sbintrunc')

lemma singleton_iff: "length bs = 1 \<Longrightarrow> hd bs = x \<longleftrightarrow> bs = [x]"
  by (cases bs) auto

interpretation cd_u8: fixed_codec reader_u8 1 hd "\<lambda>b. [b]" "\<lambda>_. True"
  by unfold_locales (simp add: singleton_iff)

interpretation cd_i8: fixed_codec reader_i8 1 "\<lambda>b. sint (hd b)" "\<lambda>v. [word_of_int v]" i8_ok
  by unfold_locales (simp add: sint_eq_iff singleton_iff)

interpretation cd_u16: fixed_codec reader_u16 2 from_le_bytes le2 "\<lambda>_. True"
  by unfold_locales (simp add: from_le_iff)

interpretation cd_u32: fixed_codec reader_u32 4 from_le_bytes le4 "\<lambda>_. True"
  by unfold_locales (simp add: from_le_iff)

interpretation cd_f32: fixed_codec reader_f32 4 from_le_bytes le4 "\<lambda>_. True"
  by unfold_locales (simp add: from_le_iff)

interpretation cd_u64: fixed_codec reader_u64 8 from_le_bytes le8 "\<lambda>_. True"
  by unfold_locales (simp add: from_le_iff)

interpretation cd_f64: fixed_codec reader_f64 8 from_le_bytes le8 "\<lambda>_. True"
  by unfold_locales (simp add: from_le_iff)

interpretation cd_i32: fixed_codec reader_i32 4 "\<lambda>b. sint (from_le_bytes b :: u32)"
    "\<lambda>v. le4 (word_of_int v)" i32_ok
  by unfold_locales (simp add: sint_eq_iff from_le_iff)

interpretation cd_i64: fixed_codec reader_i64 8 "\<lambda>b. sint (from_le_bytes b :: u64)"
    "\<lambda>v. le8 (word_of_int v)" i64_ok
  by unfold_locales (simp add: sint_eq_iff from_le_iff)

lemmas codec_iff =
  cd_u8.Ok_enc cd_i8.Ok_enc cd_u16.Ok_enc cd_u32.Ok_enc cd_u64.Ok_enc cd_i32.Ok_enc cd_i64.Ok_enc
  cd_f32.Ok_enc cd_f64.Ok_enc

text \<open>Where a reader stands after reading an encoding.\<close>

lemma drop_adv:
  "drop (r_pos r) (r_data r) = xs @ ys \<Longrightarrow>
     drop (r_pos (reader_adv r (length xs))) (r_data (reader_adv r (length xs))) = ys"
  by (metis append_eq_conv_conj drop_drop reader.simps(1,2) reader.update_convs(2)
      reader.surjective add.commute)

lemma adv_wf:
  "reader_wf r \<Longrightarrow> drop (r_pos r) (r_data r) = xs @ ys \<Longrightarrow> reader_wf (reader_adv r (length xs))"
proof -
  assume w: "reader_wf r" and d: "drop (r_pos r) (r_data r) = xs @ ys"
  have "length (r_data r) - r_pos r = length xs + length ys" using arg_cong [OF d, of length] by simp
  with w show ?thesis by (auto simp: reader_wf_def)
qed

text \<open>Reads move forward inside the slice, whatever state the cursor is in.\<close>

definition moves :: "reader \<Rightarrow> nat \<Rightarrow> reader \<Rightarrow> bool" where
  "moves r n r' \<longleftrightarrow> r_data r' = r_data r \<and> r_base r' = r_base r \<and> r_context r' = r_context r
     \<and> r_pos r + n \<le> r_pos r' \<and> r_pos r' \<le> length (r_data r')"

lemma moves_trans: "moves r a r1 \<Longrightarrow> moves r1 b r2 \<Longrightarrow> moves r (a + b) r2"
  by (auto simp: moves_def)

lemma moves_weaken: "moves r a r1 \<Longrightarrow> b \<le> a \<Longrightarrow> moves r b r1"
  by (auto simp: moves_def)

lemma reads_move:
  "reader_take n r = Ok (b, r') \<Longrightarrow> moves r n r'"
  "reader_u8 r = Ok (x, r') \<Longrightarrow> moves r 1 r'"
  "reader_u16 r = Ok (y, r') \<Longrightarrow> moves r 2 r'"
  "reader_u32 r = Ok (z, r') \<Longrightarrow> moves r 4 r'"
  "reader_align_to r o' a = Ok r' \<Longrightarrow> moves r 0 r'"
  by (auto simp: moves_def reader_take_def reader_u8_def reader_u16_def reader_u32_def
      reader_align_to_def reader_skip_def checked_add_def res_iff Let_def split: if_splits)

lemma moves_wf: "moves r n r' \<Longrightarrow> slice_ok (r_data r) \<Longrightarrow> reader_wf r'"
  by (auto simp: moves_def reader_wf_def)

text \<open>
  A safe read does not panic on a cursor inside its slice and leaves it there, further on. Reads
  composed the way the decoders compose them are safe.
\<close>

definition rd_safe :: "(reader \<Rightarrow> ('a \<times> reader) result) \<Rightarrow> bool" where
  "rd_safe rd \<longleftrightarrow> (\<forall>r. reader_wf r \<longrightarrow> no_panic (rd r) \<and> (\<forall>x r'. rd r = Ok (x, r') \<longrightarrow> moves r 0 r'))"

named_theorems safe_intro \<open>safe reads\<close>

lemma rd_safeI:
  "(\<And>r. reader_wf r \<Longrightarrow> no_panic (rd r)) \<Longrightarrow> (\<And>r x r'. reader_wf r \<Longrightarrow> rd r = Ok (x, r') \<Longrightarrow> moves r 0 r')
     \<Longrightarrow> rd_safe rd"
  by (simp add: rd_safe_def)

lemma rd_safeD:
  assumes "rd_safe rd" and "reader_wf r"
  shows "no_panic (rd r)" and "rd r = Ok (x, r') \<Longrightarrow> moves r 0 r'" and "rd r = Ok (x, r') \<Longrightarrow> reader_wf r'"
  using assms moves_wf [of r 0 r'] by (auto simp: rd_safe_def reader_wf_def)

lemma safe_return [safe_intro]: "rd_safe (\<lambda>r. Ok (x, r))"
  by (auto simp: rd_safe_def moves_def reader_wf_def)

lemma safe_fail [safe_intro]: "rd_safe (\<lambda>r. Err (e r))"
  by (auto simp: rd_safe_def)

lemma safe_if [safe_intro]: "rd_safe f \<Longrightarrow> rd_safe g \<Longrightarrow> rd_safe (\<lambda>r. if b then f r else g r)"
  by (cases b) auto

lemma safe_bind [safe_intro]:
  assumes "rd_safe rd" and "\<And>x. rd_safe (f x)"
  shows "rd_safe (\<lambda>r. res_bind (rd r) (\<lambda>(x, r). f x r))"
proof (rule rd_safeI)
  fix r assume w: "reader_wf r"
  note a = rd_safeD [OF assms(1) w]
  show "no_panic (res_bind (rd r) (\<lambda>(x, r). f x r))"
    using a rd_safeD(1) [OF assms(2)] by (cases "rd r") auto
  fix y r' assume "res_bind (rd r) (\<lambda>(x, r). f x r) = Ok (y, r')"
  then obtain x r1 where 1: "rd r = Ok (x, r1)" "f x r1 = Ok (y, r')" by (auto simp: res_bind_Ok_iff)
  from rd_safeD(2) [OF assms(2) a(3) [OF 1(1)] 1(2)] a(2) [OF 1(1)] show "moves r 0 r'"
    by (auto simp: moves_def)
qed

lemma safe_pure [safe_intro]:
  "(\<And>r. no_panic (m r)) \<Longrightarrow> (\<And>x. rd_safe (f x)) \<Longrightarrow> rd_safe (\<lambda>r. res_bind (m r) (\<lambda>x. f x r))"
  by (rule rd_safeI) (auto simp: res_iff dest: rd_safeD)

context fixed_read
begin

lemma safe: "rd_safe rd"
  by (rule rd_safeI) (auto simp: total Ok_iff moves_def)

end

lemmas safe_reads [safe_intro] =
  rd_take.safe rd_u8.safe rd_i8.safe rd_u16.safe rd_u32.safe rd_u64.safe rd_i32.safe rd_i64.safe

section \<open>Cursors by what is left to read\<close>

definition reader_on :: "reader \<Rightarrow> bytes \<Rightarrow> bool" where
  "reader_on r xs \<longleftrightarrow> reader_wf r \<and> drop (r_pos r) (r_data r) = xs"

lemma reader_on_new [simp]: "reader_on (reader_new d b c) xs \<longleftrightarrow> slice_ok d \<and> xs = d"
  by (auto simp: reader_on_def)

lemma reader_on_adv:
  "reader_on r (xs @ ys) \<Longrightarrow> n = length xs \<Longrightarrow> reader_on (reader_adv r n) ys"
  using adv_wf [of r xs ys] drop_adv [of r xs ys] by (simp add: reader_on_def)

context fixed_codec
begin

lemma on_enc:
  assumes "reader_on r (enc v @ ys)" and "ok v" and "length (enc v) = width"
  shows "rd r = Ok (v, reader_adv r width)" and "reader_on (reader_adv r width) ys"
  using assms reader_on_adv [OF assms(1)] by (auto simp: reader_on_def Ok_enc)

end

text \<open>The same with the new cursor left abstract, which keeps the terms of a long read small.\<close>

definition reads_to :: "(reader \<Rightarrow> ('a \<times> reader) result) \<Rightarrow> reader \<Rightarrow> 'a \<Rightarrow> nat \<Rightarrow> bytes \<Rightarrow> reader \<Rightarrow> bool" where
  "reads_to rd r v n ys r' \<longleftrightarrow> rd r = Ok (v, r') \<and> reader_on r' ys \<and> r_pos r' = r_pos r + n
     \<and> r_data r' = r_data r"

lemma reads_toD:
  assumes "reads_to rd r v n ys r'"
  shows "rd r = Ok (v, r')" "reader_on r' ys" "r_pos r' = r_pos r + n" "r_data r' = r_data r"
  using assms by (simp_all add: reads_to_def)

context fixed_codec
begin

lemma step:
  assumes "reader_on r (enc v @ ys)" and "ok v" and "length (enc v) = width"
  obtains r' where "reads_to rd r v width ys r'"
  using on_enc [OF assms] by (simp add: reads_to_def)

end

lemma on_take:
  assumes "reader_on r (xs @ ys)" and "n = length xs"
  shows "reader_take n r = Ok (xs, reader_adv r n)" and "reader_on (reader_adv r n) ys"
  using assms reader_on_adv [OF assms] rd_take.on_prefix [of r xs ys n] by (auto simp: reader_on_def)

lemma step_take:
  assumes "reader_on r (xs @ ys)" and "n = length xs"
  obtains r' where "reads_to (reader_take n) r xs n ys r'"
  using on_take [OF assms] by (simp add: reads_to_def)

lemma step_u8:
  assumes "reader_on r (b # ys)"
  obtains r' where "reads_to reader_u8 r b 1 ys r'"
  using cd_u8.step [of r b ys] assms by auto

lemma step_u16:
  assumes "reader_on r (le2 w @ ys)"
  obtains r' where "reads_to reader_u16 r w 2 ys r'"
  using cd_u16.step [of r w ys] assms by auto

lemma step_u32:
  assumes "reader_on r (le4 w @ ys)"
  obtains r' where "reads_to reader_u32 r w 4 ys r'"
  using cd_u32.step [of r w ys] assms by auto

end
