(* ===== verification/Iter.thy ===== *)
theory Iter
  imports Errors
begin

text \<open>
  The iterators of the crate share one contract. A \<open>next\<close> method is a function from the
  iterator's state to an outcome: no further item, or an item with the new state. What a
  caller sees by exhausting an iterator is \<open>drain\<close>, with a bound on the number of items so
  that an iterator that never ends would show as \<open>None\<close>.

  The locale \<open>shrinking_iter\<close> says that every item uses up some of a measure, hence that
  exhausting the iterator takes at most that many items. The locale \<open>tiling_iter\<close> says more:
  items start where the previous one ended and stay within a bound. Both are interpreted on
  the iterators of the heaps, of the instruction decoder and of the tables.
\<close>

type_synonym ('s, 'x) stepper = "'s \<Rightarrow> ('x \<times> 's) option result"

fun drain :: "nat \<Rightarrow> ('s, 'x) stepper \<Rightarrow> 's \<Rightarrow> 'x list option result" where
  "drain 0 nxt s =
     res_bind (nxt s) (\<lambda>r. case r of None \<Rightarrow> Ok (Some []) | Some _ \<Rightarrow> Ok None)"
| "drain (Suc n) nxt s =
     res_bind (nxt s) (\<lambda>r. case r of
         None \<Rightarrow> Ok (Some [])
       | Some (x, s') \<Rightarrow> res_bind (drain n nxt s') (\<lambda>t. Ok (map_option (\<lambda>xs. x # xs) t)))"

text \<open>The items \<open>xs\<close> tile the interval from \<open>p\<close> to \<open>q\<close> without gap or overlap.\<close>

fun tiles :: "('x \<Rightarrow> nat) \<Rightarrow> ('x \<Rightarrow> nat) \<Rightarrow> nat \<Rightarrow> 'x list \<Rightarrow> nat \<Rightarrow> bool" where
  "tiles st sz p [] q \<longleftrightarrow> p = q"
| "tiles st sz p (x # xs) q \<longleftrightarrow> st x = p \<and> 0 < sz x \<and> tiles st sz (p + sz x) xs q"

lemma tiles_le: "tiles st sz p xs q \<Longrightarrow> p + length xs \<le> q"
  by (induction xs arbitrary: p) fastforce+

lemma tiles_append:
  "tiles st sz p (xs @ ys) q \<longleftrightarrow> (\<exists>m. tiles st sz p xs m \<and> tiles st sz m ys q)"
  by (induction xs arbitrary: p) auto

lemma tiles_nth:
  assumes "tiles st sz p xs q" and "i < length xs"
  shows "p \<le> st (xs ! i)" "st (xs ! i) + sz (xs ! i) \<le> q" "0 < sz (xs ! i)"
proof -
  have "p \<le> st (xs ! i) \<and> st (xs ! i) + sz (xs ! i) \<le> q \<and> 0 < sz (xs ! i)"
    using assms
  proof (induction xs arbitrary: p i)
    case (Cons x xs)
    then show ?case by (cases i) (force dest: tiles_le)+
  qed simp
  then show "p \<le> st (xs ! i)" "st (xs ! i) + sz (xs ! i) \<le> q" "0 < sz (xs ! i)" by auto
qed

lemma tiles_disjoint:
  assumes "tiles st sz p xs q" and "i < j" and "j < length xs"
  shows "st (xs ! i) + sz (xs ! i) \<le> st (xs ! j)"
  using assms
proof (induction xs arbitrary: p i j)
  case (Cons x xs)
  then obtain k where j: "j = Suc k" by (cases j) auto
  show ?case
  proof (cases i)
    case 0
    with Cons.prems j tiles_nth(1) [of st sz "p + sz x" xs q k] show ?thesis by auto
  next
    case (Suc h)
    with Cons j show ?thesis by auto
  qed
qed simp

section \<open>Iterators that use up a measure\<close>

locale shrinking_iter =
  fixes nxt :: "('s, 'x) stepper"
    and inv :: "'s \<Rightarrow> bool"
    and left :: "'s \<Rightarrow> nat"
  assumes step_total: "inv s \<Longrightarrow> \<exists>r. nxt s = Ok r"
    and step_inv: "inv s \<Longrightarrow> nxt s = Ok (Some (x, s')) \<Longrightarrow> inv s'"
    and step_left: "inv s \<Longrightarrow> nxt s = Ok (Some (x, s')) \<Longrightarrow> left s' < left s"
begin

lemma ends:
  assumes "inv s" and "left s \<le> n"
  shows "\<exists>xs. drain n nxt s = Ok (Some xs) \<and> length xs \<le> left s"
  using assms
proof (induction n arbitrary: s)
  case 0
  from step_total [OF 0(1)] obtain r where "nxt s = Ok r" by blast
  moreover have "r = None" using step_left [OF 0(1)] 0(2) calculation by (cases r) fastforce+
  ultimately show ?case by simp
next
  case (Suc n)
  from step_total [OF Suc.prems(1)] obtain r where r: "nxt s = Ok r" by blast
  show ?case
  proof (cases r)
    case (Some p)
    obtain x s' where p: "p = (x, s')" by (cases p)
    note l = step_left [OF Suc.prems(1) r [unfolded Some p]]
    obtain xs where "drain n nxt s' = Ok (Some xs)" "length xs \<le> left s'"
      using Suc.IH [OF step_inv [OF Suc.prems(1) r [unfolded Some p]]] l Suc.prems(2) by auto
    with l show ?thesis by (simp add: r Some p)
  qed (simp add: r)
qed

lemma fuel_irrelevant:
  assumes "inv s" and "left s \<le> n" and "left s \<le> m"
  shows "drain n nxt s = drain m nxt s"
  using assms
proof (induction n arbitrary: s m)
  case 0
  from step_total [OF 0(1)] obtain r where r: "nxt s = Ok r" by blast
  have "r = None" using step_left [OF 0(1)] 0(2) r by (cases r) fastforce+
  with r show ?case by (cases m) simp_all
next
  case (Suc n)
  from step_total [OF Suc.prems(1)] obtain r where r: "nxt s = Ok r" by blast
  show ?case
  proof (cases r)
    case None
    with r show ?thesis by (cases m) simp_all
  next
    case (Some p)
    obtain x s' where p: "p = (x, s')" by (cases p)
    note l = step_left [OF Suc.prems(1) r [unfolded Some p]]
    with Suc.prems(3) obtain k where m: "m = Suc k" by (cases m) auto
    have "drain n nxt s' = drain k nxt s'"
      using step_inv [OF Suc.prems(1) r [unfolded Some p]] l Suc.prems m by (intro Suc.IH) auto
    then show ?thesis by (simp add: r Some p m)
  qed
qed

end

section \<open>Iterators that walk through a buffer\<close>

locale tiling_iter =
  fixes nxt :: "('s, 'x) stepper"
    and inv :: "'s \<Rightarrow> bool"
    and pos :: "'s \<Rightarrow> nat"
    and bound :: nat
    and item_start :: "'x \<Rightarrow> nat"
    and item_size :: "'x \<Rightarrow> nat"
  assumes walk_total: "inv s \<Longrightarrow> \<exists>r. nxt s = Ok r"
    and walk_inv: "inv s \<Longrightarrow> nxt s = Ok (Some (x, s')) \<Longrightarrow> inv s'"
    and walk_item: "inv s \<Longrightarrow> nxt s = Ok (Some (x, s')) \<Longrightarrow>
        item_start x = pos s \<and> 0 < item_size x \<and> pos s' = pos s + item_size x"
    and walk_bound: "inv s \<Longrightarrow> pos s \<le> bound"

sublocale tiling_iter \<subseteq> walk: shrinking_iter nxt inv "\<lambda>s. bound - pos s"
proof
  fix s x s'
  assume s: "inv s" "nxt s = Ok (Some (x, s'))"
  note walk_item [OF s] walk_bound [OF walk_inv [OF s]]
  then show "bound - pos s' < bound - pos s" by auto
qed (use walk_total walk_inv in blast)+

context tiling_iter
begin

text \<open>
  Exhausting such an iterator gives items that tile the buffer from the start position to the
  position it stopped at; every item was produced there, and the iterator has nothing more to
  say at the end.
\<close>

lemma tiled:
  assumes "inv s" and "bound - pos s \<le> n"
  shows "\<exists>xs s'. drain n nxt s = Ok (Some xs) \<and> tiles item_start item_size (pos s) xs (pos s')
      \<and> inv s' \<and> nxt s' = Ok None
      \<and> list_all (\<lambda>x. \<exists>t t'. inv t \<and> pos t = item_start x \<and> nxt t = Ok (Some (x, t'))) xs"
  using assms
proof (induction n arbitrary: s)
  case 0
  from walk.ends [OF 0] obtain xs where xs: "drain 0 nxt s = Ok (Some xs)" by blast
  from walk_total [OF 0(1)] obtain r where "nxt s = Ok r" by blast
  with xs have "nxt s = Ok None" "xs = []" by (cases r; simp)+
  with xs 0(1) show ?case by (intro exI [of _ xs] exI [of _ s]) simp
next
  case (Suc n)
  from walk_total [OF Suc.prems(1)] obtain r where r: "nxt s = Ok r" by blast
  show ?case
  proof (cases r)
    case None
    with r Suc.prems(1) show ?thesis by (intro exI [of _ "[]"] exI [of _ s]) simp
  next
    case (Some p)
    obtain x s1 where p: "p = (x, s1)" by (cases p)
    note st = Suc.prems(1) r [unfolded Some p]
    have "bound - pos s1 \<le> n" using walk_item [OF st] Suc.prems(2) by auto
    from Suc.IH [OF walk_inv [OF st] this] obtain xs s' where *:
      "drain n nxt s1 = Ok (Some xs)" "tiles item_start item_size (pos s1) xs (pos s')"
      "inv s'" "nxt s' = Ok None"
      "list_all (\<lambda>x. \<exists>t t'. inv t \<and> pos t = item_start x \<and> nxt t = Ok (Some (x, t'))) xs"
      by blast
    have "drain (Suc n) nxt s = Ok (Some (x # xs))" using * by (simp add: r Some p)
    moreover have "tiles item_start item_size (pos s) (x # xs) (pos s')"
      using * walk_item [OF st] by simp
    moreover have "\<exists>t t'. inv t \<and> pos t = item_start x \<and> nxt t = Ok (Some (x, t'))"
      using st walk_item [OF st] by auto
    ultimately show ?thesis using *(3-5) by (intro exI [of _ "x # xs"] exI [of _ s']) simp
  qed
qed

end

end
