(* ===== verification/Tables.thy ===== *)
theory Tables
  imports Rows Codec Iter
begin

text \<open>
  The metadata table stream (\<open>src/tables/mod.rs\<close>): parsing the stream header, the geometry of
  the tables, access to rows and columns, the \<open>*Ptr\<close> indirection and the row iterators. The
  array of 64 layouts is a list; row counts, row ids and byte positions are \<open>nat\<close>, column
  values \<open>u32\<close>. Diagnostics are returned with the result.
\<close>

section \<open>Loops that stop at the first error\<close>

fun res_fold :: "('a \<Rightarrow> 's \<Rightarrow> ('e, 's) res) \<Rightarrow> 'a list \<Rightarrow> 's \<Rightarrow> ('e, 's) res" where
  "res_fold f [] s = Ok s"
| "res_fold f (x # xs) s = res_bind (f x s) (res_fold f xs)"

lemma res_fold_append: "res_fold f (xs @ ys) s = res_bind (res_fold f xs s) (res_fold f ys)"
proof (induction xs arbitrary: s)
  case (Cons x xs)
  then show ?case by (cases "f x s") auto
qed simp

lemma res_fold_invariant:
  assumes "res_fold f xs s = Ok s'" and "P s"
    and "\<And>x s s'. x \<in> set xs \<Longrightarrow> P s \<Longrightarrow> f x s = Ok s' \<Longrightarrow> P s'"
  shows "P s'"
  using assms
proof (induction xs arbitrary: s)
  case (Cons x xs)
  from Cons.prems(1) obtain m where "f x s = Ok m" "res_fold f xs m = Ok s'" by (auto simp: res_iff)
  with Cons.IH [of m] Cons.prems(2-) show ?case by (meson list.set_intros)
qed simp

lemma no_panic_res_fold:
  assumes "P s" and "\<And>x s. x \<in> set xs \<Longrightarrow> P s \<Longrightarrow> no_panic (f x s)"
    and "\<And>x s s'. x \<in> set xs \<Longrightarrow> P s \<Longrightarrow> f x s = Ok s' \<Longrightarrow> P s'"
  shows "no_panic (res_fold f xs s)"
  using assms
proof (induction xs arbitrary: s)
  case (Cons x xs)
  have "no_panic (res_fold f xs m)" if "f x s = Ok m" for m
    using Cons.IH [of m] Cons.prems that by (meson list.set_intros)
  with Cons.prems(1,2) show ?case by (auto simp: res_iff)
qed simp

section \<open>State\<close>

record Tables =
  tb_data :: bytes
  tb_base :: nat
  tb_major_version :: u8
  tb_minor_version :: u8
  tb_heap_sizes :: u8
  tb_valid :: u64
  tb_declared_sorted :: u64
  tb_verified_sorted :: u64
  tb_uncompressed :: bool
  tb_extra_data :: "u32 option"
  tb_layouts :: "TableLayout list"

definition tables_empty :: Tables where
  "tables_empty =
     \<lparr>tb_data = [], tb_base = 0, tb_major_version = 2, tb_minor_version = 0, tb_heap_sizes = 0,
      tb_valid = 0, tb_declared_sorted = 0, tb_verified_sorted = NOT 0, tb_uncompressed = False,
      tb_extra_data = None, tb_layouts = replicate TABLE_SLOTS table_layout_default\<rparr>"

text \<open>\<open>id.to_u8() as usize\<close>.\<close>

definition slot_of :: "TableId \<Rightarrow> nat" where
  "slot_of t = unat (TableId_to_u8 t)"

section \<open>Accessors\<close>

definition strings_wide :: "Tables \<Rightarrow> bool" where
  "strings_wide t \<longleftrightarrow> tb_heap_sizes t AND 0x01 \<noteq> 0"

definition guids_wide :: "Tables \<Rightarrow> bool" where
  "guids_wide t \<longleftrightarrow> tb_heap_sizes t AND 0x02 \<noteq> 0"

definition blobs_wide :: "Tables \<Rightarrow> bool" where
  "blobs_wide t \<longleftrightarrow> tb_heap_sizes t AND 0x04 \<noteq> 0"

definition is_present :: "Tables \<Rightarrow> TableId \<Rightarrow> bool" where
  "is_present t table \<longleftrightarrow> tb_valid t AND push_bit (slot_of table) 1 \<noteq> 0"

definition is_declared_sorted :: "Tables \<Rightarrow> TableId \<Rightarrow> bool" where
  "is_declared_sorted t table \<longleftrightarrow> tb_declared_sorted t AND push_bit (slot_of table) 1 \<noteq> 0"

definition is_sorted :: "Tables \<Rightarrow> TableId \<Rightarrow> bool" where
  "is_sorted t table \<longleftrightarrow> tb_verified_sorted t AND push_bit (slot_of table) 1 \<noteq> 0"

definition table_layout :: "Tables \<Rightarrow> TableId \<Rightarrow> TableLayout" where
  "table_layout t table = tb_layouts t ! slot_of table"

definition row_count :: "Tables \<Rightarrow> TableId \<Rightarrow> nat" where
  "row_count t table = tl_row_count (table_layout t table)"

definition logical_row_count :: "Tables \<Rightarrow> TableId \<Rightarrow> nat" where
  "logical_row_count t table =
     (case TableId_ptr_source table of
        Some ptr \<Rightarrow> if 0 < row_count t ptr then row_count t ptr else row_count t table
      | None \<Rightarrow> row_count t table)"

section \<open>Rows and columns\<close>

definition row_start :: "TableLayout \<Rightarrow> nat \<Rightarrow> nat result" where
  "row_start l rid =
     res_bind (usize_sub rid 1) (\<lambda>k. usize_add (tl_data_offset l) (k * tl_row_size l))"

definition row_bytes :: "Tables \<Rightarrow> TableId \<Rightarrow> nat \<Rightarrow> bytes result" where
  "row_bytes t table rid =
     (let layout = table_layout t table in
      if rid = 0 \<or> tl_row_count layout < rid
      then Err (error_new OutOfRange (tb_base t) (TableId_name table))
      else
      res_bind (row_start layout rid) (\<lambda>start.
      res_bind (usize_add start (tl_row_size layout)) (\<lambda>end.
      ok_or (get_range (tb_data t) start end)
        (error_new Truncated (saturating_add (tb_base t) start) (TableId_name table)))))"

definition row_of ::
    "Tables \<Rightarrow> TableId \<Rightarrow> (RowCursor \<Rightarrow> ('r \<times> RowCursor) result) \<Rightarrow> nat \<Rightarrow> 'r result" where
  "row_of t table decode rid =
     (let layout = table_layout t table in
      res_bind (row_bytes t table rid) (\<lambda>bs.
      res_bind (row_start layout rid) (\<lambda>start.
      res_bind (decode \<lparr>rc_bytes = bs, rc_layout = layout, rc_column = 0,
                        rc_base = saturating_add (tb_base t) start\<rparr>) (\<lambda>(row, _).
      Ok row))))"

definition resolve_indirection :: "Tables \<Rightarrow> TableId \<Rightarrow> nat \<Rightarrow> nat result" where
  "resolve_indirection t table rid =
     (case TableId_ptr_source table of
        None \<Rightarrow> Ok rid
      | Some ptr \<Rightarrow>
          if row_count t ptr = 0 then Ok rid
          else
            (case ptr of
               T_FieldPtr \<Rightarrow>
                 res_bind (row_of t T_FieldPtr FieldPtrRow_decode rid) (\<lambda>r. Ok (unat (field_ptr_field r)))
             | T_MethodPtr \<Rightarrow>
                 res_bind (row_of t T_MethodPtr MethodPtrRow_decode rid) (\<lambda>r. Ok (unat (method_ptr_method r)))
             | T_ParamPtr \<Rightarrow>
                 res_bind (row_of t T_ParamPtr ParamPtrRow_decode rid) (\<lambda>r. Ok (unat (param_ptr_param r)))
             | T_EventPtr \<Rightarrow>
                 res_bind (row_of t T_EventPtr EventPtrRow_decode rid) (\<lambda>r. Ok (unat (event_ptr_event r)))
             | T_PropertyPtr \<Rightarrow>
                 res_bind (row_of t T_PropertyPtr PropertyPtrRow_decode rid) (\<lambda>r. Ok (unat (property_ptr_property r)))
             | _ \<Rightarrow> Ok rid))"

definition row_indirect ::
    "Tables \<Rightarrow> TableId \<Rightarrow> (RowCursor \<Rightarrow> ('r \<times> RowCursor) result) \<Rightarrow> nat \<Rightarrow> 'r result" where
  "row_indirect t table decode rid =
     res_bind (resolve_indirection t table rid) (row_of t table decode)"

definition raw_column :: "Tables \<Rightarrow> TableId \<Rightarrow> nat \<Rightarrow> nat \<Rightarrow> u32 result" where
  "raw_column t table rid column =
     (let layout = table_layout t table in
      if tl_column_count layout \<le> column
      then Err (error_new OutOfRange (tb_base t) (TableId_name table))
      else
      res_bind (row_bytes t table rid) (\<lambda>bs.
      res_bind (index_at (tl_column_offsets layout) column) (\<lambda>off.
      res_bind (index_at (tl_column_widths layout) column) (\<lambda>width.
      ok_or (read_uint_at bs off width) (error_new Truncated (tb_base t) (TableId_name table))))))"

section \<open>Row iterators\<close>

record RowIter =
  ri_rid :: nat
  ri_end :: nat

definition tables_iter :: "Tables \<Rightarrow> TableId \<Rightarrow> RowIter result" where
  "tables_iter t table =
     res_bind (u32_add (row_count t table) 1) (\<lambda>end. Ok \<lparr>ri_rid = 1, ri_end = end\<rparr>)"

definition tables_iter_indirect :: "Tables \<Rightarrow> TableId \<Rightarrow> RowIter result" where
  "tables_iter_indirect t table =
     res_bind (u32_add (logical_row_count t table) 1) (\<lambda>end. Ok \<lparr>ri_rid = 1, ri_end = end\<rparr>)"

text \<open>\<open>RowIter::next\<close>, with the row access it calls, and \<open>IndirectRowIter::next\<close>.\<close>

definition row_iter_next ::
    "(nat \<Rightarrow> 'r result) \<Rightarrow> RowIter \<Rightarrow> ((nat \<times> 'r result) \<times> RowIter) option result" where
  "row_iter_next get it =
     (if ri_end it \<le> ri_rid it then Ok None
      else
        let rid = ri_rid it in
        res_bind (u32_add (ri_rid it) 1) (\<lambda>rid'.
        (case get rid of Panic \<Rightarrow> Panic | r \<Rightarrow> Ok (Some ((rid, r), it\<lparr>ri_rid := rid'\<rparr>)))))"

definition indirect_iter_next ::
    "Tables \<Rightarrow> TableId \<Rightarrow> (RowCursor \<Rightarrow> ('r \<times> RowCursor) result) \<Rightarrow> RowIter
       \<Rightarrow> ((nat \<times> 'r result) \<times> RowIter) option result" where
  "indirect_iter_next t table decode = row_iter_next (row_indirect t table decode)"

definition row_iter_size_hint :: "RowIter \<Rightarrow> nat result" where
  "row_iter_size_hint it = usize_sub (ri_end it) (ri_rid it)"

section \<open>Column widths and layouts\<close>

definition column_width :: "ColumnKind \<Rightarrow> nat list \<Rightarrow> bool \<Rightarrow> bool \<Rightarrow> bool \<Rightarrow> u8" where
  "column_width kind row_counts strs guids blobs =
     (case kind of
        CK_U16 \<Rightarrow> 2
      | CK_U32 \<Rightarrow> 4
      | CK_String \<Rightarrow> (if strs then 4 else 2)
      | CK_Guid \<Rightarrow> (if guids then 4 else 2)
      | CK_Blob \<Rightarrow> (if blobs then 4 else 2)
      | CK_Rid target \<Rightarrow>
          (let rows = row_counts ! slot_of target;
               rows = (case TableId_ptr_source target of
                         Some ptr \<Rightarrow> max rows (row_counts ! slot_of ptr)
                       | None \<Rightarrow> rows)
           in if rows < 0x10000 then 2 else 4)
      | CK_Coded coded \<Rightarrow>
          (let rows = fold (\<lambda>table m. max m (row_counts ! slot_of table))
                        (List.map_filter id (coded_tables coded)) 0
           in coded_column_width coded rows))"

text \<open>The inner loop: offsets and widths of the columns, then the row size.\<close>

fun fill_columns :: "(ColumnKind \<Rightarrow> u8) \<Rightarrow> nat \<Rightarrow> ColumnKind list \<Rightarrow> nat \<Rightarrow> TableLayout \<Rightarrow> TableLayout" where
  "fill_columns width i [] offset l = l\<lparr>tl_row_size := offset\<rparr>"
| "fill_columns width i (k # ks) offset l =
     fill_columns width (Suc i) ks (offset + unat (width k))
       (l\<lparr>tl_column_offsets := (tl_column_offsets l)[i := offset mod 256],
          tl_column_widths := (tl_column_widths l)[i := width k]\<rparr>)"

section \<open>Parsing\<close>

definition read_tables_header ::
    "reader \<Rightarrow> ((u8 \<times> u8 \<times> u8 \<times> u64 \<times> u64) \<times> reader) result" where
  "read_tables_header r =
     res_bind (reader_u32 r) (\<lambda>(_, r).
     res_bind (reader_u8 r) (\<lambda>(major_version, r).
     res_bind (reader_u8 r) (\<lambda>(minor_version, r).
     res_bind (reader_u8 r) (\<lambda>(heap_sizes, r).
     res_bind (reader_u8 r) (\<lambda>(_, r).
     res_bind (reader_u64 r) (\<lambda>(valid, r).
     res_bind (reader_u64 r) (\<lambda>(declared_sorted, r).
     Ok ((major_version, minor_version, heap_sizes, valid, declared_sorted), r))))))))"

definition KNOWN_HEAP_BITS :: u8 where
  "KNOWN_HEAP_BITS = 0x01 OR 0x02 OR 0x04 OR 0x08 OR 0x20 OR 0x40 OR 0x80"

definition check_heap_bits ::
    "Strictness \<Rightarrow> nat \<Rightarrow> u8 \<Rightarrow> diagnostic list \<Rightarrow> diagnostic list result" where
  "check_heap_bits strictness base heap_sizes diags =
     (if heap_sizes AND NOT KNOWN_HEAP_BITS \<noteq> 0 then
        res_bind (usize_add base 6) (\<lambda>at.
        if is_strict strictness then Err (error_new Malformed at CTX_TABLES)
        else Ok (diags @ [diagnostic_new UnknownHeapSizeBits at (unat heap_sizes)]))
      else Ok diags)"

definition read_row_count ::
    "Strictness \<Rightarrow> u64 \<Rightarrow> nat \<Rightarrow> nat list \<times> diagnostic list \<times> reader
     \<Rightarrow> (nat list \<times> diagnostic list \<times> reader) result" where
  "read_row_count strictness valid slot = (\<lambda>(row_counts, diags, r).
     if valid AND push_bit slot 1 = 0 then Ok (row_counts, diags, r)
     else
       let at = reader_absolute r in
       res_bind (reader_u32 r) (\<lambda>(count, r).
       case TableId_from_u8 (of_nat slot) of
         Some _ \<Rightarrow> Ok (row_counts[slot := unat count], diags, r)
       | None \<Rightarrow>
           if count \<noteq> 0 \<or> is_strict strictness then Err (error_new Unsupported at CTX_TABLES)
           else Ok (row_counts, diags @ [diagnostic_new ReservedTablePresent at slot], r)))"

definition read_row_counts ::
    "Strictness \<Rightarrow> u64 \<Rightarrow> diagnostic list \<Rightarrow> reader \<Rightarrow> (nat list \<times> diagnostic list \<times> reader) result" where
  "read_row_counts strictness valid diags r =
     res_fold (read_row_count strictness valid) [0..<TABLE_SLOTS] (replicate TABLE_SLOTS 0, diags, r)"

definition read_extra_data :: "u8 \<Rightarrow> reader \<Rightarrow> (u32 option \<times> reader) result" where
  "read_extra_data heap_sizes r =
     (if heap_sizes AND 0x40 \<noteq> 0 then res_bind (reader_u32 r) (\<lambda>(x, r). Ok (Some x, r)) else Ok (None, r))"

text \<open>How many rows of a table are kept: all, or as many as the rest of the stream holds.\<close>

definition clamp_count ::
    "Strictness \<Rightarrow> nat \<Rightarrow> nat \<Rightarrow> nat \<Rightarrow> nat \<Rightarrow> nat \<Rightarrow> bool \<Rightarrow> diagnostic list
     \<Rightarrow> (nat \<times> bool \<times> diagnostic list) result" where
  "clamp_count strictness base data_len cursor row_size count exhausted diags =
     (if 0 < count then
        let available = saturating_sub data_len cursor;
            needed = count * row_size in
        if exhausted \<or> available < needed then
          res_bind (usize_add base cursor) (\<lambda>at.
          if is_strict strictness then Err (error_new Truncated at CTX_TABLES)
          else
            Ok (if row_size = 0 then 0 else (available div row_size) mod 2 ^ 32, True,
                diags @ [diagnostic_new StreamRangeClamped at needed]))
        else Ok (count, exhausted, diags)
      else Ok (count, exhausted, diags))"

type_synonym placing = "nat \<times> bool \<times> diagnostic list \<times> TableLayout list"

definition blank_layout :: "TableId \<Rightarrow> nat \<Rightarrow> TableLayout" where
  "blank_layout table cursor =
     \<lparr>tl_row_count = 0, tl_row_size = 0, tl_column_count = length (columns_of table),
      tl_column_offsets = replicate MAX_COLUMNS 0, tl_column_widths = replicate MAX_COLUMNS 0,
      tl_data_offset = cursor\<rparr>"

definition place_table ::
    "Strictness \<Rightarrow> nat \<Rightarrow> nat \<Rightarrow> (ColumnKind \<Rightarrow> u8) \<Rightarrow> nat list \<Rightarrow> TableId \<Rightarrow> placing \<Rightarrow> placing result" where
  "place_table strictness base data_len width row_counts table = (\<lambda>(cursor, exhausted, diags, layouts).
     let slot = slot_of table;
         layout = fill_columns width 0 (columns_of table) 0 (blank_layout table cursor) in
     res_bind (clamp_count strictness base data_len cursor (tl_row_size layout) (row_counts ! slot)
                 exhausted diags) (\<lambda>(count, exhausted, diags).
     let layout = layout\<lparr>tl_row_count := count\<rparr> in
     Ok (saturating_add cursor (byte_size layout), exhausted, diags, layouts[slot := layout])))"

definition place_tables ::
    "Strictness \<Rightarrow> nat \<Rightarrow> nat \<Rightarrow> u8 \<Rightarrow> nat list \<Rightarrow> nat \<Rightarrow> diagnostic list
     \<Rightarrow> placing result" where
  "place_tables strictness base data_len heap_sizes row_counts cursor diags =
     (let strs = (heap_sizes AND 0x01 \<noteq> 0);
          guids = (heap_sizes AND 0x02 \<noteq> 0);
          blobs = (heap_sizes AND 0x04 \<noteq> 0) in
      res_fold
        (place_table strictness base data_len
          (\<lambda>kind. column_width kind row_counts strs guids blobs) row_counts)
        TableId_ALL (cursor, False, diags, replicate TABLE_SLOTS table_layout_default))"

section \<open>Sort keys\<close>

definition sort_key_column :: "TableId \<Rightarrow> nat option" where
  "sort_key_column table =
     (case table of
        T_InterfaceImpl \<Rightarrow> Some 0
      | T_Constant \<Rightarrow> Some 1
      | T_CustomAttribute \<Rightarrow> Some 0
      | T_FieldMarshal \<Rightarrow> Some 0
      | T_DeclSecurity \<Rightarrow> Some 1
      | T_ClassLayout \<Rightarrow> Some 2
      | T_FieldLayout \<Rightarrow> Some 1
      | T_EventMap \<Rightarrow> Some 0
      | T_PropertyMap \<Rightarrow> Some 0
      | T_MethodSemantics \<Rightarrow> Some 2
      | T_MethodImpl \<Rightarrow> Some 0
      | T_ImplMap \<Rightarrow> Some 1
      | T_FieldRva \<Rightarrow> Some 1
      | T_NestedClass \<Rightarrow> Some 0
      | T_GenericParam \<Rightarrow> Some 2
      | T_GenericParamConstraint \<Rightarrow> Some 0
      | T_LocalScope \<Rightarrow> Some 0
      | T_StateMachineMethod \<Rightarrow> Some 0
      | T_CustomDebugInformation \<Rightarrow> Some 0
      | _ \<Rightarrow> None)"

text \<open>The inner loop of \<open>verify_sortedness\<close>: whether no key is below its predecessor.\<close>

fun keys_ordered :: "Tables \<Rightarrow> TableId \<Rightarrow> nat \<Rightarrow> u32 \<Rightarrow> nat list \<Rightarrow> bool result" where
  "keys_ordered t table column previous [] = Ok True"
| "keys_ordered t table column previous (rid # rids) =
     res_bind (raw_column t table rid column) (\<lambda>v.
     if v < previous then Ok False else keys_ordered t table column v rids)"

definition table_ordered :: "Tables \<Rightarrow> TableId \<Rightarrow> nat \<Rightarrow> bool result" where
  "table_ordered t table column =
     res_bind (raw_column t table 1 column) (\<lambda>previous.
     keys_ordered t table column previous [2..<row_count t table + 1])"

definition verify_table ::
    "Tables \<Rightarrow> Strictness \<Rightarrow> TableId \<Rightarrow> u64 \<times> diagnostic list \<Rightarrow> (u64 \<times> diagnostic list) result" where
  "verify_table t strictness table = (\<lambda>(bits, diags).
     case sort_key_column table of
       None \<Rightarrow> Ok (bits, diags)
     | Some column \<Rightarrow>
         if row_count t table \<le> 1 then Ok (bits OR push_bit (slot_of table) 1, diags)
         else
           res_bind (table_ordered t table column) (\<lambda>srt.
           if srt then Ok (bits OR push_bit (slot_of table) 1, diags)
           else if is_strict strictness \<and> is_declared_sorted t table
             then Err (error_new Malformed (tb_base t) (TableId_name table))
           else Ok (bits, diags @ [diagnostic_new TableNotSorted (tb_base t) (slot_of table)])))"

definition verify_sortedness ::
    "Tables \<Rightarrow> Strictness \<Rightarrow> diagnostic list \<Rightarrow> (u64 \<times> diagnostic list) result" where
  "verify_sortedness t strictness diags =
     res_fold (verify_table t strictness) TableId_ALL (0, diags)"

definition tables_parse ::
    "bytes \<Rightarrow> nat \<Rightarrow> bool \<Rightarrow> Strictness \<Rightarrow> diagnostic list \<Rightarrow> (Tables \<times> diagnostic list) result" where
  "tables_parse dat base uncompressed strictness diags =
     res_bind (read_tables_header (reader_new dat base CTX_TABLES))
       (\<lambda>((major_version, minor_version, heap_sizes, valid, declared_sorted), r).
     res_bind (check_heap_bits strictness base heap_sizes diags) (\<lambda>diags.
     res_bind (read_row_counts strictness valid diags r) (\<lambda>(row_counts, diags, r).
     res_bind (read_extra_data heap_sizes r) (\<lambda>(extra_data, r).
     res_bind (place_tables strictness base (length dat) heap_sizes row_counts (r_pos r) diags)
       (\<lambda>(_, _, diags, layouts).
     let tables =
       \<lparr>tb_data = dat, tb_base = base, tb_major_version = major_version, tb_minor_version = minor_version,
        tb_heap_sizes = heap_sizes, tb_valid = valid, tb_declared_sorted = declared_sorted,
        tb_verified_sorted = 0, tb_uncompressed = uncompressed, tb_extra_data = extra_data,
        tb_layouts = layouts\<rparr> in
     res_bind (verify_sortedness tables strictness diags) (\<lambda>(bits, diags).
     Ok (tables\<lparr>tb_verified_sorted := bits\<rparr>, diags)))))))"

section \<open>Geometry\<close>

lemma column_width_cases: "column_width k rc s g b = 2 \<or> column_width k rc s g b = 4"
  by (cases k) (auto simp: column_width_def coded_column_width_def Let_def)

definition widths_ok :: "(ColumnKind \<Rightarrow> u8) \<Rightarrow> bool" where
  "widths_ok w \<longleftrightarrow> (\<forall>k. w k = 2 \<or> w k = 4)"

lemma widths_ok_unat: "widths_ok w \<Longrightarrow> 2 \<le> unat (w k) \<and> unat (w k) \<le> 4"
  unfolding widths_ok_def by (cases "w k = 2") auto

definition offset_of :: "(ColumnKind \<Rightarrow> u8) \<Rightarrow> ColumnKind list \<Rightarrow> nat \<Rightarrow> nat" where
  "offset_of w ks j = (\<Sum>k\<leftarrow>take j ks. unat (w k))"

lemma offset_of_simps [simp]:
  "offset_of w ks 0 = 0" "offset_of w (k # ks) (Suc j) = unat (w k) + offset_of w ks j"
  by (simp_all add: offset_of_def)

lemma offset_of_Suc: "j < length ks \<Longrightarrow> offset_of w ks (Suc j) = offset_of w ks j + unat (w (ks ! j))"
  by (simp add: offset_of_def take_Suc_conv_app_nth)

lemma offset_of_mono: "i \<le> j \<Longrightarrow> offset_of w ks i \<le> offset_of w ks j"
proof (induction ks arbitrary: i j)
  case (Cons k ks)
  then show ?case by (cases i; cases j) auto
qed (simp add: offset_of_def)

lemma offset_of_le:
  assumes "widths_ok w"
  shows "offset_of w ks j \<le> 4 * length ks"
proof (induction ks arbitrary: j)
  case (Cons k ks)
  have "unat (w k) \<le> 4" using widths_ok_unat [OF assms] by simp
  with Cons [of "j - 1"] show ?case by (cases j) auto
qed (simp add: offset_of_def)

text \<open>The geometry of one table under the column widths \<open>w\<close>.\<close>

definition layout_ok :: "(ColumnKind \<Rightarrow> u8) \<Rightarrow> TableId \<Rightarrow> TableLayout \<Rightarrow> bool" where
  "layout_ok w table l \<longleftrightarrow>
     (let ks = columns_of table in
      tl_column_count l = length ks \<and> tl_row_size l = offset_of w ks (length ks)
      \<and> length (tl_column_offsets l) = MAX_COLUMNS \<and> length (tl_column_widths l) = MAX_COLUMNS
      \<and> (\<forall>j < length ks. tl_column_widths l ! j = w (ks ! j) \<and> tl_column_offsets l ! j = offset_of w ks j))"

lemma fill_columns_spec:
  assumes "widths_ok w" and "i + length ks \<le> MAX_COLUMNS" and "p \<le> 4 * i"
    and "length (tl_column_offsets l) = MAX_COLUMNS" and "length (tl_column_widths l) = MAX_COLUMNS"
  defines "l' \<equiv> fill_columns w i ks p l"
  shows "length (tl_column_offsets l') = MAX_COLUMNS \<and> length (tl_column_widths l') = MAX_COLUMNS
     \<and> tl_column_count l' = tl_column_count l \<and> tl_data_offset l' = tl_data_offset l
     \<and> tl_row_size l' = p + offset_of w ks (length ks)
     \<and> (\<forall>j < i. tl_column_widths l' ! j = tl_column_widths l ! j \<and> tl_column_offsets l' ! j = tl_column_offsets l ! j)
     \<and> (\<forall>j < length ks. tl_column_widths l' ! (i + j) = w (ks ! j) \<and> tl_column_offsets l' ! (i + j) = p + offset_of w ks j)"
  using assms(2-5) unfolding l'_def
proof (induction ks arbitrary: i p l)
  case (Cons k ks)
  let ?l = "l\<lparr>tl_column_offsets := (tl_column_offsets l)[i := p mod 256], tl_column_widths := (tl_column_widths l)[i := w k]\<rparr>"
  have k: "unat (w k) \<le> 4" using widths_ok_unat [OF assms(1)] by simp
  have p: "p mod 256 = p" using Cons.prems(1,2) by (simp add: MAX_COLUMNS_def)
  note IH = Cons.IH [of "Suc i" "p + unat (w k)" ?l]
  have "tl_column_widths (fill_columns w (Suc i) ks (p + unat (w k)) ?l) ! (i + j) = w ((k # ks) ! j)
      \<and> tl_column_offsets (fill_columns w (Suc i) ks (p + unat (w k)) ?l) ! (i + j) = p + offset_of w (k # ks) j"
    if "j < length (k # ks)" for j
    using IH Cons.prems k p that by (cases j) auto
  with IH Cons.prems k show ?case by auto
qed (simp add: offset_of_def)

lemma blank_layout_filled:
  fixes table cursor
  assumes "widths_ok w"
  defines "l \<equiv> fill_columns w 0 (columns_of table) 0 (blank_layout table cursor)"
  shows "layout_ok w table l" "tl_data_offset l = cursor"
  using fill_columns_spec [OF assms(1), of 0 "columns_of table" 0 "blank_layout table cursor"] columns_of_bounds [of table]
  unfolding l_def by (auto simp: layout_ok_def blank_layout_def Let_def)

lemma layout_ok_count [simp]: "layout_ok w table (l\<lparr>tl_row_count := n\<rparr>) = layout_ok w table l"
  by (simp add: layout_ok_def)

lemma row_size_bounds:
  assumes "layout_ok w table l" and "widths_ok w"
  shows "2 \<le> tl_row_size l" "tl_row_size l \<le> 36"
proof -
  obtain k ks where c: "columns_of table = k # ks" using columns_of_bounds(1) [of table] by (cases "columns_of table") auto
  have "unat (w k) \<ge> 2" using widths_ok_unat [OF assms(2)] by simp
  then show "2 \<le> tl_row_size l" using assms(1) c by (simp add: layout_ok_def Let_def)
  show "tl_row_size l \<le> 36"
    using assms(1) offset_of_le [OF assms(2), of "columns_of table" "length (columns_of table)"] columns_of_bounds(2) [of table]
    by (simp add: layout_ok_def Let_def MAX_COLUMNS_def)
qed

section \<open>Placement\<close>

definition table_end :: "TableLayout \<Rightarrow> nat" where
  "table_end l = tl_data_offset l + byte_size l"

text \<open>The tables placed so far lie one after the other between \<open>start\<close> and the cursor.\<close>

definition placed ::
    "(ColumnKind \<Rightarrow> u8) \<Rightarrow> nat \<Rightarrow> nat \<Rightarrow> TableId list \<Rightarrow> placing \<Rightarrow> bool" where
  "placed w start len ts = (\<lambda>(cursor, _, _, layouts).
     length layouts = TABLE_SLOTS \<and> start \<le> cursor \<and> cursor \<le> len
     \<and> (\<forall>t \<in> set ts. layout_ok w t (layouts ! slot_of t) \<and> start \<le> tl_data_offset (layouts ! slot_of t)
           \<and> table_end (layouts ! slot_of t) \<le> cursor)
     \<and> sorted_wrt (\<lambda>a b. table_end (layouts ! slot_of a) \<le> tl_data_offset (layouts ! slot_of b)) ts)"

lemma slot_of_less [simp]: "slot_of t < TABLE_SLOTS"
  using TableId_to_u8_less [of t] by (simp add: slot_of_def TABLE_SLOTS_def)

lemma slot_of_inj [simp]: "slot_of s = slot_of t \<longleftrightarrow> s = t"
  by (simp add: slot_of_def flip: word_unat_eq_iff)

lemma clamp_fits:
  assumes "clamp_count st base len cursor sz count ex diags = Ok (n, ex', diags')" and "cursor \<le> len"
  shows "cursor + n * sz \<le> len"
proof -
  have "(len - cursor) div sz mod 2 ^ 32 * sz \<le> len - cursor"
    by (meson div_times_less_eq_dividend mod_less_eq_dividend mult_le_mono1 order_trans)
  then show ?thesis
    using assms by (auto simp: clamp_count_def Let_def res_iff saturating_sub_def split: if_splits)
qed

lemma place_table_placed:
  assumes "place_table st base len w counts t s = Ok s'" and "widths_ok w"
    and "placed w start len ts s" and "t \<notin> set ts" and "len \<le> isize_max"
  shows "placed w start len (ts @ [t]) s'"
proof -
  obtain cursor ex diags layouts where s: "s = (cursor, ex, diags, layouts)" by (cases s)
  let ?l = "fill_columns w 0 (columns_of t) 0 (blank_layout t cursor)"
  obtain n ex' diags' where c: "clamp_count st base len cursor (tl_row_size ?l) (counts ! slot_of t) ex diags = Ok (n, ex', diags')"
    and s': "s' = (saturating_add cursor (byte_size (?l\<lparr>tl_row_count := n\<rparr>)), ex', diags', layouts[slot_of t := ?l\<lparr>tl_row_count := n\<rparr>])"
    using assms(1) by (auto simp: place_table_def s Let_def res_iff)
  note inv = assms(3) [unfolded placed_def s split]
  have fit: "cursor + byte_size (?l\<lparr>tl_row_count := n\<rparr>) \<le> len"
    using clamp_fits [OF c] inv by (simp add: byte_size_def)
  then have sat: "saturating_add cursor (byte_size (?l\<lparr>tl_row_count := n\<rparr>)) = cursor + byte_size (?l\<lparr>tl_row_count := n\<rparr>)"
    using assms(5) by (simp add: saturating_add_def isize_max_def usize_max_def)
  have other: "layouts[slot_of t := x] ! slot_of u = layouts ! slot_of u" if "u \<in> set ts" for u x
    using that assms(4) by (intro nth_list_update_neq) auto
  have "sorted_wrt (\<lambda>a b. table_end (layouts[slot_of t := x] ! slot_of a) \<le> tl_data_offset (layouts[slot_of t := x] ! slot_of b)) ts" for x
    using inv by (elim conjE sorted_wrt_mono_rel [rotated]) (simp add: other)
  then show ?thesis
    using inv fit blank_layout_filled [OF assms(2), of t cursor]
    by (auto simp: placed_def s' sat other table_end_def sorted_wrt_append)
qed

lemma place_fold_placed:
  assumes "res_fold (place_table st base len w counts) xs s = Ok s'" and "widths_ok w"
    and "placed w start len ts s" and "distinct (ts @ xs)" and "len \<le> isize_max"
  shows "placed w start len (ts @ xs) s'"
  using assms(1,3,4)
proof (induction xs arbitrary: s ts)
  case (Cons x xs)
  then obtain m where "place_table st base len w counts x s = Ok m"
    "res_fold (place_table st base len w counts) xs m = Ok s'" by (auto simp: res_iff)
  with Cons.IH [of m "ts @ [x]"] Cons.prems place_table_placed [OF _ assms(2) Cons.prems(2), of st base counts x m] assms(5)
  show ?case by auto
qed simp

lemma place_table_total:
  assumes "base + len \<le> usize_max" and "placed w start len ts s"
  shows "no_panic (place_table st base len w counts t s)"
  using assms by (auto simp: place_table_def placed_def clamp_count_def Let_def res_iff split: prod.splits)

section \<open>Well-formed tables\<close>

definition tables_wf :: "(ColumnKind \<Rightarrow> u8) \<Rightarrow> Tables \<Rightarrow> bool" where
  "tables_wf w t \<longleftrightarrow>
     widths_ok w \<and> slice_ok (tb_data t) \<and> length (tb_layouts t) = TABLE_SLOTS
     \<and> (\<forall>table. layout_ok w table (table_layout t table) \<and> table_end (table_layout t table) \<le> length (tb_data t))
     \<and> (\<forall>a b. a < b \<longrightarrow> table_end (table_layout t a) \<le> tl_data_offset (table_layout t b))"

lemma tables_wfD:
  assumes "tables_wf w t"
  shows "widths_ok w" "slice_ok (tb_data t)" "layout_ok w table (table_layout t table)"
    "table_end (table_layout t table) \<le> length (tb_data t)"
  using assms by (auto simp: tables_wf_def)

lemma tables_wf_sorted_bits [simp]: "tables_wf w (t\<lparr>tb_verified_sorted := b\<rparr>) = tables_wf w t"
  by (simp add: tables_wf_def table_layout_def)

lemma row_region:
  assumes "tables_wf w t" and "1 \<le> rid" and "rid \<le> row_count t table"
  defines "l \<equiv> table_layout t table"
  shows "tl_data_offset l + (rid - 1) * tl_row_size l + tl_row_size l \<le> length (tb_data t)"
proof -
  have "(rid - 1) * tl_row_size l + tl_row_size l = rid * tl_row_size l"
    using assms(2) by (cases rid) auto
  also have "\<dots> \<le> row_count t table * tl_row_size l" using assms(3) by simp
  finally show ?thesis
    using tables_wfD(4) [OF assms(1), of table] by (simp add: l_def table_end_def byte_size_def row_count_def)
qed

lemma row_start_ok:
  assumes "tables_wf w t" and "1 \<le> rid" and "rid \<le> row_count t table"
  shows "row_start (table_layout t table) rid
     = Ok (tl_data_offset (table_layout t table) + (rid - 1) * tl_row_size (table_layout t table))"
  using row_region [OF assms] slice_ok_length [OF tables_wfD(2) [OF assms(1)]] assms(2)
  by (simp add: row_start_def usize_sub_def usize_add_def usize_max_def)

lemma row_bytes_ok:
  assumes "tables_wf w t" and "1 \<le> rid" and "rid \<le> row_count t table"
  defines "l \<equiv> table_layout t table"
  shows "row_bytes t table rid =
    Ok (take (tl_row_size l) (drop (tl_data_offset l + (rid - 1) * tl_row_size l) (tb_data t)))"
  using row_region [OF assms(1-3)] row_start_ok [OF assms(1-3)] slice_ok_length [OF tables_wfD(2) [OF assms(1)]] assms(2,3)
  by (simp add: row_bytes_def Let_def l_def row_count_def usize_add_def usize_max_def get_range_def)

lemma row_bytes_err:
  "\<not> (1 \<le> rid \<and> rid \<le> row_count t table) \<Longrightarrow>
     row_bytes t table rid = Err (error_new OutOfRange (tb_base t) (TableId_name table))"
  by (auto simp: row_bytes_def Let_def row_count_def)

text \<open>The value of a column of a row, as the bytes of the stream give it.\<close>

definition cell_offset :: "Tables \<Rightarrow> TableId \<Rightarrow> nat \<Rightarrow> nat \<Rightarrow> nat" where
  "cell_offset t table rid j =
     tl_data_offset (table_layout t table) + (rid - 1) * tl_row_size (table_layout t table)
     + tl_column_offsets (table_layout t table) ! j"

definition cell :: "Tables \<Rightarrow> TableId \<Rightarrow> nat \<Rightarrow> nat \<Rightarrow> u32" where
  "cell t table rid j =
     (let bs = drop (cell_offset t table rid j) (tb_data t) in
      if tl_column_widths (table_layout t table) ! j = 2 then ucast (from_le_bytes (take 2 bs) :: u16)
      else from_le_bytes (take 4 bs))"

lemma column_in_row:
  assumes "layout_ok w table l" and "j < length (columns_of table)"
  shows "tl_column_offsets l ! j + unat (tl_column_widths l ! j) \<le> tl_row_size l"
    "j < MAX_COLUMNS" "tl_column_widths l ! j = w (columns_of table ! j)"
    "tl_column_offsets l ! j = offset_of w (columns_of table) j"
  using assms offset_of_Suc [of j "columns_of table" w] columns_of_bounds(2) [of table]
    offset_of_mono [of "Suc j" "length (columns_of table)" w "columns_of table"]
  by (auto simp: layout_ok_def Let_def)

lemma read_cell:
  assumes "tables_wf w t" and "1 \<le> rid" and "rid \<le> row_count t table" and "j < length (columns_of table)"
  defines "l \<equiv> table_layout t table"
  shows "read_uint_at (take (tl_row_size l) (drop (tl_data_offset l + (rid - 1) * tl_row_size l) (tb_data t)))
     (tl_column_offsets l ! j) (tl_column_widths l ! j) = Some (cell t table rid j)"
proof -
  note col = column_in_row [OF tables_wfD(3) [OF assms(1), of table] assms(4), folded l_def]
  define p where "p = tl_data_offset l + (rid - 1) * tl_row_size l"
  have reg: "p + tl_row_size l \<le> length (tb_data t)"
    using row_region [OF assms(1-3), folded l_def] by (simp add: p_def)
  let ?row = "take (tl_row_size l) (drop p (tb_data t))" and ?o = "tl_column_offsets l ! j"
  have tk: "take n (drop ?o ?row) = take n (drop (p + ?o) (tb_data t))" if "?o + n \<le> tl_row_size l" for n
    using that by (simp add: drop_take add.commute min_absorb1)
  have sl: "slice_ok ?row" using tables_wfD(2) [OF assms(1)] by simp
  have c: "cell t table rid j = (let bs = drop (p + ?o) (tb_data t) in
      if tl_column_widths l ! j = 2 then ucast (from_le_bytes (take 2 bs) :: u16) else from_le_bytes (take 4 bs))"
    by (simp add: cell_def cell_offset_def p_def l_def)
  consider "tl_column_widths l ! j = 2" | "tl_column_widths l ! j = 4"
    using tables_wfD(1) [OF assms(1)] col(3) by (auto simp: widths_ok_def)
  then have "read_uint_at ?row ?o (tl_column_widths l ! j) = Some (cell t table rid j)"
    using col(1) reg tk [of 2] tk [of 4]
    by cases (auto simp: read_uint_at_2 [OF sl] read_uint_at_4 [OF sl] c Let_def)
  then show ?thesis by (simp add: p_def)
qed

lemma raw_column_cell:
  assumes "tables_wf w t" and "1 \<le> rid" and "rid \<le> row_count t table" and "j < length (columns_of table)"
  shows "raw_column t table rid j = Ok (cell t table rid j)"
proof -
  note l = tables_wfD(3) [OF assms(1), of table]
  show ?thesis
    using l read_cell [OF assms] assms(4) column_in_row(2) [OF l assms(4)]
    by (simp add: raw_column_def Let_def row_bytes_ok [OF assms(1-3)] layout_ok_def index_at_def get_at_def)
qed

lemma raw_column_err:
  assumes "tables_wf w t" and "\<not> (1 \<le> rid \<and> rid \<le> row_count t table \<and> j < length (columns_of table))"
  shows "raw_column t table rid j = Err (error_new OutOfRange (tb_base t) (TableId_name table))"
  using tables_wfD(3) [OF assms(1), of table] assms(2) row_bytes_err [of rid t table]
  by (auto simp: raw_column_def Let_def layout_ok_def)

section \<open>Sortedness\<close>

lemma keys_ordered_cells:
  assumes "\<forall>rid \<in> set rids. raw_column t table rid c = Ok (f rid)"
  shows "keys_ordered t table c p rids = Ok (sorted_wrt (\<le>) (p # map f rids))"
  using assms
proof (induction rids arbitrary: p)
  case (Cons r rids)
  have "sorted_wrt (\<le>) (p # f r # map f rids) \<longleftrightarrow> p \<le> f r \<and> sorted_wrt (\<le>) (f r # map f rids)"
    by (rule sorted_wrt2) (auto simp: transp_on_def)
  with Cons show ?case by (auto simp: not_less dest: leD simp del: sorted_wrt.simps)
qed simp

definition keys_sorted :: "Tables \<Rightarrow> TableId \<Rightarrow> nat \<Rightarrow> bool" where
  "keys_sorted t table c \<longleftrightarrow> sorted_wrt (\<le>) (map (\<lambda>rid. cell t table rid c) [1..<row_count t table + 1])"

lemma sort_key_column_less: "sort_key_column table = Some c \<Longrightarrow> c < length (columns_of table)"
  by (cases table) (auto simp: sort_key_column_def row_defs)

lemma table_ordered_cells:
  assumes "tables_wf w t" and "1 < row_count t table" and "c < length (columns_of table)"
  shows "table_ordered t table c = Ok (keys_sorted t table c)"
proof -
  have "[1..<row_count t table + 1] = 1 # [2..<row_count t table + 1]"
    using assms(2) by (simp add: upt_conv_Cons numeral_2_eq_2)
  then show ?thesis
    using raw_column_cell [OF assms(1) _ _ assms(3)] assms(2)
    by (simp add: table_ordered_def keys_sorted_def keys_ordered_cells [where f = "\<lambda>rid. cell t table rid c"])
qed

text \<open>One bit per table of \<open>ts\<close> whose key column is sorted.\<close>

definition key_sorted :: "Tables \<Rightarrow> TableId \<Rightarrow> bool" where
  "key_sorted t table \<longleftrightarrow> (\<exists>c. sort_key_column table = Some c \<and> keys_sorted t table c)"

lemma slot_bit [simp]: "bit (2 ^ slot_of a :: u64) (slot_of b) \<longleftrightarrow> a = b"
  using slot_of_less [of b] by (auto simp: bit_exp_iff TABLE_SLOTS_def)

lemma and_slot_bit [simp]: "(v :: u64) AND 2 ^ slot_of a = 0 \<longleftrightarrow> \<not> bit v (slot_of a)"
  by (rule and_exp_eq_0_iff_not_bit)

lemma verify_table_iff:
  assumes "tables_wf w t"
  shows "verify_table t st table (bits, diags) =
    (if sort_key_column table = None then Ok (bits, diags)
     else if key_sorted t table then Ok (bits OR push_bit (slot_of table) 1, diags)
     else if is_strict st \<and> is_declared_sorted t table
       then Err (error_new Malformed (tb_base t) (TableId_name table))
     else Ok (bits, diags @ [diagnostic_new TableNotSorted (tb_base t) (slot_of table)]))"
proof (cases "sort_key_column table")
  case (Some c)
  have "keys_sorted t table c" if "row_count t table \<le> 1"
    using that by (cases "row_count t table") (auto simp: keys_sorted_def)
  then show ?thesis
    using table_ordered_cells [OF assms _ sort_key_column_less [OF Some]] Some
    by (cases "row_count t table \<le> 1") (auto simp: verify_table_def key_sorted_def)
qed (simp add: verify_table_def)

lemma verify_fold_bits:
  assumes "tables_wf w t" and "res_fold (verify_table t st) ts (bits, diags) = Ok (bits', diags')"
  shows "bit bits' (slot_of table) \<longleftrightarrow> bit bits (slot_of table) \<or> table \<in> set ts \<and> key_sorted t table"
  using assms(2)
proof (induction ts arbitrary: bits diags)
  case (Cons x ts)
  then obtain b d where x: "verify_table t st x (bits, diags) = Ok (b, d)"
    and rest: "res_fold (verify_table t st) ts (b, d) = Ok (bits', diags')"
    by (auto simp: res_iff)
  have "bit b (slot_of table) \<longleftrightarrow> bit bits (slot_of table) \<or> table = x \<and> key_sorted t x"
    using x by (auto simp: verify_table_iff [OF assms(1)] bit_or_iff key_sorted_def split: if_splits)
  with Cons.IH [OF rest] show ?case by auto
qed simp

lemma verify_total:
  assumes "tables_wf w t"
  shows "no_panic (verify_sortedness t st diags)"
  unfolding verify_sortedness_def
  by (rule no_panic_res_fold [where P = "\<lambda>_. True"]) (auto simp: verify_table_iff [OF assms] split: if_splits)

lemma is_sorted_iff:
  assumes "tables_wf w t" and "verify_sortedness t st diags = Ok (bits, diags')"
  shows "is_sorted (t\<lparr>tb_verified_sorted := bits\<rparr>) table \<longleftrightarrow> key_sorted t table"
  using verify_fold_bits [OF assms(1), of st TableId_ALL 0 diags bits diags' table] assms(2)
  by (simp add: is_sorted_def verify_sortedness_def)

section \<open>Parsing keeps to the stream\<close>

lemma tables_header_safe: "rd_safe read_tables_header"
  unfolding read_tables_header_def [abs_def] by (intro safe_intro)

lemma extra_data_safe: "rd_safe (read_extra_data h)"
  unfolding read_extra_data_def [abs_def] by (intro safe_intro)

definition counts_ok :: "bytes \<Rightarrow> nat list \<times> diagnostic list \<times> reader \<Rightarrow> bool" where
  "counts_ok dat = (\<lambda>(rc, _, r). length rc = TABLE_SLOTS \<and> reader_wf r \<and> r_data r = dat)"

lemma read_row_count_ok:
  assumes "counts_ok dat s"
  shows "no_panic (read_row_count st valid slot s)"
    and "read_row_count st valid slot s = Ok s' \<Longrightarrow> counts_ok dat s'"
proof -
  obtain rc d r where s: "s = (rc, d, r)" by (cases s)
  have w: "reader_wf r" using assms by (simp add: counts_ok_def s)
  show "no_panic (read_row_count st valid slot s)"
    using rd_u32.total [OF w] by (auto simp: read_row_count_def s Let_def res_iff split: option.splits if_splits)
  show "counts_ok dat s'" if "read_row_count st valid slot s = Ok s'"
    using that assms rd_u32.keeps [OF w]
    by (auto simp: read_row_count_def s Let_def res_iff counts_ok_def split: option.splits if_splits)
qed

lemma read_row_counts_ok:
  assumes "reader_wf r"
  shows "no_panic (read_row_counts st valid diags r)"
    and "read_row_counts st valid diags r = Ok s \<Longrightarrow> counts_ok (r_data r) s"
proof -
  have i: "counts_ok (r_data r) (replicate TABLE_SLOTS 0, diags, r)" using assms by (simp add: counts_ok_def)
  show "no_panic (read_row_counts st valid diags r)"
    unfolding read_row_counts_def
    by (rule no_panic_res_fold [where P = "counts_ok (r_data r)"], rule i, erule read_row_count_ok(1),
        erule (1) read_row_count_ok(2))
  show "counts_ok (r_data r) s" if "read_row_counts st valid diags r = Ok s"
    using res_fold_invariant [where P = "counts_ok (r_data r)", OF that [unfolded read_row_counts_def] i]
      read_row_count_ok(2) by blast
qed

definition stream_width :: "u8 \<Rightarrow> nat list \<Rightarrow> ColumnKind \<Rightarrow> u8" where
  "stream_width h rc kind = column_width kind rc (h AND 0x01 \<noteq> 0) (h AND 0x02 \<noteq> 0) (h AND 0x04 \<noteq> 0)"

lemma stream_width_ok: "widths_ok (stream_width h rc)"
  using column_width_cases by (simp add: widths_ok_def stream_width_def)

lemma place_tables_eq:
  "place_tables st base len h rc cursor diags =
     res_fold (place_table st base len (stream_width h rc) rc) TableId_ALL
       (cursor, False, diags, replicate TABLE_SLOTS table_layout_default)"
  by (simp add: place_tables_def stream_width_def [abs_def] Let_def)

lemma place_tables_placed:
  assumes "place_tables st base len h rc cursor diags = Ok s" and "cursor \<le> len" and "len \<le> isize_max"
  shows "placed (stream_width h rc) cursor len TableId_ALL s"
  using place_fold_placed [OF assms(1) [unfolded place_tables_eq] stream_width_ok, of cursor "[]"] assms(2,3)
  by (simp add: placed_def)

lemma place_tables_total:
  assumes "base + len \<le> usize_max" and "cursor \<le> len" and "len \<le> isize_max"
  shows "no_panic (place_tables st base len h rc cursor diags)"
proof -
  let ?f = "place_table st base len (stream_width h rc) rc"
  have "no_panic (res_fold ?f xs s)" if "placed (stream_width h rc) cursor len ts s" "distinct (ts @ xs)" for xs ts s
    using that
  proof (induction xs arbitrary: s ts)
    case (Cons x xs)
    have "no_panic (res_fold ?f xs m)" if "?f x s = Ok m" for m
      using Cons.IH [of "ts @ [x]" m] Cons.prems place_table_placed [OF that stream_width_ok Cons.prems(1)] assms(3)
      by auto
    with place_table_total [OF assms(1) Cons.prems(1)] show ?case by (auto simp: res_iff)
  qed simp
  from this [of "[]" _ TableId_ALL] show ?thesis
    using assms(2) by (simp add: place_tables_eq placed_def)
qed

lemma placed_all_wf:
  assumes "placed w start (length (tb_data t)) TableId_ALL (cursor, ex, diags, tb_layouts t)"
    and "widths_ok w" and "slice_ok (tb_data t)"
  shows "tables_wf w t"
proof -
  have "table_end (table_layout t a) \<le> tl_data_offset (table_layout t b)" if ab: "a < b" for a b
  proof -
    obtain i j where i: "i < length TableId_ALL" "TableId_ALL ! i = a" and j: "j < length TableId_ALL" "TableId_ALL ! j = b"
      by (metis TableId_ALL_complete in_set_conv_nth)
    have "i < j"
    proof (rule ccontr)
      assume "\<not> i < j"
      then have "i = j \<or> j < i" by auto
      then show False
        using sorted_wrt_nth_less [OF TableId_ALL_numeric, of j i] i j ab
        by (auto simp: less_TableId_def word_less_nat_alt)
    qed
    then show ?thesis
      using sorted_wrt_nth_less [of "\<lambda>a b. table_end (tb_layouts t ! slot_of a) \<le> tl_data_offset (tb_layouts t ! slot_of b)"
          TableId_ALL i j] assms(1) i j
      by (simp add: placed_def table_layout_def)
  qed
  moreover have "layout_ok w a (table_layout t a) \<and> table_end (table_layout t a) \<le> length (tb_data t)" for a
  proof -
    have "cursor \<le> length (tb_data t)" "layout_ok w a (tb_layouts t ! slot_of a)"
      "table_end (tb_layouts t ! slot_of a) \<le> cursor"
      using assms(1) by (simp_all add: placed_def)
    then show ?thesis by (simp add: table_layout_def)
  qed
  ultimately show ?thesis using assms by (simp add: tables_wf_def placed_def)
qed

lemma tables_header_size:
  "reader_wf r \<Longrightarrow> read_tables_header r = Ok (x, r') \<Longrightarrow> r_pos r + 24 \<le> length (r_data r)"
  by (auto simp: read_tables_header_def res_iff read_iff reader_wf_def)

lemma tables_parse_steps:
  assumes sl: "slice_ok dat" and fit: "base + length dat \<le> usize_max"
  shows "no_panic (read_tables_header (reader_new dat base CTX_TABLES))"
    and "read_tables_header (reader_new dat base CTX_TABLES) = Ok ((mj, mn, hs, va, so), r1) \<Longrightarrow>
      base + 6 \<le> usize_max \<and> no_panic (read_row_counts st va d1 r1)"
    and "read_tables_header (reader_new dat base CTX_TABLES) = Ok ((mj, mn, hs, va, so), r1) \<Longrightarrow>
      read_row_counts st va d1 r1 = Ok (rc, d2, r2) \<Longrightarrow> no_panic (read_extra_data hs r2)"
    and "read_tables_header (reader_new dat base CTX_TABLES) = Ok ((mj, mn, hs, va, so), r1) \<Longrightarrow>
      read_row_counts st va d1 r1 = Ok (rc, d2, r2) \<Longrightarrow> read_extra_data hs r2 = Ok (ex, r3) \<Longrightarrow>
      r_pos r3 \<le> length dat \<and> no_panic (place_tables st base (length dat) hs rc (r_pos r3) d2)"
proof -
  let ?r = "reader_new dat base CTX_TABLES"
  have w: "reader_wf ?r" using sl by simp
  note hdr = rd_safeD [OF tables_header_safe w]
  have len: "length dat \<le> isize_max" using sl by (simp add: slice_ok_def)
  show "no_panic (read_tables_header ?r)" by (rule hdr(1))
  assume 1: "read_tables_header ?r = Ok ((mj, mn, hs, va, so), r1)"
  have r1: "reader_wf r1" "r_data r1 = dat" using hdr(2,3) [OF 1] by (auto simp: moves_def)
  show "base + 6 \<le> usize_max \<and> no_panic (read_row_counts st va d1 r1)"
    using tables_header_size [OF w 1] fit read_row_counts_ok(1) [OF r1(1)] by simp
  assume 2: "read_row_counts st va d1 r1 = Ok (rc, d2, r2)"
  have r2: "reader_wf r2" "r_data r2 = dat" using read_row_counts_ok(2) [OF r1(1) 2] r1 by (auto simp: counts_ok_def)
  note ex = rd_safeD [OF extra_data_safe r2(1)]
  show "no_panic (read_extra_data hs r2)" by (rule ex(1))
  assume "read_extra_data hs r2 = Ok (ex, r3)"
  from ex(2) [OF this] have "r_pos r3 \<le> length dat" using r2 by (auto simp: moves_def)
  then show "r_pos r3 \<le> length dat \<and> no_panic (place_tables st base (length dat) hs rc (r_pos r3) d2)"
    using place_tables_total [OF fit _ len] by simp
qed

lemma placed_tables_wf:
  assumes "place_tables st (tb_base t) (length (tb_data t)) hs rc p d = Ok (cu, exh, ds, tb_layouts t)"
    and "p \<le> length (tb_data t)" and "slice_ok (tb_data t)"
  shows "tables_wf (stream_width hs rc) t"
  using place_tables_placed [OF assms(1,2)] assms(3)
  by (intro placed_all_wf [OF _ stream_width_ok]) (auto simp: slice_ok_def)

lemma tables_parse_wf:
  assumes sl: "slice_ok dat" and fit: "base + length dat \<le> usize_max"
  shows "no_panic (tables_parse dat base unc st diags)"
    and "tables_parse dat base unc st diags = Ok (t, ds) \<Longrightarrow>
      (\<exists>h rc. tables_wf (stream_width h rc) t) \<and> tb_data t = dat \<and> tb_base t = base
      \<and> (\<forall>table. is_sorted t table \<longleftrightarrow> key_sorted t table)"
proof -
  note steps = tables_parse_steps [OF sl fit]
  let ?t = "\<lambda>mj mn hs va so unc ex ls. \<lparr>tb_data = dat, tb_base = base, tb_major_version = mj,
        tb_minor_version = mn, tb_heap_sizes = hs, tb_valid = va, tb_declared_sorted = so,
        tb_verified_sorted = 0, tb_uncompressed = unc, tb_extra_data = ex, tb_layouts = ls\<rparr>"
  have wf: "tables_wf (stream_width hs rc) (?t mj mn hs va so unc ex ls)"
    if "read_tables_header (reader_new dat base CTX_TABLES) = Ok ((mj, mn, hs, va, so), r1)"
      "read_row_counts st va d1 r1 = Ok (rc, d2, r2)" "read_extra_data hs r2 = Ok (ex, r3)"
      "place_tables st base (length dat) hs rc (r_pos r3) d2 = Ok (cu, exh, d3, ls)"
    for mj mn hs va so r1 d1 rc d2 r2 ex r3 cu exh d3 ls
    using placed_tables_wf [of st "?t mj mn hs va so unc ex ls"] that steps(4) [OF that(1-3)] sl by simp
  have bits: "no_panic (check_heap_bits st base hs diags)" if "base + 6 \<le> usize_max" for hs
    using that by (auto simp: check_heap_bits_def res_iff)
  show "no_panic (tables_parse dat base unc st diags)"
    using steps bits verify_total [OF wf] unfolding tables_parse_def Let_def
    by (auto simp: res_bind_Panic_iff)
  assume "tables_parse dat base unc st diags = Ok (t, ds)"
  then obtain mj mn hs va so r1 d1 rc d2 r2 ex r3 cu exh d3 ls bits where
    p: "read_tables_header (reader_new dat base CTX_TABLES) = Ok ((mj, mn, hs, va, so), r1)"
      "read_row_counts st va d1 r1 = Ok (rc, d2, r2)" "read_extra_data hs r2 = Ok (ex, r3)"
      "place_tables st base (length dat) hs rc (r_pos r3) d2 = Ok (cu, exh, d3, ls)"
    and v: "verify_sortedness (?t mj mn hs va so unc ex ls) st d3 = Ok (bits, ds)"
    and t: "t = (?t mj mn hs va so unc ex ls)\<lparr>tb_verified_sorted := bits\<rparr>"
    unfolding tables_parse_def Let_def by (auto simp: res_bind_Ok_iff)
  have same: "key_sorted (t\<lparr>tb_verified_sorted := b\<rparr>) table = key_sorted t table" for b table t
    by (simp add: key_sorted_def keys_sorted_def cell_def cell_offset_def row_count_def table_layout_def)
  show "(\<exists>h rc. tables_wf (stream_width h rc) t) \<and> tb_data t = dat \<and> tb_base t = base
      \<and> (\<forall>table. is_sorted t table \<longleftrightarrow> key_sorted t table)"
  proof (intro conjI allI exI)
    show "tables_wf (stream_width hs rc) t" unfolding t tables_wf_sorted_bits by (rule wf [OF p])
    show "is_sorted t table \<longleftrightarrow> key_sorted t table" for table
      unfolding t same by (rule is_sorted_iff [OF wf [OF p] v])
  qed (simp_all add: t)
qed

section \<open>Typed rows\<close>

text \<open>What a typed row is made of: its cells, the coded ones decoded.\<close>

definition column_value :: "Tables \<Rightarrow> TableId \<Rightarrow> nat \<Rightarrow> nat \<Rightarrow> ColValue result" where
  "column_value t table rid j =
     (case columns_of table ! j of
        CK_Coded k \<Rightarrow>
          res_bind (coded_decode k (cell t table rid j)
              (saturating_add (saturating_add (tb_base t)
                  (tl_data_offset (table_layout t table) + (rid - 1) * tl_row_size (table_layout t table)))
                (tl_column_offsets (table_layout t table) ! j))) (\<lambda>tok. Ok (CV_Token tok))
      | _ \<Rightarrow> Ok (CV_Uint (cell t table rid j)))"

definition column_values :: "Tables \<Rightarrow> TableId \<Rightarrow> nat \<Rightarrow> ColValue list result" where
  "column_values t table rid = res_map (column_value t table rid) [0..<length (columns_of table)]"

definition row_cursor :: "Tables \<Rightarrow> TableId \<Rightarrow> nat \<Rightarrow> nat \<Rightarrow> RowCursor" where
  "row_cursor t table rid j =
     (let l = table_layout t table; p = tl_data_offset l + (rid - 1) * tl_row_size l in
      \<lparr>rc_bytes = take (tl_row_size l) (drop p (tb_data t)), rc_layout = l, rc_column = j,
       rc_base = saturating_add (tb_base t) p\<rparr>)"

lemma cursor_cell:
  assumes "tables_wf w t" and "1 \<le> rid" and "rid \<le> row_count t table" and "j < length (columns_of table)"
  shows "cursor_uint (row_cursor t table rid j) = Ok (cell t table rid j, row_cursor t table rid (Suc j))"
  using read_cell [OF assms] tables_wfD(3) [OF assms(1), of table] column_in_row(2) [OF tables_wfD(3) [OF assms(1)] assms(4)]
    assms(4)
  by (simp add: cursor_uint_def row_cursor_def Let_def layout_ok_def index_at_def get_at_def)

lemma read_column_cell:
  assumes "tables_wf w t" and "1 \<le> rid" and "rid \<le> row_count t table" and "j < length (columns_of table)"
  shows "read_column (columns_of table ! j) (row_cursor t table rid j) =
     res_bind (column_value t table rid j) (\<lambda>v. Ok (v, row_cursor t table rid (Suc j)))"
proof -
  have "get_at (tl_column_offsets (table_layout t table)) j = Some (tl_column_offsets (table_layout t table) ! j)"
    using column_in_row(2) [OF tables_wfD(3) [OF assms(1)] assms(4)] tables_wfD(3) [OF assms(1), of table]
    by (simp add: get_at_def layout_ok_def Let_def)
  then show ?thesis
    by (cases "columns_of table ! j")
      (simp_all add: cursor_cell [OF assms] cursor_coded_def column_value_def res_bind_assoc Let_def,
        simp add: row_cursor_def Let_def)
qed

lemma read_columns_cells:
  assumes "tables_wf w t" and "1 \<le> rid" and "rid \<le> row_count t table" and "i \<le> length (columns_of table)"
  shows "read_columns (drop i (columns_of table)) (row_cursor t table rid i) =
     res_bind (res_map (column_value t table rid) [i..<length (columns_of table)])
       (\<lambda>vs. Ok (vs, row_cursor t table rid (length (columns_of table))))"
  using assms(4)
proof (induction i rule: inc_induct)
  case (step i)
  then have d: "drop i (columns_of table) = columns_of table ! i # drop (Suc i) (columns_of table)"
    and u: "[i..<length (columns_of table)] = i # [Suc i..<length (columns_of table)]"
    by (simp_all add: Cons_nth_drop_Suc upt_conv_Cons)
  show ?case
    using step unfolding d u
    by (simp add: read_column_cell [OF assms(1-3)] res_bind_assoc)
qed simp

context row_type
begin

lemma row_exact:
  assumes "tables_wf w t" and "1 \<le> rid" and "rid \<le> row_count t table"
  shows "row_of t table decode rid = res_bind (column_values t table rid) (\<lambda>vs. Ok (build vs))"
proof -
  have "row_of t table decode rid = res_bind (decode (row_cursor t table rid 0)) (\<lambda>(row, _). Ok row)"
    by (simp add: row_of_def Let_def row_bytes_ok [OF assms] row_start_ok [OF assms] row_cursor_def)
  also have "\<dots> = res_bind (column_values t table rid) (\<lambda>vs. Ok (build vs))"
    using read_columns_cells [OF assms, of 0] by (simp add: decodes column_values_def res_bind_assoc)
  finally show ?thesis .
qed

lemma row_out_of_range:
  assumes "\<not> (1 \<le> rid \<and> rid \<le> row_count t table)"
  shows "row_of t table decode rid = Err (error_new OutOfRange (tb_base t) (TableId_name table))"
  by (simp add: row_of_def Let_def row_bytes_err [OF assms])

lemma row_total:
  assumes "tables_wf w t"
  shows "no_panic (row_of t table decode rid)"
proof (cases "1 \<le> rid \<and> rid \<le> row_count t table")
  case True
  have "no_panic (column_value t table rid j)" for j
    by (auto simp: column_value_def coded_decode_def Let_def res_iff split: ColumnKind.splits option.splits)
  then show ?thesis
    using True by (auto simp: row_exact [OF assms] column_values_def res_iff no_panic_res_map)
qed (simp add: row_out_of_range)

end

section \<open>Streams\<close>

text \<open>
  A table stream laid out as II.24.2.6 says: the header, one row count for each bit of
  \<open>Valid\<close>, and the bytes of the tables. \<open>c\<close> gives the row counts by slot.
\<close>

definition count_bytes :: "u64 \<Rightarrow> (nat \<Rightarrow> u32) \<Rightarrow> nat list \<Rightarrow> bytes" where
  "count_bytes valid c slots = concat (map (\<lambda>s. if bit valid s then le4 (c s) else []) slots)"

definition stream_bytes :: "u8 \<Rightarrow> u8 \<Rightarrow> u8 \<Rightarrow> u64 \<Rightarrow> u64 \<Rightarrow> (nat \<Rightarrow> u32) \<Rightarrow> bytes \<Rightarrow> bytes" where
  "stream_bytes major minor heap_sizes valid srt c body =
     le4 0 @ (major # minor # heap_sizes # 1 # (le8 valid @ (le8 srt @ (count_bytes valid c [0..<TABLE_SLOTS] @ body))))"

definition declared_counts :: "u64 \<Rightarrow> (nat \<Rightarrow> u32) \<Rightarrow> nat list" where
  "declared_counts valid c = map (\<lambda>s. if bit valid s then unat (c s) else 0) [0..<TABLE_SLOTS]"

definition table_bytes :: "u8 \<Rightarrow> nat list \<Rightarrow> TableId \<Rightarrow> nat" where
  "table_bytes h rc t = rc ! slot_of t * offset_of (stream_width h rc) (columns_of t) (length (columns_of t))"

definition stream_ok :: "u8 \<Rightarrow> u64 \<Rightarrow> (nat \<Rightarrow> u32) \<Rightarrow> bytes \<Rightarrow> bool" where
  "stream_ok h valid c body \<longleftrightarrow>
     h AND NOT KNOWN_HEAP_BITS = 0 \<and> h AND 0x40 = 0
     \<and> list_all (\<lambda>s. bit valid s \<longrightarrow> TableId_from_u8 (of_nat s) \<noteq> None) [0..<TABLE_SLOTS]
     \<and> (\<Sum>t\<leftarrow>TableId_ALL. table_bytes h (declared_counts valid c) t) \<le> length body"

lemma step_u64:
  assumes "reader_on r (le8 w @ ys)"
  obtains r' where "reads_to reader_u64 r w 8 ys r'"
  using cd_u64.step [of r w ys] assms by auto

lemma read_header_on:
  assumes "reader_on r (le4 x @ (mj # mn # hs # y # (le8 va @ (le8 so @ ys))))"
  obtains r' where "read_tables_header r = Ok ((mj, mn, hs, va, so), r')" "reader_on r' ys" "r_data r' = r_data r"
proof -
  obtain r1 where 1: "reads_to reader_u32 r x 4 (mj # mn # hs # y # (le8 va @ (le8 so @ ys))) r1"
    using step_u32 [OF assms] .
  obtain r2 where 2: "reads_to reader_u8 r1 mj 1 (mn # hs # y # (le8 va @ (le8 so @ ys))) r2"
    using step_u8 [OF reads_toD(2) [OF 1]] .
  obtain r3 where 3: "reads_to reader_u8 r2 mn 1 (hs # y # (le8 va @ (le8 so @ ys))) r3"
    using step_u8 [OF reads_toD(2) [OF 2]] .
  obtain r4 where 4: "reads_to reader_u8 r3 hs 1 (y # (le8 va @ (le8 so @ ys))) r4"
    using step_u8 [OF reads_toD(2) [OF 3]] .
  obtain r5 where 5: "reads_to reader_u8 r4 y 1 (le8 va @ (le8 so @ ys)) r5"
    using step_u8 [OF reads_toD(2) [OF 4]] .
  obtain r6 where 6: "reads_to reader_u64 r5 va 8 (le8 so @ ys) r6"
    using step_u64 [OF reads_toD(2) [OF 5]] .
  obtain r7 where 7: "reads_to reader_u64 r6 so 8 ys r7"
    using step_u64 [OF reads_toD(2) [OF 6]] .
  note all = 1 2 3 4 5 6 7
  have "read_tables_header r = Ok ((mj, mn, hs, va, so), r7)"
    by (simp add: read_tables_header_def all [THEN reads_toD(1)])
  then show thesis by (rule that) (simp_all add: reads_toD(2) [OF 7] all [THEN reads_toD(4)])
qed

lemma read_counts_on:
  assumes "reader_on r (count_bytes valid c [i..<TABLE_SLOTS] @ ys)" and "i \<le> TABLE_SLOTS"
    and "length rc = TABLE_SLOTS"
    and "\<forall>s < TABLE_SLOTS. bit valid s \<longrightarrow> TableId_from_u8 (of_nat s) \<noteq> None"
  shows "\<exists>r'. res_fold (read_row_count st valid) [i..<TABLE_SLOTS] (rc, diags, r) =
      Ok (map (\<lambda>s. if i \<le> s \<and> bit valid s then unat (c s) else rc ! s) [0..<TABLE_SLOTS], diags, r')
    \<and> reader_on r' ys \<and> r_data r' = r_data r"
  using assms(2,1,3)
proof (induction i arbitrary: rc r rule: inc_induct)
  case base
  have "map (\<lambda>s. if TABLE_SLOTS \<le> s \<and> bit valid s then unat (c s) else rc ! s) [0..<TABLE_SLOTS] = rc"
    using base.prems(2) by (intro nth_equalityI) auto
  with base show ?case by (simp add: count_bytes_def)
next
  case (step i)
  have u: "[i..<TABLE_SLOTS] = i # [Suc i..<TABLE_SLOTS]" using step.hyps by (simp add: upt_conv_Cons)
  have b: "valid AND push_bit i 1 = 0 \<longleftrightarrow> \<not> bit valid i"
    by (simp add: and_exp_eq_0_iff_not_bit)
  show ?case
  proof (cases "bit valid i")
    case False
    have f: "read_row_count st valid i (rc, diags, r) = Ok (rc, diags, r)" using b False by (simp add: read_row_count_def)
    have "reader_on r (count_bytes valid c [Suc i..<TABLE_SLOTS] @ ys)"
      using step.prems(1) False by (simp add: count_bytes_def u)
    moreover have "map (\<lambda>s. if Suc i \<le> s \<and> bit valid s then unat (c s) else rc ! s) [0..<TABLE_SLOTS] =
        map (\<lambda>s. if i \<le> s \<and> bit valid s then unat (c s) else rc ! s) [0..<TABLE_SLOTS]"
      using False by (intro map_cong) (auto simp: Suc_le_eq le_less)
    ultimately show ?thesis using step.IH [of r rc] step.prems(2) f unfolding u by auto
  next
    case True
    have "reader_on r (le4 (c i) @ (count_bytes valid c [Suc i..<TABLE_SLOTS] @ ys))"
      using step.prems(1) True by (simp add: count_bytes_def u)
    then obtain r1 where r1: "reads_to reader_u32 r (c i) 4 (count_bytes valid c [Suc i..<TABLE_SLOTS] @ ys) r1"
      by (rule step_u32)
    obtain id where "TableId_from_u8 (of_nat i) = Some id" using assms(4) step.hyps True by auto
    then have f: "read_row_count st valid i (rc, diags, r) = Ok (rc[i := unat (c i)], diags, r1)"
      using b True by (simp add: read_row_count_def Let_def reads_toD(1) [OF r1])
    have m: "map (\<lambda>s. if Suc i \<le> s \<and> bit valid s then unat (c s) else rc[i := unat (c i)] ! s) [0..<TABLE_SLOTS] =
        map (\<lambda>s. if i \<le> s \<and> bit valid s then unat (c s) else rc ! s) [0..<TABLE_SLOTS]"
      using True step.prems(2) step.hyps by (intro map_cong) (auto simp: nth_list_update Suc_le_eq le_less)
    from step.IH [OF reads_toD(2) [OF r1], of "rc[i := unat (c i)]"] step.prems(2) f m show ?thesis
      unfolding u by (auto simp: reads_toD(4) [OF r1])
  qed
qed

lemma place_table_fits:
  assumes "cursor + table_bytes h rc t \<le> len" and "len \<le> isize_max"
  shows "\<exists>l. place_table st base len (stream_width h rc) rc t (cursor, False, diags, layouts)
      = Ok (cursor + table_bytes h rc t, False, diags, layouts[slot_of t := l])
    \<and> tl_row_count l = rc ! slot_of t \<and> tl_data_offset l = cursor"
proof -
  let ?w = "stream_width h rc"
  let ?l = "fill_columns ?w 0 (columns_of t) 0 (blank_layout t cursor)"
  note l = blank_layout_filled [OF stream_width_ok, of h rc t cursor]
  have rs: "rc ! slot_of t * tl_row_size ?l = table_bytes h rc t"
    using l(1) by (simp add: layout_ok_def Let_def table_bytes_def)
  moreover have "\<not> len - cursor < table_bytes h rc t" using assms(1) by simp
  ultimately have "clamp_count st base len cursor (tl_row_size ?l) (rc ! slot_of t) False diags = Ok (rc ! slot_of t, False, diags)"
    by (simp add: clamp_count_def Let_def saturating_sub_def)
  then show ?thesis
    using rs l(2) assms
    by (intro exI [of _ "?l\<lparr>tl_row_count := rc ! slot_of t\<rparr>"])
      (simp add: place_table_def Let_def byte_size_def saturating_add_def isize_max_def usize_max_def)
qed

lemma place_tables_fit:
  assumes "cursor + (\<Sum>t\<leftarrow>xs. table_bytes h rc t) \<le> len" and "len \<le> isize_max" and "distinct xs"
    and "length layouts = TABLE_SLOTS"
  shows "\<exists>cu ls. res_fold (place_table st base len (stream_width h rc) rc) xs (cursor, False, diags, layouts)
      = Ok (cu, False, diags, ls) \<and> length ls = TABLE_SLOTS
    \<and> (\<forall>t. if t \<in> set xs
          then tl_row_count (ls ! slot_of t) = rc ! slot_of t
            \<and> tl_data_offset (ls ! slot_of t) = cursor + (\<Sum>u\<leftarrow>takeWhile (\<lambda>u. u \<noteq> t) xs. table_bytes h rc u)
          else ls ! slot_of t = layouts ! slot_of t)"
  using assms(1,3,4)
proof (induction xs arbitrary: cursor layouts)
  case (Cons x xs)
  obtain l where f: "place_table st base len (stream_width h rc) rc x (cursor, False, diags, layouts)
      = Ok (cursor + table_bytes h rc x, False, diags, layouts[slot_of x := l])" "tl_row_count l = rc ! slot_of x"
    "tl_data_offset l = cursor"
    using place_table_fits [of cursor h rc x len] Cons.prems(1) assms(2) by fastforce
  from Cons.IH [of "cursor + table_bytes h rc x" "layouts[slot_of x := l]"] Cons.prems obtain cu ls where
    r: "res_fold (place_table st base len (stream_width h rc) rc) xs (cursor + table_bytes h rc x, False, diags, layouts[slot_of x := l])
      = Ok (cu, False, diags, ls)" "length ls = TABLE_SLOTS"
    "\<And>t. if t \<in> set xs
      then tl_row_count (ls ! slot_of t) = rc ! slot_of t
        \<and> tl_data_offset (ls ! slot_of t) = cursor + table_bytes h rc x
            + (\<Sum>u\<leftarrow>takeWhile (\<lambda>u. u \<noteq> t) xs. table_bytes h rc u)
      else ls ! slot_of t = layouts[slot_of x := l] ! slot_of t"
    by auto
  have "if t \<in> set (x # xs)
      then tl_row_count (ls ! slot_of t) = rc ! slot_of t
        \<and> tl_data_offset (ls ! slot_of t) = cursor + (\<Sum>u\<leftarrow>takeWhile (\<lambda>u. u \<noteq> t) (x # xs). table_bytes h rc u)
      else ls ! slot_of t = layouts ! slot_of t" for t
    using r(3) [of t] f(2,3) Cons.prems(2,3) by (cases "t = x") (auto split: if_splits)
  with f(1) r(1,2) show ?case by auto
qed simp

lemma verify_fold_accepts:
  assumes "tables_wf w t"
    and "\<And>table. is_strict st \<Longrightarrow> is_declared_sorted t table \<Longrightarrow> sort_key_column table = None \<or> key_sorted t table"
  shows "\<exists>bits ds. res_fold (verify_table t st) ts (b, d) = Ok (bits, ds)"
proof (induction ts arbitrary: b d)
  case (Cons x ts)
  have "\<exists>b' d'. verify_table t st x (b, d) = Ok (b', d')"
    using assms(2) [of x] by (auto simp: verify_table_iff [OF assms(1)])
  with Cons.IH show ?case by fastforce
qed simp

definition table_start :: "u8 \<Rightarrow> nat list \<Rightarrow> TableId \<Rightarrow> nat" where
  "table_start h rc t = (\<Sum>u\<leftarrow>takeWhile (\<lambda>u. u \<noteq> t) TableId_ALL. table_bytes h rc u)"

text \<open>The rows of a table in a laid-out stream: its share of the body, cut into rows.\<close>

definition body_row :: "u8 \<Rightarrow> nat list \<Rightarrow> bytes \<Rightarrow> TableId \<Rightarrow> nat \<Rightarrow> bytes" where
  "body_row h rc body t rid =
     (let sz = offset_of (stream_width h rc) (columns_of t) (length (columns_of t)) in
      take sz (drop (table_start h rc t + (rid - 1) * sz) body))"

text \<open>A column of such a row, and a stream that keeps the order it declares.\<close>

definition body_cell :: "u8 \<Rightarrow> nat list \<Rightarrow> bytes \<Rightarrow> TableId \<Rightarrow> nat \<Rightarrow> nat \<Rightarrow> u32" where
  "body_cell h rc body t rid j =
     (let bs = drop (offset_of (stream_width h rc) (columns_of t) j) (body_row h rc body t rid) in
      if stream_width h rc (columns_of t ! j) = 2 then ucast (from_le_bytes (take 2 bs) :: u16)
      else from_le_bytes (take 4 bs))"

definition order_kept :: "u8 \<Rightarrow> u64 \<Rightarrow> u64 \<Rightarrow> (nat \<Rightarrow> u32) \<Rightarrow> bytes \<Rightarrow> bool" where
  "order_kept h valid srt c body \<longleftrightarrow>
     (let rc = declared_counts valid c in
      \<forall>t k. bit srt (slot_of t) \<and> sort_key_column t = Some k \<longrightarrow>
        sorted_wrt (\<le>) (map (\<lambda>rid. body_cell h rc body t rid k) [1..<rc ! slot_of t + 1]))"

lemma order_kept_undeclared [simp]: "order_kept h valid 0 c body"
  by (simp add: order_kept_def)

lemma body_rows:
  assumes "tables_wf (stream_width h rc) t" and "1 \<le> rid" and "rid \<le> row_count t table"
    and "drop (tl_data_offset (table_layout t table)) (tb_data t) = drop (table_start h rc table) body"
  shows "row_bytes t table rid = Ok (body_row h rc body table rid)"
  using row_bytes_ok [OF assms(1-3)] tables_wfD(3) [OF assms(1), of table] assms(4)
  by (simp add: body_row_def layout_ok_def Let_def add.commute [of "table_start h rc table"]
      add.commute [of "tl_data_offset (table_layout t table)"] flip: drop_drop)

lemma body_cells:
  assumes "tables_wf (stream_width h rc) t" and "1 \<le> rid" and "rid \<le> row_count t table"
    and "drop (tl_data_offset (table_layout t table)) (tb_data t) = drop (table_start h rc table) body"
    and "j < length (columns_of table)"
  shows "cell t table rid j = body_cell h rc body table rid j"
proof -
  let ?l = "table_layout t table"
  note col = column_in_row [OF tables_wfD(3) [OF assms(1), of table] assms(5)]
  define p where "p = tl_data_offset ?l + (rid - 1) * tl_row_size ?l"
  have row: "body_row h rc body table rid = take (tl_row_size ?l) (drop p (tb_data t))"
    using body_rows [OF assms(1-4)] row_bytes_ok [OF assms(1-3)] by (simp add: p_def)
  have tk: "take n (drop (tl_column_offsets ?l ! j) (take (tl_row_size ?l) (drop p (tb_data t))))
      = take n (drop (cell_offset t table rid j) (tb_data t))" if "tl_column_offsets ?l ! j + n \<le> tl_row_size ?l" for n
    using that by (simp add: drop_take min_absorb1 cell_offset_def p_def add.commute add.left_commute)
  consider "tl_column_widths ?l ! j = 2" | "tl_column_widths ?l ! j = 4"
    using tables_wfD(1) [OF assms(1)] col(3) by (auto simp: widths_ok_def)
  then show ?thesis
    using col(1) tk [of 2] tk [of 4] by cases (simp_all add: cell_def body_cell_def row Let_def flip: col(3,4))
qed

lemma stream_parses:
  assumes ok: "stream_ok h valid c body" and sl: "slice_ok (stream_bytes mj mn h valid srt c body)"
    and st: "is_strict st \<longrightarrow> order_kept h valid srt c body"
  shows "\<exists>t ds. tables_parse (stream_bytes mj mn h valid srt c body) base unc st diags = Ok (t, ds)
    \<and> (\<forall>table. row_count t table = declared_counts valid c ! slot_of table)
    \<and> tb_major_version t = mj \<and> tb_minor_version t = mn \<and> tb_heap_sizes t = h \<and> tb_valid t = valid
    \<and> tb_declared_sorted t = srt \<and> tb_uncompressed t = unc \<and> tb_extra_data t = None
    \<and> tables_wf (stream_width h (declared_counts valid c)) t
    \<and> (\<forall>table. drop (tl_data_offset (table_layout t table)) (tb_data t)
          = drop (table_start h (declared_counts valid c) table) body)"
proof -
  let ?dat = "stream_bytes mj mn h valid srt c body" and ?rc = "declared_counts valid c"
  have len: "length ?dat \<le> isize_max" using sl by (simp add: slice_ok_def)
  have on: "reader_on (reader_new ?dat base CTX_TABLES)
      (le4 0 @ (mj # mn # h # 1 # (le8 valid @ (le8 srt @ (count_bytes valid c [0..<TABLE_SLOTS] @ body)))))"
    using sl by (simp add: stream_bytes_def)
  obtain r1 where r1: "read_tables_header (reader_new ?dat base CTX_TABLES) = Ok ((mj, mn, h, valid, srt), r1)"
    "reader_on r1 (count_bytes valid c [0..<TABLE_SLOTS] @ body)"
    "r_data r1 = r_data (reader_new ?dat base CTX_TABLES)"
    using read_header_on [OF on] .
  have bits: "check_heap_bits st base h diags = Ok diags" using ok by (simp add: stream_ok_def check_heap_bits_def)
  have ids: "\<forall>s < TABLE_SLOTS. bit valid s \<longrightarrow> TableId_from_u8 (of_nat s) \<noteq> None"
    using ok by (simp add: stream_ok_def list_all_iff)
  obtain r2 where r2: "read_row_counts st valid diags r1 = Ok (?rc, diags, r2)" "reader_on r2 body" "r_data r2 = ?dat"
    using read_counts_on [OF r1(2) _ _ ids, of "replicate TABLE_SLOTS 0" st diags] r1(3)
    by (auto simp: read_row_counts_def declared_counts_def cong: map_cong)
  have ex: "read_extra_data h r2 = Ok (None, r2)" using ok by (simp add: stream_ok_def read_extra_data_def)
  have pos: "r_pos r2 \<le> length ?dat" "length ?dat - r_pos r2 = length body"
    using r2(2,3) length_drop [of "r_pos r2" ?dat] by (auto simp: reader_on_def reader_wf_def simp del: length_drop)
  moreover have "(\<Sum>t\<leftarrow>TableId_ALL. table_bytes h ?rc t) \<le> length body" using ok by (simp add: stream_ok_def)
  ultimately have fit: "r_pos r2 + (\<Sum>t\<leftarrow>TableId_ALL. table_bytes h ?rc t) \<le> length ?dat" by linarith
  obtain cu ls where pl: "place_tables st base (length ?dat) h ?rc (r_pos r2) diags = Ok (cu, False, diags, ls)"
    and rows: "\<And>t. tl_row_count (ls ! slot_of t) = ?rc ! slot_of t"
      "\<And>t. tl_data_offset (ls ! slot_of t) = r_pos r2 + table_start h ?rc t"
    unfolding table_start_def using place_tables_fit [OF fit len TableId_ALL_distinct, of "replicate TABLE_SLOTS table_layout_default" st base diags]
    by (auto simp: place_tables_eq)
  let ?t = "\<lparr>tb_data = ?dat, tb_base = base, tb_major_version = mj, tb_minor_version = mn, tb_heap_sizes = h,
      tb_valid = valid, tb_declared_sorted = srt, tb_verified_sorted = 0, tb_uncompressed = unc,
      tb_extra_data = None, tb_layouts = ls\<rparr>"
  have wf: "tables_wf (stream_width h ?rc) ?t"
    using placed_tables_wf [of st ?t h ?rc "r_pos r2" diags cu False diags] pl pos(1) sl by simp
  have at: "drop (tl_data_offset (ls ! slot_of table)) ?dat = drop (table_start h ?rc table) body" for table
    using r2(2,3) drop_drop [of "table_start h ?rc table" "r_pos r2" ?dat]
    by (simp add: rows(2) reader_on_def add.commute)
  have n: "row_count ?t table = ?rc ! slot_of table" for table by (simp add: row_count_def table_layout_def rows(1))
  have key: "key_sorted ?t table"
    if "is_strict st" "is_declared_sorted ?t table" "sort_key_column table = Some k" for table k
  proof -
    have "map (\<lambda>rid. cell ?t table rid k) [1..<row_count ?t table + 1]
        = map (\<lambda>rid. body_cell h ?rc body table rid k) [1..<?rc ! slot_of table + 1]"
      using body_cells [OF wf _ _ _ sort_key_column_less [OF that(3)], of _ body] at [of table] n [of table]
      by (auto simp: table_layout_def simp del: upt_Suc)
    then show ?thesis
      using st that by (auto simp: order_kept_def is_declared_sorted_def key_sorted_def keys_sorted_def Let_def)
  qed
  have "\<exists>bits ds. res_fold (verify_table ?t st) TableId_ALL (0, diags) = Ok (bits, ds)"
  proof (rule verify_fold_accepts [OF wf])
    fix table assume "is_strict st" "is_declared_sorted ?t table"
    then show "sort_key_column table = None \<or> key_sorted ?t table"
      using key [of table] by (cases "sort_key_column table") simp_all
  qed
  then obtain bits ds where v: "verify_sortedness ?t st diags = Ok (bits, ds)" by (auto simp: verify_sortedness_def)
  have "tables_parse ?dat base unc st diags = Ok (?t\<lparr>tb_verified_sorted := bits\<rparr>, ds)"
    by (simp add: tables_parse_def r1(1) bits r2(1) ex pl v Let_def)
  moreover have "row_count (?t\<lparr>tb_verified_sorted := bits\<rparr>) table = ?rc ! slot_of table" for table
    by (simp add: row_count_def table_layout_def rows(1))
  ultimately show ?thesis using wf at
    by (intro exI [of _ "?t\<lparr>tb_verified_sorted := bits\<rparr>"] exI [of _ ds]) (simp add: table_layout_def tables_wf_def)
qed

section \<open>Indirection and iteration\<close>

lemma resolve_exact:
  assumes "tables_wf w t"
  shows "resolve_indirection t table rid =
    (case TableId_ptr_source table of
       None \<Rightarrow> Ok rid
     | Some ptr \<Rightarrow>
         if row_count t ptr = 0 then Ok rid
         else if 1 \<le> rid \<and> rid \<le> row_count t ptr then Ok (unat (cell t ptr rid 0))
         else Err (error_new OutOfRange (tb_base t) (TableId_name ptr)))"
proof (cases "TableId_ptr_source table")
  case (Some ptr)
  have cols: "column_values t ptr rid = Ok [CV_Uint (cell t ptr rid 0)]"
    using Some by (auto simp: ptr_source_iff column_values_def column_value_def row_defs)
  from Some have "ptr \<in> {T_FieldPtr, T_MethodPtr, T_ParamPtr, T_EventPtr, T_PropertyPtr}"
    by (auto simp: ptr_source_iff)
  with Some cols show ?thesis
    by (cases "1 \<le> rid \<and> rid \<le> row_count t ptr")
      (auto simp: resolve_indirection_def
        r_field_ptr.row_exact [OF assms] r_method_ptr.row_exact [OF assms] r_param_ptr.row_exact [OF assms]
        r_event_ptr.row_exact [OF assms] r_property_ptr.row_exact [OF assms]
        r_field_ptr.row_out_of_range r_method_ptr.row_out_of_range r_param_ptr.row_out_of_range
        r_event_ptr.row_out_of_range r_property_ptr.row_out_of_range)
qed (simp add: resolve_indirection_def)

lemma row_iter_next_some:
  assumes "\<And>rid. no_panic (get rid)" and "ri_rid it < ri_end it" and "ri_end it \<le> u32_max"
  shows "row_iter_next get it = Ok (Some ((ri_rid it, get (ri_rid it)), it\<lparr>ri_rid := ri_rid it + 1\<rparr>))"
  using assms(1) [of "ri_rid it"] assms(2,3)
  by (cases "get (ri_rid it)") (simp_all add: row_iter_next_def Let_def u32_add_def)

interpretation rows: tiling_iter "row_iter_next get"
    "\<lambda>it. (\<forall>rid. no_panic (get rid)) \<and> ri_rid it \<le> ri_end it \<and> ri_end it = min last u32_max"
    ri_rid "min last u32_max" fst "\<lambda>_. 1"
  for get :: "nat \<Rightarrow> 'r result" and last :: nat
proof
  fix it :: RowIter
  assume i: "(\<forall>rid. no_panic (get rid)) \<and> ri_rid it \<le> ri_end it \<and> ri_end it = min last u32_max"
  show "\<exists>r. row_iter_next get it = Ok r"
    using i row_iter_next_some [of get it] by (cases "ri_rid it < ri_end it") (auto simp: row_iter_next_def)
  show "ri_rid it \<le> min last u32_max" using i by metis
  fix x it' assume n: "row_iter_next get it = Ok (Some (x, it'))"
  then have lt: "ri_rid it < ri_end it" by (auto simp: row_iter_next_def split: if_splits)
  note n [unfolded row_iter_next_some [OF _ lt], simplified]
  with i lt show "(\<forall>rid. no_panic (get rid)) \<and> ri_rid it' \<le> ri_end it' \<and> ri_end it' = min last u32_max"
    and "fst x = ri_rid it \<and> 0 < (1::nat) \<and> ri_rid it' = ri_rid it + 1"
    using row_iter_next_some [of get it] n by (auto split: if_splits)
qed

lemma row_iter_all:
  assumes "\<And>rid. no_panic (get rid)" and "ri_end it \<le> u32_max" and "ri_end it - ri_rid it \<le> k"
  shows "drain k (row_iter_next get) it = Ok (Some (map (\<lambda>rid. (rid, get rid)) [ri_rid it..<ri_end it]))"
  using assms(2,3)
proof (induction k arbitrary: it)
  case (Suc k)
  show ?case
  proof (cases "ri_rid it < ri_end it")
    case True
    with Suc.IH [of "it\<lparr>ri_rid := ri_rid it + 1\<rparr>"] Suc.prems show ?thesis
      by (simp add: row_iter_next_some [OF assms(1) True Suc.prems(1)] upt_conv_Cons)
  qed (simp add: row_iter_next_def)
qed (simp add: row_iter_next_def)

section \<open>Properties\<close>

text \<open>C4: A table stream that is laid out by the rules (the stream header, a row count for each table in
  \<open>Valid\<close>, and behind them the rows of every table) parses, permissive or strict: the header fields
  and the row counts of every table come back as they were written, and so does every row, byte for
  byte, from its place in the body. For a strict parse the stream has to keep the order it declares:
  the key column of every table that its \<open>Sorted\<close> bits name does not decrease.\<close>

theorem table_stream_roundtrip:
  assumes "stream_ok h valid c body" and "slice_ok (stream_bytes mj mn h valid srt c body)"
    and "is_strict st \<longrightarrow> order_kept h valid srt c body"
  shows "\<exists>t ds. tables_parse (stream_bytes mj mn h valid srt c body) base unc st diags = Ok (t, ds)
    \<and> (\<forall>table. row_count t table = declared_counts valid c ! slot_of table)
    \<and> tb_major_version t = mj \<and> tb_minor_version t = mn \<and> tb_heap_sizes t = h \<and> tb_valid t = valid
    \<and> tb_declared_sorted t = srt \<and> tb_uncompressed t = unc \<and> tb_extra_data t = None
    \<and> (\<forall>table. \<forall>rid \<in> {1..row_count t table}.
          row_bytes t table rid = Ok (body_row h (declared_counts valid c) body table rid))"
proof -
  obtain t ds where t: "tables_parse (stream_bytes mj mn h valid srt c body) base unc st diags = Ok (t, ds)"
    "\<forall>table. row_count t table = declared_counts valid c ! slot_of table"
    "tb_major_version t = mj \<and> tb_minor_version t = mn \<and> tb_heap_sizes t = h \<and> tb_valid t = valid
      \<and> tb_declared_sorted t = srt \<and> tb_uncompressed t = unc \<and> tb_extra_data t = None"
    and wf: "tables_wf (stream_width h (declared_counts valid c)) t"
    and d: "\<And>table. drop (tl_data_offset (table_layout t table)) (tb_data t)
          = drop (table_start h (declared_counts valid c) table) body"
    using stream_parses [OF assms, of base unc diags] by blast
  show ?thesis using t body_rows [OF wf _ _ d] by (intro exI [of _ t] exI [of _ ds]) simp
qed

text \<open>A stream for the examples: one \<open>Module\<close>, one \<open>TypeDef\<close> and one \<open>MethodDef\<close> row, the type
  owning the method.\<close>

definition sample_body :: bytes where
  "sample_body = replicate 10 7 @ (replicate 12 0 @ [1, 0]) @ (le4 0x2050 @ replicate 10 9)"

definition sample_stream :: bytes where
  "sample_stream = stream_bytes 2 0 0 69 0 (\<lambda>_. 1) sample_body"

lemma bit_69: "bit (69 :: u64) n \<longleftrightarrow> n = 0 \<or> n = 2 \<or> n = 6"
proof -
  have "(69 :: u64) = 2 ^ 6 OR 2 ^ 2 OR 1" by simp
  then show ?thesis by (simp only: bit_or_iff bit_exp_iff bit_1_iff) auto
qed

lemma sample_counts: "declared_counts 69 (\<lambda>_. 1) = [1, 0, 1, 0, 0, 0, 1] @ replicate 57 0"
  by (rule nth_equalityI)
    (auto simp: declared_counts_def TABLE_SLOTS_def nth_Cons' nth_append bit_69 simp del: bit_numeral_word_iff)

lemma length_sample_body: "length sample_body = 38"
  by (simp add: sample_body_def)

lemma sample_stream_ok: "stream_ok 0 69 (\<lambda>_. 1) sample_body"
proof -
  have "list_all (\<lambda>s. bit (69 :: u64) s \<longrightarrow> TableId_from_u8 (of_nat s) \<noteq> None) [0..<TABLE_SLOTS]"
    by (auto simp: list_all_iff TableId_from_u8_def bit_69 simp del: bit_numeral_word_iff)
  then show ?thesis
    by (simp add: stream_ok_def table_bytes_def slot_of_def TableId_ALL_def row_defs stream_width_def
        column_width_def offset_of_def sample_counts nth_append nth_Cons' TableId_ptr_source_def
        length_sample_body coded_column_width_def small_row_limit_def map_filter_simps)
qed

lemma sample_stream_slice: "slice_ok sample_stream"
  by (simp add: sample_stream_def stream_bytes_def count_bytes_def slice_ok_def isize_max_def TABLE_SLOTS_def length_concat
      upt_rec length_sample_body)

lemma sample_stream_parses:
  obtains t ds where "tables_parse sample_stream 0 False Strict [] = Ok (t, ds)"
    "row_count t T_Module = 1" "row_count t T_TypeDef = 1" "row_count t T_MethodDef = 1" "row_count t T_MethodPtr = 0"
    "tables_wf (stream_width 0 (declared_counts 69 (\<lambda>_. 1))) t"
    "drop (tl_data_offset (table_layout t T_TypeDef)) (tb_data t) = drop 10 sample_body"
    "\<And>table. row_count t table = ([1, 0, 1, 0, 0, 0, 1] @ replicate 57 0) ! slot_of table"
proof -
  have "table_start 0 (declared_counts 69 (\<lambda>_. 1)) T_TypeDef = 10"
    by (simp add: table_start_def TableId_ALL_def table_bytes_def slot_of_def row_defs stream_width_def
        column_width_def offset_of_def sample_counts)
  then show thesis
    using that stream_parses [OF sample_stream_ok sample_stream_slice [unfolded sample_stream_def], of Strict 0 False "[]"]
    by (auto simp: sample_stream_def sample_counts slot_of_def nth_append nth_Cons')
qed

lemma sample_stream_fits: "0 + length sample_stream \<le> usize_max"
  using slice_ok_length [OF sample_stream_slice] by (simp add: usize_max_def)

text \<open>A stream that declares an order and keeps it: two \<open>FieldMarshal\<close> rows, for the fields 1 and 2.\<close>

definition keyed_body :: bytes where
  "keyed_body = [2, 0, 5, 0, 4, 0, 6, 0]"

definition keyed_stream :: bytes where
  "keyed_stream = stream_bytes 2 0 0 8192 8192 (\<lambda>_. 2) keyed_body"

lemma bit_13: "bit (8192 :: u64) n \<longleftrightarrow> n = 13"
proof -
  have "(8192 :: u64) = 2 ^ 13" by simp
  then show ?thesis by (simp only: bit_exp_iff) auto
qed

lemma keyed_counts: "declared_counts 8192 (\<lambda>_. 2) = replicate 13 0 @ [2] @ replicate 50 0"
  by (rule nth_equalityI)
    (auto simp: declared_counts_def TABLE_SLOTS_def nth_Cons' nth_append bit_13 simp del: bit_numeral_word_iff)

lemma keyed_stream_ok: "stream_ok 0 8192 (\<lambda>_. 2) keyed_body"
proof -
  have "list_all (\<lambda>s. bit (8192 :: u64) s \<longrightarrow> TableId_from_u8 (of_nat s) \<noteq> None) [0..<TABLE_SLOTS]"
    by (auto simp: list_all_iff TableId_from_u8_def bit_13 simp del: bit_numeral_word_iff)
  then show ?thesis
    by (simp add: stream_ok_def table_bytes_def slot_of_def TableId_ALL_def row_defs stream_width_def
        column_width_def offset_of_def keyed_counts nth_append nth_Cons' TableId_ptr_source_def
        keyed_body_def coded_column_width_def small_row_limit_def map_filter_simps)
qed

lemma keyed_stream_slice: "slice_ok keyed_stream"
  by (simp add: keyed_stream_def stream_bytes_def count_bytes_def slice_ok_def isize_max_def TABLE_SLOTS_def length_concat
      upt_rec keyed_body_def)

lemma keyed_stream_fits: "0 + length keyed_stream \<le> usize_max"
  using slice_ok_length [OF keyed_stream_slice] by (simp add: usize_max_def)

lemma keyed_cells:
  "body_cell 0 (declared_counts 8192 (\<lambda>_. 2)) keyed_body T_FieldMarshal 1 0 = 2"
  "body_cell 0 (declared_counts 8192 (\<lambda>_. 2)) keyed_body T_FieldMarshal 2 0 = 4"
  by (simp_all add: body_cell_def body_row_def table_start_def TableId_ALL_def table_bytes_def slot_of_def row_defs
      stream_width_def column_width_def offset_of_def keyed_counts nth_append nth_Cons' keyed_body_def
      coded_column_width_def small_row_limit_def map_filter_simps)

lemma keyed_order: "order_kept 0 8192 8192 (\<lambda>_. 2) keyed_body"
  unfolding order_kept_def Let_def
proof (intro allI impI)
  fix t k assume a: "bit (8192 :: u64) (slot_of t) \<and> sort_key_column t = Some k"
  have s: "slot_of T_FieldMarshal = 13" by (simp add: slot_of_def)
  with a have t: "t = T_FieldMarshal" using slot_of_inj [of t T_FieldMarshal] bit_13 by metis
  with a have k: "k = 0" by (simp add: sort_key_column_def)
  have n: "declared_counts 8192 (\<lambda>_. 2) ! slot_of T_FieldMarshal = 2" by (simp add: s keyed_counts nth_append)
  have "[1..<2 + 1 :: nat] = [1, 2]" by (simp add: upt_rec)
  then show "sorted_wrt (\<le>) (map (\<lambda>rid. body_cell 0 (declared_counts 8192 (\<lambda>_. 2)) keyed_body t rid k)
      [1..<declared_counts 8192 (\<lambda>_. 2) ! slot_of t + 1])"
    unfolding t k n by (simp add: keyed_cells [simplified])
qed

lemma keyed_stream_parses:
  obtains t ds where "tables_parse keyed_stream 0 False Strict [] = Ok (t, ds)" "row_count t T_FieldMarshal = 2"
    "cell t T_FieldMarshal 1 0 = 2" "cell t T_FieldMarshal 2 0 = 4" "row_count t T_MethodDef = 0"
proof -
  obtain t ds where t: "tables_parse keyed_stream 0 False Strict [] = Ok (t, ds)"
    "\<And>table. row_count t table = declared_counts 8192 (\<lambda>_. 2) ! slot_of table"
    and wf: "tables_wf (stream_width 0 (declared_counts 8192 (\<lambda>_. 2))) t"
    and d: "\<And>table. drop (tl_data_offset (table_layout t table)) (tb_data t)
          = drop (table_start 0 (declared_counts 8192 (\<lambda>_. 2)) table) keyed_body"
    using stream_parses [OF keyed_stream_ok keyed_stream_slice [unfolded keyed_stream_def], of Strict 0 False "[]"] keyed_order
    unfolding keyed_stream_def by blast
  have n: "row_count t T_FieldMarshal = 2" by (simp add: t(2) keyed_counts slot_of_def nth_append)
  have c: "0 < length (columns_of T_FieldMarshal)" by (simp add: row_defs)
  have "cell t T_FieldMarshal 1 0 = 2" "cell t T_FieldMarshal 2 0 = 4"
    using body_cells [OF wf _ _ d c, of 1] body_cells [OF wf _ _ d c, of 2] n keyed_cells by simp_all
  moreover have "row_count t T_MethodDef = 0" by (simp add: t(2) keyed_counts slot_of_def nth_append)
  ultimately show thesis using t(1) n by (intro that)
qed

theorem table_stream_roundtrip_witness:
  "\<exists>t ds. tables_parse keyed_stream 0 False Strict [] = Ok (t, ds) \<and> tb_declared_sorted t = 8192
     \<and> row_count t T_FieldMarshal = 2 \<and> row_bytes t T_FieldMarshal 2 = Ok [4, 0, 6, 0]"
proof -
  have o: "is_strict Strict \<longrightarrow> order_kept 0 8192 8192 (\<lambda>_. 2) keyed_body" by (simp add: keyed_order)
  have n: "declared_counts 8192 (\<lambda>_. 2) ! slot_of T_FieldMarshal = 2" by (simp add: keyed_counts slot_of_def nth_append)
  have b: "body_row 0 (declared_counts 8192 (\<lambda>_. 2)) keyed_body T_FieldMarshal 2 = [4, 0, 6, 0]"
    by (simp add: body_row_def table_start_def TableId_ALL_def table_bytes_def slot_of_def row_defs stream_width_def
        column_width_def offset_of_def keyed_counts nth_append nth_Cons' keyed_body_def coded_column_width_def
        small_row_limit_def map_filter_simps)
  obtain t ds where t: "tables_parse keyed_stream 0 False Strict [] = Ok (t, ds)" "tb_declared_sorted t = 8192"
    "row_count t T_FieldMarshal = 2"
    and r: "\<forall>rid \<in> {1..row_count t T_FieldMarshal}.
      row_bytes t T_FieldMarshal rid = Ok (body_row 0 (declared_counts 8192 (\<lambda>_. 2)) keyed_body T_FieldMarshal rid)"
    using table_stream_roundtrip [OF keyed_stream_ok keyed_stream_slice [unfolded keyed_stream_def] o, of 0 False "[]"] n
    unfolding keyed_stream_def by metis
  show ?thesis using t r b by auto
qed

text \<open>In a parsed stream the column reader gives, for every row id and column that exist, the
  value of the two or four bytes at its place, and the out-of-range error for all others.\<close>

lemma raw_column_exact:
  assumes "slice_ok dat" and "base + length dat \<le> usize_max"
    and "tables_parse dat base unc st diags = Ok (t, ds)"
  shows "raw_column t table rid j =
     (if 1 \<le> rid \<and> rid \<le> row_count t table \<and> j < length (columns_of table) then Ok (cell t table rid j)
      else Err (error_new OutOfRange base (TableId_name table)))"
proof -
  obtain h rc where "tables_wf (stream_width h rc) t" "tb_base t = base"
    using tables_parse_wf(2) [OF assms] by blast
  then show ?thesis using raw_column_cell [of _ t rid table j] raw_column_err [of _ t rid table j] by auto
qed

text \<open>C37: \<open>is_sorted\<close> is the truth and not the stream's claim: it holds exactly of the tables that have
  a sort key and whose key column does not decrease from the first row to the last.\<close>

theorem sortedness_verified:
  assumes "slice_ok dat" and "base + length dat \<le> usize_max"
    and "tables_parse dat base unc st diags = Ok (t, ds)"
  shows "is_sorted t table \<longleftrightarrow>
     (\<exists>c. sort_key_column table = Some c
        \<and> sorted_wrt (\<le>) (map (\<lambda>rid. cell t table rid c) [1..<row_count t table + 1]))"
  using tables_parse_wf(2) [OF assms] by (simp add: key_sorted_def keys_sorted_def)

theorem sortedness_verified_witness:
  "\<exists>t ds. tables_parse keyed_stream 0 False Strict [] = Ok (t, ds) \<and> is_sorted t T_FieldMarshal \<and> \<not> is_sorted t T_Module"
proof -
  obtain t ds where p: "tables_parse keyed_stream 0 False Strict [] = Ok (t, ds)" "row_count t T_FieldMarshal = 2"
    "cell t T_FieldMarshal 1 0 = 2" "cell t T_FieldMarshal 2 0 = 4"
    by (rule keyed_stream_parses)
  have "[1..<2 + 1 :: nat] = [1, 2]" by (simp add: upt_rec)
  then have "is_sorted t T_FieldMarshal"
    unfolding sortedness_verified [OF keyed_stream_slice keyed_stream_fits p(1), of T_FieldMarshal] p(2)
    using p(3,4) by (simp add: sort_key_column_def)
  moreover have "\<not> is_sorted t T_Module"
    unfolding sortedness_verified [OF keyed_stream_slice keyed_stream_fits p(1), of T_Module] by (simp add: sort_key_column_def)
  ultimately show ?thesis using p(1) by blast
qed

text \<open>A typed \<open>MethodDef\<close> row is its six columns in order, narrowed where the field is; a row id
  outside the table is the out-of-range error.\<close>

lemma method_def_row_exact:
  assumes "slice_ok dat" and "base + length dat \<le> usize_max"
    and "tables_parse dat base unc st diags = Ok (t, ds)"
  shows "row_of t T_MethodDef MethodDefRow_decode rid =
     (if 1 \<le> rid \<and> rid \<le> row_count t T_MethodDef
      then Ok \<lparr>method_def_rva = cell t T_MethodDef rid 0, method_def_impl_flags = ucast (cell t T_MethodDef rid 1),
        method_def_flags = ucast (cell t T_MethodDef rid 2), method_def_name = cell t T_MethodDef rid 3,
        method_def_signature = cell t T_MethodDef rid 4, method_def_param_list = cell t T_MethodDef rid 5\<rparr>
      else Err (error_new OutOfRange base ''MethodDef''))"
proof -
  obtain h rc where wf: "tables_wf (stream_width h rc) t" and base: "tb_base t = base"
    using tables_parse_wf(2) [OF assms] by blast
  have "column_values t T_MethodDef rid = Ok (map (\<lambda>j. CV_Uint (cell t T_MethodDef rid j)) [0..<6])"
    by (simp add: column_values_def column_value_def row_defs upt_rec)
  then show ?thesis
    using r_method_def.row_exact [OF wf, of rid] r_method_def.row_out_of_range [of rid t] base
    by (auto simp: upt_rec eval_nat_numeral)
qed

text \<open>The \<open>*Ptr\<close> indirection: a table without one, or whose \<open>*Ptr\<close> table is empty, keeps its row
  ids; otherwise row \<open>rid\<close> of the \<open>*Ptr\<close> table names the physical row, and a row id it does not
  have is an error.\<close>

lemma indirection_exact:
  assumes "slice_ok dat" and "base + length dat \<le> usize_max"
    and "tables_parse dat base unc st diags = Ok (t, ds)"
  shows "resolve_indirection t table rid =
    (case TableId_ptr_source table of
       None \<Rightarrow> Ok rid
     | Some ptr \<Rightarrow>
         if row_count t ptr = 0 then Ok rid
         else if 1 \<le> rid \<and> rid \<le> row_count t ptr then Ok (unat (cell t ptr rid 0))
         else Err (error_new OutOfRange base (TableId_name ptr)))"
  using tables_parse_wf(2) [OF assms] resolve_exact by (auto split: option.splits)

text \<open>Iterating a table gives its rows once each, in row-id order, and ends, without a panic.\<close>

lemma table_iteration:
  assumes "slice_ok dat" and "base + length dat \<le> usize_max"
    and "tables_parse dat base unc st diags = Ok (t, ds)" and "row_count t T_MethodDef < u32_max"
  shows "\<exists>it. tables_iter t T_MethodDef = Ok it
     \<and> row_iter_size_hint it = Ok (row_count t T_MethodDef)
     \<and> drain (row_count t T_MethodDef) (row_iter_next (row_of t T_MethodDef MethodDefRow_decode)) it
       = Ok (Some (map (\<lambda>rid. (rid, row_of t T_MethodDef MethodDefRow_decode rid))
                     [1..<row_count t T_MethodDef + 1]))"
proof -
  obtain h rc where wf: "tables_wf (stream_width h rc) t" using tables_parse_wf(2) [OF assms(1-3)] by blast
  let ?it = "\<lparr>ri_rid = 1, ri_end = row_count t T_MethodDef + 1\<rparr>"
  have "tables_iter t T_MethodDef = Ok ?it" using assms(4) by (simp add: tables_iter_def u32_add_def)
  moreover have "row_iter_size_hint ?it = Ok (row_count t T_MethodDef)"
    by (simp add: row_iter_size_hint_def usize_sub_def)
  ultimately show ?thesis
    using row_iter_all [OF r_method_def.row_total [OF wf], of ?it "row_count t T_MethodDef"] assms(4) by auto
qed

end
