(* ===== verification/Placement.thy ===== *)
theory Placement
  imports Tables
begin

text \<open>
  Where \<open>Tables::parse\<close> (\<open>src/src/tables/mod.rs\<close>) puts the tables: the fields of the stream header as
  the bytes of the stream give them, and an invariant of the loop that places one table behind the
  other, with the rows each of them keeps.
\<close>

section \<open>The header of a stream, by its bytes\<close>

definition valid_bits :: "bytes \<Rightarrow> u64" where
  "valid_bits dat = from_le_bytes (take 8 (drop 8 dat))"

text \<open>The row counts of the slots in \<open>Valid\<close> follow the 24 bytes of fields, four bytes each.\<close>

definition counts_below :: "u64 \<Rightarrow> nat \<Rightarrow> nat" where
  "counts_below valid slot = length (filter (bit valid) [0..<slot])"

definition header_count :: "bytes \<Rightarrow> nat \<Rightarrow> nat" where
  "header_count dat slot =
     (if bit (valid_bits dat) slot
      then unat (from_le_bytes (take 4 (drop (24 + 4 * counts_below (valid_bits dat) slot) dat)) :: u32)
      else 0)"

definition header_counts :: "bytes \<Rightarrow> nat list" where
  "header_counts dat = map (header_count dat) [0..<TABLE_SLOTS]"

text \<open>Where the first table starts: behind the counts, and the extra word when the header has one.\<close>

definition tables_at :: "bytes \<Rightarrow> nat" where
  "tables_at dat = 24 + 4 * counts_below (valid_bits dat) TABLE_SLOTS + (if dat ! 6 AND 0x40 \<noteq> 0 then 4 else 0)"

definition header_width :: "bytes \<Rightarrow> ColumnKind \<Rightarrow> u8" where
  "header_width dat = stream_width (dat ! 6) (header_counts dat)"

lemma length_header_counts [simp]: "length (header_counts dat) = TABLE_SLOTS"
  by (simp add: header_counts_def)

lemma header_counts_nth: "slot < TABLE_SLOTS \<Longrightarrow> header_counts dat ! slot = header_count dat slot"
  by (simp add: header_counts_def)

lemma header_read:
  assumes "slice_ok dat" and "read_tables_header (reader_new dat base ctx) = Ok ((mj, mn, hs, va, so), r)"
  shows "hs = dat ! 6 \<and> va = valid_bits dat \<and> r_pos r = 24 \<and> r_data r = dat \<and> reader_wf r \<and> 24 \<le> length dat"
proof -
  have "hd (take (Suc 0) (drop p dat)) = dat ! p" if "p < length dat" for p
    using that by (simp add: take_Suc hd_drop_conv_nth)
  then show ?thesis
    using assms by (auto simp: read_tables_header_def res_iff read_iff reader_wf_def valid_bits_def)
qed

text \<open>The counts are read from left to right.\<close>

definition counts_read :: "bytes \<Rightarrow> nat \<Rightarrow> nat list \<times> diagnostic list \<times> reader \<Rightarrow> bool" where
  "counts_read dat i = (\<lambda>(rc, _, r). reader_wf r \<and> r_data r = dat \<and> r_pos r = 24 + 4 * counts_below (valid_bits dat) i
     \<and> rc = map (\<lambda>s. if s < i then header_count dat s else 0) [0..<TABLE_SLOTS])"

lemma counts_read_step:
  assumes "counts_read dat i s" and "i < TABLE_SLOTS" and "read_row_count st (valid_bits dat) i s = Ok s'"
  shows "counts_read dat (Suc i) s'"
proof -
  obtain rc d r where s: "s = (rc, d, r)" by (cases s)
  have r: "reader_wf r" "r_data r = dat" "r_pos r = 24 + 4 * counts_below (valid_bits dat) i"
    and rc: "rc = map (\<lambda>s. if s < i then header_count dat s else 0) [0..<TABLE_SLOTS]"
    using assms(1) by (simp_all add: counts_read_def s)
  let ?v = "from_le_bytes (take 4 (drop (r_pos r) dat)) :: u32"
  have b: "valid_bits dat AND push_bit i 1 = 0 \<longleftrightarrow> \<not> bit (valid_bits dat) i" by (simp add: and_exp_eq_0_iff_not_bit)
  have next_rc: "map (\<lambda>s. if s < Suc i then header_count dat s else 0) [0..<TABLE_SLOTS]
      = (if header_count dat i = 0 then rc else rc[i := header_count dat i])"
    using assms(2) by (intro nth_equalityI) (auto simp: rc nth_list_update less_Suc_eq)
  show ?thesis
  proof (cases "bit (valid_bits dat) i")
    case False
    then have "s' = s" using assms(3) b by (simp add: read_row_count_def s)
    moreover have "header_count dat i = 0" using False by (simp add: header_count_def)
    ultimately show ?thesis using r rc next_rc False by (simp add: counts_read_def s counts_below_def)
  next
    case True
    then have c: "header_count dat i = unat ?v" by (simp add: header_count_def r(3))
    have p: "counts_below (valid_bits dat) (Suc i) = Suc (counts_below (valid_bits dat) i)"
      using True by (simp add: counts_below_def)
    have fits: "r_pos r + 4 \<le> length (r_data r)"
    proof (rule ccontr)
      assume "\<not> r_pos r + 4 \<le> length (r_data r)"
      then have "reader_u32 r = Err (reader_err r Truncated)" using rd_u32.read_err [OF r(1)] by simp
      then show False using assms(3) b True by (simp add: read_row_count_def s Let_def)
    qed
    define r' where "r' = reader_adv r 4"
    have r': "reader_u32 r = Ok (?v, r')" "reader_wf r'" "r_data r' = dat" "r_pos r' = r_pos r + 4"
      using rd_u32.read_ok [OF r(1) fits] fits r(1,2) by (simp_all add: r'_def reader_wf_def)
    have "rc[i := 0] = rc" using assms(2) by (intro nth_equalityI) (auto simp: rc nth_list_update)
    then have "fst s' = (if header_count dat i = 0 then rc else rc[i := header_count dat i]) \<and> snd (snd s') = r'"
      using assms(3) b True r'(1) c
      by (auto simp: read_row_count_def s Let_def split: option.splits if_splits)
    then show ?thesis using r' next_rc p r(3) by (cases s') (auto simp: counts_read_def)
  qed
qed

lemma counts_are_read:
  assumes "reader_wf r" and "r_data r = dat" and "r_pos r = 24"
    and "read_row_counts st (valid_bits dat) d r = Ok (rc, d', r')"
  shows "rc = header_counts dat \<and> r_pos r' = 24 + 4 * counts_below (valid_bits dat) TABLE_SLOTS
     \<and> reader_wf r' \<and> r_data r' = dat"
proof -
  have "counts_read dat n s" if "n \<le> TABLE_SLOTS"
    and "res_fold (read_row_count st (valid_bits dat)) [0..<n] (replicate TABLE_SLOTS 0, d, r) = Ok s" for n s
    using that
  proof (induction n arbitrary: s)
    case 0
    have "replicate TABLE_SLOTS 0 = map (\<lambda>s. 0 :: nat) [0..<TABLE_SLOTS]" by (simp add: map_replicate_trivial map_replicate_const)
    then show ?case using 0 assms(1-3) by (auto simp: counts_read_def counts_below_def)
  next
    case (Suc n)
    then obtain m where m: "res_fold (read_row_count st (valid_bits dat)) [0..<n] (replicate TABLE_SLOTS 0, d, r) = Ok m"
      "read_row_count st (valid_bits dat) n m = Ok s"
      by (auto simp: res_fold_append res_bind_Ok_iff)
    show ?case by (rule counts_read_step [OF Suc.IH [OF _ m(1)] _ m(2)]) (use Suc.prems(1) in simp_all)
  qed
  from this [OF order_refl assms(4) [unfolded read_row_counts_def]] show ?thesis
    by (auto simp: counts_read_def header_counts_def)
qed

section \<open>The loop that places the tables\<close>

definition size_of :: "(ColumnKind \<Rightarrow> u8) \<Rightarrow> TableId \<Rightarrow> nat" where
  "size_of w t = offset_of w (columns_of t) (length (columns_of t))"

lemma size_of_pos: "widths_ok w \<Longrightarrow> 0 < size_of w t"
  using row_size_bounds(1) [OF blank_layout_filled(1), of w t 0] blank_layout_filled(1) [of w t 0]
  by (simp add: layout_ok_def Let_def size_of_def)

text \<open>The rows a table declares do not fit behind its offset; and the first such table cuts all later ones.\<close>

definition over :: "(ColumnKind \<Rightarrow> u8) \<Rightarrow> nat list \<Rightarrow> nat \<Rightarrow> TableLayout list \<Rightarrow> TableId \<Rightarrow> bool" where
  "over w rc len ls t \<longleftrightarrow> 0 < rc ! slot_of t
     \<and> len < tl_data_offset (ls ! slot_of t) + rc ! slot_of t * size_of w t"

definition cut_in :: "(ColumnKind \<Rightarrow> u8) \<Rightarrow> nat list \<Rightarrow> nat \<Rightarrow> TableLayout list \<Rightarrow> TableId list \<Rightarrow> TableId \<Rightarrow> bool" where
  "cut_in w rc len ls ts t \<longleftrightarrow> 0 < rc ! slot_of t \<and> (\<exists>u \<in> set ts. u \<le> t \<and> over w rc len ls u)"

text \<open>What one table of \<open>ts\<close> looks like behind the loop, and what holds between two turns of it.\<close>

definition entry_ok ::
    "Strictness \<Rightarrow> nat \<Rightarrow> (ColumnKind \<Rightarrow> u8) \<Rightarrow> nat \<Rightarrow> nat \<Rightarrow> nat list \<Rightarrow> TableId list
     \<Rightarrow> diagnostic list \<Rightarrow> TableLayout list \<Rightarrow> TableId \<Rightarrow> bool" where
  "entry_ok st base w start len rc ts ds ls t \<longleftrightarrow>
     (let l = ls ! slot_of t; declared = rc ! slot_of t; cut = cut_in w rc len ls ts t in
      layout_ok w t l
      \<and> tl_data_offset l = start + (\<Sum>u\<leftarrow>filter (\<lambda>u. u < t) ts. byte_size (ls ! slot_of u))
      \<and> tl_row_count l = (if cut then (len - tl_data_offset l) div size_of w t mod 2 ^ 32 else declared)
      \<and> (cut \<longrightarrow> \<not> is_strict st
           \<and> diagnostic_new StreamRangeClamped (base + tl_data_offset l) (declared * size_of w t) \<in> set ds))"

definition placing_ok ::
    "Strictness \<Rightarrow> nat \<Rightarrow> (ColumnKind \<Rightarrow> u8) \<Rightarrow> nat \<Rightarrow> nat \<Rightarrow> nat list \<Rightarrow> TableId list \<Rightarrow> placing \<Rightarrow> bool" where
  "placing_ok st base w start len rc ts = (\<lambda>(cursor, exhausted, ds, ls).
     length ls = TABLE_SLOTS \<and> cursor \<le> len \<and> cursor = start + (\<Sum>u\<leftarrow>ts. byte_size (ls ! slot_of u))
     \<and> (exhausted \<longleftrightarrow> (\<exists>u \<in> set ts. over w rc len ls u))
     \<and> (\<forall>t \<in> set ts. entry_ok st base w start len rc ts ds ls t))"

lemma clamp_steps:
  assumes "clamp_count st base len cursor sz count ex diags = Ok (n, ex', diags')" and "cursor \<le> len" and "0 < sz"
  shows "ex' = (ex \<or> 0 < count \<and> len < cursor + count * sz)"
    and "n = (if 0 < count \<and> (ex \<or> len < cursor + count * sz) then (len - cursor) div sz mod 2 ^ 32 else count)"
    and "set diags \<subseteq> set diags'"
    and "0 < count \<and> (ex \<or> len < cursor + count * sz) \<Longrightarrow>
      \<not> is_strict st \<and> diagnostic_new StreamRangeClamped (base + cursor) (count * sz) \<in> set diags'"
  using assms by (auto simp: clamp_count_def Let_def saturating_sub_def res_iff split: if_splits)

lemma place_table_ok:
  assumes "place_table st base len w rc x s = Ok s'" and "widths_ok w" and "len \<le> isize_max"
    and "placing_ok st base w start len rc ts s" and "\<And>u. u \<in> set ts \<Longrightarrow> u < x"
  shows "placing_ok st base w start len rc (ts @ [x]) s'"
proof -
  obtain cursor ex diags ls where s: "s = (cursor, ex, diags, ls)" by (cases s)
  let ?l = "fill_columns w 0 (columns_of x) 0 (blank_layout x cursor)"
  note l = blank_layout_filled [OF assms(2), of x cursor]
  have sz: "tl_row_size ?l = size_of w x" using l(1) by (simp add: layout_ok_def Let_def size_of_def)
  note inv = assms(4) [unfolded placing_ok_def s split]
  obtain n ex' diags' where c: "clamp_count st base len cursor (size_of w x) (rc ! slot_of x) ex diags = Ok (n, ex', diags')"
    and s': "s' = (saturating_add cursor (byte_size (?l\<lparr>tl_row_count := n\<rparr>)), ex', diags', ls[slot_of x := ?l\<lparr>tl_row_count := n\<rparr>])"
    using assms(1) by (auto simp: place_table_def s Let_def res_iff sz)
  define l' where "l' = ?l\<lparr>tl_row_count := n\<rparr>"
  have l': "layout_ok w x l'" "tl_data_offset l' = cursor" "tl_row_count l' = n" "byte_size l' = size_of w x * n"
    using l sz by (simp_all add: l'_def byte_size_def mult.commute)
  have fit: "cursor + byte_size l' \<le> len" using clamp_fits [OF c] inv by (simp add: l'(4) mult.commute)
  then have sat: "saturating_add cursor (byte_size l') = cursor + byte_size l'"
    using assms(3) by (simp add: saturating_add_def isize_max_def usize_max_def)
  note st = clamp_steps [OF c _ size_of_pos [OF assms(2)]]
  let ?ls = "ls[slot_of x := l']"
  have x: "?ls ! slot_of x = l'" using inv by simp
  have old: "?ls ! slot_of u = ls ! slot_of u" if "u \<in> set ts" for u
    using assms(5) [OF that] by (intro nth_list_update_neq) auto
  have sums: "(\<Sum>u\<leftarrow>filter P ts. byte_size (?ls ! slot_of u)) = (\<Sum>u\<leftarrow>filter P ts. byte_size (ls ! slot_of u))" for P
    by (intro arg_cong [of _ _ sum_list] map_cong refl) (simp add: old)
  have over: "over w rc len ?ls u = over w rc len ls u" if "u \<in> set ts" for u by (simp add: over_def old [OF that])
  have overx: "over w rc len ?ls x \<longleftrightarrow> 0 < rc ! slot_of x \<and> len < cursor + rc ! slot_of x * size_of w x"
    by (simp add: over_def x l'(2))
  have before: "filter (\<lambda>u. u < x) ts = ts" using assms(5) by (simp add: filter_id_conv)
  have cut: "cut_in w rc len ?ls (ts @ [x]) t = cut_in w rc len ls ts t"
    and earlier: "filter (\<lambda>u. u < t) (ts @ [x]) = filter (\<lambda>u. u < t) ts" if "t \<in> set ts" for t
    using assms(5) [OF that] over by (auto simp: cut_in_def)
  have cutx: "cut_in w rc len ?ls (ts @ [x]) x \<longleftrightarrow> 0 < rc ! slot_of x \<and> (ex \<or> len < cursor + rc ! slot_of x * size_of w x)"
    using over overx inv assms(5) by (auto simp: cut_in_def less_imp_le)
  have start: "cursor = start + (\<Sum>u\<leftarrow>filter (\<lambda>u. u < x) ts. byte_size (?ls ! slot_of u))"
    unfolding before using inv sums [of "\<lambda>_. True"] by simp
  have all: "start + (\<Sum>u\<leftarrow>ts @ [x]. byte_size (?ls ! slot_of u)) = cursor + byte_size l'"
    using start before x by simp
  have exh: "ex' \<longleftrightarrow> (\<exists>u \<in> set (ts @ [x]). over w rc len ?ls u)"
    using inv over overx st(1) by auto
  have new: "entry_ok st base w start len rc (ts @ [x]) diags' ?ls x"
    unfolding entry_ok_def Let_def x cutx l'(2,3) using l'(1) st(2,4) inv start by (simp add: x)
  have kept: "entry_ok st base w start len rc (ts @ [x]) diags' ?ls t" if "t \<in> set ts" for t
  proof -
    have "entry_ok st base w start len rc ts diags ls t" using inv that by blast
    then show ?thesis
      unfolding entry_ok_def Let_def cut [OF that] earlier [OF that] sums old [OF that] using st(3) inv by auto
  qed
  have "s' = (cursor + byte_size l', ex', diags', ?ls)" by (simp only: s' l'_def [symmetric] sat)
  moreover have "length ?ls = TABLE_SLOTS" using inv by simp
  ultimately show ?thesis
    using fit all exh new kept by (auto simp only: placing_ok_def split set_append list.set simp_thms)
qed

lemma place_fold_ok:
  assumes "res_fold (place_table st base len w rc) xs s = Ok s'" and "widths_ok w" and "len \<le> isize_max"
    and "placing_ok st base w start len rc ts s" and "sorted_wrt (<) (ts @ xs)"
  shows "placing_ok st base w start len rc (ts @ xs) s'"
  using assms(1,4,5)
proof (induction xs arbitrary: ts s)
  case (Cons x xs)
  then obtain m where m: "place_table st base len w rc x s = Ok m"
    "res_fold (place_table st base len w rc) xs m = Ok s'" by (auto simp: res_iff)
  have "placing_ok st base w start len rc (ts @ [x]) m"
    by (rule place_table_ok [OF m(1) assms(2,3) Cons.prems(2)]) (use Cons.prems(3) in \<open>simp add: sorted_wrt_append\<close>)
  from Cons.IH [OF m(2) this] Cons.prems(3) show ?case by simp
qed simp

lemma TableId_ALL_ascending: "sorted_wrt (<) TableId_ALL"
  using TableId_ALL_numeric by (simp add: sorted_wrt_map less_TableId_def [abs_def] word_less_nat_alt)

lemma place_tables_ok:
  assumes "place_tables st base len h rc cursor diags = Ok s" and "cursor \<le> len" and "len \<le> isize_max"
  shows "placing_ok st base (stream_width h rc) cursor len rc TableId_ALL s"
  using place_fold_ok [OF assms(1) [unfolded place_tables_eq] stream_width_ok assms(3), of cursor "[]"] assms(2)
    TableId_ALL_ascending
  by (simp add: placing_ok_def)

section \<open>What a parse places where\<close>

lemma verify_fold_keeps_diags:
  assumes "tables_wf w t" and "res_fold (verify_table t st) ts (bits, diags) = Ok (bits', diags')"
  shows "set diags \<subseteq> set diags'"
  using assms(2)
proof (induction ts arbitrary: bits diags)
  case (Cons x ts)
  then obtain b d where x: "verify_table t st x (bits, diags) = Ok (b, d)"
    and rest: "res_fold (verify_table t st) ts (b, d) = Ok (bits', diags')"
    by (auto simp: res_iff)
  have "set diags \<subseteq> set d" using x by (auto simp: verify_table_iff [OF assms(1)] split: if_splits)
  with Cons.IH [OF rest] show ?case by blast
qed simp

lemma parse_places:
  assumes "slice_ok dat" and "base + length dat \<le> usize_max"
    and "tables_parse dat base unc st diags = Ok (t, ds)"
  obtains cursor exhausted d where
    "placing_ok st base (header_width dat) (tables_at dat) (length dat) (header_counts dat) TableId_ALL
       (cursor, exhausted, d, tb_layouts t)"
    and "tables_wf (header_width dat) t" and "set d \<subseteq> set ds"
    and "tb_data t = dat" and "tb_heap_sizes t = dat ! 6" and "tb_valid t = valid_bits dat"
proof -
  note steps = tables_parse_steps [OF assms(1,2)]
  let ?t = "\<lambda>mj mn hs va so ex ls. \<lparr>tb_data = dat, tb_base = base, tb_major_version = mj,
        tb_minor_version = mn, tb_heap_sizes = hs, tb_valid = va, tb_declared_sorted = so,
        tb_verified_sorted = 0, tb_uncompressed = unc, tb_extra_data = ex, tb_layouts = ls\<rparr>"
  obtain mj mn hs va so r1 d1 rc d2 r2 ex r3 cu exh d3 ls bits where
    p: "read_tables_header (reader_new dat base CTX_TABLES) = Ok ((mj, mn, hs, va, so), r1)"
      "read_row_counts st va d1 r1 = Ok (rc, d2, r2)" "read_extra_data hs r2 = Ok (ex, r3)"
      "place_tables st base (length dat) hs rc (r_pos r3) d2 = Ok (cu, exh, d3, ls)"
    and v: "verify_sortedness (?t mj mn hs va so ex ls) st d3 = Ok (bits, ds)"
    and t: "t = (?t mj mn hs va so ex ls)\<lparr>tb_verified_sorted := bits\<rparr>"
    using assms(3) unfolding tables_parse_def Let_def by (auto simp: res_bind_Ok_iff)
  have 1: "hs = dat ! 6" "va = valid_bits dat" "r_pos r1 = 24" "r_data r1 = dat" "reader_wf r1"
    using header_read [OF assms(1) p(1)] by auto
  have 2: "rc = header_counts dat" "r_pos r2 = 24 + 4 * counts_below (valid_bits dat) TABLE_SLOTS" "reader_wf r2" "r_data r2 = dat"
    using counts_are_read [OF 1(5,4,3) p(2) [unfolded 1(2)]] by auto
  have 3: "r_pos r3 = tables_at dat"
    using p(3) 2(2-4) rd_u32.keeps [OF 2(3)]
    by (auto simp: read_extra_data_def tables_at_def 1(1) res_iff split: if_splits)
  have len: "r_pos r3 \<le> length dat" using steps(4) [OF p(1-3)] by blast
  have w: "tables_wf (header_width dat) (?t mj mn hs va so ex ls)"
    using placed_tables_wf [of st "?t mj mn hs va so ex ls" hs rc "r_pos r3" d2 cu exh d3] p(4) len assms(1)
    by (simp add: header_width_def 1(1) 2(1))
  have "placing_ok st base (header_width dat) (tables_at dat) (length dat) (header_counts dat) TableId_ALL (cu, exh, d3, tb_layouts t)"
    using place_tables_ok [OF p(4) len] assms(1) by (simp add: t 1(1) 2(1) 3 header_width_def slice_ok_def)
  moreover have "tables_wf (header_width dat) t" using w by (simp add: t tables_wf_def table_layout_def)
  moreover have "set d3 \<subseteq> set ds" using verify_fold_keeps_diags [OF w] v by (auto simp: verify_sortedness_def)
  ultimately show thesis by (rule that [of cu exh d3]) (simp_all add: t 1)
qed

section \<open>A permissive parse of a good header\<close>

lemma place_tables_permissive:
  assumes "base + len \<le> usize_max" and "cursor \<le> len" and "len \<le> isize_max"
  shows "\<exists>s. place_tables Permissive base len h rc cursor diags = Ok s"
proof -
  have "place_table Permissive base len w rc x s \<noteq> Err e" for w x s e
    by (cases s) (auto simp: place_table_def clamp_count_def Let_def res_iff split: if_splits)
  then have "res_fold (place_table Permissive base len w rc) xs s \<noteq> Err e" for w xs s e
    by (induction xs arbitrary: s) (auto simp: res_iff)
  then have "place_tables Permissive base len h rc cursor diags \<noteq> Err e" for e by (simp add: place_tables_eq)
  with place_tables_total [OF assms, of Permissive h rc diags] show ?thesis
    by (cases "place_tables Permissive base len h rc cursor diags") auto
qed

lemma permissive_parses:
  assumes "h AND NOT KNOWN_HEAP_BITS = 0" and "h AND 0x40 = 0"
    and "\<forall>s < TABLE_SLOTS. bit valid s \<longrightarrow> TableId_from_u8 (of_nat s) \<noteq> None"
    and "slice_ok (stream_bytes mj mn h valid srt c body)"
    and "base + length (stream_bytes mj mn h valid srt c body) \<le> usize_max"
  shows "\<exists>t ds. tables_parse (stream_bytes mj mn h valid srt c body) base unc Permissive diags = Ok (t, ds)
     \<and> header_counts (stream_bytes mj mn h valid srt c body) = declared_counts valid c
     \<and> stream_bytes mj mn h valid srt c body ! 6 = h \<and> valid_bits (stream_bytes mj mn h valid srt c body) = valid"
proof -
  let ?dat = "stream_bytes mj mn h valid srt c body" and ?r = "reader_new (stream_bytes mj mn h valid srt c body) base CTX_TABLES"
  note steps = tables_parse_steps [OF assms(4,5)]
  have len: "length ?dat \<le> isize_max" using assms(4) by (simp add: slice_ok_def)
  have "reader_on ?r (le4 0 @ (mj # mn # h # 1 # (le8 valid @ (le8 srt @ (count_bytes valid c [0..<TABLE_SLOTS] @ body)))))"
    using assms(4) by (simp add: stream_bytes_def)
  then obtain r1 where r1: "read_tables_header ?r = Ok ((mj, mn, h, valid, srt), r1)"
    "reader_on r1 (count_bytes valid c [0..<TABLE_SLOTS] @ body)"
    by (rule read_header_on)
  have h: "h = ?dat ! 6" "valid = valid_bits ?dat" "r_pos r1 = 24" "r_data r1 = ?dat" "reader_wf r1"
    using header_read [OF assms(4) r1(1)] by auto
  obtain r2 where r2: "read_row_counts Permissive valid diags r1 = Ok (declared_counts valid c, diags, r2)"
    using read_counts_on [OF r1(2) _ _ assms(3), of "replicate TABLE_SLOTS 0" Permissive diags]
    by (auto simp: read_row_counts_def declared_counts_def cong: map_cong)
  have rc: "declared_counts valid c = header_counts ?dat"
    using counts_are_read [OF h(5,4,3), of Permissive] r2 h(2) by metis
  have bits: "check_heap_bits Permissive base h diags = Ok diags" using assms(1) by (simp add: check_heap_bits_def)
  have ex: "read_extra_data h r2 = Ok (None, r2)" using assms(2) by (simp add: read_extra_data_def)
  have at: "r_pos r2 \<le> length ?dat" using steps(4) [OF r1(1) r2 ex] by blast
  obtain cu exh d ls where pl: "place_tables Permissive base (length ?dat) h (declared_counts valid c) (r_pos r2) diags = Ok (cu, exh, d, ls)"
    using place_tables_permissive [OF assms(5) at len] by (metis prod_cases4)
  let ?t = "\<lparr>tb_data = ?dat, tb_base = base, tb_major_version = mj, tb_minor_version = mn, tb_heap_sizes = h,
      tb_valid = valid, tb_declared_sorted = srt, tb_verified_sorted = 0, tb_uncompressed = unc,
      tb_extra_data = None, tb_layouts = ls\<rparr>"
  have wf: "tables_wf (stream_width h (declared_counts valid c)) ?t"
    using placed_tables_wf [of Permissive ?t h "declared_counts valid c" "r_pos r2" diags cu exh d] pl at assms(4) by simp
  obtain bits ds where "verify_sortedness ?t Permissive d = Ok (bits, ds)"
    using verify_fold_accepts [OF wf, of Permissive TableId_ALL 0 d] by (auto simp: verify_sortedness_def)
  then have "tables_parse ?dat base unc Permissive diags = Ok (?t\<lparr>tb_verified_sorted := bits\<rparr>, ds)"
    by (simp add: tables_parse_def r1(1) bits r2 ex pl Let_def)
  then show ?thesis using rc h(1,2) by auto
qed

section \<open>Properties\<close>

text \<open>C19: Parsing a table stream never panics (when its end is addressable). In the tables it gives, the
  heap sizes and the table bits are the ones in the bytes of the header; every table lies inside the
  stream behind the header and its row counts, no two overlap, and every row is laid out by the column
  widths that the heap sizes and the declared row counts in those bytes set.\<close>

theorem tables_lie_in_stream:
  assumes "slice_ok dat" and "base + length dat \<le> usize_max"
  shows "no_panic (tables_parse dat base unc st diags)
     \<and> (\<forall>t ds. tables_parse dat base unc st diags = Ok (t, ds) \<longrightarrow>
           tb_data t = dat \<and> tb_heap_sizes t = dat ! 6 \<and> tb_valid t = valid_bits dat
           \<and> tables_wf (stream_width (dat ! 6) (header_counts dat)) t
           \<and> (\<forall>table. tables_at dat \<le> tl_data_offset (table_layout t table)))"
proof -
  have "tb_data t = dat \<and> tb_heap_sizes t = dat ! 6 \<and> tb_valid t = valid_bits dat
           \<and> tables_wf (stream_width (dat ! 6) (header_counts dat)) t
           \<and> (\<forall>table. tables_at dat \<le> tl_data_offset (table_layout t table))"
    if parsed: "tables_parse dat base unc st diags = Ok (t, ds)" for t ds
  proof -
    obtain cu exh d where p: "placing_ok st base (header_width dat) (tables_at dat) (length dat) (header_counts dat) TableId_ALL
        (cu, exh, d, tb_layouts t)"
      and w: "tables_wf (header_width dat) t" "tb_data t = dat" "tb_heap_sizes t = dat ! 6" "tb_valid t = valid_bits dat"
      using parse_places [OF assms parsed] by metis
    have "tables_at dat \<le> tl_data_offset (table_layout t table)" for table
      using p by (simp add: placing_ok_def entry_ok_def Let_def table_layout_def)
    moreover have "tables_wf (stream_width (dat ! 6) (header_counts dat)) t"
      using w(1) by (simp only: header_width_def [abs_def])
    ultimately show ?thesis using w(2-4) by blast
  qed
  then show ?thesis using tables_parse_wf(1) [OF assms] by blast
qed

text \<open>The rows a table declares run over the end of the stream from where the table lies.\<close>

definition overruns :: "bytes \<Rightarrow> Tables \<Rightarrow> TableId \<Rightarrow> bool" where
  "overruns dat t table \<longleftrightarrow> 0 < header_count dat (slot_of table)
     \<and> length dat < tl_data_offset (table_layout t table)
         + header_count dat (slot_of table) * size_of (header_width dat) table"

text \<open>C31: How many rows of a table are kept, in a stream whose end is addressable. The tables lie one
  behind the other in the order of their numbers, from behind the header on, each as long as the rows
  it keeps. Up to the first table whose declared rows run over the end of the stream every table keeps
  the number it declares; that table, and every later one that declares rows, is given as many as the
  rest of the stream holds (in 32 bits), which can be more than it declares, and a diagnostic at its
  offset. A strict parse succeeds only when no table runs over.\<close>

theorem row_counts_kept:
  assumes "slice_ok dat" and "base + length dat \<le> usize_max"
    and "tables_parse dat base unc st diags = Ok (t, ds)"
  shows "let declared = header_count dat (slot_of table); size = size_of (header_width dat) table;
             offset = tl_data_offset (table_layout t table);
             cut = (0 < declared \<and> (\<exists>u \<le> table. overruns dat t u)) in
     offset = tables_at dat + (\<Sum>u\<leftarrow>filter (\<lambda>u. u < table) TableId_ALL. row_count t u * size_of (header_width dat) u)
     \<and> row_count t table = (if cut then (length dat - offset) div size mod 2 ^ 32 else declared)
     \<and> (cut \<longrightarrow> \<not> is_strict st \<and> diagnostic_new StreamRangeClamped (base + offset) (declared * size) \<in> set ds)"
proof -
  let ?w = "header_width dat" and ?rc = "header_counts dat"
  obtain cu exh d where p: "placing_ok st base ?w (tables_at dat) (length dat) ?rc TableId_ALL (cu, exh, d, tb_layouts t)"
    and ds: "set d \<subseteq> set ds"
    using parse_places [OF assms] by metis
  have e: "entry_ok st base ?w (tables_at dat) (length dat) ?rc TableId_ALL d (tb_layouts t) u" for u
    using p by (simp add: placing_ok_def)
  have rc: "?rc ! slot_of u = header_count dat (slot_of u)" for u by (simp add: header_counts_nth)
  have sz: "byte_size (tb_layouts t ! slot_of u) = row_count t u * size_of ?w u" for u
    using e [of u] by (simp add: entry_ok_def Let_def layout_ok_def byte_size_def row_count_def table_layout_def size_of_def)
  have cut: "cut_in ?w ?rc (length dat) (tb_layouts t) TableId_ALL table
      \<longleftrightarrow> 0 < header_count dat (slot_of table) \<and> (\<exists>u \<le> table. overruns dat t u)"
    by (auto simp: cut_in_def over_def overruns_def rc table_layout_def)
  show ?thesis
    using e [of table] ds unfolding entry_ok_def Let_def cut rc sz by (auto simp: row_count_def table_layout_def)
qed

text \<open>A stream that declares five \<open>Module\<close> rows of ten bytes and one \<open>ModuleRef\<close> row of two, and holds
  fourteen bytes of rows: one \<open>Module\<close> row is kept, and two \<open>ModuleRef\<close> rows, one more than declared.\<close>

definition cut_counts :: "nat \<Rightarrow> u32" where
  "cut_counts slot = (if slot = 0 then 5 else 1)"

definition cut_stream :: bytes where
  "cut_stream = stream_bytes 2 0 0 0x4000001 0 cut_counts (replicate 14 0)"

lemma bit_cut: "bit (0x4000001 :: u64) n \<longleftrightarrow> n = 0 \<or> n = 26"
proof -
  have "(0x4000001 :: u64) = 2 ^ 26 OR 1" by simp
  then show ?thesis by (simp only: bit_or_iff bit_exp_iff bit_1_iff) auto
qed

lemma cut_declared: "declared_counts 0x4000001 cut_counts = [5] @ replicate 25 0 @ [1] @ replicate 37 0"
  by (rule nth_equalityI)
    (auto simp: declared_counts_def TABLE_SLOTS_def nth_Cons' nth_append bit_cut cut_counts_def simp del: bit_numeral_word_iff)

lemma length_cut_stream: "length cut_stream = 46"
  by (simp add: cut_stream_def stream_bytes_def count_bytes_def TABLE_SLOTS_def length_concat upt_rec bit_cut
      del: bit_numeral_word_iff)

lemma cut_stream_slice: "slice_ok cut_stream"
  by (simp add: slice_ok_def length_cut_stream isize_max_def)

lemma cut_stream_fits: "0 + length cut_stream \<le> usize_max"
  by (simp add: length_cut_stream usize_max_def)

lemma cut_stream_parses:
  obtains t ds where "tables_parse cut_stream 0 False Permissive [] = Ok (t, ds)"
    and "header_counts cut_stream = declared_counts 0x4000001 cut_counts" and "cut_stream ! 6 = 0"
    and "valid_bits cut_stream = 0x4000001"
proof -
  have "\<forall>s < TABLE_SLOTS. bit (0x4000001 :: u64) s \<longrightarrow> TableId_from_u8 (of_nat s) \<noteq> None"
    by (auto simp: TableId_from_u8_def bit_cut simp del: bit_numeral_word_iff)
  from permissive_parses [OF _ _ this cut_stream_slice [unfolded cut_stream_def] cut_stream_fits [unfolded cut_stream_def], of False "[]"]
  show thesis using that unfolding cut_stream_def by auto
qed

theorem tables_lie_in_stream_witness:
  "\<exists>t ds. tables_parse cut_stream 0 False Permissive [] = Ok (t, ds)
     \<and> tables_wf (stream_width 0 ([5] @ replicate 25 0 @ [1] @ replicate 37 0)) t
     \<and> tables_at cut_stream \<le> tl_data_offset (table_layout t T_ModuleRef)"
proof -
  obtain t ds where p: "tables_parse cut_stream 0 False Permissive [] = Ok (t, ds)"
    "header_counts cut_stream = declared_counts 0x4000001 cut_counts" "cut_stream ! 6 = 0"
    using cut_stream_parses by metis
  from tables_lie_in_stream [OF cut_stream_slice cut_stream_fits, of False Permissive "[]"] p(1)
  show ?thesis unfolding p(2,3) cut_declared by blast
qed

theorem row_counts_kept_witness:
  "\<exists>t ds. tables_parse cut_stream 0 False Permissive [] = Ok (t, ds)
     \<and> row_count t T_Module = 1 \<and> row_count t T_ModuleRef = 2
     \<and> diagnostic_new StreamRangeClamped 42 2 \<in> set ds"
proof -
  obtain t ds where p: "tables_parse cut_stream 0 False Permissive [] = Ok (t, ds)"
    "header_counts cut_stream = declared_counts 0x4000001 cut_counts" "cut_stream ! 6 = 0" "valid_bits cut_stream = 0x4000001"
    using cut_stream_parses by metis
  note k = row_counts_kept [OF cut_stream_slice cut_stream_fits p(1), unfolded Let_def length_cut_stream]
  let ?size = "size_of (header_width cut_stream)"
  have c: "header_count cut_stream (slot_of u) = ([5] @ replicate 25 0 @ [1] @ replicate 37 0) ! slot_of u" for u
    using header_counts_nth [of "slot_of u" cut_stream] by (simp only: slot_of_less p(2) cut_declared)
  have n: "header_count cut_stream (slot_of T_Module) = 5" "header_count cut_stream (slot_of T_ModuleRef) = 1"
    using c [of T_Module] c [of T_ModuleRef] by (simp_all add: slot_of_def nth_append)
  have zero: "header_count cut_stream (slot_of u) = 0" if "u \<noteq> T_Module" "u \<noteq> T_ModuleRef" for u
    using c [of u] that by (cases u) (simp_all add: slot_of_def nth_append nth_Cons')
  have at: "tables_at cut_stream = 32"
    by (simp add: tables_at_def p(3,4) counts_below_def TABLE_SLOTS_def upt_rec bit_cut del: bit_numeral_word_iff)
  have w: "header_width cut_stream = stream_width 0 ([5] @ replicate 25 0 @ [1] @ replicate 37 0)"
    by (simp only: header_width_def [abs_def] p(2,3) cut_declared)
  have sz: "?size T_Module = 10" "?size T_ModuleRef = 2"
    unfolding w by (simp_all add: size_of_def offset_of_def row_defs stream_width_def column_width_def)
  have below: "filter (\<lambda>u. u < T_Module) TableId_ALL = []" by (simp add: TableId_ALL_def less_TableId_def)
  have o1: "tl_data_offset (table_layout t T_Module) = 32" using k [of T_Module] by (simp only: below at) simp
  have over: "overruns cut_stream t T_Module" unfolding overruns_def n sz o1 length_cut_stream by simp
  have le: "T_Module \<le> T_ModuleRef" by (simp add: less_eq_TableId_def)
  have r1: "row_count t T_Module = 1"
    using k [of T_Module] over unfolding o1 sz n by auto
  have r0: "row_count t u = 0" if "u \<noteq> T_Module" "u \<noteq> T_ModuleRef" for u
    using k [of u] zero [OF that] by simp
  have o2: "tl_data_offset (table_layout t T_ModuleRef) = 42"
    using k [of T_ModuleRef] by (simp add: TableId_ALL_def less_TableId_def r0 r1 sz at)
  show ?thesis
    using k [of T_ModuleRef] over le p(1) r1 unfolding o2 sz n by auto
qed

end
