(* ===== verification/Compressed.thy ===== *)
theory Compressed
  imports Reader
begin

text \<open>
  Compressed integers of metadata blobs (\<open>src/compressed.rs\<close>): one, two or four
  big-endian bytes, selected by the top bits of the first. A decoder returns the value
  and the number of bytes it consumed. \<open>i32\<close> intermediates are \<open>int\<close>; they stay
  non-negative and below \<open>2 ^ 29\<close>, so no \<open>i32\<close> operation of the source can overflow.
\<close>

section \<open>Decoders and encoder\<close>

definition MAX_COMPRESSED_U32 :: u32 where
  "MAX_COMPRESSED_U32 = 0x1FFFFFFF"

definition read_compressed_u32 :: "bytes \<Rightarrow> (u32 \<times> nat) result" where
  "read_compressed_u32 bs =
     res_bind (ok_or (get_at bs 0) (error_new Truncated 0 ''compressed integer'')) (\<lambda>b0.
     if b0 AND 0x80 = 0 then Ok (ucast b0, 1)
     else if b0 AND 0xC0 = 0x80 then
       res_bind (ok_or (get_at bs 1) (error_new Truncated 1 ''compressed integer'')) (\<lambda>b1.
       Ok (push_bit 8 (ucast (b0 AND 0x3F)) OR ucast b1, 2))
     else if b0 AND 0xE0 = 0xC0 then
       res_bind (ok_or (get_range bs 1 4) (error_new Truncated 1 ''compressed integer'')) (\<lambda>b.
       Ok (push_bit 24 (ucast (b0 AND 0x1F)) OR push_bit 16 (ucast (b ! 0))
             OR push_bit 8 (ucast (b ! 1)) OR ucast (b ! 2), 4))
     else Err (error_new Malformed 0 ''compressed integer''))"

definition rotate_sign :: "int \<Rightarrow> int \<Rightarrow> int" where
  "rotate_sign raw sign_bit =
     (let val = drop_bit 1 raw in if raw AND 1 \<noteq> 0 then val - sign_bit else val)"

definition read_compressed_i32 :: "bytes \<Rightarrow> (int \<times> nat) result" where
  "read_compressed_i32 bs =
     res_bind (ok_or (get_at bs 0) (error_new Truncated 0 ''compressed integer'')) (\<lambda>b0.
     if b0 AND 0x80 = 0 then Ok (rotate_sign (uint b0) 0x40, 1)
     else if b0 AND 0xC0 = 0x80 then
       res_bind (ok_or (get_at bs 1) (error_new Truncated 1 ''compressed integer'')) (\<lambda>b1.
       let raw = push_bit 8 (uint (b0 AND 0x3F)) OR uint b1
       in Ok (rotate_sign raw 0x2000, 2))
     else if b0 AND 0xE0 = 0xC0 then
       res_bind (ok_or (get_range bs 1 4) (error_new Truncated 1 ''compressed integer'')) (\<lambda>b.
       let raw = push_bit 24 (uint (b0 AND 0x1F)) OR push_bit 16 (uint (b ! 0))
             OR push_bit 8 (uint (b ! 1)) OR uint (b ! 2)
       in Ok (rotate_sign raw 0x10000000, 4))
     else Err (error_new Malformed 0 ''compressed integer''))"

text \<open>
  The encoder fills a caller's four-byte buffer and returns how much of it is the
  encoding; the buffer is returned with the count.
\<close>

definition write_compressed_u32 :: "u32 \<Rightarrow> bytes \<Rightarrow> nat option \<times> bytes" where
  "write_compressed_u32 val out =
     (if val < 0x80 then (Some 1, out[0 := ucast val])
      else if val < 0x4000 then
        (Some 2, out[0 := 0x80 OR ucast (drop_bit 8 val), 1 := ucast val])
      else if val \<le> MAX_COMPRESSED_U32 then
        (Some 4, out[0 := 0xC0 OR ucast (drop_bit 24 val), 1 := ucast (drop_bit 16 val),
                     2 := ucast (drop_bit 8 val), 3 := ucast val])
      else (None, out))"

section \<open>Bits\<close>

lemma bit_less_pow:
  assumes "(w :: 'a::len word) < 2 ^ k" and "k \<le> n"
  shows "\<not> bit w n"
proof (cases "k < LENGTH('a)")
  case True
  then have "uint (2 ^ k :: 'a word) = 2 ^ k" by (intro uint_2p) (simp add: word_gt_0)
  with assms(1) have "uint w < 2 ^ k" by (simp add: word_less_def)
  then have "take_bit k (uint w) = uint w" by (simp add: take_bit_int_eq_self)
  then have "\<not> bit (uint w) n" using assms(2) by (metis bit_take_bit_iff not_less)
  then show ?thesis using bit_imp_le_length [of w n] by (auto simp: bit_uint_iff)
next
  case False
  then show ?thesis using assms(2) bit_imp_le_length [of w n] by auto
qed

lemma less8: "n < (8::nat) \<longleftrightarrow> n = 0 \<or> n = 1 \<or> n = 2 \<or> n = 3 \<or> n = 4 \<or> n = 5 \<or> n = 6 \<or> n = 7"
  by auto

lemma u8_bitD: "bit (c :: u8) i \<Longrightarrow> i < 8"
  using bit_imp_le_length [of c i] by simp

lemma bit_u8_ge [simp]: "8 \<le> i \<Longrightarrow> \<not> bit (c :: u8) i"
  using u8_bitD [of c i] by auto

lemma len8: "n < LENGTH(8) \<longleftrightarrow> n < (8::nat)"
  by simp

lemma u8_eq_iff:
  "(a :: u8) = b \<longleftrightarrow> bit a 0 = bit b 0 \<and> bit a 1 = bit b 1 \<and> bit a 2 = bit b 2 \<and> bit a 3 = bit b 3
     \<and> bit a 4 = bit b 4 \<and> bit a 5 = bit b 5 \<and> bit a 6 = bit b 6 \<and> bit a 7 = bit b 7"
    (is "_ \<longleftrightarrow> ?bits")
proof
  assume ?bits
  then show "a = b" by (intro bit_word_eqI) (simp only: len8 less8, elim disjE, simp_all only:)
qed simp

text \<open>The header bits of each width, read off the first byte.\<close>

lemma head_and:
  fixes b :: u8
  shows "b AND 0x80 = 0 \<longleftrightarrow> \<not> bit b 7"
    and "b AND 0xC0 = 0x80 \<longleftrightarrow> bit b 7 \<and> \<not> bit b 6"
    and "b AND 0xE0 = 0xC0 \<longleftrightarrow> bit b 7 \<and> bit b 6 \<and> \<not> bit b 5"
  by (auto simp: u8_eq_iff bit_and_iff)

lemma bit_u8_const:
  "bit (0x80 :: u8) n \<longleftrightarrow> n = 7"
  "bit (0xC0 :: u8) n \<longleftrightarrow> n = 6 \<or> n = 7"
  "bit (0x3F :: u8) n \<longleftrightarrow> n < 6"
  "bit (0x1F :: u8) n \<longleftrightarrow> n < 5"
  by (cases "n < 8"; auto simp: less8 dest: bit_imp_le_length)+

lemmas u8_bits = bit_and_iff bit_or_iff bit_unsigned_iff bit_push_bit_iff bit_drop_bit_eq bit_u8_const

lemma max_compressed: "v \<le> MAX_COMPRESSED_U32 \<longleftrightarrow> v < 2 ^ 29"
proof -
  have "v \<le> MAX_COMPRESSED_U32 \<longleftrightarrow> unat v \<le> 0x1FFFFFFF"
    by (simp add: MAX_COMPRESSED_U32_def word_le_nat_alt)
  also have "\<dots> \<longleftrightarrow> v < 2 ^ 29" by (auto simp: word_less_nat_alt)
  finally show ?thesis .
qed

section \<open>The encoding, width by width\<close>

text \<open>
  The reference encoding of a value at a chosen width (II.23.2): 7 bits in one byte, 14 in
  two, 29 in four. The decoder accepts every width for every value that fits it; the
  encoder of the source picks the smallest.
\<close>

definition compress_at :: "nat \<Rightarrow> u32 \<Rightarrow> bytes" where
  "compress_at n v =
     (if n = 1 then [ucast v]
      else if n = 2 then [0x80 OR ucast (drop_bit 8 v), ucast v]
      else [0xC0 OR ucast (drop_bit 24 v), ucast (drop_bit 16 v), ucast (drop_bit 8 v), ucast v])"

definition width_bits :: "nat \<Rightarrow> nat" where
  "width_bits n = (if n = 1 then 7 else if n = 2 then 14 else 29)"

definition width_ok :: "nat \<Rightarrow> bool" where
  "width_ok n \<longleftrightarrow> n = 1 \<or> n = 2 \<or> n = 4"

lemma length_compress_at: "width_ok n \<Longrightarrow> length (compress_at n v) = n"
  by (auto simp: width_ok_def compress_at_def)

lemma read_compress_1:
  assumes "v < 2 ^ 7"
  shows "read_compressed_u32 (compress_at 1 v @ ys) = Ok (v, 1)"
proof -
  have nb: "\<not> bit v n" if "7 \<le> n" for n using bit_less_pow [OF assms that] .
  have "\<not> bit (ucast v :: u8) 7" by (simp add: bit_unsigned_iff nb)
  moreover have "ucast (ucast v :: u8) = v"
  proof (rule bit_word_eqI)
    fix n assume "n < LENGTH(32)"
    show "bit (ucast (ucast v :: u8) :: u32) n = bit v n"
      using nb [of n] by (cases "n < 8") (auto simp: bit_unsigned_iff)
  qed
  ultimately show ?thesis
    by (simp add: compress_at_def read_compressed_u32_def get_at_def head_and)
qed

lemma read_compress_2:
  assumes "v < 2 ^ 14"
  shows "read_compressed_u32 (compress_at 2 v @ ys) = Ok (v, 2)"
proof -
  define b0 :: u8 where "b0 = 0x80 OR ucast (drop_bit 8 v)"
  have nb: "\<not> bit v n" if "14 \<le> n" for n using bit_less_pow [OF assms that] .
  have "bit b0 7" "\<not> bit b0 6" by (simp_all add: b0_def u8_bits nb)
  moreover have "push_bit 8 (ucast (b0 AND 0x3F)) OR ucast (ucast v :: u8) = v"
  proof (rule bit_word_eqI)
    fix n assume "n < LENGTH(32)"
    then show "bit (push_bit 8 (ucast (b0 AND 0x3F)) OR ucast (ucast v :: u8) :: u32) n = bit v n"
      using nb [of n] by (cases "n < 8"; cases "n < 14") (auto simp: b0_def u8_bits simp del: bit_numeral_word_iff)
  qed
  ultimately show ?thesis
    by (simp add: compress_at_def read_compressed_u32_def get_at_def head_and b0_def [symmetric])
qed

lemma read_compress_4:
  assumes "v < 2 ^ 29"
  shows "read_compressed_u32 (compress_at 4 v @ ys) = Ok (v, 4)"
proof -
  define b0 :: u8 where "b0 = 0xC0 OR ucast (drop_bit 24 v)"
  have nb: "\<not> bit v n" if "29 \<le> n" for n using bit_less_pow [OF assms that] .
  have "bit b0 7" "bit b0 6" "\<not> bit b0 5" by (simp_all add: b0_def u8_bits nb)
  moreover have "push_bit 24 (ucast (b0 AND 0x1F)) OR push_bit 16 (ucast (ucast (drop_bit 16 v) :: u8))
      OR push_bit 8 (ucast (ucast (drop_bit 8 v) :: u8)) OR ucast (ucast v :: u8) = v"
    (is "?w = v")
  proof (rule bit_word_eqI)
    fix n assume "n < LENGTH(32)"
    then show "bit (?w :: u32) n = bit v n"
      using nb [of n] by (cases "n < 8"; cases "n < 16"; cases "n < 24"; cases "n < 29")
        (auto simp: b0_def u8_bits simp del: bit_numeral_word_iff)
  qed
  ultimately show ?thesis
    by (simp add: compress_at_def read_compressed_u32_def get_at_def get_range_def head_and
        b0_def [symmetric] take_Cons')
qed

lemma read_compress_at:
  assumes "width_ok n" and "v < 2 ^ width_bits n"
  shows "read_compressed_u32 (compress_at n v @ ys) = Ok (v, n)"
  using assms read_compress_1 read_compress_2 read_compress_4
  by (auto simp: width_ok_def width_bits_def)


lemma no_panic_read_compressed [no_panic_intro]:
  "no_panic (read_compressed_u32 bs)" "no_panic (read_compressed_i32 bs)"
  by (auto simp: read_compressed_u32_def read_compressed_i32_def res_iff Let_def split: if_splits)

lemma read_compressed_Nil: "read_compressed_u32 [] = Err (error_new Truncated 0 ''compressed integer'')"
  by (simp add: read_compressed_u32_def get_at_def)

lemma read_compressed_Cons:
  "read_compressed_u32 (b # bs) =
    (if \<not> bit b 7 then Ok (ucast b, 1)
     else if \<not> bit b 6 then
       (case bs of [] \<Rightarrow> Err (error_new Truncated 1 ''compressed integer'')
        | c # _ \<Rightarrow> Ok (push_bit 8 (ucast (b AND 0x3F)) OR ucast c, 2))
     else if \<not> bit b 5 then
       (case bs of c # d # e # _ \<Rightarrow>
            Ok (push_bit 24 (ucast (b AND 0x1F)) OR push_bit 16 (ucast c) OR push_bit 8 (ucast d) OR ucast e, 4)
        | _ \<Rightarrow> Err (error_new Truncated 1 ''compressed integer''))
     else Err (error_new Malformed 0 ''compressed integer''))"
  by (auto simp: read_compressed_u32_def head_and get_at_def get_range_def take_Cons' split: list.splits)

text \<open>What the decoder accepts is the reference encoding, followed by anything.\<close>

lemma less_pow_bits:
  assumes "\<And>i. k \<le> i \<Longrightarrow> \<not> bit (w :: 'a::len word) i" and "k < LENGTH('a)"
  shows "w < 2 ^ k"
proof -
  have "take_bit k w = w" using assms(1)
    by (intro bit_word_eqI) (metis bit_take_bit_iff not_less)
  then have "uint w = take_bit k (uint w)" by (metis unsigned_take_bit_eq)
  then have "uint w < 2 ^ k" by (metis take_bit_int_less_exp)
  moreover have "uint (2 ^ k :: 'a word) = 2 ^ k"
    using assms(2) by (intro uint_2p) (simp add: word_gt_0)
  ultimately show ?thesis by (simp add: word_less_def)
qed

lemma read_compressed_accepts_1:
  assumes "\<not> bit (b :: u8) 7"
  shows "(ucast b :: u32) < 2 ^ 7 \<and> compress_at 1 (ucast b) = [b]"
proof
  have nb: "7 \<le> i \<Longrightarrow> \<not> bit b i" for i
    using assms bit_imp_le_length [of b i] by (cases "i = 7") auto
  show "(ucast b :: u32) < 2 ^ 7"
    by (rule less_pow_bits) (auto simp: bit_unsigned_iff nb)
  have "ucast (ucast b :: u32) = b"
    by (rule bit_word_eqI) (simp add: bit_unsigned_iff)
  then show "compress_at 1 (ucast b) = [b]" by (simp add: compress_at_def)
qed

lemma read_compressed_accepts_2:
  fixes b c :: u8
  defines "v \<equiv> push_bit 8 (ucast (b AND 0x3F)) OR ucast c :: u32"
  assumes "bit b 7" and "\<not> bit b 6"
  shows "v < 2 ^ 14 \<and> compress_at 2 v = [b, c]"
proof
  show "v < 2 ^ 14"
    by (rule less_pow_bits) (auto simp: v_def u8_bits simp del: bit_numeral_word_iff dest!: u8_bitD)
  have "0x80 OR ucast (drop_bit 8 v) = b"
  proof (rule bit_word_eqI)
    fix n assume "n < LENGTH(8)"
    then consider "n = 7" | "n = 6" | "n < 6" by fastforce
    then show "bit (0x80 OR ucast (drop_bit 8 v) :: u8) n = bit b n"
      by cases (simp_all add: v_def u8_bits assms del: bit_numeral_word_iff)
  qed
  moreover have "ucast v = c"
  proof (rule bit_word_eqI)
    fix n assume "n < LENGTH(8)"
    then show "bit (ucast v :: u8) n = bit c n"
      by (simp add: v_def u8_bits del: bit_numeral_word_iff)
  qed
  ultimately show "compress_at 2 v = [b, c]" by (simp add: compress_at_def)
qed

lemma read_compressed_accepts_4:
  fixes b c d e :: u8
  defines "v \<equiv> push_bit 24 (ucast (b AND 0x1F)) OR push_bit 16 (ucast c) OR push_bit 8 (ucast d)
     OR ucast e :: u32"
  assumes "bit b 7" and "bit b 6" and "\<not> bit b 5"
  shows "v < 2 ^ 29 \<and> compress_at 4 v = [b, c, d, e]"
proof
  show "v < 2 ^ 29"
    by (rule less_pow_bits) (auto simp: v_def u8_bits simp del: bit_numeral_word_iff dest!: u8_bitD)
  have "0xC0 OR ucast (drop_bit 24 v) = b"
  proof (rule bit_word_eqI)
    fix n assume "n < LENGTH(8)"
    then consider "n = 7" | "n = 6" | "n = 5" | "n < 5" by fastforce
    then show "bit (0xC0 OR ucast (drop_bit 24 v) :: u8) n = bit b n"
      by cases (simp_all add: v_def u8_bits assms del: bit_numeral_word_iff)
  qed
  moreover have "ucast (drop_bit 16 v) = c"
    by (rule bit_word_eqI) (simp add: v_def u8_bits del: bit_numeral_word_iff)
  moreover have "ucast (drop_bit 8 v) = d"
    by (rule bit_word_eqI) (simp add: v_def u8_bits del: bit_numeral_word_iff)
  moreover have "ucast v = e"
    by (rule bit_word_eqI) (simp add: v_def u8_bits del: bit_numeral_word_iff)
  ultimately show "compress_at 4 v = [b, c, d, e]" by (simp add: compress_at_def)
qed

lemma read_compressed_Ok:
  assumes "read_compressed_u32 bs = Ok (v, n)"
  shows "width_ok n \<and> v < 2 ^ width_bits n \<and> n \<le> length bs \<and> take n bs = compress_at n v"
proof (cases bs)
  case Nil
  then show ?thesis using assms by (simp add: read_compressed_Nil)
next
  case (Cons b bs')
  consider "\<not> bit b 7" | "bit b 7" "\<not> bit b 6" | "bit b 7" "bit b 6" "\<not> bit b 5"
    | "bit b 7" "bit b 6" "bit b 5" by blast
  then show ?thesis
  proof cases
    case 1
    then show ?thesis using assms Cons read_compressed_accepts_1 [of b]
      by (auto simp: read_compressed_Cons width_ok_def width_bits_def)
  next
    case 2
    then show ?thesis using assms Cons read_compressed_accepts_2 [of b]
      by (auto simp: read_compressed_Cons width_ok_def width_bits_def split: list.splits)
  next
    case 3
    then show ?thesis using assms Cons read_compressed_accepts_4 [of b]
      by (auto simp: read_compressed_Cons width_ok_def width_bits_def take_Cons' split: list.splits)
  next
    case 4
    then show ?thesis using assms Cons by (simp add: read_compressed_Cons)
  qed
qed

lemma read_compressed_width:
  assumes "read_compressed_u32 bs = Ok (v, n)"
  shows "1 \<le> n" "n \<le> 4" "n \<le> length bs" "v < 2 ^ 29" "unat v < 2 ^ 29"
proof -
  note * = read_compressed_Ok [OF assms]
  then show "1 \<le> n" "n \<le> 4" "n \<le> length bs" by (auto simp: width_ok_def)
  from * show v: "v < 2 ^ 29"
    by (auto simp: width_ok_def width_bits_def word_less_nat_alt)
  then show "unat v < 2 ^ 29" by (simp add: word_less_nat_alt)
qed

lemma read_compressed_iff:
  "read_compressed_u32 bs = Ok (v, n) \<longleftrightarrow>
     width_ok n \<and> v < 2 ^ width_bits n \<and> (\<exists>ys. bs = compress_at n v @ ys)"
proof
  assume "read_compressed_u32 bs = Ok (v, n)"
  from read_compressed_Ok [OF this] show "width_ok n \<and> v < 2 ^ width_bits n \<and> (\<exists>ys. bs = compress_at n v @ ys)"
    by (metis append_take_drop_id)
next
  assume "width_ok n \<and> v < 2 ^ width_bits n \<and> (\<exists>ys. bs = compress_at n v @ ys)"
  then show "read_compressed_u32 bs = Ok (v, n)" using read_compress_at by blast
qed

lemma read_compressed_Err:
  "read_compressed_u32 bs = Err e \<longleftrightarrow>
     (bs = [] \<and> e = error_new Truncated 0 ''compressed integer'')
   \<or> (bs \<noteq> [] \<and> bit (hd bs) 7 \<and> bit (hd bs) 6 \<and> bit (hd bs) 5 \<and> e = error_new Malformed 0 ''compressed integer'')
   \<or> (bs \<noteq> [] \<and> bit (hd bs) 7 \<and> \<not> bit (hd bs) 6 \<and> length bs < 2 \<and> e = error_new Truncated 1 ''compressed integer'')
   \<or> (bs \<noteq> [] \<and> bit (hd bs) 7 \<and> bit (hd bs) 6 \<and> \<not> bit (hd bs) 5 \<and> length bs < 4
       \<and> e = error_new Truncated 1 ''compressed integer'')"
  by (cases bs) (auto simp: read_compressed_Nil read_compressed_Cons split: list.splits)

section \<open>The encoder\<close>

lemma write_compressed_cases:
  assumes "length out = 4"
  shows "v < 2 ^ 7 \<Longrightarrow> \<exists>out'. write_compressed_u32 v out = (Some 1, out') \<and> take 1 out' = compress_at 1 v"
    and "\<not> v < 2 ^ 7 \<Longrightarrow> v < 2 ^ 14 \<Longrightarrow>
      \<exists>out'. write_compressed_u32 v out = (Some 2, out') \<and> take 2 out' = compress_at 2 v"
    and "\<not> v < 2 ^ 7 \<Longrightarrow> \<not> v < 2 ^ 14 \<Longrightarrow> v < 2 ^ 29 \<Longrightarrow>
      \<exists>out'. write_compressed_u32 v out = (Some 4, out') \<and> take 4 out' = compress_at 4 v"
    and "\<not> v < 2 ^ 29 \<Longrightarrow> write_compressed_u32 v out = (None, out)"
proof -
  obtain a b c d where out: "out = [a, b, c, d]"
    using assms by (auto simp: length_Suc_conv numeral_eq_Suc)
  have m: "v \<le> MAX_COMPRESSED_U32 \<longleftrightarrow> v < 0x20000000" by (simp add: max_compressed)
  show "v < 2 ^ 7 \<Longrightarrow> \<exists>out'. write_compressed_u32 v out = (Some 1, out') \<and> take 1 out' = compress_at 1 v"
    by (simp add: write_compressed_u32_def out compress_at_def)
  show "\<not> v < 2 ^ 7 \<Longrightarrow> v < 2 ^ 14 \<Longrightarrow>
      \<exists>out'. write_compressed_u32 v out = (Some 2, out') \<and> take 2 out' = compress_at 2 v"
    by (simp add: write_compressed_u32_def out compress_at_def)
  show "\<not> v < 2 ^ 7 \<Longrightarrow> \<not> v < 2 ^ 14 \<Longrightarrow> v < 2 ^ 29 \<Longrightarrow>
      \<exists>out'. write_compressed_u32 v out = (Some 4, out') \<and> take 4 out' = compress_at 4 v"
    by (simp add: write_compressed_u32_def out compress_at_def m list_update_code nat_diff_split numeral_eq_Suc)
  show "\<not> v < 2 ^ 29 \<Longrightarrow> write_compressed_u32 v out = (None, out)"
    by (auto simp: write_compressed_u32_def m word_less_nat_alt)
qed

section \<open>Signed integers\<close>

text \<open>
  The signed decoder reads the same widths and then undoes the rotation, with the sign
  weight of that width.
\<close>

lemma uint_shift_or:
  fixes b c d e :: u8
  shows "uint (push_bit 8 (ucast (b AND 0x3F)) OR ucast c :: u32) = push_bit 8 (uint (b AND 0x3F)) OR uint c"
    and "uint (push_bit 24 (ucast (b AND 0x1F)) OR push_bit 16 (ucast c) OR push_bit 8 (ucast d) OR ucast e :: u32)
      = push_bit 24 (uint (b AND 0x1F)) OR push_bit 16 (uint c) OR push_bit 8 (uint d) OR uint e"
  by (rule bit_eqI, rename_tac n, case_tac "n < 32",
      auto simp: bit_uint_iff u8_bits simp del: bit_numeral_word_iff dest: u8_bitD)+

lemma uint_ucast_u8: "uint (ucast (b :: u8) :: u32) = uint b"
  by (rule bit_eqI) (auto simp: bit_uint_iff bit_unsigned_iff dest: u8_bitD)

lemma read_compressed_i32_eq:
  "read_compressed_i32 bs =
     res_bind (read_compressed_u32 bs) (\<lambda>(v, n). Ok (rotate_sign (uint v) (2 ^ (width_bits n - 1)), n))"
  by (auto simp: read_compressed_i32_def read_compressed_u32_def res_bind_assoc Let_def width_bits_def
      uint_shift_or uint_ucast_u8 simp del: unsigned_ucast_eq intro!: res_bind_cong)

definition rotated :: "nat \<Rightarrow> int \<Rightarrow> u32" where
  "rotated n v = word_of_int (2 * (v mod 2 ^ (width_bits n - 1)) + (if v < 0 then 1 else 0))"

lemma rotate_sign_inverse:
  assumes "- (2 ^ k) \<le> v" and "v < 2 ^ k"
  shows "rotate_sign (2 * (v mod 2 ^ k) + (if v < 0 then 1 else 0)) (2 ^ k) = v"
proof -
  have neg: "v mod 2 ^ k = v + 2 ^ k" if "v < 0"
  proof -
    have "v mod 2 ^ k = (v + 2 ^ k) mod 2 ^ k" by (simp only: mod_add_self2)
    also have "\<dots> = v + 2 ^ k" using that assms(1) by (intro mod_pos_pos_trivial) auto
    finally show ?thesis .
  qed
  have pos: "v mod 2 ^ k = v" if "\<not> v < 0" using that assms(2) by simp
  have odd: "rotate_sign (2 * m + 1) s = m - s" and even: "rotate_sign (2 * m) s = m" for m s
    by (simp_all add: rotate_sign_def and_one_eq drop_bit_Suc)
  show ?thesis
  proof (cases "v < 0")
    case True
    then show ?thesis using odd [of "v mod 2 ^ k" "2 ^ k"] neg by simp
  next
    case False
    then show ?thesis using even [of "v mod 2 ^ k" "2 ^ k"] pos by simp
  qed
qed

lemma rotated_uint:
  assumes "width_ok n" and "- (2 ^ (width_bits n - 1)) \<le> v" and "v < 2 ^ (width_bits n - 1)"
  shows "uint (rotated n v) = 2 * (v mod 2 ^ (width_bits n - 1)) + (if v < 0 then 1 else 0)"
    and "rotated n v < 2 ^ width_bits n"
proof -
  let ?k = "width_bits n - 1" and ?r = "2 * (v mod 2 ^ (width_bits n - 1)) + (if v < 0 then 1 else 0)"
  have k: "width_bits n = Suc ?k" "?k < 29" using assms(1) by (auto simp: width_ok_def width_bits_def)
  have "v mod 2 ^ ?k < 2 ^ ?k" "0 \<le> v mod 2 ^ ?k" by simp_all
  then have r: "0 \<le> ?r" "?r < 2 ^ Suc ?k" by (simp_all add: algebra_simps del: pos_mod_bound pos_mod_sign)
  have "(2::int) ^ Suc ?k \<le> 2 ^ 29" using k(2) by (intro power_increasing) auto
  moreover have "(2::int) ^ 29 < 2 ^ 32" by simp
  ultimately have "?r < 2 ^ 32" using r(2) by (meson less_le_trans less_trans)
  then show u: "uint (rotated n v) = ?r" using r(1)
    by (simp only: rotated_def uint_word_of_int_eq) (rule take_bit_int_eq_self, simp_all)
  have "uint (2 ^ width_bits n :: u32) = 2 ^ width_bits n"
    using k by (intro uint_2p) (simp add: word_gt_0)
  then show "rotated n v < 2 ^ width_bits n"
    using u r(2) k(1) by (simp add: word_less_def)
qed


lemma rotate_sign_range:
  assumes "0 \<le> raw" and "raw < 2 ^ Suc k"
  shows "- (2 ^ k) \<le> rotate_sign raw (2 ^ k) \<and> rotate_sign raw (2 ^ k) < 2 ^ k"
proof -
  obtain q where q: "drop_bit 1 raw = q" "0 \<le> q" "q < 2 ^ k"
  proof
    show "drop_bit 1 raw = raw div 2" by (simp add: drop_bit_eq_div)
    show "0 \<le> raw div 2" "raw div 2 < 2 ^ k" using assms by auto
  qed
  have p: "(0::int) < 2 ^ k" by simp
  show ?thesis
    unfolding rotate_sign_def Let_def q(1) using q(2,3) p by (auto; linarith)
qed

section \<open>Properties\<close>

text \<open>Encoding a value with \<open>write_u32\<close> and decoding the written bytes, whatever follows
  them, gives the value back together with the number of bytes written; a value above
  \<open>MAX_COMPRESSED_U32\<close> is refused and the buffer left alone.\<close>

lemma compressed_u32_roundtrip:
  assumes "length out = 4"
  shows "if v \<le> MAX_COMPRESSED_U32
         then \<exists>n out'. write_compressed_u32 v out = (Some n, out')
                \<and> read_compressed_u32 (take n out' @ ys) = Ok (v, n)
         else write_compressed_u32 v out = (None, out)"
proof (cases "v < 2 ^ 29")
  case False
  then show ?thesis using write_compressed_cases(4) [OF assms] by (simp add: max_compressed)
next
  case True
  consider "v < 2 ^ 7" | "\<not> v < 2 ^ 7" "v < 2 ^ 14" | "\<not> v < 2 ^ 7" "\<not> v < 2 ^ 14" by blast
  then have "\<exists>n out'. write_compressed_u32 v out = (Some n, out')
                \<and> read_compressed_u32 (take n out' @ ys) = Ok (v, n)"
    using write_compressed_cases(1-3) [OF assms, of v] True
      read_compress_1 [of v ys] read_compress_2 [of v ys] read_compress_4 [of v ys]
    by cases (metis (no_types))+
  with True show ?thesis by (simp add: max_compressed)
qed

text \<open>The decoder accepts exactly the one-, two- and four-byte encodings of ECMA-335 II.23.2
  (7, 14 and 29 value bits), each followed by anything, and reports the encoded value and the
  width it consumed.\<close>

lemma compressed_u32_exact:
  "read_compressed_u32 bs = Ok (v, n) \<longleftrightarrow>
     width_ok n \<and> v < 2 ^ width_bits n \<and> (\<exists>ys. bs = compress_at n v @ ys)"
  by (rule read_compressed_iff)

text \<open>A refused compressed integer is diagnosed precisely: a first byte with the reserved
  prefix 111 is \<open>Malformed\<close> at offset 0, an empty input is \<open>Truncated\<close> at 0, and an input
  shorter than the width its first byte announces is \<open>Truncated\<close> at offset 1.\<close>

lemma compressed_u32_error:
  assumes "read_compressed_u32 bs = Err e"
  shows "e = (if bs = [] then error_new Truncated 0 ''compressed integer''
              else if bit (hd bs) 7 \<and> bit (hd bs) 6 \<and> bit (hd bs) 5
                   then error_new Malformed 0 ''compressed integer''
              else error_new Truncated 1 ''compressed integer'')
       \<and> (err_kind e = Malformed \<or> length bs < 4)"
  using assms by (auto simp: read_compressed_Err)

text \<open>Signed compressed integers round-trip at every width: rotating the two's complement
  value left by one within the width, encoding it, and decoding it gives the value back, for the
  whole signed range of that width.\<close>

lemma compressed_i32_roundtrip:
  assumes "width_ok n" and "- (2 ^ (width_bits n - 1)) \<le> v" and "v < 2 ^ (width_bits n - 1)"
  shows "read_compressed_i32 (compress_at n (rotated n v) @ ys) = Ok (v, n)"
  using rotated_uint [OF assms] rotate_sign_inverse [OF assms(2,3)] assms(1)
  by (simp add: read_compressed_i32_eq read_compress_at)

text \<open>Whatever the input, the signed decoder consumes one, two or four bytes that are there
  and its value lies in the signed range of the width it consumed.\<close>

lemma compressed_i32_range:
  assumes "read_compressed_i32 bs = Ok (v, n)"
  shows "width_ok n \<and> n \<le> length bs
    \<and> - (2 ^ (width_bits n - 1)) \<le> v \<and> v < 2 ^ (width_bits n - 1)"
proof -
  from assms obtain w where r: "read_compressed_u32 bs = Ok (w, n)"
    and v: "v = rotate_sign (uint w) (2 ^ (width_bits n - 1))"
    by (auto simp: read_compressed_i32_eq res_iff)
  from read_compressed_Ok [OF r] have w: "width_ok n" "n \<le> length bs" "w < 2 ^ width_bits n" by auto
  then have k: "width_bits n = Suc (width_bits n - 1)" "width_bits n < 32"
    by (auto simp: width_ok_def width_bits_def)
  then have "uint (2 ^ width_bits n :: u32) = 2 ^ width_bits n"
    by (intro uint_2p) (simp add: word_gt_0)
  with w(3) k(1) have "uint w < 2 ^ Suc (width_bits n - 1)" by (simp add: word_less_def)
  then show ?thesis using rotate_sign_range [of "uint w"] w v by simp
qed

text \<open>C33: Compressed integers round-trip. What \<open>write_u32\<close> writes for an unsigned value is read back
  as the value with the number of bytes written, whatever follows, and a value above
  \<open>MAX_COMPRESSED_U32\<close> is refused with the buffer left alone; a signed value in the range of a width,
  rotated and encoded at that width, is read back. Nothing else is accepted: what the unsigned reader
  takes is the encoding of what it returns.\<close>

theorem compressed_roundtrip:
  assumes "length out = 4"
    and "width_ok k" and "- (2 ^ (width_bits k - 1)) \<le> s" and "s < 2 ^ (width_bits k - 1)"
  shows "(if v \<le> MAX_COMPRESSED_U32
         then \<exists>n out'. write_compressed_u32 v out = (Some n, out')
                \<and> read_compressed_u32 (take n out' @ ys) = Ok (v, n)
         else write_compressed_u32 v out = (None, out))
     \<and> read_compressed_i32 (compress_at k (rotated k s) @ ys) = Ok (s, k)
     \<and> (read_compressed_u32 bs = Ok (v, n) \<longleftrightarrow>
          width_ok n \<and> v < 2 ^ width_bits n \<and> (\<exists>zs. bs = compress_at n v @ zs))"
  using compressed_u32_roundtrip [OF assms(1)] compressed_i32_roundtrip [OF assms(2-4)] compressed_u32_exact
  by blast

theorem compressed_roundtrip_witness:
  "(\<exists>n out'. write_compressed_u32 0x2E57 [0, 0, 0, 0] = (Some n, out')
      \<and> read_compressed_u32 (take n out' @ [7]) = Ok (0x2E57, n))
   \<and> read_compressed_i32 (compress_at 2 (rotated 2 (- 8192)) @ [7]) = Ok (- 8192, 2)"
proof -
  have l: "length [0, 0, 0, 0 :: u8] = 4" and m: "(0x2E57 :: u32) \<le> MAX_COMPRESSED_U32"
    by (simp_all add: MAX_COMPRESSED_U32_def)
  have w: "width_ok 2" "- (2 ^ (width_bits 2 - 1)) \<le> (- 8192 :: int)" "(- 8192 :: int) < 2 ^ (width_bits 2 - 1)"
    by (simp_all add: width_ok_def width_bits_def)
  show ?thesis using compressed_roundtrip [OF l w, of "0x2E57" "[7]"] unfolding if_P [OF m] by blast
qed

end
