(* ===== verification/OpTable.thy ===== *)
theory OpTable
  imports Prelude
begin

text \<open>
  The opcode table (\<open>src/il/table.rs\<close>, and the operand, stack and flow kinds of
  \<open>src/il/mod.rs\<close>). The enum \<open>OpCode\<close> has 219 variants with consecutive discriminants; it is a
  datatype of five pages of at most 44 consecutive variants each, and \<open>Op_X\<close> abbreviates the
  variant \<open>OpCode::X\<close>. The static table \<open>OPCODE_INFO\<close> is the concatenation of fifteen pieces, the
  two decoding matches are association lists in the order of their arms.

  The lemmas at the end say what the generated table has to satisfy for the decoder to be
  right: every opcode has a row, its encoding decodes to it and to nothing else, the encodings
  are pairwise different, and the canonical opcode is a fixed point.
\<close>

section \<open>Kinds\<close>

datatype OperandKind =
    InlineNone | InlineI | ShortInlineI | InlineI8 | ShortInlineR | InlineR | InlineBrTarget |
    ShortInlineBrTarget | InlineSwitch | InlineMethod | InlineField | InlineType | InlineTok |
    InlineString | InlineSig | InlineVar | ShortInlineVar

datatype StackBehaviourPop =
    Pop0 | Pop1 | Pop1Pop1 | PopI | PopIPop1 | PopIPopI | PopIPopI8 | PopIPopIPopI | PopIPopR4 |
    PopIPopR8 | PopRef | PopRefPop1 | PopRefPopI | PopRefPopIPop1 | PopRefPopIPopI |
    PopRefPopIPopI8 | PopRefPopIPopR4 | PopRefPopIPopR8 | PopRefPopIPopRef | VarPop

datatype StackBehaviourPush =
    Push0 | Push1 | Push1Push1 | PushI | PushI8 | PushR4 | PushR8 | PushRef | VarPush

datatype FlowControl =
    FC_Next | FC_Branch | FC_CondBranch | FC_Call | FC_Return | FC_Throw | FC_Break | FC_Meta

datatype OpCodeKind =
    OK_Primitive | OK_Macro | OK_ObjModel | OK_Prefix | OK_Internal

fun fixed_size :: "OperandKind \<Rightarrow> nat option" where
  "fixed_size InlineNone = Some 0"
| "fixed_size ShortInlineI = Some 1"
| "fixed_size ShortInlineBrTarget = Some 1"
| "fixed_size ShortInlineVar = Some 1"
| "fixed_size InlineVar = Some 2"
| "fixed_size InlineI = Some 4"
| "fixed_size ShortInlineR = Some 4"
| "fixed_size InlineBrTarget = Some 4"
| "fixed_size InlineMethod = Some 4"
| "fixed_size InlineField = Some 4"
| "fixed_size InlineType = Some 4"
| "fixed_size InlineTok = Some 4"
| "fixed_size InlineString = Some 4"
| "fixed_size InlineSig = Some 4"
| "fixed_size InlineI8 = Some 8"
| "fixed_size InlineR = Some 8"
| "fixed_size InlineSwitch = None"

definition operand_is_token :: "OperandKind \<Rightarrow> bool" where
  "operand_is_token k \<longleftrightarrow>
     k \<in> {InlineMethod, InlineField, InlineType, InlineTok, InlineString, InlineSig}"

fun pop_count :: "StackBehaviourPop \<Rightarrow> nat option" where
  "pop_count Pop0 = Some 0"
| "pop_count Pop1 = Some 1"
| "pop_count PopI = Some 1"
| "pop_count PopRef = Some 1"
| "pop_count Pop1Pop1 = Some 2"
| "pop_count PopIPop1 = Some 2"
| "pop_count PopIPopI = Some 2"
| "pop_count PopIPopI8 = Some 2"
| "pop_count PopIPopR4 = Some 2"
| "pop_count PopIPopR8 = Some 2"
| "pop_count PopRefPop1 = Some 2"
| "pop_count PopRefPopI = Some 2"
| "pop_count PopIPopIPopI = Some 3"
| "pop_count PopRefPopIPop1 = Some 3"
| "pop_count PopRefPopIPopI = Some 3"
| "pop_count PopRefPopIPopI8 = Some 3"
| "pop_count PopRefPopIPopR4 = Some 3"
| "pop_count PopRefPopIPopR8 = Some 3"
| "pop_count PopRefPopIPopRef = Some 3"
| "pop_count VarPop = None"

fun push_count :: "StackBehaviourPush \<Rightarrow> nat option" where
  "push_count Push0 = Some 0"
| "push_count Push1 = Some 1"
| "push_count PushI = Some 1"
| "push_count PushI8 = Some 1"
| "push_count PushR4 = Some 1"
| "push_count PushR8 = Some 1"
| "push_count PushRef = Some 1"
| "push_count Push1Push1 = Some 2"
| "push_count VarPush = None"

definition is_unconditional_transfer :: "FlowControl \<Rightarrow> bool" where
  "is_unconditional_transfer f \<longleftrightarrow> f \<in> {FC_Branch, FC_Return, FC_Throw}"

record OpCodeInfo =
  oi_name :: string
  oi_encoding :: "u8 \<times> u8"
  oi_size :: nat
  oi_operand :: OperandKind
  oi_pop :: StackBehaviourPop
  oi_push :: StackBehaviourPush
  oi_flow :: FlowControl
  oi_kind :: OpCodeKind

section \<open>The opcodes\<close>

datatype OpPage0 =
    iNop | iBreak | iLdarg0 | iLdarg1 | iLdarg2 | iLdarg3 | iLdloc0 | iLdloc1 | iLdloc2 |
    iLdloc3 | iStloc0 | iStloc1 | iStloc2 | iStloc3 | iLdargS | iLdargaS | iStargS | iLdlocS |
    iLdlocaS | iStlocS | iLdnull | iLdcI4M1 | iLdcI40 | iLdcI41 | iLdcI42 | iLdcI43 | iLdcI44 |
    iLdcI45 | iLdcI46 | iLdcI47 | iLdcI48 | iLdcI4S | iLdcI4 | iLdcI8 | iLdcR4 | iLdcR8 | iDup |
    iPop | iJmp | iCall | iCalli | iRet | iBrS | iBrfalseS

datatype OpPage1 =
    iBrtrueS | iBeqS | iBgeS | iBgtS | iBleS | iBltS | iBneUnS | iBgeUnS | iBgtUnS | iBleUnS |
    iBltUnS | iBr | iBrfalse | iBrtrue | iBeq | iBge | iBgt | iBle | iBlt | iBneUn | iBgeUn |
    iBgtUn | iBleUn | iBltUn | iSwitch | iLdindI1 | iLdindU1 | iLdindI2 | iLdindU2 | iLdindI4 |
    iLdindU4 | iLdindI8 | iLdindI | iLdindR4 | iLdindR8 | iLdindRef | iStindRef | iStindI1 |
    iStindI2 | iStindI4 | iStindI8 | iStindR4 | iStindR8 | iAdd

datatype OpPage2 =
    iSub | iMul | iDiv | iDivUn | iRem | iRemUn | iAnd | iOr | iXor | iShl | iShr | iShrUn |
    iNeg | iNot | iConvI1 | iConvI2 | iConvI4 | iConvI8 | iConvR4 | iConvR8 | iConvU4 | iConvU8 |
    iCallvirt | iCpobj | iLdobj | iLdstr | iNewobj | iCastclass | iIsinst | iConvRUn | iUnbox |
    iThrow | iLdfld | iLdflda | iStfld | iLdsfld | iLdsflda | iStsfld | iStobj | iConvOvfI1Un |
    iConvOvfI2Un | iConvOvfI4Un | iConvOvfI8Un | iConvOvfU1Un

datatype OpPage3 =
    iConvOvfU2Un | iConvOvfU4Un | iConvOvfU8Un | iConvOvfIUn | iConvOvfUUn | iBox | iNewarr |
    iLdlen | iLdelema | iLdelemI1 | iLdelemU1 | iLdelemI2 | iLdelemU2 | iLdelemI4 | iLdelemU4 |
    iLdelemI8 | iLdelemI | iLdelemR4 | iLdelemR8 | iLdelemRef | iStelemI | iStelemI1 |
    iStelemI2 | iStelemI4 | iStelemI8 | iStelemR4 | iStelemR8 | iStelemRef | iLdelem | iStelem |
    iUnboxAny | iConvOvfI1 | iConvOvfU1 | iConvOvfI2 | iConvOvfU2 | iConvOvfI4 | iConvOvfU4 |
    iConvOvfI8 | iConvOvfU8 | iRefanyval | iCkfinite | iMkrefany | iLdtoken | iConvU2

datatype OpPage4 =
    iConvU1 | iConvI | iConvOvfI | iConvOvfU | iAddOvf | iAddOvfUn | iMulOvf | iMulOvfUn |
    iSubOvf | iSubOvfUn | iEndfinally | iLeave | iLeaveS | iStindI | iConvU | iArglist | iCeq |
    iCgt | iCgtUn | iClt | iCltUn | iLdftn | iLdvirtftn | iLdarg | iLdarga | iStarg | iLdloc |
    iLdloca | iStloc | iLocalloc | iEndfilter | iUnaligned | iVolatile | iTail | iInitobj |
    iConstrained | iCpblk | iInitblk | iNo | iRethrow | iSizeof | iRefanytype | iReadonly

datatype OpCode = Page0 OpPage0 | Page1 OpPage1 | Page2 OpPage2 | Page3 OpPage3 | Page4 OpPage4

abbreviation Op_Nop :: OpCode where "Op_Nop \<equiv> Page0 iNop"
abbreviation Op_Break :: OpCode where "Op_Break \<equiv> Page0 iBreak"
abbreviation Op_Ldarg0 :: OpCode where "Op_Ldarg0 \<equiv> Page0 iLdarg0"
abbreviation Op_Ldarg1 :: OpCode where "Op_Ldarg1 \<equiv> Page0 iLdarg1"
abbreviation Op_Ldarg2 :: OpCode where "Op_Ldarg2 \<equiv> Page0 iLdarg2"
abbreviation Op_Ldarg3 :: OpCode where "Op_Ldarg3 \<equiv> Page0 iLdarg3"
abbreviation Op_Ldloc0 :: OpCode where "Op_Ldloc0 \<equiv> Page0 iLdloc0"
abbreviation Op_Ldloc1 :: OpCode where "Op_Ldloc1 \<equiv> Page0 iLdloc1"
abbreviation Op_Ldloc2 :: OpCode where "Op_Ldloc2 \<equiv> Page0 iLdloc2"
abbreviation Op_Ldloc3 :: OpCode where "Op_Ldloc3 \<equiv> Page0 iLdloc3"
abbreviation Op_Stloc0 :: OpCode where "Op_Stloc0 \<equiv> Page0 iStloc0"
abbreviation Op_Stloc1 :: OpCode where "Op_Stloc1 \<equiv> Page0 iStloc1"
abbreviation Op_Stloc2 :: OpCode where "Op_Stloc2 \<equiv> Page0 iStloc2"
abbreviation Op_Stloc3 :: OpCode where "Op_Stloc3 \<equiv> Page0 iStloc3"
abbreviation Op_LdargS :: OpCode where "Op_LdargS \<equiv> Page0 iLdargS"
abbreviation Op_LdargaS :: OpCode where "Op_LdargaS \<equiv> Page0 iLdargaS"
abbreviation Op_StargS :: OpCode where "Op_StargS \<equiv> Page0 iStargS"
abbreviation Op_LdlocS :: OpCode where "Op_LdlocS \<equiv> Page0 iLdlocS"
abbreviation Op_LdlocaS :: OpCode where "Op_LdlocaS \<equiv> Page0 iLdlocaS"
abbreviation Op_StlocS :: OpCode where "Op_StlocS \<equiv> Page0 iStlocS"
abbreviation Op_Ldnull :: OpCode where "Op_Ldnull \<equiv> Page0 iLdnull"
abbreviation Op_LdcI4M1 :: OpCode where "Op_LdcI4M1 \<equiv> Page0 iLdcI4M1"
abbreviation Op_LdcI40 :: OpCode where "Op_LdcI40 \<equiv> Page0 iLdcI40"
abbreviation Op_LdcI41 :: OpCode where "Op_LdcI41 \<equiv> Page0 iLdcI41"
abbreviation Op_LdcI42 :: OpCode where "Op_LdcI42 \<equiv> Page0 iLdcI42"
abbreviation Op_LdcI43 :: OpCode where "Op_LdcI43 \<equiv> Page0 iLdcI43"
abbreviation Op_LdcI44 :: OpCode where "Op_LdcI44 \<equiv> Page0 iLdcI44"
abbreviation Op_LdcI45 :: OpCode where "Op_LdcI45 \<equiv> Page0 iLdcI45"
abbreviation Op_LdcI46 :: OpCode where "Op_LdcI46 \<equiv> Page0 iLdcI46"
abbreviation Op_LdcI47 :: OpCode where "Op_LdcI47 \<equiv> Page0 iLdcI47"
abbreviation Op_LdcI48 :: OpCode where "Op_LdcI48 \<equiv> Page0 iLdcI48"
abbreviation Op_LdcI4S :: OpCode where "Op_LdcI4S \<equiv> Page0 iLdcI4S"
abbreviation Op_LdcI4 :: OpCode where "Op_LdcI4 \<equiv> Page0 iLdcI4"
abbreviation Op_LdcI8 :: OpCode where "Op_LdcI8 \<equiv> Page0 iLdcI8"
abbreviation Op_LdcR4 :: OpCode where "Op_LdcR4 \<equiv> Page0 iLdcR4"
abbreviation Op_LdcR8 :: OpCode where "Op_LdcR8 \<equiv> Page0 iLdcR8"
abbreviation Op_Dup :: OpCode where "Op_Dup \<equiv> Page0 iDup"
abbreviation Op_Pop :: OpCode where "Op_Pop \<equiv> Page0 iPop"
abbreviation Op_Jmp :: OpCode where "Op_Jmp \<equiv> Page0 iJmp"
abbreviation Op_Call :: OpCode where "Op_Call \<equiv> Page0 iCall"
abbreviation Op_Calli :: OpCode where "Op_Calli \<equiv> Page0 iCalli"
abbreviation Op_Ret :: OpCode where "Op_Ret \<equiv> Page0 iRet"
abbreviation Op_BrS :: OpCode where "Op_BrS \<equiv> Page0 iBrS"
abbreviation Op_BrfalseS :: OpCode where "Op_BrfalseS \<equiv> Page0 iBrfalseS"

abbreviation Op_BrtrueS :: OpCode where "Op_BrtrueS \<equiv> Page1 iBrtrueS"
abbreviation Op_BeqS :: OpCode where "Op_BeqS \<equiv> Page1 iBeqS"
abbreviation Op_BgeS :: OpCode where "Op_BgeS \<equiv> Page1 iBgeS"
abbreviation Op_BgtS :: OpCode where "Op_BgtS \<equiv> Page1 iBgtS"
abbreviation Op_BleS :: OpCode where "Op_BleS \<equiv> Page1 iBleS"
abbreviation Op_BltS :: OpCode where "Op_BltS \<equiv> Page1 iBltS"
abbreviation Op_BneUnS :: OpCode where "Op_BneUnS \<equiv> Page1 iBneUnS"
abbreviation Op_BgeUnS :: OpCode where "Op_BgeUnS \<equiv> Page1 iBgeUnS"
abbreviation Op_BgtUnS :: OpCode where "Op_BgtUnS \<equiv> Page1 iBgtUnS"
abbreviation Op_BleUnS :: OpCode where "Op_BleUnS \<equiv> Page1 iBleUnS"
abbreviation Op_BltUnS :: OpCode where "Op_BltUnS \<equiv> Page1 iBltUnS"
abbreviation Op_Br :: OpCode where "Op_Br \<equiv> Page1 iBr"
abbreviation Op_Brfalse :: OpCode where "Op_Brfalse \<equiv> Page1 iBrfalse"
abbreviation Op_Brtrue :: OpCode where "Op_Brtrue \<equiv> Page1 iBrtrue"
abbreviation Op_Beq :: OpCode where "Op_Beq \<equiv> Page1 iBeq"
abbreviation Op_Bge :: OpCode where "Op_Bge \<equiv> Page1 iBge"
abbreviation Op_Bgt :: OpCode where "Op_Bgt \<equiv> Page1 iBgt"
abbreviation Op_Ble :: OpCode where "Op_Ble \<equiv> Page1 iBle"
abbreviation Op_Blt :: OpCode where "Op_Blt \<equiv> Page1 iBlt"
abbreviation Op_BneUn :: OpCode where "Op_BneUn \<equiv> Page1 iBneUn"
abbreviation Op_BgeUn :: OpCode where "Op_BgeUn \<equiv> Page1 iBgeUn"
abbreviation Op_BgtUn :: OpCode where "Op_BgtUn \<equiv> Page1 iBgtUn"
abbreviation Op_BleUn :: OpCode where "Op_BleUn \<equiv> Page1 iBleUn"
abbreviation Op_BltUn :: OpCode where "Op_BltUn \<equiv> Page1 iBltUn"
abbreviation Op_Switch :: OpCode where "Op_Switch \<equiv> Page1 iSwitch"
abbreviation Op_LdindI1 :: OpCode where "Op_LdindI1 \<equiv> Page1 iLdindI1"
abbreviation Op_LdindU1 :: OpCode where "Op_LdindU1 \<equiv> Page1 iLdindU1"
abbreviation Op_LdindI2 :: OpCode where "Op_LdindI2 \<equiv> Page1 iLdindI2"
abbreviation Op_LdindU2 :: OpCode where "Op_LdindU2 \<equiv> Page1 iLdindU2"
abbreviation Op_LdindI4 :: OpCode where "Op_LdindI4 \<equiv> Page1 iLdindI4"
abbreviation Op_LdindU4 :: OpCode where "Op_LdindU4 \<equiv> Page1 iLdindU4"
abbreviation Op_LdindI8 :: OpCode where "Op_LdindI8 \<equiv> Page1 iLdindI8"
abbreviation Op_LdindI :: OpCode where "Op_LdindI \<equiv> Page1 iLdindI"
abbreviation Op_LdindR4 :: OpCode where "Op_LdindR4 \<equiv> Page1 iLdindR4"
abbreviation Op_LdindR8 :: OpCode where "Op_LdindR8 \<equiv> Page1 iLdindR8"
abbreviation Op_LdindRef :: OpCode where "Op_LdindRef \<equiv> Page1 iLdindRef"
abbreviation Op_StindRef :: OpCode where "Op_StindRef \<equiv> Page1 iStindRef"
abbreviation Op_StindI1 :: OpCode where "Op_StindI1 \<equiv> Page1 iStindI1"
abbreviation Op_StindI2 :: OpCode where "Op_StindI2 \<equiv> Page1 iStindI2"
abbreviation Op_StindI4 :: OpCode where "Op_StindI4 \<equiv> Page1 iStindI4"
abbreviation Op_StindI8 :: OpCode where "Op_StindI8 \<equiv> Page1 iStindI8"
abbreviation Op_StindR4 :: OpCode where "Op_StindR4 \<equiv> Page1 iStindR4"
abbreviation Op_StindR8 :: OpCode where "Op_StindR8 \<equiv> Page1 iStindR8"
abbreviation Op_Add :: OpCode where "Op_Add \<equiv> Page1 iAdd"

abbreviation Op_Sub :: OpCode where "Op_Sub \<equiv> Page2 iSub"
abbreviation Op_Mul :: OpCode where "Op_Mul \<equiv> Page2 iMul"
abbreviation Op_Div :: OpCode where "Op_Div \<equiv> Page2 iDiv"
abbreviation Op_DivUn :: OpCode where "Op_DivUn \<equiv> Page2 iDivUn"
abbreviation Op_Rem :: OpCode where "Op_Rem \<equiv> Page2 iRem"
abbreviation Op_RemUn :: OpCode where "Op_RemUn \<equiv> Page2 iRemUn"
abbreviation Op_And :: OpCode where "Op_And \<equiv> Page2 iAnd"
abbreviation Op_Or :: OpCode where "Op_Or \<equiv> Page2 iOr"
abbreviation Op_Xor :: OpCode where "Op_Xor \<equiv> Page2 iXor"
abbreviation Op_Shl :: OpCode where "Op_Shl \<equiv> Page2 iShl"
abbreviation Op_Shr :: OpCode where "Op_Shr \<equiv> Page2 iShr"
abbreviation Op_ShrUn :: OpCode where "Op_ShrUn \<equiv> Page2 iShrUn"
abbreviation Op_Neg :: OpCode where "Op_Neg \<equiv> Page2 iNeg"
abbreviation Op_Not :: OpCode where "Op_Not \<equiv> Page2 iNot"
abbreviation Op_ConvI1 :: OpCode where "Op_ConvI1 \<equiv> Page2 iConvI1"
abbreviation Op_ConvI2 :: OpCode where "Op_ConvI2 \<equiv> Page2 iConvI2"
abbreviation Op_ConvI4 :: OpCode where "Op_ConvI4 \<equiv> Page2 iConvI4"
abbreviation Op_ConvI8 :: OpCode where "Op_ConvI8 \<equiv> Page2 iConvI8"
abbreviation Op_ConvR4 :: OpCode where "Op_ConvR4 \<equiv> Page2 iConvR4"
abbreviation Op_ConvR8 :: OpCode where "Op_ConvR8 \<equiv> Page2 iConvR8"
abbreviation Op_ConvU4 :: OpCode where "Op_ConvU4 \<equiv> Page2 iConvU4"
abbreviation Op_ConvU8 :: OpCode where "Op_ConvU8 \<equiv> Page2 iConvU8"
abbreviation Op_Callvirt :: OpCode where "Op_Callvirt \<equiv> Page2 iCallvirt"
abbreviation Op_Cpobj :: OpCode where "Op_Cpobj \<equiv> Page2 iCpobj"
abbreviation Op_Ldobj :: OpCode where "Op_Ldobj \<equiv> Page2 iLdobj"
abbreviation Op_Ldstr :: OpCode where "Op_Ldstr \<equiv> Page2 iLdstr"
abbreviation Op_Newobj :: OpCode where "Op_Newobj \<equiv> Page2 iNewobj"
abbreviation Op_Castclass :: OpCode where "Op_Castclass \<equiv> Page2 iCastclass"
abbreviation Op_Isinst :: OpCode where "Op_Isinst \<equiv> Page2 iIsinst"
abbreviation Op_ConvRUn :: OpCode where "Op_ConvRUn \<equiv> Page2 iConvRUn"
abbreviation Op_Unbox :: OpCode where "Op_Unbox \<equiv> Page2 iUnbox"
abbreviation Op_Throw :: OpCode where "Op_Throw \<equiv> Page2 iThrow"
abbreviation Op_Ldfld :: OpCode where "Op_Ldfld \<equiv> Page2 iLdfld"
abbreviation Op_Ldflda :: OpCode where "Op_Ldflda \<equiv> Page2 iLdflda"
abbreviation Op_Stfld :: OpCode where "Op_Stfld \<equiv> Page2 iStfld"
abbreviation Op_Ldsfld :: OpCode where "Op_Ldsfld \<equiv> Page2 iLdsfld"
abbreviation Op_Ldsflda :: OpCode where "Op_Ldsflda \<equiv> Page2 iLdsflda"
abbreviation Op_Stsfld :: OpCode where "Op_Stsfld \<equiv> Page2 iStsfld"
abbreviation Op_Stobj :: OpCode where "Op_Stobj \<equiv> Page2 iStobj"
abbreviation Op_ConvOvfI1Un :: OpCode where "Op_ConvOvfI1Un \<equiv> Page2 iConvOvfI1Un"
abbreviation Op_ConvOvfI2Un :: OpCode where "Op_ConvOvfI2Un \<equiv> Page2 iConvOvfI2Un"
abbreviation Op_ConvOvfI4Un :: OpCode where "Op_ConvOvfI4Un \<equiv> Page2 iConvOvfI4Un"
abbreviation Op_ConvOvfI8Un :: OpCode where "Op_ConvOvfI8Un \<equiv> Page2 iConvOvfI8Un"
abbreviation Op_ConvOvfU1Un :: OpCode where "Op_ConvOvfU1Un \<equiv> Page2 iConvOvfU1Un"

abbreviation Op_ConvOvfU2Un :: OpCode where "Op_ConvOvfU2Un \<equiv> Page3 iConvOvfU2Un"
abbreviation Op_ConvOvfU4Un :: OpCode where "Op_ConvOvfU4Un \<equiv> Page3 iConvOvfU4Un"
abbreviation Op_ConvOvfU8Un :: OpCode where "Op_ConvOvfU8Un \<equiv> Page3 iConvOvfU8Un"
abbreviation Op_ConvOvfIUn :: OpCode where "Op_ConvOvfIUn \<equiv> Page3 iConvOvfIUn"
abbreviation Op_ConvOvfUUn :: OpCode where "Op_ConvOvfUUn \<equiv> Page3 iConvOvfUUn"
abbreviation Op_Box :: OpCode where "Op_Box \<equiv> Page3 iBox"
abbreviation Op_Newarr :: OpCode where "Op_Newarr \<equiv> Page3 iNewarr"
abbreviation Op_Ldlen :: OpCode where "Op_Ldlen \<equiv> Page3 iLdlen"
abbreviation Op_Ldelema :: OpCode where "Op_Ldelema \<equiv> Page3 iLdelema"
abbreviation Op_LdelemI1 :: OpCode where "Op_LdelemI1 \<equiv> Page3 iLdelemI1"
abbreviation Op_LdelemU1 :: OpCode where "Op_LdelemU1 \<equiv> Page3 iLdelemU1"
abbreviation Op_LdelemI2 :: OpCode where "Op_LdelemI2 \<equiv> Page3 iLdelemI2"
abbreviation Op_LdelemU2 :: OpCode where "Op_LdelemU2 \<equiv> Page3 iLdelemU2"
abbreviation Op_LdelemI4 :: OpCode where "Op_LdelemI4 \<equiv> Page3 iLdelemI4"
abbreviation Op_LdelemU4 :: OpCode where "Op_LdelemU4 \<equiv> Page3 iLdelemU4"
abbreviation Op_LdelemI8 :: OpCode where "Op_LdelemI8 \<equiv> Page3 iLdelemI8"
abbreviation Op_LdelemI :: OpCode where "Op_LdelemI \<equiv> Page3 iLdelemI"
abbreviation Op_LdelemR4 :: OpCode where "Op_LdelemR4 \<equiv> Page3 iLdelemR4"
abbreviation Op_LdelemR8 :: OpCode where "Op_LdelemR8 \<equiv> Page3 iLdelemR8"
abbreviation Op_LdelemRef :: OpCode where "Op_LdelemRef \<equiv> Page3 iLdelemRef"
abbreviation Op_StelemI :: OpCode where "Op_StelemI \<equiv> Page3 iStelemI"
abbreviation Op_StelemI1 :: OpCode where "Op_StelemI1 \<equiv> Page3 iStelemI1"
abbreviation Op_StelemI2 :: OpCode where "Op_StelemI2 \<equiv> Page3 iStelemI2"
abbreviation Op_StelemI4 :: OpCode where "Op_StelemI4 \<equiv> Page3 iStelemI4"
abbreviation Op_StelemI8 :: OpCode where "Op_StelemI8 \<equiv> Page3 iStelemI8"
abbreviation Op_StelemR4 :: OpCode where "Op_StelemR4 \<equiv> Page3 iStelemR4"
abbreviation Op_StelemR8 :: OpCode where "Op_StelemR8 \<equiv> Page3 iStelemR8"
abbreviation Op_StelemRef :: OpCode where "Op_StelemRef \<equiv> Page3 iStelemRef"
abbreviation Op_Ldelem :: OpCode where "Op_Ldelem \<equiv> Page3 iLdelem"
abbreviation Op_Stelem :: OpCode where "Op_Stelem \<equiv> Page3 iStelem"
abbreviation Op_UnboxAny :: OpCode where "Op_UnboxAny \<equiv> Page3 iUnboxAny"
abbreviation Op_ConvOvfI1 :: OpCode where "Op_ConvOvfI1 \<equiv> Page3 iConvOvfI1"
abbreviation Op_ConvOvfU1 :: OpCode where "Op_ConvOvfU1 \<equiv> Page3 iConvOvfU1"
abbreviation Op_ConvOvfI2 :: OpCode where "Op_ConvOvfI2 \<equiv> Page3 iConvOvfI2"
abbreviation Op_ConvOvfU2 :: OpCode where "Op_ConvOvfU2 \<equiv> Page3 iConvOvfU2"
abbreviation Op_ConvOvfI4 :: OpCode where "Op_ConvOvfI4 \<equiv> Page3 iConvOvfI4"
abbreviation Op_ConvOvfU4 :: OpCode where "Op_ConvOvfU4 \<equiv> Page3 iConvOvfU4"
abbreviation Op_ConvOvfI8 :: OpCode where "Op_ConvOvfI8 \<equiv> Page3 iConvOvfI8"
abbreviation Op_ConvOvfU8 :: OpCode where "Op_ConvOvfU8 \<equiv> Page3 iConvOvfU8"
abbreviation Op_Refanyval :: OpCode where "Op_Refanyval \<equiv> Page3 iRefanyval"
abbreviation Op_Ckfinite :: OpCode where "Op_Ckfinite \<equiv> Page3 iCkfinite"
abbreviation Op_Mkrefany :: OpCode where "Op_Mkrefany \<equiv> Page3 iMkrefany"
abbreviation Op_Ldtoken :: OpCode where "Op_Ldtoken \<equiv> Page3 iLdtoken"
abbreviation Op_ConvU2 :: OpCode where "Op_ConvU2 \<equiv> Page3 iConvU2"

abbreviation Op_ConvU1 :: OpCode where "Op_ConvU1 \<equiv> Page4 iConvU1"
abbreviation Op_ConvI :: OpCode where "Op_ConvI \<equiv> Page4 iConvI"
abbreviation Op_ConvOvfI :: OpCode where "Op_ConvOvfI \<equiv> Page4 iConvOvfI"
abbreviation Op_ConvOvfU :: OpCode where "Op_ConvOvfU \<equiv> Page4 iConvOvfU"
abbreviation Op_AddOvf :: OpCode where "Op_AddOvf \<equiv> Page4 iAddOvf"
abbreviation Op_AddOvfUn :: OpCode where "Op_AddOvfUn \<equiv> Page4 iAddOvfUn"
abbreviation Op_MulOvf :: OpCode where "Op_MulOvf \<equiv> Page4 iMulOvf"
abbreviation Op_MulOvfUn :: OpCode where "Op_MulOvfUn \<equiv> Page4 iMulOvfUn"
abbreviation Op_SubOvf :: OpCode where "Op_SubOvf \<equiv> Page4 iSubOvf"
abbreviation Op_SubOvfUn :: OpCode where "Op_SubOvfUn \<equiv> Page4 iSubOvfUn"
abbreviation Op_Endfinally :: OpCode where "Op_Endfinally \<equiv> Page4 iEndfinally"
abbreviation Op_Leave :: OpCode where "Op_Leave \<equiv> Page4 iLeave"
abbreviation Op_LeaveS :: OpCode where "Op_LeaveS \<equiv> Page4 iLeaveS"
abbreviation Op_StindI :: OpCode where "Op_StindI \<equiv> Page4 iStindI"
abbreviation Op_ConvU :: OpCode where "Op_ConvU \<equiv> Page4 iConvU"
abbreviation Op_Arglist :: OpCode where "Op_Arglist \<equiv> Page4 iArglist"
abbreviation Op_Ceq :: OpCode where "Op_Ceq \<equiv> Page4 iCeq"
abbreviation Op_Cgt :: OpCode where "Op_Cgt \<equiv> Page4 iCgt"
abbreviation Op_CgtUn :: OpCode where "Op_CgtUn \<equiv> Page4 iCgtUn"
abbreviation Op_Clt :: OpCode where "Op_Clt \<equiv> Page4 iClt"
abbreviation Op_CltUn :: OpCode where "Op_CltUn \<equiv> Page4 iCltUn"
abbreviation Op_Ldftn :: OpCode where "Op_Ldftn \<equiv> Page4 iLdftn"
abbreviation Op_Ldvirtftn :: OpCode where "Op_Ldvirtftn \<equiv> Page4 iLdvirtftn"
abbreviation Op_Ldarg :: OpCode where "Op_Ldarg \<equiv> Page4 iLdarg"
abbreviation Op_Ldarga :: OpCode where "Op_Ldarga \<equiv> Page4 iLdarga"
abbreviation Op_Starg :: OpCode where "Op_Starg \<equiv> Page4 iStarg"
abbreviation Op_Ldloc :: OpCode where "Op_Ldloc \<equiv> Page4 iLdloc"
abbreviation Op_Ldloca :: OpCode where "Op_Ldloca \<equiv> Page4 iLdloca"
abbreviation Op_Stloc :: OpCode where "Op_Stloc \<equiv> Page4 iStloc"
abbreviation Op_Localloc :: OpCode where "Op_Localloc \<equiv> Page4 iLocalloc"
abbreviation Op_Endfilter :: OpCode where "Op_Endfilter \<equiv> Page4 iEndfilter"
abbreviation Op_Unaligned :: OpCode where "Op_Unaligned \<equiv> Page4 iUnaligned"
abbreviation Op_Volatile :: OpCode where "Op_Volatile \<equiv> Page4 iVolatile"
abbreviation Op_Tail :: OpCode where "Op_Tail \<equiv> Page4 iTail"
abbreviation Op_Initobj :: OpCode where "Op_Initobj \<equiv> Page4 iInitobj"
abbreviation Op_Constrained :: OpCode where "Op_Constrained \<equiv> Page4 iConstrained"
abbreviation Op_Cpblk :: OpCode where "Op_Cpblk \<equiv> Page4 iCpblk"
abbreviation Op_Initblk :: OpCode where "Op_Initblk \<equiv> Page4 iInitblk"
abbreviation Op_No :: OpCode where "Op_No \<equiv> Page4 iNo"
abbreviation Op_Rethrow :: OpCode where "Op_Rethrow \<equiv> Page4 iRethrow"
abbreviation Op_Sizeof :: OpCode where "Op_Sizeof \<equiv> Page4 iSizeof"
abbreviation Op_Refanytype :: OpCode where "Op_Refanytype \<equiv> Page4 iRefanytype"
abbreviation Op_Readonly :: OpCode where "Op_Readonly \<equiv> Page4 iReadonly"

text \<open>The discriminants, \<open>self as usize\<close>.\<close>

primrec page0_index :: "OpPage0 \<Rightarrow> nat" where
  "page0_index iNop = 0"
| "page0_index iBreak = 1"
| "page0_index iLdarg0 = 2"
| "page0_index iLdarg1 = 3"
| "page0_index iLdarg2 = 4"
| "page0_index iLdarg3 = 5"
| "page0_index iLdloc0 = 6"
| "page0_index iLdloc1 = 7"
| "page0_index iLdloc2 = 8"
| "page0_index iLdloc3 = 9"
| "page0_index iStloc0 = 10"
| "page0_index iStloc1 = 11"
| "page0_index iStloc2 = 12"
| "page0_index iStloc3 = 13"
| "page0_index iLdargS = 14"
| "page0_index iLdargaS = 15"
| "page0_index iStargS = 16"
| "page0_index iLdlocS = 17"
| "page0_index iLdlocaS = 18"
| "page0_index iStlocS = 19"
| "page0_index iLdnull = 20"
| "page0_index iLdcI4M1 = 21"
| "page0_index iLdcI40 = 22"
| "page0_index iLdcI41 = 23"
| "page0_index iLdcI42 = 24"
| "page0_index iLdcI43 = 25"
| "page0_index iLdcI44 = 26"
| "page0_index iLdcI45 = 27"
| "page0_index iLdcI46 = 28"
| "page0_index iLdcI47 = 29"
| "page0_index iLdcI48 = 30"
| "page0_index iLdcI4S = 31"
| "page0_index iLdcI4 = 32"
| "page0_index iLdcI8 = 33"
| "page0_index iLdcR4 = 34"
| "page0_index iLdcR8 = 35"
| "page0_index iDup = 36"
| "page0_index iPop = 37"
| "page0_index iJmp = 38"
| "page0_index iCall = 39"
| "page0_index iCalli = 40"
| "page0_index iRet = 41"
| "page0_index iBrS = 42"
| "page0_index iBrfalseS = 43"

primrec page1_index :: "OpPage1 \<Rightarrow> nat" where
  "page1_index iBrtrueS = 44"
| "page1_index iBeqS = 45"
| "page1_index iBgeS = 46"
| "page1_index iBgtS = 47"
| "page1_index iBleS = 48"
| "page1_index iBltS = 49"
| "page1_index iBneUnS = 50"
| "page1_index iBgeUnS = 51"
| "page1_index iBgtUnS = 52"
| "page1_index iBleUnS = 53"
| "page1_index iBltUnS = 54"
| "page1_index iBr = 55"
| "page1_index iBrfalse = 56"
| "page1_index iBrtrue = 57"
| "page1_index iBeq = 58"
| "page1_index iBge = 59"
| "page1_index iBgt = 60"
| "page1_index iBle = 61"
| "page1_index iBlt = 62"
| "page1_index iBneUn = 63"
| "page1_index iBgeUn = 64"
| "page1_index iBgtUn = 65"
| "page1_index iBleUn = 66"
| "page1_index iBltUn = 67"
| "page1_index iSwitch = 68"
| "page1_index iLdindI1 = 69"
| "page1_index iLdindU1 = 70"
| "page1_index iLdindI2 = 71"
| "page1_index iLdindU2 = 72"
| "page1_index iLdindI4 = 73"
| "page1_index iLdindU4 = 74"
| "page1_index iLdindI8 = 75"
| "page1_index iLdindI = 76"
| "page1_index iLdindR4 = 77"
| "page1_index iLdindR8 = 78"
| "page1_index iLdindRef = 79"
| "page1_index iStindRef = 80"
| "page1_index iStindI1 = 81"
| "page1_index iStindI2 = 82"
| "page1_index iStindI4 = 83"
| "page1_index iStindI8 = 84"
| "page1_index iStindR4 = 85"
| "page1_index iStindR8 = 86"
| "page1_index iAdd = 87"

primrec page2_index :: "OpPage2 \<Rightarrow> nat" where
  "page2_index iSub = 88"
| "page2_index iMul = 89"
| "page2_index iDiv = 90"
| "page2_index iDivUn = 91"
| "page2_index iRem = 92"
| "page2_index iRemUn = 93"
| "page2_index iAnd = 94"
| "page2_index iOr = 95"
| "page2_index iXor = 96"
| "page2_index iShl = 97"
| "page2_index iShr = 98"
| "page2_index iShrUn = 99"
| "page2_index iNeg = 100"
| "page2_index iNot = 101"
| "page2_index iConvI1 = 102"
| "page2_index iConvI2 = 103"
| "page2_index iConvI4 = 104"
| "page2_index iConvI8 = 105"
| "page2_index iConvR4 = 106"
| "page2_index iConvR8 = 107"
| "page2_index iConvU4 = 108"
| "page2_index iConvU8 = 109"
| "page2_index iCallvirt = 110"
| "page2_index iCpobj = 111"
| "page2_index iLdobj = 112"
| "page2_index iLdstr = 113"
| "page2_index iNewobj = 114"
| "page2_index iCastclass = 115"
| "page2_index iIsinst = 116"
| "page2_index iConvRUn = 117"
| "page2_index iUnbox = 118"
| "page2_index iThrow = 119"
| "page2_index iLdfld = 120"
| "page2_index iLdflda = 121"
| "page2_index iStfld = 122"
| "page2_index iLdsfld = 123"
| "page2_index iLdsflda = 124"
| "page2_index iStsfld = 125"
| "page2_index iStobj = 126"
| "page2_index iConvOvfI1Un = 127"
| "page2_index iConvOvfI2Un = 128"
| "page2_index iConvOvfI4Un = 129"
| "page2_index iConvOvfI8Un = 130"
| "page2_index iConvOvfU1Un = 131"

primrec page3_index :: "OpPage3 \<Rightarrow> nat" where
  "page3_index iConvOvfU2Un = 132"
| "page3_index iConvOvfU4Un = 133"
| "page3_index iConvOvfU8Un = 134"
| "page3_index iConvOvfIUn = 135"
| "page3_index iConvOvfUUn = 136"
| "page3_index iBox = 137"
| "page3_index iNewarr = 138"
| "page3_index iLdlen = 139"
| "page3_index iLdelema = 140"
| "page3_index iLdelemI1 = 141"
| "page3_index iLdelemU1 = 142"
| "page3_index iLdelemI2 = 143"
| "page3_index iLdelemU2 = 144"
| "page3_index iLdelemI4 = 145"
| "page3_index iLdelemU4 = 146"
| "page3_index iLdelemI8 = 147"
| "page3_index iLdelemI = 148"
| "page3_index iLdelemR4 = 149"
| "page3_index iLdelemR8 = 150"
| "page3_index iLdelemRef = 151"
| "page3_index iStelemI = 152"
| "page3_index iStelemI1 = 153"
| "page3_index iStelemI2 = 154"
| "page3_index iStelemI4 = 155"
| "page3_index iStelemI8 = 156"
| "page3_index iStelemR4 = 157"
| "page3_index iStelemR8 = 158"
| "page3_index iStelemRef = 159"
| "page3_index iLdelem = 160"
| "page3_index iStelem = 161"
| "page3_index iUnboxAny = 162"
| "page3_index iConvOvfI1 = 163"
| "page3_index iConvOvfU1 = 164"
| "page3_index iConvOvfI2 = 165"
| "page3_index iConvOvfU2 = 166"
| "page3_index iConvOvfI4 = 167"
| "page3_index iConvOvfU4 = 168"
| "page3_index iConvOvfI8 = 169"
| "page3_index iConvOvfU8 = 170"
| "page3_index iRefanyval = 171"
| "page3_index iCkfinite = 172"
| "page3_index iMkrefany = 173"
| "page3_index iLdtoken = 174"
| "page3_index iConvU2 = 175"

primrec page4_index :: "OpPage4 \<Rightarrow> nat" where
  "page4_index iConvU1 = 176"
| "page4_index iConvI = 177"
| "page4_index iConvOvfI = 178"
| "page4_index iConvOvfU = 179"
| "page4_index iAddOvf = 180"
| "page4_index iAddOvfUn = 181"
| "page4_index iMulOvf = 182"
| "page4_index iMulOvfUn = 183"
| "page4_index iSubOvf = 184"
| "page4_index iSubOvfUn = 185"
| "page4_index iEndfinally = 186"
| "page4_index iLeave = 187"
| "page4_index iLeaveS = 188"
| "page4_index iStindI = 189"
| "page4_index iConvU = 190"
| "page4_index iArglist = 191"
| "page4_index iCeq = 192"
| "page4_index iCgt = 193"
| "page4_index iCgtUn = 194"
| "page4_index iClt = 195"
| "page4_index iCltUn = 196"
| "page4_index iLdftn = 197"
| "page4_index iLdvirtftn = 198"
| "page4_index iLdarg = 199"
| "page4_index iLdarga = 200"
| "page4_index iStarg = 201"
| "page4_index iLdloc = 202"
| "page4_index iLdloca = 203"
| "page4_index iStloc = 204"
| "page4_index iLocalloc = 205"
| "page4_index iEndfilter = 206"
| "page4_index iUnaligned = 207"
| "page4_index iVolatile = 208"
| "page4_index iTail = 209"
| "page4_index iInitobj = 210"
| "page4_index iConstrained = 211"
| "page4_index iCpblk = 212"
| "page4_index iInitblk = 213"
| "page4_index iNo = 214"
| "page4_index iRethrow = 215"
| "page4_index iSizeof = 216"
| "page4_index iRefanytype = 217"
| "page4_index iReadonly = 218"

fun opcode_index :: "OpCode \<Rightarrow> nat" where
  "opcode_index (Page0 i) = page0_index i"
| "opcode_index (Page1 i) = page1_index i"
| "opcode_index (Page2 i) = page2_index i"
| "opcode_index (Page3 i) = page3_index i"
| "opcode_index (Page4 i) = page4_index i"

definition OPCODE_COUNT :: nat where
  "OPCODE_COUNT = 219"

definition ALL_OPCODES_0 :: "OpCode list" where
  "ALL_OPCODES_0 = [
     Op_Nop, Op_Break, Op_Ldarg0, Op_Ldarg1, Op_Ldarg2, Op_Ldarg3, Op_Ldloc0, Op_Ldloc1,
     Op_Ldloc2, Op_Ldloc3, Op_Stloc0, Op_Stloc1, Op_Stloc2, Op_Stloc3, Op_LdargS, Op_LdargaS,
     Op_StargS, Op_LdlocS, Op_LdlocaS, Op_StlocS, Op_Ldnull, Op_LdcI4M1, Op_LdcI40, Op_LdcI41,
     Op_LdcI42, Op_LdcI43, Op_LdcI44, Op_LdcI45, Op_LdcI46, Op_LdcI47, Op_LdcI48, Op_LdcI4S,
     Op_LdcI4, Op_LdcI8, Op_LdcR4, Op_LdcR8, Op_Dup, Op_Pop, Op_Jmp, Op_Call, Op_Calli, Op_Ret,
     Op_BrS, Op_BrfalseS]"

definition ALL_OPCODES_1 :: "OpCode list" where
  "ALL_OPCODES_1 = [
     Op_BrtrueS, Op_BeqS, Op_BgeS, Op_BgtS, Op_BleS, Op_BltS, Op_BneUnS, Op_BgeUnS, Op_BgtUnS,
     Op_BleUnS, Op_BltUnS, Op_Br, Op_Brfalse, Op_Brtrue, Op_Beq, Op_Bge, Op_Bgt, Op_Ble, Op_Blt,
     Op_BneUn, Op_BgeUn, Op_BgtUn, Op_BleUn, Op_BltUn, Op_Switch, Op_LdindI1, Op_LdindU1,
     Op_LdindI2, Op_LdindU2, Op_LdindI4, Op_LdindU4, Op_LdindI8, Op_LdindI, Op_LdindR4,
     Op_LdindR8, Op_LdindRef, Op_StindRef, Op_StindI1, Op_StindI2, Op_StindI4, Op_StindI8,
     Op_StindR4, Op_StindR8, Op_Add]"

definition ALL_OPCODES_2 :: "OpCode list" where
  "ALL_OPCODES_2 = [
     Op_Sub, Op_Mul, Op_Div, Op_DivUn, Op_Rem, Op_RemUn, Op_And, Op_Or, Op_Xor, Op_Shl, Op_Shr,
     Op_ShrUn, Op_Neg, Op_Not, Op_ConvI1, Op_ConvI2, Op_ConvI4, Op_ConvI8, Op_ConvR4, Op_ConvR8,
     Op_ConvU4, Op_ConvU8, Op_Callvirt, Op_Cpobj, Op_Ldobj, Op_Ldstr, Op_Newobj, Op_Castclass,
     Op_Isinst, Op_ConvRUn, Op_Unbox, Op_Throw, Op_Ldfld, Op_Ldflda, Op_Stfld, Op_Ldsfld,
     Op_Ldsflda, Op_Stsfld, Op_Stobj, Op_ConvOvfI1Un, Op_ConvOvfI2Un, Op_ConvOvfI4Un,
     Op_ConvOvfI8Un, Op_ConvOvfU1Un]"

definition ALL_OPCODES_3 :: "OpCode list" where
  "ALL_OPCODES_3 = [
     Op_ConvOvfU2Un, Op_ConvOvfU4Un, Op_ConvOvfU8Un, Op_ConvOvfIUn, Op_ConvOvfUUn, Op_Box,
     Op_Newarr, Op_Ldlen, Op_Ldelema, Op_LdelemI1, Op_LdelemU1, Op_LdelemI2, Op_LdelemU2,
     Op_LdelemI4, Op_LdelemU4, Op_LdelemI8, Op_LdelemI, Op_LdelemR4, Op_LdelemR8, Op_LdelemRef,
     Op_StelemI, Op_StelemI1, Op_StelemI2, Op_StelemI4, Op_StelemI8, Op_StelemR4, Op_StelemR8,
     Op_StelemRef, Op_Ldelem, Op_Stelem, Op_UnboxAny, Op_ConvOvfI1, Op_ConvOvfU1, Op_ConvOvfI2,
     Op_ConvOvfU2, Op_ConvOvfI4, Op_ConvOvfU4, Op_ConvOvfI8, Op_ConvOvfU8, Op_Refanyval,
     Op_Ckfinite, Op_Mkrefany, Op_Ldtoken, Op_ConvU2]"

definition ALL_OPCODES_4 :: "OpCode list" where
  "ALL_OPCODES_4 = [
     Op_ConvU1, Op_ConvI, Op_ConvOvfI, Op_ConvOvfU, Op_AddOvf, Op_AddOvfUn, Op_MulOvf,
     Op_MulOvfUn, Op_SubOvf, Op_SubOvfUn, Op_Endfinally, Op_Leave, Op_LeaveS, Op_StindI,
     Op_ConvU, Op_Arglist, Op_Ceq, Op_Cgt, Op_CgtUn, Op_Clt, Op_CltUn, Op_Ldftn, Op_Ldvirtftn,
     Op_Ldarg, Op_Ldarga, Op_Starg, Op_Ldloc, Op_Ldloca, Op_Stloc, Op_Localloc, Op_Endfilter,
     Op_Unaligned, Op_Volatile, Op_Tail, Op_Initobj, Op_Constrained, Op_Cpblk, Op_Initblk, Op_No,
     Op_Rethrow, Op_Sizeof, Op_Refanytype, Op_Readonly]"

definition ALL_OPCODES :: "OpCode list" where
  "ALL_OPCODES = ALL_OPCODES_0 @ ALL_OPCODES_1 @ ALL_OPCODES_2 @ ALL_OPCODES_3 @ ALL_OPCODES_4"

section \<open>The static facts\<close>

definition OPCODE_INFO_0 :: "OpCodeInfo list" where
  "OPCODE_INFO_0 = [
    \<lparr>oi_name = ''nop'', oi_encoding = (0x00, 0x00), oi_size = 1, oi_operand = InlineNone,
     oi_pop = Pop0, oi_push = Push0, oi_flow = FC_Next, oi_kind = OK_Primitive\<rparr>,
    \<lparr>oi_name = ''break'', oi_encoding = (0x01, 0x00), oi_size = 1, oi_operand = InlineNone,
     oi_pop = Pop0, oi_push = Push0, oi_flow = FC_Break, oi_kind = OK_Primitive\<rparr>,
    \<lparr>oi_name = ''ldarg.0'', oi_encoding = (0x02, 0x00), oi_size = 1, oi_operand = InlineNone,
     oi_pop = Pop0, oi_push = Push1, oi_flow = FC_Next, oi_kind = OK_Macro\<rparr>,
    \<lparr>oi_name = ''ldarg.1'', oi_encoding = (0x03, 0x00), oi_size = 1, oi_operand = InlineNone,
     oi_pop = Pop0, oi_push = Push1, oi_flow = FC_Next, oi_kind = OK_Macro\<rparr>,
    \<lparr>oi_name = ''ldarg.2'', oi_encoding = (0x04, 0x00), oi_size = 1, oi_operand = InlineNone,
     oi_pop = Pop0, oi_push = Push1, oi_flow = FC_Next, oi_kind = OK_Macro\<rparr>,
    \<lparr>oi_name = ''ldarg.3'', oi_encoding = (0x05, 0x00), oi_size = 1, oi_operand = InlineNone,
     oi_pop = Pop0, oi_push = Push1, oi_flow = FC_Next, oi_kind = OK_Macro\<rparr>,
    \<lparr>oi_name = ''ldloc.0'', oi_encoding = (0x06, 0x00), oi_size = 1, oi_operand = InlineNone,
     oi_pop = Pop0, oi_push = Push1, oi_flow = FC_Next, oi_kind = OK_Macro\<rparr>,
    \<lparr>oi_name = ''ldloc.1'', oi_encoding = (0x07, 0x00), oi_size = 1, oi_operand = InlineNone,
     oi_pop = Pop0, oi_push = Push1, oi_flow = FC_Next, oi_kind = OK_Macro\<rparr>,
    \<lparr>oi_name = ''ldloc.2'', oi_encoding = (0x08, 0x00), oi_size = 1, oi_operand = InlineNone,
     oi_pop = Pop0, oi_push = Push1, oi_flow = FC_Next, oi_kind = OK_Macro\<rparr>,
    \<lparr>oi_name = ''ldloc.3'', oi_encoding = (0x09, 0x00), oi_size = 1, oi_operand = InlineNone,
     oi_pop = Pop0, oi_push = Push1, oi_flow = FC_Next, oi_kind = OK_Macro\<rparr>,
    \<lparr>oi_name = ''stloc.0'', oi_encoding = (0x0A, 0x00), oi_size = 1, oi_operand = InlineNone,
     oi_pop = Pop1, oi_push = Push0, oi_flow = FC_Next, oi_kind = OK_Macro\<rparr>,
    \<lparr>oi_name = ''stloc.1'', oi_encoding = (0x0B, 0x00), oi_size = 1, oi_operand = InlineNone,
     oi_pop = Pop1, oi_push = Push0, oi_flow = FC_Next, oi_kind = OK_Macro\<rparr>,
    \<lparr>oi_name = ''stloc.2'', oi_encoding = (0x0C, 0x00), oi_size = 1, oi_operand = InlineNone,
     oi_pop = Pop1, oi_push = Push0, oi_flow = FC_Next, oi_kind = OK_Macro\<rparr>,
    \<lparr>oi_name = ''stloc.3'', oi_encoding = (0x0D, 0x00), oi_size = 1, oi_operand = InlineNone,
     oi_pop = Pop1, oi_push = Push0, oi_flow = FC_Next, oi_kind = OK_Macro\<rparr>,
    \<lparr>oi_name = ''ldarg.s'', oi_encoding = (0x0E, 0x00), oi_size = 1, oi_operand = ShortInlineVar,
     oi_pop = Pop0, oi_push = Push1, oi_flow = FC_Next, oi_kind = OK_Macro\<rparr>]"

definition OPCODE_INFO_1 :: "OpCodeInfo list" where
  "OPCODE_INFO_1 = [
    \<lparr>oi_name = ''ldarga.s'', oi_encoding = (0x0F, 0x00), oi_size = 1, oi_operand = ShortInlineVar,
     oi_pop = Pop0, oi_push = PushI, oi_flow = FC_Next, oi_kind = OK_Macro\<rparr>,
    \<lparr>oi_name = ''starg.s'', oi_encoding = (0x10, 0x00), oi_size = 1, oi_operand = ShortInlineVar,
     oi_pop = Pop1, oi_push = Push0, oi_flow = FC_Next, oi_kind = OK_Macro\<rparr>,
    \<lparr>oi_name = ''ldloc.s'', oi_encoding = (0x11, 0x00), oi_size = 1, oi_operand = ShortInlineVar,
     oi_pop = Pop0, oi_push = Push1, oi_flow = FC_Next, oi_kind = OK_Macro\<rparr>,
    \<lparr>oi_name = ''ldloca.s'', oi_encoding = (0x12, 0x00), oi_size = 1, oi_operand = ShortInlineVar,
     oi_pop = Pop0, oi_push = PushI, oi_flow = FC_Next, oi_kind = OK_Macro\<rparr>,
    \<lparr>oi_name = ''stloc.s'', oi_encoding = (0x13, 0x00), oi_size = 1, oi_operand = ShortInlineVar,
     oi_pop = Pop1, oi_push = Push0, oi_flow = FC_Next, oi_kind = OK_Macro\<rparr>,
    \<lparr>oi_name = ''ldnull'', oi_encoding = (0x14, 0x00), oi_size = 1, oi_operand = InlineNone,
     oi_pop = Pop0, oi_push = PushRef, oi_flow = FC_Next, oi_kind = OK_Primitive\<rparr>,
    \<lparr>oi_name = ''ldc.i4.m1'', oi_encoding = (0x15, 0x00), oi_size = 1, oi_operand = InlineNone,
     oi_pop = Pop0, oi_push = PushI, oi_flow = FC_Next, oi_kind = OK_Macro\<rparr>,
    \<lparr>oi_name = ''ldc.i4.0'', oi_encoding = (0x16, 0x00), oi_size = 1, oi_operand = InlineNone,
     oi_pop = Pop0, oi_push = PushI, oi_flow = FC_Next, oi_kind = OK_Macro\<rparr>,
    \<lparr>oi_name = ''ldc.i4.1'', oi_encoding = (0x17, 0x00), oi_size = 1, oi_operand = InlineNone,
     oi_pop = Pop0, oi_push = PushI, oi_flow = FC_Next, oi_kind = OK_Macro\<rparr>,
    \<lparr>oi_name = ''ldc.i4.2'', oi_encoding = (0x18, 0x00), oi_size = 1, oi_operand = InlineNone,
     oi_pop = Pop0, oi_push = PushI, oi_flow = FC_Next, oi_kind = OK_Macro\<rparr>,
    \<lparr>oi_name = ''ldc.i4.3'', oi_encoding = (0x19, 0x00), oi_size = 1, oi_operand = InlineNone,
     oi_pop = Pop0, oi_push = PushI, oi_flow = FC_Next, oi_kind = OK_Macro\<rparr>,
    \<lparr>oi_name = ''ldc.i4.4'', oi_encoding = (0x1A, 0x00), oi_size = 1, oi_operand = InlineNone,
     oi_pop = Pop0, oi_push = PushI, oi_flow = FC_Next, oi_kind = OK_Macro\<rparr>,
    \<lparr>oi_name = ''ldc.i4.5'', oi_encoding = (0x1B, 0x00), oi_size = 1, oi_operand = InlineNone,
     oi_pop = Pop0, oi_push = PushI, oi_flow = FC_Next, oi_kind = OK_Macro\<rparr>,
    \<lparr>oi_name = ''ldc.i4.6'', oi_encoding = (0x1C, 0x00), oi_size = 1, oi_operand = InlineNone,
     oi_pop = Pop0, oi_push = PushI, oi_flow = FC_Next, oi_kind = OK_Macro\<rparr>,
    \<lparr>oi_name = ''ldc.i4.7'', oi_encoding = (0x1D, 0x00), oi_size = 1, oi_operand = InlineNone,
     oi_pop = Pop0, oi_push = PushI, oi_flow = FC_Next, oi_kind = OK_Macro\<rparr>]"

definition OPCODE_INFO_2 :: "OpCodeInfo list" where
  "OPCODE_INFO_2 = [
    \<lparr>oi_name = ''ldc.i4.8'', oi_encoding = (0x1E, 0x00), oi_size = 1, oi_operand = InlineNone,
     oi_pop = Pop0, oi_push = PushI, oi_flow = FC_Next, oi_kind = OK_Macro\<rparr>,
    \<lparr>oi_name = ''ldc.i4.s'', oi_encoding = (0x1F, 0x00), oi_size = 1, oi_operand = ShortInlineI,
     oi_pop = Pop0, oi_push = PushI, oi_flow = FC_Next, oi_kind = OK_Macro\<rparr>,
    \<lparr>oi_name = ''ldc.i4'', oi_encoding = (0x20, 0x00), oi_size = 1, oi_operand = InlineI,
     oi_pop = Pop0, oi_push = PushI, oi_flow = FC_Next, oi_kind = OK_Primitive\<rparr>,
    \<lparr>oi_name = ''ldc.i8'', oi_encoding = (0x21, 0x00), oi_size = 1, oi_operand = InlineI8,
     oi_pop = Pop0, oi_push = PushI8, oi_flow = FC_Next, oi_kind = OK_Primitive\<rparr>,
    \<lparr>oi_name = ''ldc.r4'', oi_encoding = (0x22, 0x00), oi_size = 1, oi_operand = ShortInlineR,
     oi_pop = Pop0, oi_push = PushR4, oi_flow = FC_Next, oi_kind = OK_Primitive\<rparr>,
    \<lparr>oi_name = ''ldc.r8'', oi_encoding = (0x23, 0x00), oi_size = 1, oi_operand = InlineR,
     oi_pop = Pop0, oi_push = PushR8, oi_flow = FC_Next, oi_kind = OK_Primitive\<rparr>,
    \<lparr>oi_name = ''dup'', oi_encoding = (0x25, 0x00), oi_size = 1, oi_operand = InlineNone,
     oi_pop = Pop1, oi_push = Push1Push1, oi_flow = FC_Next, oi_kind = OK_Primitive\<rparr>,
    \<lparr>oi_name = ''pop'', oi_encoding = (0x26, 0x00), oi_size = 1, oi_operand = InlineNone,
     oi_pop = Pop1, oi_push = Push0, oi_flow = FC_Next, oi_kind = OK_Primitive\<rparr>,
    \<lparr>oi_name = ''jmp'', oi_encoding = (0x27, 0x00), oi_size = 1, oi_operand = InlineMethod,
     oi_pop = Pop0, oi_push = Push0, oi_flow = FC_Call, oi_kind = OK_Primitive\<rparr>,
    \<lparr>oi_name = ''call'', oi_encoding = (0x28, 0x00), oi_size = 1, oi_operand = InlineMethod,
     oi_pop = VarPop, oi_push = VarPush, oi_flow = FC_Call, oi_kind = OK_Primitive\<rparr>,
    \<lparr>oi_name = ''calli'', oi_encoding = (0x29, 0x00), oi_size = 1, oi_operand = InlineSig,
     oi_pop = VarPop, oi_push = VarPush, oi_flow = FC_Call, oi_kind = OK_Primitive\<rparr>,
    \<lparr>oi_name = ''ret'', oi_encoding = (0x2A, 0x00), oi_size = 1, oi_operand = InlineNone,
     oi_pop = VarPop, oi_push = Push0, oi_flow = FC_Return, oi_kind = OK_Primitive\<rparr>,
    \<lparr>oi_name = ''br.s'', oi_encoding = (0x2B, 0x00), oi_size = 1, oi_operand = ShortInlineBrTarget,
     oi_pop = Pop0, oi_push = Push0, oi_flow = FC_Branch, oi_kind = OK_Macro\<rparr>,
    \<lparr>oi_name = ''brfalse.s'', oi_encoding = (0x2C, 0x00), oi_size = 1, oi_operand = ShortInlineBrTarget,
     oi_pop = PopI, oi_push = Push0, oi_flow = FC_CondBranch, oi_kind = OK_Macro\<rparr>,
    \<lparr>oi_name = ''brtrue.s'', oi_encoding = (0x2D, 0x00), oi_size = 1, oi_operand = ShortInlineBrTarget,
     oi_pop = PopI, oi_push = Push0, oi_flow = FC_CondBranch, oi_kind = OK_Macro\<rparr>]"

definition OPCODE_INFO_3 :: "OpCodeInfo list" where
  "OPCODE_INFO_3 = [
    \<lparr>oi_name = ''beq.s'', oi_encoding = (0x2E, 0x00), oi_size = 1, oi_operand = ShortInlineBrTarget,
     oi_pop = Pop1Pop1, oi_push = Push0, oi_flow = FC_CondBranch, oi_kind = OK_Macro\<rparr>,
    \<lparr>oi_name = ''bge.s'', oi_encoding = (0x2F, 0x00), oi_size = 1, oi_operand = ShortInlineBrTarget,
     oi_pop = Pop1Pop1, oi_push = Push0, oi_flow = FC_CondBranch, oi_kind = OK_Macro\<rparr>,
    \<lparr>oi_name = ''bgt.s'', oi_encoding = (0x30, 0x00), oi_size = 1, oi_operand = ShortInlineBrTarget,
     oi_pop = Pop1Pop1, oi_push = Push0, oi_flow = FC_CondBranch, oi_kind = OK_Macro\<rparr>,
    \<lparr>oi_name = ''ble.s'', oi_encoding = (0x31, 0x00), oi_size = 1, oi_operand = ShortInlineBrTarget,
     oi_pop = Pop1Pop1, oi_push = Push0, oi_flow = FC_CondBranch, oi_kind = OK_Macro\<rparr>,
    \<lparr>oi_name = ''blt.s'', oi_encoding = (0x32, 0x00), oi_size = 1, oi_operand = ShortInlineBrTarget,
     oi_pop = Pop1Pop1, oi_push = Push0, oi_flow = FC_CondBranch, oi_kind = OK_Macro\<rparr>,
    \<lparr>oi_name = ''bne.un.s'', oi_encoding = (0x33, 0x00), oi_size = 1, oi_operand = ShortInlineBrTarget,
     oi_pop = Pop1Pop1, oi_push = Push0, oi_flow = FC_CondBranch, oi_kind = OK_Macro\<rparr>,
    \<lparr>oi_name = ''bge.un.s'', oi_encoding = (0x34, 0x00), oi_size = 1, oi_operand = ShortInlineBrTarget,
     oi_pop = Pop1Pop1, oi_push = Push0, oi_flow = FC_CondBranch, oi_kind = OK_Macro\<rparr>,
    \<lparr>oi_name = ''bgt.un.s'', oi_encoding = (0x35, 0x00), oi_size = 1, oi_operand = ShortInlineBrTarget,
     oi_pop = Pop1Pop1, oi_push = Push0, oi_flow = FC_CondBranch, oi_kind = OK_Macro\<rparr>,
    \<lparr>oi_name = ''ble.un.s'', oi_encoding = (0x36, 0x00), oi_size = 1, oi_operand = ShortInlineBrTarget,
     oi_pop = Pop1Pop1, oi_push = Push0, oi_flow = FC_CondBranch, oi_kind = OK_Macro\<rparr>,
    \<lparr>oi_name = ''blt.un.s'', oi_encoding = (0x37, 0x00), oi_size = 1, oi_operand = ShortInlineBrTarget,
     oi_pop = Pop1Pop1, oi_push = Push0, oi_flow = FC_CondBranch, oi_kind = OK_Macro\<rparr>,
    \<lparr>oi_name = ''br'', oi_encoding = (0x38, 0x00), oi_size = 1, oi_operand = InlineBrTarget,
     oi_pop = Pop0, oi_push = Push0, oi_flow = FC_Branch, oi_kind = OK_Primitive\<rparr>,
    \<lparr>oi_name = ''brfalse'', oi_encoding = (0x39, 0x00), oi_size = 1, oi_operand = InlineBrTarget,
     oi_pop = PopI, oi_push = Push0, oi_flow = FC_CondBranch, oi_kind = OK_Primitive\<rparr>,
    \<lparr>oi_name = ''brtrue'', oi_encoding = (0x3A, 0x00), oi_size = 1, oi_operand = InlineBrTarget,
     oi_pop = PopI, oi_push = Push0, oi_flow = FC_CondBranch, oi_kind = OK_Primitive\<rparr>,
    \<lparr>oi_name = ''beq'', oi_encoding = (0x3B, 0x00), oi_size = 1, oi_operand = InlineBrTarget,
     oi_pop = Pop1Pop1, oi_push = Push0, oi_flow = FC_CondBranch, oi_kind = OK_Macro\<rparr>,
    \<lparr>oi_name = ''bge'', oi_encoding = (0x3C, 0x00), oi_size = 1, oi_operand = InlineBrTarget,
     oi_pop = Pop1Pop1, oi_push = Push0, oi_flow = FC_CondBranch, oi_kind = OK_Macro\<rparr>]"

definition OPCODE_INFO_4 :: "OpCodeInfo list" where
  "OPCODE_INFO_4 = [
    \<lparr>oi_name = ''bgt'', oi_encoding = (0x3D, 0x00), oi_size = 1, oi_operand = InlineBrTarget,
     oi_pop = Pop1Pop1, oi_push = Push0, oi_flow = FC_CondBranch, oi_kind = OK_Macro\<rparr>,
    \<lparr>oi_name = ''ble'', oi_encoding = (0x3E, 0x00), oi_size = 1, oi_operand = InlineBrTarget,
     oi_pop = Pop1Pop1, oi_push = Push0, oi_flow = FC_CondBranch, oi_kind = OK_Macro\<rparr>,
    \<lparr>oi_name = ''blt'', oi_encoding = (0x3F, 0x00), oi_size = 1, oi_operand = InlineBrTarget,
     oi_pop = Pop1Pop1, oi_push = Push0, oi_flow = FC_CondBranch, oi_kind = OK_Macro\<rparr>,
    \<lparr>oi_name = ''bne.un'', oi_encoding = (0x40, 0x00), oi_size = 1, oi_operand = InlineBrTarget,
     oi_pop = Pop1Pop1, oi_push = Push0, oi_flow = FC_CondBranch, oi_kind = OK_Macro\<rparr>,
    \<lparr>oi_name = ''bge.un'', oi_encoding = (0x41, 0x00), oi_size = 1, oi_operand = InlineBrTarget,
     oi_pop = Pop1Pop1, oi_push = Push0, oi_flow = FC_CondBranch, oi_kind = OK_Macro\<rparr>,
    \<lparr>oi_name = ''bgt.un'', oi_encoding = (0x42, 0x00), oi_size = 1, oi_operand = InlineBrTarget,
     oi_pop = Pop1Pop1, oi_push = Push0, oi_flow = FC_CondBranch, oi_kind = OK_Macro\<rparr>,
    \<lparr>oi_name = ''ble.un'', oi_encoding = (0x43, 0x00), oi_size = 1, oi_operand = InlineBrTarget,
     oi_pop = Pop1Pop1, oi_push = Push0, oi_flow = FC_CondBranch, oi_kind = OK_Macro\<rparr>,
    \<lparr>oi_name = ''blt.un'', oi_encoding = (0x44, 0x00), oi_size = 1, oi_operand = InlineBrTarget,
     oi_pop = Pop1Pop1, oi_push = Push0, oi_flow = FC_CondBranch, oi_kind = OK_Macro\<rparr>,
    \<lparr>oi_name = ''switch'', oi_encoding = (0x45, 0x00), oi_size = 1, oi_operand = InlineSwitch,
     oi_pop = PopI, oi_push = Push0, oi_flow = FC_CondBranch, oi_kind = OK_Primitive\<rparr>,
    \<lparr>oi_name = ''ldind.i1'', oi_encoding = (0x46, 0x00), oi_size = 1, oi_operand = InlineNone,
     oi_pop = PopI, oi_push = PushI, oi_flow = FC_Next, oi_kind = OK_Primitive\<rparr>,
    \<lparr>oi_name = ''ldind.u1'', oi_encoding = (0x47, 0x00), oi_size = 1, oi_operand = InlineNone,
     oi_pop = PopI, oi_push = PushI, oi_flow = FC_Next, oi_kind = OK_Primitive\<rparr>,
    \<lparr>oi_name = ''ldind.i2'', oi_encoding = (0x48, 0x00), oi_size = 1, oi_operand = InlineNone,
     oi_pop = PopI, oi_push = PushI, oi_flow = FC_Next, oi_kind = OK_Primitive\<rparr>,
    \<lparr>oi_name = ''ldind.u2'', oi_encoding = (0x49, 0x00), oi_size = 1, oi_operand = InlineNone,
     oi_pop = PopI, oi_push = PushI, oi_flow = FC_Next, oi_kind = OK_Primitive\<rparr>,
    \<lparr>oi_name = ''ldind.i4'', oi_encoding = (0x4A, 0x00), oi_size = 1, oi_operand = InlineNone,
     oi_pop = PopI, oi_push = PushI, oi_flow = FC_Next, oi_kind = OK_Primitive\<rparr>,
    \<lparr>oi_name = ''ldind.u4'', oi_encoding = (0x4B, 0x00), oi_size = 1, oi_operand = InlineNone,
     oi_pop = PopI, oi_push = PushI, oi_flow = FC_Next, oi_kind = OK_Primitive\<rparr>]"

definition OPCODE_INFO_5 :: "OpCodeInfo list" where
  "OPCODE_INFO_5 = [
    \<lparr>oi_name = ''ldind.i8'', oi_encoding = (0x4C, 0x00), oi_size = 1, oi_operand = InlineNone,
     oi_pop = PopI, oi_push = PushI8, oi_flow = FC_Next, oi_kind = OK_Primitive\<rparr>,
    \<lparr>oi_name = ''ldind.i'', oi_encoding = (0x4D, 0x00), oi_size = 1, oi_operand = InlineNone,
     oi_pop = PopI, oi_push = PushI, oi_flow = FC_Next, oi_kind = OK_Primitive\<rparr>,
    \<lparr>oi_name = ''ldind.r4'', oi_encoding = (0x4E, 0x00), oi_size = 1, oi_operand = InlineNone,
     oi_pop = PopI, oi_push = PushR4, oi_flow = FC_Next, oi_kind = OK_Primitive\<rparr>,
    \<lparr>oi_name = ''ldind.r8'', oi_encoding = (0x4F, 0x00), oi_size = 1, oi_operand = InlineNone,
     oi_pop = PopI, oi_push = PushR8, oi_flow = FC_Next, oi_kind = OK_Primitive\<rparr>,
    \<lparr>oi_name = ''ldind.ref'', oi_encoding = (0x50, 0x00), oi_size = 1, oi_operand = InlineNone,
     oi_pop = PopI, oi_push = PushRef, oi_flow = FC_Next, oi_kind = OK_Primitive\<rparr>,
    \<lparr>oi_name = ''stind.ref'', oi_encoding = (0x51, 0x00), oi_size = 1, oi_operand = InlineNone,
     oi_pop = PopIPopI, oi_push = Push0, oi_flow = FC_Next, oi_kind = OK_Primitive\<rparr>,
    \<lparr>oi_name = ''stind.i1'', oi_encoding = (0x52, 0x00), oi_size = 1, oi_operand = InlineNone,
     oi_pop = PopIPopI, oi_push = Push0, oi_flow = FC_Next, oi_kind = OK_Primitive\<rparr>,
    \<lparr>oi_name = ''stind.i2'', oi_encoding = (0x53, 0x00), oi_size = 1, oi_operand = InlineNone,
     oi_pop = PopIPopI, oi_push = Push0, oi_flow = FC_Next, oi_kind = OK_Primitive\<rparr>,
    \<lparr>oi_name = ''stind.i4'', oi_encoding = (0x54, 0x00), oi_size = 1, oi_operand = InlineNone,
     oi_pop = PopIPopI, oi_push = Push0, oi_flow = FC_Next, oi_kind = OK_Primitive\<rparr>,
    \<lparr>oi_name = ''stind.i8'', oi_encoding = (0x55, 0x00), oi_size = 1, oi_operand = InlineNone,
     oi_pop = PopIPopI8, oi_push = Push0, oi_flow = FC_Next, oi_kind = OK_Primitive\<rparr>,
    \<lparr>oi_name = ''stind.r4'', oi_encoding = (0x56, 0x00), oi_size = 1, oi_operand = InlineNone,
     oi_pop = PopIPopR4, oi_push = Push0, oi_flow = FC_Next, oi_kind = OK_Primitive\<rparr>,
    \<lparr>oi_name = ''stind.r8'', oi_encoding = (0x57, 0x00), oi_size = 1, oi_operand = InlineNone,
     oi_pop = PopIPopR8, oi_push = Push0, oi_flow = FC_Next, oi_kind = OK_Primitive\<rparr>,
    \<lparr>oi_name = ''add'', oi_encoding = (0x58, 0x00), oi_size = 1, oi_operand = InlineNone,
     oi_pop = Pop1Pop1, oi_push = Push1, oi_flow = FC_Next, oi_kind = OK_Primitive\<rparr>,
    \<lparr>oi_name = ''sub'', oi_encoding = (0x59, 0x00), oi_size = 1, oi_operand = InlineNone,
     oi_pop = Pop1Pop1, oi_push = Push1, oi_flow = FC_Next, oi_kind = OK_Primitive\<rparr>,
    \<lparr>oi_name = ''mul'', oi_encoding = (0x5A, 0x00), oi_size = 1, oi_operand = InlineNone,
     oi_pop = Pop1Pop1, oi_push = Push1, oi_flow = FC_Next, oi_kind = OK_Primitive\<rparr>]"

definition OPCODE_INFO_6 :: "OpCodeInfo list" where
  "OPCODE_INFO_6 = [
    \<lparr>oi_name = ''div'', oi_encoding = (0x5B, 0x00), oi_size = 1, oi_operand = InlineNone,
     oi_pop = Pop1Pop1, oi_push = Push1, oi_flow = FC_Next, oi_kind = OK_Primitive\<rparr>,
    \<lparr>oi_name = ''div.un'', oi_encoding = (0x5C, 0x00), oi_size = 1, oi_operand = InlineNone,
     oi_pop = Pop1Pop1, oi_push = Push1, oi_flow = FC_Next, oi_kind = OK_Primitive\<rparr>,
    \<lparr>oi_name = ''rem'', oi_encoding = (0x5D, 0x00), oi_size = 1, oi_operand = InlineNone,
     oi_pop = Pop1Pop1, oi_push = Push1, oi_flow = FC_Next, oi_kind = OK_Primitive\<rparr>,
    \<lparr>oi_name = ''rem.un'', oi_encoding = (0x5E, 0x00), oi_size = 1, oi_operand = InlineNone,
     oi_pop = Pop1Pop1, oi_push = Push1, oi_flow = FC_Next, oi_kind = OK_Primitive\<rparr>,
    \<lparr>oi_name = ''and'', oi_encoding = (0x5F, 0x00), oi_size = 1, oi_operand = InlineNone,
     oi_pop = Pop1Pop1, oi_push = Push1, oi_flow = FC_Next, oi_kind = OK_Primitive\<rparr>,
    \<lparr>oi_name = ''or'', oi_encoding = (0x60, 0x00), oi_size = 1, oi_operand = InlineNone,
     oi_pop = Pop1Pop1, oi_push = Push1, oi_flow = FC_Next, oi_kind = OK_Primitive\<rparr>,
    \<lparr>oi_name = ''xor'', oi_encoding = (0x61, 0x00), oi_size = 1, oi_operand = InlineNone,
     oi_pop = Pop1Pop1, oi_push = Push1, oi_flow = FC_Next, oi_kind = OK_Primitive\<rparr>,
    \<lparr>oi_name = ''shl'', oi_encoding = (0x62, 0x00), oi_size = 1, oi_operand = InlineNone,
     oi_pop = Pop1Pop1, oi_push = Push1, oi_flow = FC_Next, oi_kind = OK_Primitive\<rparr>,
    \<lparr>oi_name = ''shr'', oi_encoding = (0x63, 0x00), oi_size = 1, oi_operand = InlineNone,
     oi_pop = Pop1Pop1, oi_push = Push1, oi_flow = FC_Next, oi_kind = OK_Primitive\<rparr>,
    \<lparr>oi_name = ''shr.un'', oi_encoding = (0x64, 0x00), oi_size = 1, oi_operand = InlineNone,
     oi_pop = Pop1Pop1, oi_push = Push1, oi_flow = FC_Next, oi_kind = OK_Primitive\<rparr>,
    \<lparr>oi_name = ''neg'', oi_encoding = (0x65, 0x00), oi_size = 1, oi_operand = InlineNone,
     oi_pop = Pop1, oi_push = Push1, oi_flow = FC_Next, oi_kind = OK_Primitive\<rparr>,
    \<lparr>oi_name = ''not'', oi_encoding = (0x66, 0x00), oi_size = 1, oi_operand = InlineNone,
     oi_pop = Pop1, oi_push = Push1, oi_flow = FC_Next, oi_kind = OK_Primitive\<rparr>,
    \<lparr>oi_name = ''conv.i1'', oi_encoding = (0x67, 0x00), oi_size = 1, oi_operand = InlineNone,
     oi_pop = Pop1, oi_push = PushI, oi_flow = FC_Next, oi_kind = OK_Primitive\<rparr>,
    \<lparr>oi_name = ''conv.i2'', oi_encoding = (0x68, 0x00), oi_size = 1, oi_operand = InlineNone,
     oi_pop = Pop1, oi_push = PushI, oi_flow = FC_Next, oi_kind = OK_Primitive\<rparr>,
    \<lparr>oi_name = ''conv.i4'', oi_encoding = (0x69, 0x00), oi_size = 1, oi_operand = InlineNone,
     oi_pop = Pop1, oi_push = PushI, oi_flow = FC_Next, oi_kind = OK_Primitive\<rparr>]"

definition OPCODE_INFO_7 :: "OpCodeInfo list" where
  "OPCODE_INFO_7 = [
    \<lparr>oi_name = ''conv.i8'', oi_encoding = (0x6A, 0x00), oi_size = 1, oi_operand = InlineNone,
     oi_pop = Pop1, oi_push = PushI8, oi_flow = FC_Next, oi_kind = OK_Primitive\<rparr>,
    \<lparr>oi_name = ''conv.r4'', oi_encoding = (0x6B, 0x00), oi_size = 1, oi_operand = InlineNone,
     oi_pop = Pop1, oi_push = PushR4, oi_flow = FC_Next, oi_kind = OK_Primitive\<rparr>,
    \<lparr>oi_name = ''conv.r8'', oi_encoding = (0x6C, 0x00), oi_size = 1, oi_operand = InlineNone,
     oi_pop = Pop1, oi_push = PushR8, oi_flow = FC_Next, oi_kind = OK_Primitive\<rparr>,
    \<lparr>oi_name = ''conv.u4'', oi_encoding = (0x6D, 0x00), oi_size = 1, oi_operand = InlineNone,
     oi_pop = Pop1, oi_push = PushI, oi_flow = FC_Next, oi_kind = OK_Primitive\<rparr>,
    \<lparr>oi_name = ''conv.u8'', oi_encoding = (0x6E, 0x00), oi_size = 1, oi_operand = InlineNone,
     oi_pop = Pop1, oi_push = PushI8, oi_flow = FC_Next, oi_kind = OK_Primitive\<rparr>,
    \<lparr>oi_name = ''callvirt'', oi_encoding = (0x6F, 0x00), oi_size = 1, oi_operand = InlineMethod,
     oi_pop = VarPop, oi_push = VarPush, oi_flow = FC_Call, oi_kind = OK_ObjModel\<rparr>,
    \<lparr>oi_name = ''cpobj'', oi_encoding = (0x70, 0x00), oi_size = 1, oi_operand = InlineType,
     oi_pop = PopIPopI, oi_push = Push0, oi_flow = FC_Next, oi_kind = OK_ObjModel\<rparr>,
    \<lparr>oi_name = ''ldobj'', oi_encoding = (0x71, 0x00), oi_size = 1, oi_operand = InlineType,
     oi_pop = PopI, oi_push = Push1, oi_flow = FC_Next, oi_kind = OK_ObjModel\<rparr>,
    \<lparr>oi_name = ''ldstr'', oi_encoding = (0x72, 0x00), oi_size = 1, oi_operand = InlineString,
     oi_pop = Pop0, oi_push = PushRef, oi_flow = FC_Next, oi_kind = OK_ObjModel\<rparr>,
    \<lparr>oi_name = ''newobj'', oi_encoding = (0x73, 0x00), oi_size = 1, oi_operand = InlineMethod,
     oi_pop = VarPop, oi_push = PushRef, oi_flow = FC_Call, oi_kind = OK_ObjModel\<rparr>,
    \<lparr>oi_name = ''castclass'', oi_encoding = (0x74, 0x00), oi_size = 1, oi_operand = InlineType,
     oi_pop = PopRef, oi_push = PushRef, oi_flow = FC_Next, oi_kind = OK_ObjModel\<rparr>,
    \<lparr>oi_name = ''isinst'', oi_encoding = (0x75, 0x00), oi_size = 1, oi_operand = InlineType,
     oi_pop = PopRef, oi_push = PushI, oi_flow = FC_Next, oi_kind = OK_ObjModel\<rparr>,
    \<lparr>oi_name = ''conv.r.un'', oi_encoding = (0x76, 0x00), oi_size = 1, oi_operand = InlineNone,
     oi_pop = Pop1, oi_push = PushR8, oi_flow = FC_Next, oi_kind = OK_Primitive\<rparr>,
    \<lparr>oi_name = ''unbox'', oi_encoding = (0x79, 0x00), oi_size = 1, oi_operand = InlineType,
     oi_pop = PopRef, oi_push = PushI, oi_flow = FC_Next, oi_kind = OK_Primitive\<rparr>,
    \<lparr>oi_name = ''throw'', oi_encoding = (0x7A, 0x00), oi_size = 1, oi_operand = InlineNone,
     oi_pop = PopRef, oi_push = Push0, oi_flow = FC_Throw, oi_kind = OK_ObjModel\<rparr>]"

definition OPCODE_INFO_8 :: "OpCodeInfo list" where
  "OPCODE_INFO_8 = [
    \<lparr>oi_name = ''ldfld'', oi_encoding = (0x7B, 0x00), oi_size = 1, oi_operand = InlineField,
     oi_pop = PopRef, oi_push = Push1, oi_flow = FC_Next, oi_kind = OK_ObjModel\<rparr>,
    \<lparr>oi_name = ''ldflda'', oi_encoding = (0x7C, 0x00), oi_size = 1, oi_operand = InlineField,
     oi_pop = PopRef, oi_push = PushI, oi_flow = FC_Next, oi_kind = OK_ObjModel\<rparr>,
    \<lparr>oi_name = ''stfld'', oi_encoding = (0x7D, 0x00), oi_size = 1, oi_operand = InlineField,
     oi_pop = PopRefPop1, oi_push = Push0, oi_flow = FC_Next, oi_kind = OK_ObjModel\<rparr>,
    \<lparr>oi_name = ''ldsfld'', oi_encoding = (0x7E, 0x00), oi_size = 1, oi_operand = InlineField,
     oi_pop = Pop0, oi_push = Push1, oi_flow = FC_Next, oi_kind = OK_ObjModel\<rparr>,
    \<lparr>oi_name = ''ldsflda'', oi_encoding = (0x7F, 0x00), oi_size = 1, oi_operand = InlineField,
     oi_pop = Pop0, oi_push = PushI, oi_flow = FC_Next, oi_kind = OK_ObjModel\<rparr>,
    \<lparr>oi_name = ''stsfld'', oi_encoding = (0x80, 0x00), oi_size = 1, oi_operand = InlineField,
     oi_pop = Pop1, oi_push = Push0, oi_flow = FC_Next, oi_kind = OK_ObjModel\<rparr>,
    \<lparr>oi_name = ''stobj'', oi_encoding = (0x81, 0x00), oi_size = 1, oi_operand = InlineType,
     oi_pop = PopIPop1, oi_push = Push0, oi_flow = FC_Next, oi_kind = OK_Primitive\<rparr>,
    \<lparr>oi_name = ''conv.ovf.i1.un'', oi_encoding = (0x82, 0x00), oi_size = 1, oi_operand = InlineNone,
     oi_pop = Pop1, oi_push = PushI, oi_flow = FC_Next, oi_kind = OK_Primitive\<rparr>,
    \<lparr>oi_name = ''conv.ovf.i2.un'', oi_encoding = (0x83, 0x00), oi_size = 1, oi_operand = InlineNone,
     oi_pop = Pop1, oi_push = PushI, oi_flow = FC_Next, oi_kind = OK_Primitive\<rparr>,
    \<lparr>oi_name = ''conv.ovf.i4.un'', oi_encoding = (0x84, 0x00), oi_size = 1, oi_operand = InlineNone,
     oi_pop = Pop1, oi_push = PushI, oi_flow = FC_Next, oi_kind = OK_Primitive\<rparr>,
    \<lparr>oi_name = ''conv.ovf.i8.un'', oi_encoding = (0x85, 0x00), oi_size = 1, oi_operand = InlineNone,
     oi_pop = Pop1, oi_push = PushI8, oi_flow = FC_Next, oi_kind = OK_Primitive\<rparr>,
    \<lparr>oi_name = ''conv.ovf.u1.un'', oi_encoding = (0x86, 0x00), oi_size = 1, oi_operand = InlineNone,
     oi_pop = Pop1, oi_push = PushI, oi_flow = FC_Next, oi_kind = OK_Primitive\<rparr>,
    \<lparr>oi_name = ''conv.ovf.u2.un'', oi_encoding = (0x87, 0x00), oi_size = 1, oi_operand = InlineNone,
     oi_pop = Pop1, oi_push = PushI, oi_flow = FC_Next, oi_kind = OK_Primitive\<rparr>,
    \<lparr>oi_name = ''conv.ovf.u4.un'', oi_encoding = (0x88, 0x00), oi_size = 1, oi_operand = InlineNone,
     oi_pop = Pop1, oi_push = PushI, oi_flow = FC_Next, oi_kind = OK_Primitive\<rparr>,
    \<lparr>oi_name = ''conv.ovf.u8.un'', oi_encoding = (0x89, 0x00), oi_size = 1, oi_operand = InlineNone,
     oi_pop = Pop1, oi_push = PushI8, oi_flow = FC_Next, oi_kind = OK_Primitive\<rparr>]"

definition OPCODE_INFO_9 :: "OpCodeInfo list" where
  "OPCODE_INFO_9 = [
    \<lparr>oi_name = ''conv.ovf.i.un'', oi_encoding = (0x8A, 0x00), oi_size = 1, oi_operand = InlineNone,
     oi_pop = Pop1, oi_push = PushI, oi_flow = FC_Next, oi_kind = OK_Primitive\<rparr>,
    \<lparr>oi_name = ''conv.ovf.u.un'', oi_encoding = (0x8B, 0x00), oi_size = 1, oi_operand = InlineNone,
     oi_pop = Pop1, oi_push = PushI, oi_flow = FC_Next, oi_kind = OK_Primitive\<rparr>,
    \<lparr>oi_name = ''box'', oi_encoding = (0x8C, 0x00), oi_size = 1, oi_operand = InlineType,
     oi_pop = Pop1, oi_push = PushRef, oi_flow = FC_Next, oi_kind = OK_Primitive\<rparr>,
    \<lparr>oi_name = ''newarr'', oi_encoding = (0x8D, 0x00), oi_size = 1, oi_operand = InlineType,
     oi_pop = PopI, oi_push = PushRef, oi_flow = FC_Next, oi_kind = OK_ObjModel\<rparr>,
    \<lparr>oi_name = ''ldlen'', oi_encoding = (0x8E, 0x00), oi_size = 1, oi_operand = InlineNone,
     oi_pop = PopRef, oi_push = PushI, oi_flow = FC_Next, oi_kind = OK_ObjModel\<rparr>,
    \<lparr>oi_name = ''ldelema'', oi_encoding = (0x8F, 0x00), oi_size = 1, oi_operand = InlineType,
     oi_pop = PopRefPopI, oi_push = PushI, oi_flow = FC_Next, oi_kind = OK_ObjModel\<rparr>,
    \<lparr>oi_name = ''ldelem.i1'', oi_encoding = (0x90, 0x00), oi_size = 1, oi_operand = InlineNone,
     oi_pop = PopRefPopI, oi_push = PushI, oi_flow = FC_Next, oi_kind = OK_ObjModel\<rparr>,
    \<lparr>oi_name = ''ldelem.u1'', oi_encoding = (0x91, 0x00), oi_size = 1, oi_operand = InlineNone,
     oi_pop = PopRefPopI, oi_push = PushI, oi_flow = FC_Next, oi_kind = OK_ObjModel\<rparr>,
    \<lparr>oi_name = ''ldelem.i2'', oi_encoding = (0x92, 0x00), oi_size = 1, oi_operand = InlineNone,
     oi_pop = PopRefPopI, oi_push = PushI, oi_flow = FC_Next, oi_kind = OK_ObjModel\<rparr>,
    \<lparr>oi_name = ''ldelem.u2'', oi_encoding = (0x93, 0x00), oi_size = 1, oi_operand = InlineNone,
     oi_pop = PopRefPopI, oi_push = PushI, oi_flow = FC_Next, oi_kind = OK_ObjModel\<rparr>,
    \<lparr>oi_name = ''ldelem.i4'', oi_encoding = (0x94, 0x00), oi_size = 1, oi_operand = InlineNone,
     oi_pop = PopRefPopI, oi_push = PushI, oi_flow = FC_Next, oi_kind = OK_ObjModel\<rparr>,
    \<lparr>oi_name = ''ldelem.u4'', oi_encoding = (0x95, 0x00), oi_size = 1, oi_operand = InlineNone,
     oi_pop = PopRefPopI, oi_push = PushI, oi_flow = FC_Next, oi_kind = OK_ObjModel\<rparr>,
    \<lparr>oi_name = ''ldelem.i8'', oi_encoding = (0x96, 0x00), oi_size = 1, oi_operand = InlineNone,
     oi_pop = PopRefPopI, oi_push = PushI8, oi_flow = FC_Next, oi_kind = OK_ObjModel\<rparr>,
    \<lparr>oi_name = ''ldelem.i'', oi_encoding = (0x97, 0x00), oi_size = 1, oi_operand = InlineNone,
     oi_pop = PopRefPopI, oi_push = PushI, oi_flow = FC_Next, oi_kind = OK_ObjModel\<rparr>,
    \<lparr>oi_name = ''ldelem.r4'', oi_encoding = (0x98, 0x00), oi_size = 1, oi_operand = InlineNone,
     oi_pop = PopRefPopI, oi_push = PushR4, oi_flow = FC_Next, oi_kind = OK_ObjModel\<rparr>]"

definition OPCODE_INFO_10 :: "OpCodeInfo list" where
  "OPCODE_INFO_10 = [
    \<lparr>oi_name = ''ldelem.r8'', oi_encoding = (0x99, 0x00), oi_size = 1, oi_operand = InlineNone,
     oi_pop = PopRefPopI, oi_push = PushR8, oi_flow = FC_Next, oi_kind = OK_ObjModel\<rparr>,
    \<lparr>oi_name = ''ldelem.ref'', oi_encoding = (0x9A, 0x00), oi_size = 1, oi_operand = InlineNone,
     oi_pop = PopRefPopI, oi_push = PushRef, oi_flow = FC_Next, oi_kind = OK_ObjModel\<rparr>,
    \<lparr>oi_name = ''stelem.i'', oi_encoding = (0x9B, 0x00), oi_size = 1, oi_operand = InlineNone,
     oi_pop = PopRefPopIPopI, oi_push = Push0, oi_flow = FC_Next, oi_kind = OK_ObjModel\<rparr>,
    \<lparr>oi_name = ''stelem.i1'', oi_encoding = (0x9C, 0x00), oi_size = 1, oi_operand = InlineNone,
     oi_pop = PopRefPopIPopI, oi_push = Push0, oi_flow = FC_Next, oi_kind = OK_ObjModel\<rparr>,
    \<lparr>oi_name = ''stelem.i2'', oi_encoding = (0x9D, 0x00), oi_size = 1, oi_operand = InlineNone,
     oi_pop = PopRefPopIPopI, oi_push = Push0, oi_flow = FC_Next, oi_kind = OK_ObjModel\<rparr>,
    \<lparr>oi_name = ''stelem.i4'', oi_encoding = (0x9E, 0x00), oi_size = 1, oi_operand = InlineNone,
     oi_pop = PopRefPopIPopI, oi_push = Push0, oi_flow = FC_Next, oi_kind = OK_ObjModel\<rparr>,
    \<lparr>oi_name = ''stelem.i8'', oi_encoding = (0x9F, 0x00), oi_size = 1, oi_operand = InlineNone,
     oi_pop = PopRefPopIPopI8, oi_push = Push0, oi_flow = FC_Next, oi_kind = OK_ObjModel\<rparr>,
    \<lparr>oi_name = ''stelem.r4'', oi_encoding = (0xA0, 0x00), oi_size = 1, oi_operand = InlineNone,
     oi_pop = PopRefPopIPopR4, oi_push = Push0, oi_flow = FC_Next, oi_kind = OK_ObjModel\<rparr>,
    \<lparr>oi_name = ''stelem.r8'', oi_encoding = (0xA1, 0x00), oi_size = 1, oi_operand = InlineNone,
     oi_pop = PopRefPopIPopR8, oi_push = Push0, oi_flow = FC_Next, oi_kind = OK_ObjModel\<rparr>,
    \<lparr>oi_name = ''stelem.ref'', oi_encoding = (0xA2, 0x00), oi_size = 1, oi_operand = InlineNone,
     oi_pop = PopRefPopIPopRef, oi_push = Push0, oi_flow = FC_Next, oi_kind = OK_ObjModel\<rparr>,
    \<lparr>oi_name = ''ldelem'', oi_encoding = (0xA3, 0x00), oi_size = 1, oi_operand = InlineType,
     oi_pop = PopRefPopI, oi_push = Push1, oi_flow = FC_Next, oi_kind = OK_ObjModel\<rparr>,
    \<lparr>oi_name = ''stelem'', oi_encoding = (0xA4, 0x00), oi_size = 1, oi_operand = InlineType,
     oi_pop = PopRefPopIPop1, oi_push = Push0, oi_flow = FC_Next, oi_kind = OK_ObjModel\<rparr>,
    \<lparr>oi_name = ''unbox.any'', oi_encoding = (0xA5, 0x00), oi_size = 1, oi_operand = InlineType,
     oi_pop = PopRef, oi_push = Push1, oi_flow = FC_Next, oi_kind = OK_ObjModel\<rparr>,
    \<lparr>oi_name = ''conv.ovf.i1'', oi_encoding = (0xB3, 0x00), oi_size = 1, oi_operand = InlineNone,
     oi_pop = Pop1, oi_push = PushI, oi_flow = FC_Next, oi_kind = OK_Primitive\<rparr>,
    \<lparr>oi_name = ''conv.ovf.u1'', oi_encoding = (0xB4, 0x00), oi_size = 1, oi_operand = InlineNone,
     oi_pop = Pop1, oi_push = PushI, oi_flow = FC_Next, oi_kind = OK_Primitive\<rparr>]"

definition OPCODE_INFO_11 :: "OpCodeInfo list" where
  "OPCODE_INFO_11 = [
    \<lparr>oi_name = ''conv.ovf.i2'', oi_encoding = (0xB5, 0x00), oi_size = 1, oi_operand = InlineNone,
     oi_pop = Pop1, oi_push = PushI, oi_flow = FC_Next, oi_kind = OK_Primitive\<rparr>,
    \<lparr>oi_name = ''conv.ovf.u2'', oi_encoding = (0xB6, 0x00), oi_size = 1, oi_operand = InlineNone,
     oi_pop = Pop1, oi_push = PushI, oi_flow = FC_Next, oi_kind = OK_Primitive\<rparr>,
    \<lparr>oi_name = ''conv.ovf.i4'', oi_encoding = (0xB7, 0x00), oi_size = 1, oi_operand = InlineNone,
     oi_pop = Pop1, oi_push = PushI, oi_flow = FC_Next, oi_kind = OK_Primitive\<rparr>,
    \<lparr>oi_name = ''conv.ovf.u4'', oi_encoding = (0xB8, 0x00), oi_size = 1, oi_operand = InlineNone,
     oi_pop = Pop1, oi_push = PushI, oi_flow = FC_Next, oi_kind = OK_Primitive\<rparr>,
    \<lparr>oi_name = ''conv.ovf.i8'', oi_encoding = (0xB9, 0x00), oi_size = 1, oi_operand = InlineNone,
     oi_pop = Pop1, oi_push = PushI8, oi_flow = FC_Next, oi_kind = OK_Primitive\<rparr>,
    \<lparr>oi_name = ''conv.ovf.u8'', oi_encoding = (0xBA, 0x00), oi_size = 1, oi_operand = InlineNone,
     oi_pop = Pop1, oi_push = PushI8, oi_flow = FC_Next, oi_kind = OK_Primitive\<rparr>,
    \<lparr>oi_name = ''refanyval'', oi_encoding = (0xC2, 0x00), oi_size = 1, oi_operand = InlineType,
     oi_pop = Pop1, oi_push = PushI, oi_flow = FC_Next, oi_kind = OK_Primitive\<rparr>,
    \<lparr>oi_name = ''ckfinite'', oi_encoding = (0xC3, 0x00), oi_size = 1, oi_operand = InlineNone,
     oi_pop = Pop1, oi_push = PushR8, oi_flow = FC_Next, oi_kind = OK_Primitive\<rparr>,
    \<lparr>oi_name = ''mkrefany'', oi_encoding = (0xC6, 0x00), oi_size = 1, oi_operand = InlineType,
     oi_pop = PopI, oi_push = Push1, oi_flow = FC_Next, oi_kind = OK_Primitive\<rparr>,
    \<lparr>oi_name = ''ldtoken'', oi_encoding = (0xD0, 0x00), oi_size = 1, oi_operand = InlineTok,
     oi_pop = Pop0, oi_push = PushI, oi_flow = FC_Next, oi_kind = OK_Primitive\<rparr>,
    \<lparr>oi_name = ''conv.u2'', oi_encoding = (0xD1, 0x00), oi_size = 1, oi_operand = InlineNone,
     oi_pop = Pop1, oi_push = PushI, oi_flow = FC_Next, oi_kind = OK_Primitive\<rparr>,
    \<lparr>oi_name = ''conv.u1'', oi_encoding = (0xD2, 0x00), oi_size = 1, oi_operand = InlineNone,
     oi_pop = Pop1, oi_push = PushI, oi_flow = FC_Next, oi_kind = OK_Primitive\<rparr>,
    \<lparr>oi_name = ''conv.i'', oi_encoding = (0xD3, 0x00), oi_size = 1, oi_operand = InlineNone,
     oi_pop = Pop1, oi_push = PushI, oi_flow = FC_Next, oi_kind = OK_Primitive\<rparr>,
    \<lparr>oi_name = ''conv.ovf.i'', oi_encoding = (0xD4, 0x00), oi_size = 1, oi_operand = InlineNone,
     oi_pop = Pop1, oi_push = PushI, oi_flow = FC_Next, oi_kind = OK_Primitive\<rparr>,
    \<lparr>oi_name = ''conv.ovf.u'', oi_encoding = (0xD5, 0x00), oi_size = 1, oi_operand = InlineNone,
     oi_pop = Pop1, oi_push = PushI, oi_flow = FC_Next, oi_kind = OK_Primitive\<rparr>]"

definition OPCODE_INFO_12 :: "OpCodeInfo list" where
  "OPCODE_INFO_12 = [
    \<lparr>oi_name = ''add.ovf'', oi_encoding = (0xD6, 0x00), oi_size = 1, oi_operand = InlineNone,
     oi_pop = Pop1Pop1, oi_push = Push1, oi_flow = FC_Next, oi_kind = OK_Primitive\<rparr>,
    \<lparr>oi_name = ''add.ovf.un'', oi_encoding = (0xD7, 0x00), oi_size = 1, oi_operand = InlineNone,
     oi_pop = Pop1Pop1, oi_push = Push1, oi_flow = FC_Next, oi_kind = OK_Primitive\<rparr>,
    \<lparr>oi_name = ''mul.ovf'', oi_encoding = (0xD8, 0x00), oi_size = 1, oi_operand = InlineNone,
     oi_pop = Pop1Pop1, oi_push = Push1, oi_flow = FC_Next, oi_kind = OK_Primitive\<rparr>,
    \<lparr>oi_name = ''mul.ovf.un'', oi_encoding = (0xD9, 0x00), oi_size = 1, oi_operand = InlineNone,
     oi_pop = Pop1Pop1, oi_push = Push1, oi_flow = FC_Next, oi_kind = OK_Primitive\<rparr>,
    \<lparr>oi_name = ''sub.ovf'', oi_encoding = (0xDA, 0x00), oi_size = 1, oi_operand = InlineNone,
     oi_pop = Pop1Pop1, oi_push = Push1, oi_flow = FC_Next, oi_kind = OK_Primitive\<rparr>,
    \<lparr>oi_name = ''sub.ovf.un'', oi_encoding = (0xDB, 0x00), oi_size = 1, oi_operand = InlineNone,
     oi_pop = Pop1Pop1, oi_push = Push1, oi_flow = FC_Next, oi_kind = OK_Primitive\<rparr>,
    \<lparr>oi_name = ''endfinally'', oi_encoding = (0xDC, 0x00), oi_size = 1, oi_operand = InlineNone,
     oi_pop = Pop0, oi_push = Push0, oi_flow = FC_Return, oi_kind = OK_Primitive\<rparr>,
    \<lparr>oi_name = ''leave'', oi_encoding = (0xDD, 0x00), oi_size = 1, oi_operand = InlineBrTarget,
     oi_pop = Pop0, oi_push = Push0, oi_flow = FC_Branch, oi_kind = OK_Primitive\<rparr>,
    \<lparr>oi_name = ''leave.s'', oi_encoding = (0xDE, 0x00), oi_size = 1, oi_operand = ShortInlineBrTarget,
     oi_pop = Pop0, oi_push = Push0, oi_flow = FC_Branch, oi_kind = OK_Primitive\<rparr>,
    \<lparr>oi_name = ''stind.i'', oi_encoding = (0xDF, 0x00), oi_size = 1, oi_operand = InlineNone,
     oi_pop = PopIPopI, oi_push = Push0, oi_flow = FC_Next, oi_kind = OK_Primitive\<rparr>,
    \<lparr>oi_name = ''conv.u'', oi_encoding = (0xE0, 0x00), oi_size = 1, oi_operand = InlineNone,
     oi_pop = Pop1, oi_push = PushI, oi_flow = FC_Next, oi_kind = OK_Primitive\<rparr>,
    \<lparr>oi_name = ''arglist'', oi_encoding = (0xFE, 0x00), oi_size = 2, oi_operand = InlineNone,
     oi_pop = Pop0, oi_push = PushI, oi_flow = FC_Next, oi_kind = OK_Primitive\<rparr>,
    \<lparr>oi_name = ''ceq'', oi_encoding = (0xFE, 0x01), oi_size = 2, oi_operand = InlineNone,
     oi_pop = Pop1Pop1, oi_push = PushI, oi_flow = FC_Next, oi_kind = OK_Primitive\<rparr>,
    \<lparr>oi_name = ''cgt'', oi_encoding = (0xFE, 0x02), oi_size = 2, oi_operand = InlineNone,
     oi_pop = Pop1Pop1, oi_push = PushI, oi_flow = FC_Next, oi_kind = OK_Primitive\<rparr>,
    \<lparr>oi_name = ''cgt.un'', oi_encoding = (0xFE, 0x03), oi_size = 2, oi_operand = InlineNone,
     oi_pop = Pop1Pop1, oi_push = PushI, oi_flow = FC_Next, oi_kind = OK_Primitive\<rparr>]"

definition OPCODE_INFO_13 :: "OpCodeInfo list" where
  "OPCODE_INFO_13 = [
    \<lparr>oi_name = ''clt'', oi_encoding = (0xFE, 0x04), oi_size = 2, oi_operand = InlineNone,
     oi_pop = Pop1Pop1, oi_push = PushI, oi_flow = FC_Next, oi_kind = OK_Primitive\<rparr>,
    \<lparr>oi_name = ''clt.un'', oi_encoding = (0xFE, 0x05), oi_size = 2, oi_operand = InlineNone,
     oi_pop = Pop1Pop1, oi_push = PushI, oi_flow = FC_Next, oi_kind = OK_Primitive\<rparr>,
    \<lparr>oi_name = ''ldftn'', oi_encoding = (0xFE, 0x06), oi_size = 2, oi_operand = InlineMethod,
     oi_pop = Pop0, oi_push = PushI, oi_flow = FC_Next, oi_kind = OK_Primitive\<rparr>,
    \<lparr>oi_name = ''ldvirtftn'', oi_encoding = (0xFE, 0x07), oi_size = 2, oi_operand = InlineMethod,
     oi_pop = PopRef, oi_push = PushI, oi_flow = FC_Next, oi_kind = OK_Primitive\<rparr>,
    \<lparr>oi_name = ''ldarg'', oi_encoding = (0xFE, 0x09), oi_size = 2, oi_operand = InlineVar,
     oi_pop = Pop0, oi_push = Push1, oi_flow = FC_Next, oi_kind = OK_Primitive\<rparr>,
    \<lparr>oi_name = ''ldarga'', oi_encoding = (0xFE, 0x0A), oi_size = 2, oi_operand = InlineVar,
     oi_pop = Pop0, oi_push = PushI, oi_flow = FC_Next, oi_kind = OK_Primitive\<rparr>,
    \<lparr>oi_name = ''starg'', oi_encoding = (0xFE, 0x0B), oi_size = 2, oi_operand = InlineVar,
     oi_pop = Pop1, oi_push = Push0, oi_flow = FC_Next, oi_kind = OK_Primitive\<rparr>,
    \<lparr>oi_name = ''ldloc'', oi_encoding = (0xFE, 0x0C), oi_size = 2, oi_operand = InlineVar,
     oi_pop = Pop0, oi_push = Push1, oi_flow = FC_Next, oi_kind = OK_Primitive\<rparr>,
    \<lparr>oi_name = ''ldloca'', oi_encoding = (0xFE, 0x0D), oi_size = 2, oi_operand = InlineVar,
     oi_pop = Pop0, oi_push = PushI, oi_flow = FC_Next, oi_kind = OK_Primitive\<rparr>,
    \<lparr>oi_name = ''stloc'', oi_encoding = (0xFE, 0x0E), oi_size = 2, oi_operand = InlineVar,
     oi_pop = Pop1, oi_push = Push0, oi_flow = FC_Next, oi_kind = OK_Primitive\<rparr>,
    \<lparr>oi_name = ''localloc'', oi_encoding = (0xFE, 0x0F), oi_size = 2, oi_operand = InlineNone,
     oi_pop = PopI, oi_push = PushI, oi_flow = FC_Next, oi_kind = OK_Primitive\<rparr>,
    \<lparr>oi_name = ''endfilter'', oi_encoding = (0xFE, 0x11), oi_size = 2, oi_operand = InlineNone,
     oi_pop = PopI, oi_push = Push0, oi_flow = FC_Return, oi_kind = OK_Primitive\<rparr>,
    \<lparr>oi_name = ''unaligned.'', oi_encoding = (0xFE, 0x12), oi_size = 2, oi_operand = ShortInlineI,
     oi_pop = Pop0, oi_push = Push0, oi_flow = FC_Meta, oi_kind = OK_Prefix\<rparr>,
    \<lparr>oi_name = ''volatile.'', oi_encoding = (0xFE, 0x13), oi_size = 2, oi_operand = InlineNone,
     oi_pop = Pop0, oi_push = Push0, oi_flow = FC_Meta, oi_kind = OK_Prefix\<rparr>,
    \<lparr>oi_name = ''tail.'', oi_encoding = (0xFE, 0x14), oi_size = 2, oi_operand = InlineNone,
     oi_pop = Pop0, oi_push = Push0, oi_flow = FC_Meta, oi_kind = OK_Prefix\<rparr>]"

definition OPCODE_INFO_14 :: "OpCodeInfo list" where
  "OPCODE_INFO_14 = [
    \<lparr>oi_name = ''initobj'', oi_encoding = (0xFE, 0x15), oi_size = 2, oi_operand = InlineType,
     oi_pop = PopI, oi_push = Push0, oi_flow = FC_Next, oi_kind = OK_ObjModel\<rparr>,
    \<lparr>oi_name = ''constrained.'', oi_encoding = (0xFE, 0x16), oi_size = 2, oi_operand = InlineType,
     oi_pop = Pop0, oi_push = Push0, oi_flow = FC_Meta, oi_kind = OK_Prefix\<rparr>,
    \<lparr>oi_name = ''cpblk'', oi_encoding = (0xFE, 0x17), oi_size = 2, oi_operand = InlineNone,
     oi_pop = PopIPopIPopI, oi_push = Push0, oi_flow = FC_Next, oi_kind = OK_Primitive\<rparr>,
    \<lparr>oi_name = ''initblk'', oi_encoding = (0xFE, 0x18), oi_size = 2, oi_operand = InlineNone,
     oi_pop = PopIPopIPopI, oi_push = Push0, oi_flow = FC_Next, oi_kind = OK_Primitive\<rparr>,
    \<lparr>oi_name = ''no.'', oi_encoding = (0xFE, 0x19), oi_size = 2, oi_operand = ShortInlineI,
     oi_pop = Pop0, oi_push = Push0, oi_flow = FC_Meta, oi_kind = OK_Prefix\<rparr>,
    \<lparr>oi_name = ''rethrow'', oi_encoding = (0xFE, 0x1A), oi_size = 2, oi_operand = InlineNone,
     oi_pop = Pop0, oi_push = Push0, oi_flow = FC_Throw, oi_kind = OK_ObjModel\<rparr>,
    \<lparr>oi_name = ''sizeof'', oi_encoding = (0xFE, 0x1C), oi_size = 2, oi_operand = InlineType,
     oi_pop = Pop0, oi_push = PushI, oi_flow = FC_Next, oi_kind = OK_Primitive\<rparr>,
    \<lparr>oi_name = ''refanytype'', oi_encoding = (0xFE, 0x1D), oi_size = 2, oi_operand = InlineNone,
     oi_pop = Pop1, oi_push = PushI, oi_flow = FC_Next, oi_kind = OK_Primitive\<rparr>,
    \<lparr>oi_name = ''readonly.'', oi_encoding = (0xFE, 0x1E), oi_size = 2, oi_operand = InlineNone,
     oi_pop = Pop0, oi_push = Push0, oi_flow = FC_Meta, oi_kind = OK_Prefix\<rparr>]"

definition OPCODE_INFO :: "OpCodeInfo list" where
  "OPCODE_INFO =
     OPCODE_INFO_0 @ OPCODE_INFO_1 @ OPCODE_INFO_2 @ OPCODE_INFO_3 @ OPCODE_INFO_4
      @ OPCODE_INFO_5 @ OPCODE_INFO_6 @ OPCODE_INFO_7 @ OPCODE_INFO_8 @ OPCODE_INFO_9
      @ OPCODE_INFO_10 @ OPCODE_INFO_11 @ OPCODE_INFO_12 @ OPCODE_INFO_13 @ OPCODE_INFO_14"

definition info :: "OpCode \<Rightarrow> OpCodeInfo" where
  "info op = OPCODE_INFO ! opcode_index op"

definition opcode_name :: "OpCode \<Rightarrow> string" where
  "opcode_name op = oi_name (info op)"

definition is_prefix :: "OpCode \<Rightarrow> bool" where
  "is_prefix op \<longleftrightarrow> oi_kind (info op) = OK_Prefix"

section \<open>Decoding and canonical forms\<close>

definition decode_one_arms_a :: "(u8 \<times> OpCode) list" where
  "decode_one_arms_a = [
     (0x00, Op_Nop), (0x01, Op_Break), (0x02, Op_Ldarg0), (0x03, Op_Ldarg1), (0x04, Op_Ldarg2),
     (0x05, Op_Ldarg3), (0x06, Op_Ldloc0), (0x07, Op_Ldloc1), (0x08, Op_Ldloc2),
     (0x09, Op_Ldloc3), (0x0A, Op_Stloc0), (0x0B, Op_Stloc1), (0x0C, Op_Stloc2),
     (0x0D, Op_Stloc3), (0x0E, Op_LdargS), (0x0F, Op_LdargaS), (0x10, Op_StargS),
     (0x11, Op_LdlocS), (0x12, Op_LdlocaS), (0x13, Op_StlocS), (0x14, Op_Ldnull),
     (0x15, Op_LdcI4M1), (0x16, Op_LdcI40), (0x17, Op_LdcI41), (0x18, Op_LdcI42),
     (0x19, Op_LdcI43), (0x1A, Op_LdcI44), (0x1B, Op_LdcI45), (0x1C, Op_LdcI46),
     (0x1D, Op_LdcI47), (0x1E, Op_LdcI48), (0x1F, Op_LdcI4S), (0x20, Op_LdcI4), (0x21, Op_LdcI8),
     (0x22, Op_LdcR4), (0x23, Op_LdcR8), (0x25, Op_Dup), (0x26, Op_Pop), (0x27, Op_Jmp),
     (0x28, Op_Call), (0x29, Op_Calli), (0x2A, Op_Ret), (0x2B, Op_BrS), (0x2C, Op_BrfalseS),
     (0x2D, Op_BrtrueS), (0x2E, Op_BeqS), (0x2F, Op_BgeS), (0x30, Op_BgtS), (0x31, Op_BleS),
     (0x32, Op_BltS), (0x33, Op_BneUnS), (0x34, Op_BgeUnS), (0x35, Op_BgtUnS), (0x36, Op_BleUnS),
     (0x37, Op_BltUnS), (0x38, Op_Br), (0x39, Op_Brfalse), (0x3A, Op_Brtrue), (0x3B, Op_Beq),
     (0x3C, Op_Bge), (0x3D, Op_Bgt), (0x3E, Op_Ble), (0x3F, Op_Blt), (0x40, Op_BneUn),
     (0x41, Op_BgeUn), (0x42, Op_BgtUn), (0x43, Op_BleUn), (0x44, Op_BltUn), (0x45, Op_Switch),
     (0x46, Op_LdindI1), (0x47, Op_LdindU1), (0x48, Op_LdindI2), (0x49, Op_LdindU2),
     (0x4A, Op_LdindI4), (0x4B, Op_LdindU4), (0x4C, Op_LdindI8), (0x4D, Op_LdindI),
     (0x4E, Op_LdindR4), (0x4F, Op_LdindR8), (0x50, Op_LdindRef), (0x51, Op_StindRef),
     (0x52, Op_StindI1), (0x53, Op_StindI2), (0x54, Op_StindI4), (0x55, Op_StindI8),
     (0x56, Op_StindR4), (0x57, Op_StindR8), (0x58, Op_Add), (0x59, Op_Sub), (0x5A, Op_Mul),
     (0x5B, Op_Div), (0x5C, Op_DivUn), (0x5D, Op_Rem), (0x5E, Op_RemUn), (0x5F, Op_And),
     (0x60, Op_Or)]"

definition decode_one_arms_b :: "(u8 \<times> OpCode) list" where
  "decode_one_arms_b = [
     (0x61, Op_Xor), (0x62, Op_Shl), (0x63, Op_Shr), (0x64, Op_ShrUn), (0x65, Op_Neg),
     (0x66, Op_Not), (0x67, Op_ConvI1), (0x68, Op_ConvI2), (0x69, Op_ConvI4), (0x6A, Op_ConvI8),
     (0x6B, Op_ConvR4), (0x6C, Op_ConvR8), (0x6D, Op_ConvU4), (0x6E, Op_ConvU8),
     (0x6F, Op_Callvirt), (0x70, Op_Cpobj), (0x71, Op_Ldobj), (0x72, Op_Ldstr),
     (0x73, Op_Newobj), (0x74, Op_Castclass), (0x75, Op_Isinst), (0x76, Op_ConvRUn),
     (0x79, Op_Unbox), (0x7A, Op_Throw), (0x7B, Op_Ldfld), (0x7C, Op_Ldflda), (0x7D, Op_Stfld),
     (0x7E, Op_Ldsfld), (0x7F, Op_Ldsflda), (0x80, Op_Stsfld), (0x81, Op_Stobj),
     (0x82, Op_ConvOvfI1Un), (0x83, Op_ConvOvfI2Un), (0x84, Op_ConvOvfI4Un),
     (0x85, Op_ConvOvfI8Un), (0x86, Op_ConvOvfU1Un), (0x87, Op_ConvOvfU2Un),
     (0x88, Op_ConvOvfU4Un), (0x89, Op_ConvOvfU8Un), (0x8A, Op_ConvOvfIUn),
     (0x8B, Op_ConvOvfUUn), (0x8C, Op_Box), (0x8D, Op_Newarr), (0x8E, Op_Ldlen),
     (0x8F, Op_Ldelema), (0x90, Op_LdelemI1), (0x91, Op_LdelemU1), (0x92, Op_LdelemI2),
     (0x93, Op_LdelemU2), (0x94, Op_LdelemI4), (0x95, Op_LdelemU4), (0x96, Op_LdelemI8),
     (0x97, Op_LdelemI), (0x98, Op_LdelemR4), (0x99, Op_LdelemR8), (0x9A, Op_LdelemRef),
     (0x9B, Op_StelemI), (0x9C, Op_StelemI1), (0x9D, Op_StelemI2), (0x9E, Op_StelemI4),
     (0x9F, Op_StelemI8), (0xA0, Op_StelemR4), (0xA1, Op_StelemR8), (0xA2, Op_StelemRef),
     (0xA3, Op_Ldelem), (0xA4, Op_Stelem), (0xA5, Op_UnboxAny), (0xB3, Op_ConvOvfI1),
     (0xB4, Op_ConvOvfU1), (0xB5, Op_ConvOvfI2), (0xB6, Op_ConvOvfU2), (0xB7, Op_ConvOvfI4),
     (0xB8, Op_ConvOvfU4), (0xB9, Op_ConvOvfI8), (0xBA, Op_ConvOvfU8), (0xC2, Op_Refanyval),
     (0xC3, Op_Ckfinite), (0xC6, Op_Mkrefany), (0xD0, Op_Ldtoken), (0xD1, Op_ConvU2),
     (0xD2, Op_ConvU1), (0xD3, Op_ConvI), (0xD4, Op_ConvOvfI), (0xD5, Op_ConvOvfU),
     (0xD6, Op_AddOvf), (0xD7, Op_AddOvfUn), (0xD8, Op_MulOvf), (0xD9, Op_MulOvfUn),
     (0xDA, Op_SubOvf), (0xDB, Op_SubOvfUn), (0xDC, Op_Endfinally), (0xDD, Op_Leave),
     (0xDE, Op_LeaveS), (0xDF, Op_StindI), (0xE0, Op_ConvU)]"

definition decode_one :: "u8 \<Rightarrow> OpCode option" where
  "decode_one byte = map_of (decode_one_arms_a @ decode_one_arms_b) byte"

definition decode_two_arms :: "(u8 \<times> OpCode) list" where
  "decode_two_arms = [
     (0x00, Op_Arglist), (0x01, Op_Ceq), (0x02, Op_Cgt), (0x03, Op_CgtUn), (0x04, Op_Clt),
     (0x05, Op_CltUn), (0x06, Op_Ldftn), (0x07, Op_Ldvirtftn), (0x09, Op_Ldarg),
     (0x0A, Op_Ldarga), (0x0B, Op_Starg), (0x0C, Op_Ldloc), (0x0D, Op_Ldloca), (0x0E, Op_Stloc),
     (0x0F, Op_Localloc), (0x11, Op_Endfilter), (0x12, Op_Unaligned), (0x13, Op_Volatile),
     (0x14, Op_Tail), (0x15, Op_Initobj), (0x16, Op_Constrained), (0x17, Op_Cpblk),
     (0x18, Op_Initblk), (0x19, Op_No), (0x1A, Op_Rethrow), (0x1C, Op_Sizeof),
     (0x1D, Op_Refanytype), (0x1E, Op_Readonly)]"

definition decode_two :: "u8 \<Rightarrow> OpCode option" where
  "decode_two byte = map_of decode_two_arms byte"

definition canonical_arms :: "(OpCode \<times> OpCode) list" where
  "canonical_arms = [
     (Op_Ldarg0, Op_Ldarg), (Op_Ldarg1, Op_Ldarg), (Op_Ldarg2, Op_Ldarg), (Op_Ldarg3, Op_Ldarg),
     (Op_Ldloc0, Op_Ldloc), (Op_Ldloc1, Op_Ldloc), (Op_Ldloc2, Op_Ldloc), (Op_Ldloc3, Op_Ldloc),
     (Op_Stloc0, Op_Stloc), (Op_Stloc1, Op_Stloc), (Op_Stloc2, Op_Stloc), (Op_Stloc3, Op_Stloc),
     (Op_LdargS, Op_Ldarg), (Op_LdargaS, Op_Ldarga), (Op_StargS, Op_Starg),
     (Op_LdlocS, Op_Ldloc), (Op_LdlocaS, Op_Ldloca), (Op_StlocS, Op_Stloc),
     (Op_LdcI4M1, Op_LdcI4), (Op_LdcI40, Op_LdcI4), (Op_LdcI41, Op_LdcI4), (Op_LdcI42, Op_LdcI4),
     (Op_LdcI43, Op_LdcI4), (Op_LdcI44, Op_LdcI4), (Op_LdcI45, Op_LdcI4), (Op_LdcI46, Op_LdcI4),
     (Op_LdcI47, Op_LdcI4), (Op_LdcI48, Op_LdcI4), (Op_LdcI4S, Op_LdcI4), (Op_BrS, Op_Br),
     (Op_BrfalseS, Op_Brfalse), (Op_BrtrueS, Op_Brtrue), (Op_BeqS, Op_Beq), (Op_BgeS, Op_Bge),
     (Op_BgtS, Op_Bgt), (Op_BleS, Op_Ble), (Op_BltS, Op_Blt), (Op_BneUnS, Op_BneUn),
     (Op_BgeUnS, Op_BgeUn), (Op_BgtUnS, Op_BgtUn), (Op_BleUnS, Op_BleUn), (Op_BltUnS, Op_BltUn),
     (Op_LeaveS, Op_Leave)]"

definition canonical_of :: "OpCode \<Rightarrow> OpCode" where
  "canonical_of op = (case map_of canonical_arms op of Some c \<Rightarrow> c | None \<Rightarrow> op)"

definition implied_var :: "OpCode \<Rightarrow> u16 option" where
  "implied_var op = map_of [
     (Op_Ldarg0, 0), (Op_Ldarg1, 1), (Op_Ldarg2, 2), (Op_Ldarg3, 3), (Op_Ldloc0, 0),
     (Op_Ldloc1, 1), (Op_Ldloc2, 2), (Op_Ldloc3, 3), (Op_Stloc0, 0), (Op_Stloc1, 1),
     (Op_Stloc2, 2), (Op_Stloc3, 3)] op"

definition implied_i32 :: "OpCode \<Rightarrow> int option" where
  "implied_i32 op = map_of [
     (Op_LdcI4M1, - 1), (Op_LdcI40, 0), (Op_LdcI41, 1), (Op_LdcI42, 2), (Op_LdcI43, 3),
     (Op_LdcI44, 4), (Op_LdcI45, 5), (Op_LdcI46, 6), (Op_LdcI47, 7), (Op_LdcI48, 8)] op"

section \<open>The table is consistent\<close>

lemmas all_opcodes_defs = ALL_OPCODES_0_def ALL_OPCODES_1_def ALL_OPCODES_2_def
  ALL_OPCODES_3_def ALL_OPCODES_4_def

lemma ALL_OPCODES_complete: "op \<in> set ALL_OPCODES"
proof -
  have "Page0 i \<in> set ALL_OPCODES_0" for i by (cases i) (simp_all add: ALL_OPCODES_0_def)
  moreover have "Page1 i \<in> set ALL_OPCODES_1" for i by (cases i) (simp_all add: ALL_OPCODES_1_def)
  moreover have "Page2 i \<in> set ALL_OPCODES_2" for i by (cases i) (simp_all add: ALL_OPCODES_2_def)
  moreover have "Page3 i \<in> set ALL_OPCODES_3" for i by (cases i) (simp_all add: ALL_OPCODES_3_def)
  moreover have "Page4 i \<in> set ALL_OPCODES_4" for i by (cases i) (simp_all add: ALL_OPCODES_4_def)
  ultimately show ?thesis by (cases op) (auto simp: ALL_OPCODES_def)
qed

lemma index_ALL_OPCODES: "map opcode_index ALL_OPCODES = [0..<219]"
  by code_simp

lemma length_OPCODE_INFO: "length OPCODE_INFO = 219"
  by code_simp

lemma length_ALL_OPCODES: "length ALL_OPCODES = 219"
  using arg_cong [OF index_ALL_OPCODES, of length] by simp

lemma map_info: "map info ALL_OPCODES = OPCODE_INFO"
proof -
  have "map info ALL_OPCODES = map ((!) OPCODE_INFO) (map opcode_index ALL_OPCODES)"
    by (simp add: info_def)
  then show ?thesis using length_OPCODE_INFO map_nth [of OPCODE_INFO]
    by (simp add: index_ALL_OPCODES)
qed

lemma opcode_index_less: "opcode_index op < 219"
proof -
  have "opcode_index op \<in> set (map opcode_index ALL_OPCODES)"
    using ALL_OPCODES_complete [of op] by auto
  then show ?thesis by (simp only: index_ALL_OPCODES) simp
qed

lemma opcode_index_inj: "opcode_index a = opcode_index b \<Longrightarrow> a = b"
proof -
  have "distinct (map opcode_index ALL_OPCODES)" by (simp add: index_ALL_OPCODES)
  then have "inj_on opcode_index (set ALL_OPCODES)" by (simp add: distinct_map)
  then show "opcode_index a = opcode_index b \<Longrightarrow> a = b"
    using ALL_OPCODES_complete by (auto dest: inj_onD)
qed

text \<open>The derived \<open>Ord\<close> of the enum compares discriminants.\<close>

instantiation OpCode :: linorder
begin

definition less_eq_OpCode :: "OpCode \<Rightarrow> OpCode \<Rightarrow> bool" where
  "less_eq_OpCode a b \<longleftrightarrow> opcode_index a \<le> opcode_index b"

definition less_OpCode :: "OpCode \<Rightarrow> OpCode \<Rightarrow> bool" where
  "less_OpCode a b \<longleftrightarrow> opcode_index a < opcode_index b"

instance
  by standard (auto simp: less_eq_OpCode_def less_OpCode_def intro: opcode_index_inj)

end

text \<open>
  A fact about every opcode and its row is a fact about the two lists side by side, which the
  simplifier evaluates once.
\<close>

lemma info_cases:
  assumes "list_all2 P ALL_OPCODES OPCODE_INFO"
  shows "P op (info op)"
proof -
  from assms have "list_all2 P ALL_OPCODES (map info ALL_OPCODES)" by (simp only: map_info)
  then show ?thesis using ALL_OPCODES_complete [of op]
    by (simp add: list_all2_map2 list_all2_same)
qed

definition info_pairs :: "(OpCode \<times> OpCodeInfo) list" where
  "info_pairs = zip ALL_OPCODES OPCODE_INFO"

lemma info_pairs_eq: "info_pairs = map (\<lambda>op. (op, info op)) ALL_OPCODES"
  by (simp add: info_pairs_def map_info [symmetric] zip_map2 zip_same_conv_map)

lemma decode_one_arms_eq:
  "decode_one_arms_a @ decode_one_arms_b
     = map (\<lambda>(op, i). (fst (oi_encoding i), op)) (filter (\<lambda>(op, i). oi_size i = 1) info_pairs)"
  by code_simp

lemma decode_two_arms_eq:
  "decode_two_arms
     = map (\<lambda>(op, i). (snd (oi_encoding i), op)) (filter (\<lambda>(op, i). oi_size i = 2) info_pairs)"
  by code_simp

lemma encoding_shape:
  "oi_size (info op) = 1 \<and> fst (oi_encoding (info op)) \<noteq> 0xFE
   \<or> oi_size (info op) = 2 \<and> fst (oi_encoding (info op)) = 0xFE"
proof -
  have "list_all2 (\<lambda>op i. oi_size i = 1 \<and> fst (oi_encoding i) \<noteq> 0xFE
      \<or> oi_size i = 2 \<and> fst (oi_encoding i) = 0xFE) ALL_OPCODES OPCODE_INFO"
    by code_simp
  from info_cases [OF this] show ?thesis .
qed

lemma decode_arms_increase:
  "successively (\<lambda>a b. fst a < fst b) (decode_one_arms_a @ decode_one_arms_b)"
  "successively (\<lambda>a b. fst a < fst b) decode_two_arms"
  by code_simp+

lemma distinct_increasing_keys:
  fixes xs :: "('k::linorder \<times> 'v) list"
  assumes "successively (\<lambda>a b. fst a < fst b) xs"
  shows "distinct (map fst xs)"
proof -
  have "sorted_wrt (\<lambda>a b. fst a < fst b) xs"
    using assms by (subst (asm) successively_conv_sorted_wrt) (auto intro!: transpI)
  then have "sorted_wrt (<) (map fst xs)" by (simp add: sorted_wrt_map)
  then show ?thesis by (simp add: strict_sorted_iff)
qed

lemma decode_one_iff:
  "decode_one b = Some op \<longleftrightarrow> oi_size (info op) = 1 \<and> fst (oi_encoding (info op)) = b"
  unfolding decode_one_def map_of_eq_Some_iff [OF distinct_increasing_keys [OF decode_arms_increase(1)]]
  unfolding decode_one_arms_eq info_pairs_eq using ALL_OPCODES_complete by auto

lemma decode_two_iff:
  "decode_two b = Some op \<longleftrightarrow> oi_size (info op) = 2 \<and> snd (oi_encoding (info op)) = b"
  unfolding decode_two_def map_of_eq_Some_iff [OF distinct_increasing_keys [OF decode_arms_increase(2)]]
  unfolding decode_two_arms_eq info_pairs_eq using ALL_OPCODES_complete by auto

lemma prefix_opcodes:
  "is_prefix op \<longleftrightarrow> op \<in> {Op_Constrained, Op_Volatile, Op_Unaligned, Op_Tail, Op_Readonly, Op_No}"
proof -
  have "list_all2 (\<lambda>op i. oi_kind i = OK_Prefix \<longleftrightarrow>
      op \<in> {Op_Constrained, Op_Volatile, Op_Unaligned, Op_Tail, Op_Readonly, Op_No})
      ALL_OPCODES OPCODE_INFO"
    by code_simp
  from info_cases [OF this] show ?thesis by (simp add: is_prefix_def)
qed

text \<open>What the implied operands are, and on which opcodes.\<close>

lemma implied_operands:
  "implied_var op \<noteq> None \<longrightarrow> oi_operand (info op) = InlineNone"
  "implied_i32 op \<noteq> None \<longrightarrow> oi_operand (info op) = InlineNone"
  "implied_var op = None \<or> implied_i32 op = None"
proof -
  have 1: "list_all2 (\<lambda>op i. implied_var op \<noteq> None \<longrightarrow> oi_operand i = InlineNone) ALL_OPCODES OPCODE_INFO"
    by code_simp
  have 2: "list_all2 (\<lambda>op i. implied_i32 op \<noteq> None \<longrightarrow> oi_operand i = InlineNone) ALL_OPCODES OPCODE_INFO"
    by code_simp
  have 3: "list_all2 (\<lambda>op i. implied_var op = None \<or> implied_i32 op = None) ALL_OPCODES OPCODE_INFO"
    by code_simp
  from info_cases [OF 1] show "implied_var op \<noteq> None \<longrightarrow> oi_operand (info op) = InlineNone" .
  from info_cases [OF 2] show "implied_i32 op \<noteq> None \<longrightarrow> oi_operand (info op) = InlineNone" .
  from info_cases [OF 3] show "implied_var op = None \<or> implied_i32 op = None" .
qed

lemma canonical_arms_closed:
  "list_all (\<lambda>(a, c). map_of canonical_arms c = None) canonical_arms"
  by code_simp

lemma canonical_Some: "map_of canonical_arms op = Some c \<Longrightarrow> map_of canonical_arms c = None"
  using canonical_arms_closed by (auto simp: list_all_iff dest!: map_of_SomeD)

lemma canonical_idem: "canonical_of (canonical_of op) = canonical_of op"
  by (auto simp: canonical_of_def canonical_Some split: option.splits)

text \<open>A row together with the row of its canonical opcode.\<close>

lemma canonical_arms_rows:
  "list_all (\<lambda>(a, c). oi_pop (info a) = oi_pop (info c) \<and> oi_push (info a) = oi_push (info c)
      \<and> oi_flow (info a) = oi_flow (info c) \<and> oi_size (info a) = 1) canonical_arms"
  by code_simp

section \<open>Properties\<close>

text \<open>\<open>canonical\<close> is idempotent, and a short or macro encoding pops, pushes and transfers
  control exactly as the general opcode it stands for.\<close>

lemma canonical_preserves:
  "canonical_of (canonical_of op) = canonical_of op
   \<and> oi_pop (info (canonical_of op)) = oi_pop (info op)
   \<and> oi_push (info (canonical_of op)) = oi_push (info op)
   \<and> oi_flow (info (canonical_of op)) = oi_flow (info op)"
  using canonical_idem [of op] canonical_arms_rows
  by (auto simp: canonical_of_def list_all_iff split: option.splits dest!: map_of_SomeD)

text \<open>The 219 encodings reduce to exactly 176 canonical opcodes.\<close>

lemma canonical_count: "card (range canonical_of) = 176"
proof -
  have r: "range canonical_of = canonical_of ` set ALL_OPCODES"
    using ALL_OPCODES_complete by auto
  have "map canonical_of (filter (\<lambda>op. map_of canonical_arms op = None) ALL_OPCODES)
      = filter (\<lambda>op. map_of canonical_arms op = None) ALL_OPCODES"
    by (rule map_idI) (simp add: canonical_of_def)
  have "range canonical_of = set (filter (\<lambda>op. map_of canonical_arms op = None) ALL_OPCODES)"
  proof
    show "range canonical_of \<subseteq> set (filter (\<lambda>op. map_of canonical_arms op = None) ALL_OPCODES)"
      using ALL_OPCODES_complete by (auto simp: canonical_of_def canonical_Some split: option.splits)
    show "set (filter (\<lambda>op. map_of canonical_arms op = None) ALL_OPCODES) \<subseteq> range canonical_of"
      by (auto simp: canonical_of_def image_iff intro!: exI split: option.splits)
  qed
  moreover have "distinct ALL_OPCODES"
    using index_ALL_OPCODES distinct_upt [of 0 219] by (metis distinct_map)
  moreover have "length (filter (\<lambda>op. map_of canonical_arms op = None) ALL_OPCODES) = 176"
    by code_simp
  ultimately show ?thesis by (metis distinct_card distinct_filter)
qed

end
