(* ===== verification/Il.thy ===== *)
theory Il
  imports Compressed Codec OpTable Token Iter
begin

text \<open>
  The instruction decoder (\<open>src/il/mod.rs\<close>): one instruction at an offset (\<open>decode_at\<close>), the raw
  stream (\<open>InstructionIter\<close>) and the stream with prefixes folded onto their targets
  (\<open>FoldedIter\<close>). IL offsets are \<open>u32\<close> words because the source wraps them; a signed operand is
  an \<open>int\<close> and a float operand its bit pattern. The \<open>for\<close> loop over switch deltas is
  \<open>read_deltas\<close>, the \<open>loop\<close> of \<open>FoldedIter::next\<close> is \<open>folded_loop\<close>.
\<close>

section \<open>Opcodes from bytes\<close>

definition CTX_IL :: string where
  "CTX_IL = ''CIL''"

definition from_bytes :: "bytes \<Rightarrow> (OpCode \<times> nat) result" where
  "from_bytes bs =
     res_bind (ok_or (get_at bs 0) (error_new Truncated 0 CTX_IL)) (\<lambda>first.
     if first = 0xFE then
       res_bind (ok_or (get_at bs 1) (error_new Truncated 1 CTX_IL)) (\<lambda>second.
       case decode_two second of
         Some op \<Rightarrow> Ok (op, 2)
       | None \<Rightarrow> Err (error_new UnknownOpcode 0 CTX_IL))
     else
       case decode_one first of
         Some op \<Rightarrow> Ok (op, 1)
       | None \<Rightarrow> Err (error_new UnknownOpcode 0 CTX_IL))"

section \<open>Instructions\<close>

datatype Operand =
    O_None | O_I8 int | O_I32 int | O_I64 int | O_R32 u32 | O_R64 u64
  | O_BranchTarget u32 | O_Switch "u32 list"
  | O_Method Token | O_Field Token | O_Type Token | O_Tok Token | O_Sig Token
  | O_String u32 | O_Var u16

fun operand_token :: "Operand \<Rightarrow> Token option" where
  "operand_token (O_Method t) = Some t"
| "operand_token (O_Field t) = Some t"
| "operand_token (O_Type t) = Some t"
| "operand_token (O_Tok t) = Some t"
| "operand_token (O_Sig t) = Some t"
| "operand_token _ = None"

fun branch_targets :: "Operand \<Rightarrow> u32 list" where
  "branch_targets (O_BranchTarget t) = [t]"
| "branch_targets (O_Switch ts) = ts"
| "branch_targets _ = []"

record Instruction =
  in_offset :: u32
  in_size :: u32
  in_opcode :: OpCode
  in_operand :: Operand

definition next_offset :: "Instruction \<Rightarrow> u32" where
  "next_offset i = in_offset i + in_size i"

record NoChecks =
  nc_typecheck :: bool
  nc_rangecheck :: bool
  nc_nullcheck :: bool

definition no_checks_from_bits :: "u8 \<Rightarrow> NoChecks" where
  "no_checks_from_bits b =
     \<lparr>nc_typecheck = (b AND 0x01 \<noteq> 0), nc_rangecheck = (b AND 0x02 \<noteq> 0),
      nc_nullcheck = (b AND 0x04 \<noteq> 0)\<rparr>"

definition no_checks_is_empty :: "NoChecks \<Rightarrow> bool" where
  "no_checks_is_empty n \<longleftrightarrow> \<not> nc_typecheck n \<and> \<not> nc_rangecheck n \<and> \<not> nc_nullcheck n"

record Prefixes =
  px_constrained :: "Token option"
  px_volatile :: bool
  px_unaligned :: "u8 option"
  px_tail :: bool
  px_readonly :: bool
  px_no :: NoChecks

definition prefixes_default :: Prefixes where
  "prefixes_default =
     \<lparr>px_constrained = None, px_volatile = False, px_unaligned = None, px_tail = False,
      px_readonly = False,
      px_no = \<lparr>nc_typecheck = False, nc_rangecheck = False, nc_nullcheck = False\<rparr>\<rparr>"

definition prefixes_is_empty :: "Prefixes \<Rightarrow> bool" where
  "prefixes_is_empty p \<longleftrightarrow>
     px_constrained p = None \<and> \<not> px_volatile p \<and> px_unaligned p = None \<and> \<not> px_tail p
     \<and> \<not> px_readonly p \<and> no_checks_is_empty (px_no p)"

record FoldedInstruction =
  fi_instruction :: Instruction
  fi_prefixes :: Prefixes
  fi_first_offset :: u32

definition fi_end_offset :: "FoldedInstruction \<Rightarrow> u32" where
  "fi_end_offset f = next_offset (fi_instruction f)"

definition fi_total_size :: "FoldedInstruction \<Rightarrow> u32" where
  "fi_total_size f = fi_end_offset f - fi_first_offset f"

section \<open>Decoding one instruction\<close>

primrec read_deltas :: "nat \<Rightarrow> reader \<Rightarrow> (int list \<times> reader) result" where
  "read_deltas 0 r = Ok ([], r)"
| "read_deltas (Suc n) r =
     res_bind (reader_i32 r) (\<lambda>(d, r).
     res_bind (read_deltas n r) (\<lambda>(ds, r). Ok (d # ds, r)))"

definition operand_token_read :: "(Token \<Rightarrow> Operand) \<Rightarrow> reader \<Rightarrow> (Operand \<times> reader) result" where
  "operand_token_read c r = res_bind (reader_u32 r) (\<lambda>(w, r). Ok (c (Token w), r))"

definition decode_operand :: "OpCode \<Rightarrow> u32 \<Rightarrow> nat \<Rightarrow> reader \<Rightarrow> (Operand \<times> reader) result" where
  "decode_operand opcode offset start r =
    (case oi_operand (info opcode) of
       InlineNone \<Rightarrow>
         Ok (case (implied_var opcode, implied_i32 opcode) of
               (Some index, _) \<Rightarrow> O_Var index
             | (_, Some val) \<Rightarrow> O_I32 val
             | _ \<Rightarrow> O_None, r)
     | ShortInlineI \<Rightarrow>
         res_bind (reader_i8 r) (\<lambda>(val, r).
         Ok (if opcode = Op_LdcI4S then O_I32 val else O_I8 val, r))
     | InlineI \<Rightarrow> res_bind (reader_i32 r) (\<lambda>(v, r). Ok (O_I32 v, r))
     | InlineI8 \<Rightarrow> res_bind (reader_i64 r) (\<lambda>(v, r). Ok (O_I64 v, r))
     | ShortInlineR \<Rightarrow> res_bind (reader_f32 r) (\<lambda>(v, r). Ok (O_R32 v, r))
     | InlineR \<Rightarrow> res_bind (reader_f64 r) (\<lambda>(v, r). Ok (O_R64 v, r))
     | ShortInlineVar \<Rightarrow> res_bind (reader_u8 r) (\<lambda>(v, r). Ok (O_Var (ucast v), r))
     | InlineVar \<Rightarrow> res_bind (reader_u16 r) (\<lambda>(v, r). Ok (O_Var v, r))
     | ShortInlineBrTarget \<Rightarrow>
         res_bind (reader_i8 r) (\<lambda>(delta, r).
         let nxt = offset + of_nat (r_pos r)
         in Ok (O_BranchTarget (nxt + word_of_int delta), r))
     | InlineBrTarget \<Rightarrow>
         res_bind (reader_i32 r) (\<lambda>(delta, r).
         let nxt = offset + of_nat (r_pos r)
         in Ok (O_BranchTarget (nxt + word_of_int delta), r))
     | InlineSwitch \<Rightarrow>
         res_bind (reader_u32 r) (\<lambda>(n, r).
         let count = unat n in
         res_bind (reader_remaining r) (\<lambda>left.
         if left div 4 < count then Err (error_new Truncated start CTX_IL)
         else res_bind (read_deltas count r) (\<lambda>(deltas, r).
              let nxt = offset + of_nat (r_pos r)
              in Ok (O_Switch (map (\<lambda>d. nxt + word_of_int d) deltas), r))))
     | InlineMethod \<Rightarrow> operand_token_read O_Method r
     | InlineField \<Rightarrow> operand_token_read O_Field r
     | InlineType \<Rightarrow> operand_token_read O_Type r
     | InlineTok \<Rightarrow> operand_token_read O_Tok r
     | InlineSig \<Rightarrow> operand_token_read O_Sig r
     | InlineString \<Rightarrow> res_bind (reader_u32 r) (\<lambda>(w, r). Ok (O_String w, r)))"

definition decode_at :: "bytes \<Rightarrow> u32 \<Rightarrow> Instruction result" where
  "decode_at code offset =
     (let start = unat offset in
      res_bind (ok_or (get_from code start) (error_new OutOfRange start CTX_IL)) (\<lambda>rest.
      res_bind (map_err (\<lambda>e. error_rebase e start) (from_bytes rest)) (\<lambda>(opcode, opcode_size).
      let r = reader_new rest start CTX_IL in
      res_bind (reader_skip r opcode_size) (\<lambda>r.
      res_bind (decode_operand opcode offset start r) (\<lambda>(operand, r).
      Ok \<lparr>in_offset = offset, in_size = of_nat (r_pos r), in_opcode = opcode, in_operand = operand\<rparr>)))))"

section \<open>The raw stream\<close>

record InstructionIter =
  ii_code :: bytes
  ii_offset :: u32
  ii_done :: bool

definition instruction_iter_new :: "bytes \<Rightarrow> InstructionIter" where
  "instruction_iter_new code = \<lparr>ii_code = code, ii_offset = 0, ii_done = False\<rparr>"

definition instruction_iter_next :: "(InstructionIter, Instruction result) stepper" where
  "instruction_iter_next it =
     (if ii_done it \<or> length (ii_code it) \<le> unat (ii_offset it) then Ok None
      else case decode_at (ii_code it) (ii_offset it) of
             Ok i \<Rightarrow>
               (let nxt = next_offset i in
                if nxt \<le> ii_offset it then Ok (Some (Ok i, it\<lparr>ii_done := True\<rparr>))
                else Ok (Some (Ok i, it\<lparr>ii_offset := nxt\<rparr>)))
           | Err e \<Rightarrow> Ok (Some (Err e, it\<lparr>ii_done := True\<rparr>))
           | Panic \<Rightarrow> Panic)"

definition instructions :: "bytes \<Rightarrow> Instruction result list option result" where
  "instructions code = drain (length code) instruction_iter_next (instruction_iter_new code)"

section \<open>Prefixes\<close>

definition prefix_error :: "ErrorKind \<Rightarrow> u32 \<Rightarrow> error" where
  "prefix_error k at = error_new k (unat at) ''CIL prefix''"

text \<open>\<open>value as u8\<close> of the operand of \<open>unaligned.\<close> and \<open>no.\<close>\<close>

definition prefix_byte :: "Operand \<Rightarrow> u8" where
  "prefix_byte o' = (case o' of O_I8 v \<Rightarrow> word_of_int v | _ \<Rightarrow> 0)"

definition apply_prefix :: "Prefixes \<Rightarrow> Instruction \<Rightarrow> Prefixes result" where
  "apply_prefix p i =
     (let duplicate = Err (prefix_error Malformed (in_offset i)) in
      if in_opcode i = Op_Constrained then
        if px_constrained p \<noteq> None then duplicate
        else Ok (p\<lparr>px_constrained := operand_token (in_operand i)\<rparr>)
      else if in_opcode i = Op_Volatile then
        if px_volatile p then duplicate else Ok (p\<lparr>px_volatile := True\<rparr>)
      else if in_opcode i = Op_Unaligned then
        if px_unaligned p \<noteq> None then duplicate
        else Ok (p\<lparr>px_unaligned := Some (prefix_byte (in_operand i))\<rparr>)
      else if in_opcode i = Op_Tail then
        if px_tail p then duplicate else Ok (p\<lparr>px_tail := True\<rparr>)
      else if in_opcode i = Op_Readonly then
        if px_readonly p then duplicate else Ok (p\<lparr>px_readonly := True\<rparr>)
      else if in_opcode i = Op_No then
        if \<not> no_checks_is_empty (px_no p) then duplicate
        else let n = no_checks_from_bits (prefix_byte (in_operand i)) in
             if no_checks_is_empty n then duplicate else Ok (p\<lparr>px_no := n\<rparr>)
      else Err (prefix_error Unsupported (in_offset i)))"

definition allows_volatile :: "OpCode \<Rightarrow> bool" where
  "allows_volatile op \<longleftrightarrow> op \<in> set
     [Op_LdindI1, Op_LdindU1, Op_LdindI2, Op_LdindU2, Op_LdindI4, Op_LdindU4, Op_LdindI8,
      Op_LdindI, Op_LdindR4, Op_LdindR8, Op_LdindRef, Op_StindRef, Op_StindI1, Op_StindI2,
      Op_StindI4, Op_StindI8, Op_StindR4, Op_StindR8, Op_StindI, Op_Ldfld, Op_Stfld,
      Op_Ldsfld, Op_Stsfld, Op_Ldobj, Op_Stobj, Op_Initblk, Op_Cpblk]"

definition allows_unaligned :: "OpCode \<Rightarrow> bool" where
  "allows_unaligned op \<longleftrightarrow> op \<in> set
     [Op_LdindI1, Op_LdindU1, Op_LdindI2, Op_LdindU2, Op_LdindI4, Op_LdindU4, Op_LdindI8,
      Op_LdindI, Op_LdindR4, Op_LdindR8, Op_LdindRef, Op_StindRef, Op_StindI1, Op_StindI2,
      Op_StindI4, Op_StindI8, Op_StindR4, Op_StindR8, Op_StindI, Op_Ldfld, Op_Stfld,
      Op_Ldobj, Op_Stobj, Op_Initblk, Op_Cpblk]"

definition allows_no :: "OpCode \<Rightarrow> bool" where
  "allows_no op \<longleftrightarrow> op \<in> set
     [Op_Castclass, Op_Isinst, Op_Unbox, Op_UnboxAny, Op_Ldelema, Op_Ldelem, Op_LdelemI1,
      Op_LdelemU1, Op_LdelemI2, Op_LdelemU2, Op_LdelemI4, Op_LdelemU4, Op_LdelemI8,
      Op_LdelemI, Op_LdelemR4, Op_LdelemR8, Op_LdelemRef, Op_Stelem, Op_StelemI,
      Op_StelemI1, Op_StelemI2, Op_StelemI4, Op_StelemI8, Op_StelemR4, Op_StelemR8,
      Op_StelemRef, Op_Ldfld, Op_Stfld, Op_Callvirt, Op_Ldvirtftn, Op_Ldlen]"

definition check_prefix_targets :: "Prefixes \<Rightarrow> OpCode \<Rightarrow> u32 \<Rightarrow> unit result" where
  "check_prefix_targets p target at =
     (let bad = Err (prefix_error InvalidPrefixTarget at) in
      if px_constrained p \<noteq> None \<and> target \<notin> {Op_Callvirt, Op_Call, Op_Ldftn} then bad
      else if px_tail p \<and> target \<notin> {Op_Call, Op_Calli, Op_Callvirt} then bad
      else if px_readonly p \<and> target \<notin> {Op_Ldelema, Op_Call, Op_Callvirt} then bad
      else if px_volatile p \<and> \<not> allows_volatile target then bad
      else if px_unaligned p \<noteq> None \<and> \<not> allows_unaligned target then bad
      else if \<not> no_checks_is_empty (px_no p) \<and> \<not> allows_no target then bad
      else Ok ())"

section \<open>The folded stream\<close>

text \<open>How much an instruction iterator still has to yield.\<close>

definition ii_left :: "InstructionIter \<Rightarrow> nat" where
  "ii_left it = (if ii_done it then 0 else length (ii_code it) - unat (ii_offset it))"

lemma ii_next_left:
  "instruction_iter_next it = Ok (Some (x, it')) \<Longrightarrow> ii_left it' < ii_left it"
  by (auto simp: instruction_iter_next_def ii_left_def Let_def word_le_nat_alt not_le
      split: res.splits if_splits)

function folded_loop ::
    "Prefixes \<Rightarrow> u32 option \<Rightarrow> InstructionIter
       \<Rightarrow> (FoldedInstruction result \<times> InstructionIter) option result" where
  "folded_loop prefixes first_offset it =
     (case instruction_iter_next it of
        Panic \<Rightarrow> Panic
      | Err e \<Rightarrow> Err e
      | Ok None \<Rightarrow>
          (case first_offset of
             Some at \<Rightarrow> Ok (Some (Err (prefix_error InvalidPrefixTarget at), it\<lparr>ii_done := True\<rparr>))
           | None \<Rightarrow> Ok None)
      | Ok (Some (item, it')) \<Rightarrow>
          (case item of
             Panic \<Rightarrow> Panic
           | Err e \<Rightarrow> Ok (Some (Err e, it'))
           | Ok i \<Rightarrow>
              (let first = (case first_offset of Some f \<Rightarrow> f | None \<Rightarrow> in_offset i) in
               if is_prefix (in_opcode i) then
                 (case apply_prefix prefixes i of
                    Panic \<Rightarrow> Panic
                  | Err e \<Rightarrow> Ok (Some (Err e, it'\<lparr>ii_done := True\<rparr>))
                  | Ok prefixes' \<Rightarrow> folded_loop prefixes' (Some first) it')
               else
                 (case (if prefixes_is_empty prefixes then Ok ()
                        else check_prefix_targets prefixes (in_opcode i) first) of
                    Panic \<Rightarrow> Panic
                  | Err e \<Rightarrow> Ok (Some (Err e, it'\<lparr>ii_done := True\<rparr>))
                  | Ok _ \<Rightarrow>
                      Ok (Some (Ok \<lparr>fi_instruction = i, fi_prefixes = prefixes, fi_first_offset = first\<rparr>,
                                it'))))))"
  by pat_completeness auto
termination
  by (relation "measure (\<lambda>(p, f, it). ii_left it)") (auto dest: ii_next_left)

declare folded_loop.simps [simp del]

definition folded_iter_next :: "(InstructionIter, FoldedInstruction result) stepper" where
  "folded_iter_next it = folded_loop prefixes_default None it"

definition folded_instructions :: "bytes \<Rightarrow> FoldedInstruction result list option result" where
  "folded_instructions code = drain (length code) folded_iter_next (instruction_iter_new code)"

section \<open>The encoding of an instruction\<close>

definition opcode_bytes :: "OpCode \<Rightarrow> bytes" where
  "opcode_bytes op =
     (if oi_size (info op) = 1 then [fst (oi_encoding (info op))]
      else [fst (oi_encoding (info op)), snd (oi_encoding (info op))])"

lemma length_opcode_bytes: "length (opcode_bytes op) = oi_size (info op)" "1 \<le> oi_size (info op)"
  "oi_size (info op) \<le> 2"
  using encoding_shape [of op] by (auto simp: opcode_bytes_def)

lemma case_decode_Ok:
  "(case x of Some op \<Rightarrow> Ok (op, k) | None \<Rightarrow> Err e) = Ok (op', n) \<longleftrightarrow> x = Some op' \<and> n = k"
  by (cases x) auto

lemma from_bytes_iff:
  "from_bytes bs = Ok (op, n) \<longleftrightarrow> n = oi_size (info op) \<and> (\<exists>ys. bs = opcode_bytes op @ ys)"
proof (cases bs)
  case (Cons b cs)
  show ?thesis
  proof (cases "b = 0xFE")
    case True
    show ?thesis
      using True Cons encoding_shape [of op]
      by (cases cs) (auto simp: from_bytes_def get_at_def case_decode_Ok decode_two_iff opcode_bytes_def)
  next
    case False
    then show ?thesis
      using Cons encoding_shape [of op]
      by (auto simp: from_bytes_def get_at_def case_decode_Ok decode_one_iff opcode_bytes_def)
  qed
qed (auto simp: from_bytes_def get_at_def opcode_bytes_def)

lemma no_panic_from_bytes [no_panic_intro]: "no_panic (from_bytes bs)"
  by (auto simp: from_bytes_def res_iff split: if_splits option.splits)

definition implied_operand :: "OpCode \<Rightarrow> Operand" where
  "implied_operand op =
     (case (implied_var op, implied_i32 op) of
        (Some index, _) \<Rightarrow> O_Var index
      | (_, Some val) \<Rightarrow> O_I32 val
      | _ \<Rightarrow> O_None)"

text \<open>
  The operand bytes ECMA-335 lays down for a decoded operand, with branch targets relative to
  the next instruction; \<open>None\<close> where the opcode cannot carry the operand.
\<close>

definition operand_encoding :: "OpCode \<Rightarrow> u32 \<Rightarrow> Operand \<Rightarrow> bytes option" where
  "operand_encoding op nxt o' =
    (case oi_operand (info op) of
       InlineNone \<Rightarrow> if o' = implied_operand op then Some [] else None
     | ShortInlineI \<Rightarrow>
         (case o' of
            O_I32 v \<Rightarrow> if op = Op_LdcI4S \<and> i8_ok v then Some [word_of_int v] else None
          | O_I8 v \<Rightarrow> if op \<noteq> Op_LdcI4S \<and> i8_ok v then Some [word_of_int v] else None
          | _ \<Rightarrow> None)
     | InlineI \<Rightarrow> (case o' of O_I32 v \<Rightarrow> if i32_ok v then Some (le4 (word_of_int v)) else None | _ \<Rightarrow> None)
     | InlineI8 \<Rightarrow> (case o' of O_I64 v \<Rightarrow> if i64_ok v then Some (le8 (word_of_int v)) else None | _ \<Rightarrow> None)
     | ShortInlineR \<Rightarrow> (case o' of O_R32 w \<Rightarrow> Some (le4 w) | _ \<Rightarrow> None)
     | InlineR \<Rightarrow> (case o' of O_R64 w \<Rightarrow> Some (le8 w) | _ \<Rightarrow> None)
     | ShortInlineVar \<Rightarrow>
         (case o' of O_Var v \<Rightarrow> if v < 256 then Some [ucast v] else None | _ \<Rightarrow> None)
     | InlineVar \<Rightarrow> (case o' of O_Var v \<Rightarrow> Some (le2 v) | _ \<Rightarrow> None)
     | ShortInlineBrTarget \<Rightarrow>
         (case o' of O_BranchTarget t \<Rightarrow>
            if i8_ok (sint (t - nxt)) then Some [ucast (t - nxt)] else None | _ \<Rightarrow> None)
     | InlineBrTarget \<Rightarrow> (case o' of O_BranchTarget t \<Rightarrow> Some (le4 (t - nxt)) | _ \<Rightarrow> None)
     | InlineSwitch \<Rightarrow>
         (case o' of O_Switch ts \<Rightarrow>
            if length ts \<le> u32_max
            then Some (le4 (of_nat (length ts)) @ concat (map (\<lambda>t. le4 (t - nxt)) ts)) else None
          | _ \<Rightarrow> None)
     | InlineMethod \<Rightarrow> (case o' of O_Method t \<Rightarrow> Some (le4 (token_value t)) | _ \<Rightarrow> None)
     | InlineField \<Rightarrow> (case o' of O_Field t \<Rightarrow> Some (le4 (token_value t)) | _ \<Rightarrow> None)
     | InlineType \<Rightarrow> (case o' of O_Type t \<Rightarrow> Some (le4 (token_value t)) | _ \<Rightarrow> None)
     | InlineTok \<Rightarrow> (case o' of O_Tok t \<Rightarrow> Some (le4 (token_value t)) | _ \<Rightarrow> None)
     | InlineSig \<Rightarrow> (case o' of O_Sig t \<Rightarrow> Some (le4 (token_value t)) | _ \<Rightarrow> None)
     | InlineString \<Rightarrow> (case o' of O_String w \<Rightarrow> Some (le4 w) | _ \<Rightarrow> None))"

definition assemble :: "Instruction \<Rightarrow> bytes option" where
  "assemble i =
     map_option (\<lambda>bs. opcode_bytes (in_opcode i) @ bs)
       (operand_encoding (in_opcode i) (next_offset i) (in_operand i))"

text \<open>Reading the deltas of a switch.\<close>

lemma read_deltas_Ok:
  assumes "reader_wf r"
  shows "read_deltas n r = Ok (ds, r') \<longleftrightarrow> length ds = n \<and> list_all i32_ok ds
     \<and> (\<exists>ys. drop (r_pos r) (r_data r) = concat (map (\<lambda>d. le4 (word_of_int d)) ds) @ ys)
     \<and> r' = reader_adv r (4 * n)"
  using assms
proof (induction n arbitrary: r ds)
  case (Suc n)
  show ?case
  proof
    assume "read_deltas (Suc n) r = Ok (ds, r')"
    then obtain d r1 ds' where d: "reader_i32 r = Ok (d, r1)" and ds: "read_deltas n r1 = Ok (ds', r')"
      "ds = d # ds'" by (auto simp: res_iff)
    from d obtain ys where ys: "drop (r_pos r) (r_data r) = le4 (word_of_int d) @ ys"
      and k: "i32_ok d" "r1 = reader_adv r 4" using Suc.prems by (auto simp: cd_i32.Ok_enc)
    have w: "reader_wf r1" and dr: "drop (r_pos r1) (r_data r1) = ys"
      using adv_wf [OF Suc.prems ys] drop_adv [OF ys] k by simp_all
    show "length ds = Suc n \<and> list_all i32_ok ds
        \<and> (\<exists>ys. drop (r_pos r) (r_data r) = concat (map (\<lambda>d. le4 (word_of_int d)) ds) @ ys)
        \<and> r' = reader_adv r (4 * Suc n)"
      using ds Suc.IH [OF w, of ds'] k ys dr by (auto simp: ac_simps)
  next
    assume *: "length ds = Suc n \<and> list_all i32_ok ds
        \<and> (\<exists>ys. drop (r_pos r) (r_data r) = concat (map (\<lambda>d. le4 (word_of_int d)) ds) @ ys)
        \<and> r' = reader_adv r (4 * Suc n)"
    then obtain d ds' ys where ds: "ds = d # ds'" "length ds' = n"
      and ys: "drop (r_pos r) (r_data r) = le4 (word_of_int d) @ (concat (map (\<lambda>d. le4 (word_of_int d)) ds') @ ys)"
      by (cases ds) auto
    have d: "reader_i32 r = Ok (d, reader_adv r 4)"
      using * ys ds Suc.prems by (auto simp: cd_i32.Ok_enc)
    have w: "reader_wf (reader_adv r 4)"
      and dr: "drop (r_pos (reader_adv r 4)) (r_data (reader_adv r 4))
          = concat (map (\<lambda>d. le4 (word_of_int d)) ds') @ ys"
      using adv_wf [OF Suc.prems ys] drop_adv [OF ys] by simp_all
    have "read_deltas n (reader_adv r 4) = Ok (ds', r')"
      unfolding Suc.IH [OF w] using * ds dr by (auto simp: ac_simps)
    with d ds show "read_deltas (Suc n) r = Ok (ds, r')" by simp
  qed
qed auto

lemma read_deltas_total: "reader_wf r \<Longrightarrow> no_panic (read_deltas n r)"
  by (induction n arbitrary: r) (auto simp: res_iff rd_i32.total dest: rd_i32.keeps)

lemma delta_shift:
  "(\<exists>ds. list_all i32_ok ds \<and> ts = map (\<lambda>d. nxt + word_of_int d) ds
      \<and> bs = concat (map (\<lambda>d. le4 (word_of_int d)) ds) \<and> length ds = n)
   \<longleftrightarrow> bs = concat (map (\<lambda>t. le4 (t - nxt)) ts) \<and> length ts = (n :: nat)"
  (is "?l \<longleftrightarrow> ?r")
proof
  assume ?l
  then show ?r by (auto simp: o_def)
next
  assume r: ?r
  show ?l
  proof (intro exI conjI)
    show "list_all i32_ok (map (\<lambda>t. sint (t - nxt)) ts)"
      using sint_eq_iff(2) by (auto simp: list_all_iff)
    show "ts = map (\<lambda>d. nxt + word_of_int d) (map (\<lambda>t. sint (t - nxt)) ts)"
      by (simp add: o_def)
    show "bs = concat (map (\<lambda>d. le4 (word_of_int d)) (map (\<lambda>t. sint (t - nxt)) ts))"
      using r by (simp add: o_def)
  qed (use r in simp)
qed

lemma byte_of_short_delta:
  "(\<exists>d. i8_ok d \<and> t = nxt + word_of_int d \<and> b = word_of_int d)
     \<longleftrightarrow> i8_ok (sint (t - nxt :: u32)) \<and> b = (ucast (t - nxt) :: u8)"
  (is "?l \<longleftrightarrow> ?r")
proof
  assume ?l
  then obtain d where d: "i8_ok d" "t - nxt = word_of_int d" "b = word_of_int d" by auto
  then have "sint (t - nxt) = d" by (simp add: sint_eq_iff i8_ok_def i32_ok_def)
  then show ?r using d by (simp add: unsigned_of_int ucast_eq word_of_int_eq_iff)
next
  assume r: ?r
  show ?l
  proof (intro exI conjI)
    show "i8_ok (sint (t - nxt))" using r by simp
    show "t = nxt + word_of_int (sint (t - nxt))" by simp
    have "(ucast (t - nxt) :: u8) = word_of_int (sint (t - nxt))"
      by (rule bit_word_eqI) (simp add: bit_unsigned_iff bit_signed_iff)
    then show "b = word_of_int (sint (t - nxt))" using r by simp
  qed
qed

lemma ucast_var: "(\<exists>b :: u8. v = ucast b \<and> x = b) \<longleftrightarrow> (v :: u16) < 256 \<and> x = ucast v"
proof
  assume "\<exists>b :: u8. v = ucast b \<and> x = b"
  then have v: "v = ucast x" by blast
  have "v < 2 ^ 8" unfolding v by (rule less_pow_bits) (auto simp: bit_unsigned_iff)
  moreover have "x = ucast v" unfolding v by (rule bit_word_eqI) (simp add: bit_unsigned_iff)
  ultimately show "v < 256 \<and> x = ucast v" by simp
next
  assume a: "v < 256 \<and> x = ucast v"
  then have "v < 2 ^ 8" by simp
  then have "ucast (ucast v :: u8) = v"
    by (intro bit_word_eqI) (use bit_less_pow [of v 8] in \<open>fastforce simp: bit_unsigned_iff not_less [symmetric]\<close>)
  with a show "\<exists>b :: u8. v = ucast b \<and> x = b" by auto
qed

text \<open>
  The operand decoder accepts exactly the encodings: the step from an instruction to its bytes
  and back, for every opcode.
\<close>

abbreviation operand_reads :: "OpCode \<Rightarrow> u32 \<Rightarrow> reader \<Rightarrow> Operand \<Rightarrow> reader \<Rightarrow> bool" where
  "operand_reads op off r o' r' \<equiv>
     (\<exists>bs ys. operand_encoding op (off + of_nat (r_pos r + length bs)) o' = Some bs
        \<and> drop (r_pos r) (r_data r) = bs @ ys \<and> r' = reader_adv r (length bs))"

lemma operand_reads_fixed:
  assumes "\<And>nxt bs. operand_encoding op nxt o' = Some bs \<Longrightarrow> length bs = n"
  shows "operand_reads op off r o' r' \<longleftrightarrow>
     (\<exists>bs ys. operand_encoding op (off + of_nat (r_pos r + n)) o' = Some bs
        \<and> drop (r_pos r) (r_data r) = bs @ ys \<and> r' = reader_adv r n)"
  using assms by metis

lemma decode_operand_simple:
  assumes w: "reader_wf r"
    and k: "oi_operand (info op) \<noteq> InlineSwitch" "oi_operand (info op) \<noteq> ShortInlineBrTarget"
      "oi_operand (info op) \<noteq> InlineBrTarget" "oi_operand (info op) \<noteq> ShortInlineVar"
  shows "decode_operand op off start r = Ok (o', r') \<longleftrightarrow> operand_reads op off r o' r'"
proof -
  have tok: "operand_token_read c r = Ok (x, r') \<longleftrightarrow>
      (\<exists>t ys. x = c t \<and> drop (r_pos r) (r_data r) = le4 (token_value t) @ ys \<and> r' = reader_adv r 4)"
    for c x using w by (auto simp: operand_token_read_def res_iff cd_u32.Ok_enc)
  show ?thesis
    using k w
    by (cases "oi_operand (info op)"; cases o')
      (auto simp: decode_operand_def operand_encoding_def res_iff codec_iff tok implied_operand_def
        split: option.splits)
qed

lemma decode_operand_short_var:
  assumes w: "reader_wf r" and k: "oi_operand (info op) = ShortInlineVar"
  shows "decode_operand op off start r = Ok (o', r') \<longleftrightarrow> operand_reads op off r o' r'"
proof -
  have "decode_operand op off start r = Ok (o', r') \<longleftrightarrow>
      (\<exists>v x ys. o' = O_Var v \<and> (\<exists>b. v = ucast b \<and> x = b) \<and> drop (r_pos r) (r_data r) = [x] @ ys
         \<and> r' = reader_adv r 1)"
    using w by (auto simp: decode_operand_def k res_iff cd_u8.Ok_enc)
  also have "\<dots> \<longleftrightarrow> operand_reads op off r o' r'"
    unfolding ucast_var by (cases o') (auto simp: operand_encoding_def k)
  finally show ?thesis .
qed

lemma decode_operand_short_branch:
  assumes w: "reader_wf r" and k: "oi_operand (info op) = ShortInlineBrTarget"
  shows "decode_operand op off start r = Ok (o', r') \<longleftrightarrow> operand_reads op off r o' r'"
proof -
  have "decode_operand op off start r = Ok (o', r') \<longleftrightarrow>
      (\<exists>t b ys. o' = O_BranchTarget t
         \<and> (\<exists>d. i8_ok d \<and> t = (off + of_nat (r_pos r + 1)) + word_of_int d \<and> b = word_of_int d)
         \<and> drop (r_pos r) (r_data r) = [b] @ ys \<and> r' = reader_adv r 1)"
    using w by (auto simp: decode_operand_def k res_iff cd_i8.Ok_enc Let_def)
  also have "\<dots> \<longleftrightarrow> operand_reads op off r o' r'"
  proof (subst operand_reads_fixed [where n = 1])
    show "operand_encoding op nxt o' = Some bs \<Longrightarrow> length bs = 1" for nxt bs
      by (cases o') (auto simp: operand_encoding_def k split: if_splits)
  qed (unfold byte_of_short_delta, cases o', auto simp: operand_encoding_def k)
  finally show ?thesis .
qed

lemma word_of_i32: "(\<exists>d. i32_ok d \<and> t = nxt + word_of_int d \<and> b = word_of_int d) \<longleftrightarrow> (b :: u32) = t - nxt"
  using sint_eq_iff(2) [of b "sint b"] by (auto intro!: exI [of _ "sint b"])

lemma decode_operand_branch:
  assumes w: "reader_wf r" and k: "oi_operand (info op) = InlineBrTarget"
  shows "decode_operand op off start r = Ok (o', r') \<longleftrightarrow> operand_reads op off r o' r'"
proof -
  have "decode_operand op off start r = Ok (o', r') \<longleftrightarrow>
      (\<exists>t b ys. o' = O_BranchTarget t
         \<and> (\<exists>d. i32_ok d \<and> t = (off + of_nat (r_pos r + 4)) + word_of_int d \<and> b = word_of_int d)
         \<and> drop (r_pos r) (r_data r) = le4 b @ ys \<and> r' = reader_adv r 4)"
    using w by (auto simp: decode_operand_def k res_iff cd_i32.Ok_enc Let_def)
  also have "\<dots> \<longleftrightarrow> operand_reads op off r o' r'"
  proof (subst operand_reads_fixed [where n = 4])
    show "operand_encoding op nxt o' = Some bs \<Longrightarrow> length bs = 4" for nxt bs
      by (cases o') (auto simp: operand_encoding_def k split: if_splits)
  qed (unfold word_of_i32, cases o', auto simp: operand_encoding_def k)
  finally show ?thesis .
qed

lemma length_concat_le4 [simp]: "length (concat (map (\<lambda>t. le4 (f t)) ts)) = 4 * length ts"
  by (induction ts) auto

lemma decode_operand_switch:
  assumes w: "reader_wf r" and k: "oi_operand (info op) = InlineSwitch"
  shows "decode_operand op off start r = Ok (o', r') \<longleftrightarrow> operand_reads op off r o' r'"
proof -
  let ?nxt = "\<lambda>n. off + of_nat (r_pos r + 4 + 4 * n)"
  have *: "decode_operand op off start r = Ok (o', r') \<longleftrightarrow>
      (\<exists>n r1 left ds. reader_u32 r = Ok (n, r1) \<and> reader_remaining r1 = Ok left \<and> \<not> left div 4 < unat n
         \<and> read_deltas (unat n) r1 = Ok (ds, r')
         \<and> o' = O_Switch (map (\<lambda>d. (off + of_nat (r_pos r')) + word_of_int d) ds))"
    by (auto simp: decode_operand_def k res_iff Let_def)
  show ?thesis
  proof
    assume "decode_operand op off start r = Ok (o', r')"
    then obtain n r1 ds where n: "reader_u32 r = Ok (n, r1)" and ds: "read_deltas (unat n) r1 = Ok (ds, r')"
      and o': "o' = O_Switch (map (\<lambda>d. (off + of_nat (r_pos r')) + word_of_int d) ds)" unfolding * by blast
    from n w obtain ys where ys: "drop (r_pos r) (r_data r) = le4 n @ ys" and r1: "r1 = reader_adv r 4"
      by (auto simp: cd_u32.Ok_enc)
    have w1: "reader_wf r1" and d1: "drop (r_pos r1) (r_data r1) = ys"
      using adv_wf [OF w ys] drop_adv [OF ys] r1 by simp_all
    from ds [unfolded read_deltas_Ok [OF w1]] d1 obtain zs where l: "length ds = unat n" "list_all i32_ok ds"
      and zs: "ys = concat (map (\<lambda>d. le4 (word_of_int d)) ds) @ zs" and r': "r' = reader_adv r1 (4 * unat n)"
      by blast
    let ?ts = "map (\<lambda>d. ?nxt (unat n) + word_of_int d) ds"
    have c: "concat (map (\<lambda>d. le4 (word_of_int d)) ds) = concat (map (\<lambda>t. le4 (t - ?nxt (unat n))) ?ts)"
      by (simp add: o_def)
    have o2: "o' = O_Switch ?ts" using o' r' r1 by (simp add: ac_simps)
    have le: "length ?ts \<le> u32_max" using l(1) unsigned_less [of n, where ?'a = nat] by (simp add: u32_max_def)
    have len: "operand_encoding op nxt o' = Some bs \<Longrightarrow> length bs = 4 + 4 * unat n" for nxt bs
      using l(1) by (auto simp: operand_encoding_def k o2 o_def split: if_splits)
    show "operand_reads op off r o' r'"
    proof (subst operand_reads_fixed [OF len], assumption, intro exI conjI)
      show "operand_encoding op (off + of_nat (r_pos r + (4 + 4 * unat n))) o'
          = Some (le4 n @ concat (map (\<lambda>d. le4 (word_of_int d)) ds))"
        unfolding o2 using le l(1) by (simp add: operand_encoding_def k c ac_simps)
      show "drop (r_pos r) (r_data r) = (le4 n @ concat (map (\<lambda>d. le4 (word_of_int d)) ds)) @ zs"
        using ys zs by simp
      show "r' = reader_adv r (4 + 4 * unat n)" using r' r1 by simp
    qed
  next
    assume "operand_reads op off r o' r'"
    then obtain ts where o': "o' = O_Switch ts" and l: "length ts \<le> u32_max"
      by (cases o') (auto simp: operand_encoding_def k split: if_splits)
    have len: "operand_encoding op nxt o' = Some bs \<Longrightarrow> length bs = 4 + 4 * length ts" for nxt bs
      by (auto simp: operand_encoding_def k o' split: if_splits)
    have fx: "\<exists>bs ys. operand_encoding op (off + of_nat (r_pos r + (4 + 4 * length ts))) o' = Some bs
        \<and> drop (r_pos r) (r_data r) = bs @ ys \<and> r' = reader_adv r (4 + 4 * length ts)"
      using \<open>operand_reads op off r o' r'\<close> len by metis
    have "?nxt (length ts) = off + of_nat (r_pos r + (4 + 4 * length ts))" by (simp only: add.assoc)
    then have en: "operand_encoding op (off + of_nat (r_pos r + (4 + 4 * length ts))) o'
        = Some (le4 (of_nat (length ts)) @ concat (map (\<lambda>t. le4 (t - ?nxt (length ts))) ts))"
      using l by (simp only: operand_encoding_def k o' OperandKind.case Operand.case if_True)
    from fx obtain zs where
      d: "drop (r_pos r) (r_data r) = le4 (of_nat (length ts))
           @ (concat (map (\<lambda>t. le4 (t - ?nxt (length ts))) ts) @ zs)"
      and r': "r' = reader_adv r (4 + 4 * length ts)"
      unfolding en option.inject append_assoc [symmetric] by blast
    define r1 where "r1 = reader_adv r 4"
    have n: "unat (of_nat (length ts) :: u32) = length ts"
      using l by (simp add: unat_of_nat take_bit_nat_eq_self u32_max_def)
    have w1: "reader_wf r1"
      and d1: "drop (r_pos r1) (r_data r1) = concat (map (\<lambda>t. le4 (t - ?nxt (length ts))) ts) @ zs"
      using adv_wf [OF w d] drop_adv [OF d] by (simp_all add: r1_def)
    obtain ds where ds: "list_all i32_ok ds" "ts = map (\<lambda>d. ?nxt (length ts) + word_of_int d) ds"
      "concat (map (\<lambda>t. le4 (t - ?nxt (length ts))) ts) = concat (map (\<lambda>d. le4 (word_of_int d)) ds)"
      "length ds = length ts"
      using delta_shift [of ts "?nxt (length ts)" "concat (map (\<lambda>t. le4 (t - ?nxt (length ts))) ts)" "length ts"]
      by metis
    have "reader_u32 r = Ok (of_nat (length ts), r1)" using w d by (auto simp: cd_u32.Ok_enc r1_def)
    moreover have "reader_remaining r1 = Ok (length (r_data r1) - r_pos r1)"
      using w1 by (rule reader_remaining_wf)
    moreover have "\<not> (length (r_data r1) - r_pos r1) div 4 < unat (of_nat (length ts) :: u32)"
      using arg_cong [OF d1, of length] by (simp add: n)
    moreover have "read_deltas (unat (of_nat (length ts) :: u32)) r1 = Ok (ds, r')"
      unfolding read_deltas_Ok [OF w1] n using ds d1 r' by (auto simp: r1_def ac_simps)
    moreover have "o' = O_Switch (map (\<lambda>d. (off + of_nat (r_pos r')) + word_of_int d) ds)"
      using o' ds(2) r' by (simp add: ac_simps)
    ultimately show "decode_operand op off start r = Ok (o', r')" unfolding * by blast
  qed
qed

lemma decode_operand_iff:
  "reader_wf r \<Longrightarrow> decode_operand op off start r = Ok (o', r') \<longleftrightarrow> operand_reads op off r o' r'"
  using decode_operand_simple decode_operand_short_var decode_operand_short_branch
    decode_operand_branch decode_operand_switch by metis

lemma decode_operand_total: "reader_wf r \<Longrightarrow> no_panic (decode_operand op off start r)"
  by (cases "oi_operand (info op)")
    (auto simp: decode_operand_def res_iff Let_def read_total operand_token_read_def
      reader_remaining_wf dest: rd_u32.keeps split: if_splits, metis rd_u32.keeps read_deltas_total)

section \<open>Decoding is exact\<close>

lemma decode_at_total [no_panic_intro]:
  assumes "slice_ok code"
  shows "no_panic (decode_at code off)"
proof -
  have "slice_ok (drop n code)" for n using assms by simp
  then show ?thesis
    by (auto simp: decode_at_def res_iff Let_def no_panic_from_bytes decode_operand_total
        reader_wf_def dest!: decode_operand_total [rotated] split: if_splits)
qed

lemma decode_at_exact:
  assumes "slice_ok code"
  shows "decode_at code off = Ok i \<longleftrightarrow> in_offset i = off
     \<and> (\<exists>bs ys. assemble i = Some bs \<and> drop (unat off) code = bs @ ys \<and> in_size i = of_nat (length bs))"
    (is "_ \<longleftrightarrow> ?r")
proof -
  let ?rest = "drop (unat off) code" and ?R = "\<lambda>op. reader_adv (reader_new (drop (unat off) code) (unat off) CTX_IL) (oi_size (info op))"
  have sl: "slice_ok ?rest" using assms by simp
  have w: "reader_wf (?R op)" and dr: "drop (r_pos (?R op)) (r_data (?R op)) = ys" if "?rest = opcode_bytes op @ ys" for op ys
    using adv_wf [of "reader_new ?rest (unat off) CTX_IL" "opcode_bytes op" ys]
      drop_adv [of "reader_new ?rest (unat off) CTX_IL" "opcode_bytes op" ys] that sl
    by (simp_all add: length_opcode_bytes(1))
  have le: "oi_size (info op) \<le> length code - unat off" if "?rest = opcode_bytes op @ ys" for op ys
    using arg_cong [OF that, of length] by (simp add: length_opcode_bytes(1))
  have "decode_at code off = Ok i \<longleftrightarrow>
     (\<exists>op o' r'. unat off \<le> length code \<and> (\<exists>ys. ?rest = opcode_bytes op @ ys)
        \<and> decode_operand op off (unat off) (?R op) = Ok (o', r')
        \<and> i = \<lparr>in_offset = off, in_size = of_nat (r_pos r'), in_opcode = op, in_operand = o'\<rparr>)"
    using sl
    by (auto simp: decode_at_def res_iff Let_def from_bytes_iff dest: le)
  also have "\<dots> \<longleftrightarrow> ?r"
  proof
    assume "\<exists>op o' r'. unat off \<le> length code \<and> (\<exists>ys. ?rest = opcode_bytes op @ ys)
        \<and> decode_operand op off (unat off) (?R op) = Ok (o', r')
        \<and> i = \<lparr>in_offset = off, in_size = of_nat (r_pos r'), in_opcode = op, in_operand = o'\<rparr>"
    then obtain op o' r' ys where ys: "?rest = opcode_bytes op @ ys"
      and d: "decode_operand op off (unat off) (?R op) = Ok (o', r')"
      and i: "i = \<lparr>in_offset = off, in_size = of_nat (r_pos r'), in_opcode = op, in_operand = o'\<rparr>" by blast
    from d [unfolded decode_operand_iff [OF w [OF ys]]] obtain bs zs where
      *: "operand_encoding op (off + of_nat (r_pos (?R op) + length bs)) o' = Some bs"
      "drop (r_pos (?R op)) (r_data (?R op)) = bs @ zs" "r' = reader_adv (?R op) (length bs)" by blast
    have "assemble i = Some (opcode_bytes op @ bs)"
      using * by (simp add: assemble_def i next_offset_def)
    moreover have "?rest = (opcode_bytes op @ bs) @ zs" using ys dr [OF ys] *(2) by simp
    moreover have "in_size i = of_nat (length (opcode_bytes op @ bs))"
      using *(3) by (simp add: i length_opcode_bytes(1))
    ultimately show ?r using i by auto
  next
    assume ?r
    then obtain bs ys where i: "in_offset i = off" "in_size i = of_nat (length bs)"
      and a: "assemble i = Some bs" and ys: "?rest = bs @ ys" by blast
    from a obtain os where os: "operand_encoding (in_opcode i) (next_offset i) (in_operand i) = Some os"
      and bs: "bs = opcode_bytes (in_opcode i) @ os" by (auto simp: assemble_def)
    have ys': "?rest = opcode_bytes (in_opcode i) @ (os @ ys)" using ys bs by simp
    have nx: "next_offset i = off + of_nat (r_pos (?R (in_opcode i)) + length os)"
      using i bs by (simp add: next_offset_def length_opcode_bytes(1))
    have "decode_operand (in_opcode i) off (unat off) (?R (in_opcode i))
        = Ok (in_operand i, reader_adv (?R (in_opcode i)) (length os))"
      unfolding decode_operand_iff [OF w [OF ys']] using os [unfolded nx] dr [OF ys'] by blast
    moreover have "unat off \<le> length code"
    proof (rule ccontr)
      assume "\<not> unat off \<le> length code"
      then have "length ?rest = 0" by simp
      then show False using ys' length_opcode_bytes [of "in_opcode i"] by simp
    qed
    moreover have "i = \<lparr>in_offset = off,
        in_size = of_nat (r_pos (reader_adv (?R (in_opcode i)) (length os))),
        in_opcode = in_opcode i, in_operand = in_operand i\<rparr>"
      using i bs by (simp add: length_opcode_bytes(1))
    ultimately show "\<exists>op o' r'. unat off \<le> length code \<and> (\<exists>ys. ?rest = opcode_bytes op @ ys)
        \<and> decode_operand op off (unat off) (?R op) = Ok (o', r')
        \<and> i = \<lparr>in_offset = off, in_size = of_nat (r_pos r'), in_opcode = op, in_operand = o'\<rparr>"
      using ys' by blast
  qed
  finally show ?thesis .
qed

lemma slice_ok_u32: "length code \<le> u32_max \<Longrightarrow> slice_ok code"
  by (simp add: slice_ok_def isize_max_def u32_max_def)

lemma assemble_nonempty: "assemble i = Some bs \<Longrightarrow> 0 < length bs"
  using length_opcode_bytes(2) [of "in_opcode i"] length_opcode_bytes(1) [of "in_opcode i"]
  by (auto simp: assemble_def)

lemma decode_at_bounds:
  assumes "length code \<le> u32_max" and "decode_at code off = Ok i"
  shows "in_offset i = off" "0 < unat (in_size i)" "unat off + unat (in_size i) \<le> length code"
    "unat (next_offset i) = unat off + unat (in_size i)"
proof -
  from assms(2) [unfolded decode_at_exact [OF slice_ok_u32 [OF assms(1)]]] obtain bs ys where
    *: "in_offset i = off" "assemble i = Some bs" "drop (unat off) code = bs @ ys"
    "in_size i = of_nat (length bs)" by blast
  have l: "length code - unat off = length bs + length ys" using arg_cong [OF *(3), of length] by simp
  with assemble_nonempty [OF *(2)] have le: "unat off + length bs \<le> length code" by linarith
  then have u: "unat (in_size i) = length bs"
    using *(4) assms(1) by (simp add: unat_of_nat take_bit_nat_eq_self u32_max_def)
  show "in_offset i = off" by fact
  show "0 < unat (in_size i)" "unat off + unat (in_size i) \<le> length code"
    using u le assemble_nonempty [OF *(2)] by simp_all
  then show "unat (next_offset i) = unat off + unat (in_size i)"
    using assms(1) by (simp add: next_offset_def *(1) unat_word_ariths u32_max_def)
qed

section \<open>The raw stream\<close>

lemma ii_next_code: "instruction_iter_next it = Ok (Some (x, it')) \<Longrightarrow> ii_code it' = ii_code it"
  by (auto simp: instruction_iter_next_def Let_def split: res.splits if_splits)

lemma ii_next_total: "slice_ok (ii_code it) \<Longrightarrow> \<exists>r. instruction_iter_next it = Ok r"
  using decode_at_total [of "ii_code it" "ii_offset it"]
  by (auto simp: instruction_iter_next_def Let_def split: res.splits if_splits)

interpretation raw: shrinking_iter instruction_iter_next "\<lambda>it. slice_ok (ii_code it)" ii_left
  by unfold_locales (auto simp: ii_next_total ii_next_left dest: ii_next_code)

text \<open>After the last item of a stream the iterator is exhausted.\<close>

lemma ii_next_done: "ii_done it \<Longrightarrow> instruction_iter_next it = Ok None"
  by (simp add: instruction_iter_next_def)

lemma ii_next_items:
  "instruction_iter_next it = Ok (Some (x, it')) \<Longrightarrow>
     (\<exists>e. x = Err e \<and> ii_done it' \<and> decode_at (ii_code it) (ii_offset it) = Err e)
   \<or> (\<exists>i. x = Ok i \<and> decode_at (ii_code it) (ii_offset it) = Ok i)"
  by (auto simp: instruction_iter_next_def Let_def split: res.splits if_splits)

definition span_start :: "Instruction \<Rightarrow> nat" where "span_start i = unat (in_offset i)"
definition span_size :: "Instruction \<Rightarrow> nat" where "span_size i = unat (in_size i)"

text \<open>
  What a stream is: instructions that tile the code from the start position, each the decoding
  of its offset, up to the end of the code or up to one decoding error.
\<close>

definition raw_stream :: "bytes \<Rightarrow> nat \<Rightarrow> Instruction list \<Rightarrow> Instruction result list \<Rightarrow> nat \<Rightarrow> bool" where
  "raw_stream code p is t q \<longleftrightarrow>
     tiles span_start span_size p is q \<and> q \<le> length code
     \<and> list_all (\<lambda>i. decode_at code (in_offset i) = Ok i) is
     \<and> (t = [] \<and> q = length code \<or> (\<exists>e. t = [Err e] \<and> decode_at code (of_nat q) = Err e))"

lemma raw_tiled:
  assumes "length (ii_code it) \<le> u32_max" and "\<not> ii_done it"
    and "unat (ii_offset it) \<le> length (ii_code it)" and "ii_left it \<le> n"
  shows "\<exists>is t q. drain n instruction_iter_next it = Ok (Some (map Ok is @ t))
     \<and> raw_stream (ii_code it) (unat (ii_offset it)) is t q"
  using assms
proof (induction n arbitrary: it)
  case 0
  then have e: "unat (ii_offset it) = length (ii_code it)" by (simp add: ii_left_def)
  then have "drain 0 instruction_iter_next it = Ok (Some [])" by (simp add: instruction_iter_next_def)
  moreover have "raw_stream (ii_code it) (unat (ii_offset it)) [] [] (length (ii_code it))"
    using e by (simp add: raw_stream_def)
  ultimately show ?case by (metis append_Nil list.map(1))
next
  case (Suc n)
  let ?code = "ii_code it" and ?off = "ii_offset it"
  show ?case
  proof (cases "length ?code \<le> unat ?off")
    case True
    then have "drain (Suc n) instruction_iter_next it = Ok (Some [])"
      by (simp add: instruction_iter_next_def)
    moreover have "raw_stream ?code (unat ?off) [] [] (length ?code)"
      using True Suc.prems(3) by (simp add: raw_stream_def)
    ultimately show ?thesis by (metis append_Nil list.map(1))
  next
    case False
    show ?thesis
    proof (cases "decode_at ?code ?off")
      case (Ok i)
      note b = decode_at_bounds [OF Suc.prems(1) Ok]
      define it1 where "it1 = it\<lparr>ii_offset := next_offset i\<rparr>"
      have st: "instruction_iter_next it = Ok (Some (Ok i, it1))"
        using False Suc.prems(2) b Ok by (simp add: instruction_iter_next_def it1_def Let_def word_le_nat_alt)
      have "ii_left it1 \<le> n" using ii_next_left [OF st] Suc.prems(4) by simp
      then obtain "is" t q where *: "drain n instruction_iter_next it1 = Ok (Some (map Ok is @ t))"
        "raw_stream ?code (unat (next_offset i)) is t q"
        using Suc.IH [of it1] Suc.prems b by (auto simp: it1_def)
      have "drain (Suc n) instruction_iter_next it = Ok (Some (map Ok (i # is) @ t))"
        using * st by simp
      moreover have "raw_stream ?code (unat ?off) (i # is) t q"
        using *(2) b Ok by (simp add: raw_stream_def span_start_def span_size_def)
      ultimately show ?thesis by blast
    next
      case (Err e)
      have st: "instruction_iter_next it = Ok (Some (Err e, it\<lparr>ii_done := True\<rparr>))"
        using False Suc.prems(2) Err by (simp add: instruction_iter_next_def)
      have "drain n instruction_iter_next (it\<lparr>ii_done := True\<rparr>) = Ok (Some [])"
        by (cases n) (simp_all add: ii_next_done)
      then have "drain (Suc n) instruction_iter_next it = Ok (Some (map Ok [] @ [Err e]))"
        by (simp add: st)
      moreover have "raw_stream ?code (unat ?off) [] [Err e] (unat ?off)"
        using Err Suc.prems(3) by (simp add: raw_stream_def)
      ultimately show ?thesis by blast
    next
      case Panic
      then show ?thesis using decode_at_total [OF slice_ok_u32 [OF Suc.prems(1)]] by blast
    qed
  qed
qed

section \<open>The folded stream\<close>

lemma no_panic_if: "no_panic x \<Longrightarrow> no_panic y \<Longrightarrow> no_panic (if b then x else y)"
  by simp

lemma no_panic_prefix [no_panic_intro]: "no_panic (apply_prefix p i)" "no_panic (check_prefix_targets p op at)"
  unfolding apply_prefix_def check_prefix_targets_def Let_def
  by (intro no_panic_if res.distinct)+

text \<open>One round of the loop, by what the raw stream yields.\<close>

lemma folded_loop_None:
  "instruction_iter_next it = Ok None \<Longrightarrow>
     folded_loop p f it = (case f of
        Some at \<Rightarrow> Ok (Some (Err (prefix_error InvalidPrefixTarget at), it\<lparr>ii_done := True\<rparr>))
      | None \<Rightarrow> Ok None)"
  by (subst folded_loop.simps) simp

lemma folded_loop_Err:
  "instruction_iter_next it = Ok (Some (Err e, it')) \<Longrightarrow> folded_loop p f it = Ok (Some (Err e, it'))"
  by (subst folded_loop.simps) simp

lemma folded_loop_prefix:
  "instruction_iter_next it = Ok (Some (Ok i, it')) \<Longrightarrow> is_prefix (in_opcode i) \<Longrightarrow>
     folded_loop p f it = (case apply_prefix p i of
        Ok p' \<Rightarrow> folded_loop p' (Some (case f of Some a \<Rightarrow> a | None \<Rightarrow> in_offset i)) it'
      | Err e \<Rightarrow> Ok (Some (Err e, it'\<lparr>ii_done := True\<rparr>))
      | Panic \<Rightarrow> Panic)"
  by (subst folded_loop.simps) (simp add: Let_def split: res.split)

lemma folded_loop_item:
  "instruction_iter_next it = Ok (Some (Ok i, it')) \<Longrightarrow> \<not> is_prefix (in_opcode i) \<Longrightarrow>
     first = (case f of Some a \<Rightarrow> a | None \<Rightarrow> in_offset i) \<Longrightarrow>
     folded_loop p f it =
       (case (if prefixes_is_empty p then Ok () else check_prefix_targets p (in_opcode i) first) of
          Ok _ \<Rightarrow> Ok (Some (Ok \<lparr>fi_instruction = i, fi_prefixes = p, fi_first_offset = first\<rparr>, it'))
        | Err e \<Rightarrow> Ok (Some (Err e, it'\<lparr>ii_done := True\<rparr>))
        | Panic \<Rightarrow> Panic)"
  by (subst folded_loop.simps) (simp add: Let_def split: res.split)

lemma no_panic_guard: "no_panic (if prefixes_is_empty p then Ok () else check_prefix_targets p op at)"
  by (simp add: no_panic_prefix)

lemma folded_loop_step:
  assumes "slice_ok (ii_code it)"
  shows "\<exists>r. folded_loop p f it = Ok r
     \<and> (\<forall>x it'. r = Some (x, it') \<longrightarrow> ii_code it' = ii_code it \<and> ii_left it' \<le> ii_left it
           \<and> (f = None \<longrightarrow> ii_left it' < ii_left it))"
  using assms
proof (induction "ii_left it" arbitrary: p f it rule: less_induct)
  case less
  from ii_next_total [OF less.prems] obtain r where r: "instruction_iter_next it = Ok r" by blast
  show ?case
  proof (cases r)
    case None
    then show ?thesis by (auto simp: folded_loop_None r ii_left_def split: option.splits)
  next
    case (Some y)
    obtain item it1 where y: "y = (item, it1)" by (cases y)
    note st = r [unfolded Some y]
    note l = ii_next_left [OF st] and c = ii_next_code [OF st]
    have d: "ii_left (it1\<lparr>ii_done := True\<rparr>) = 0" by (simp add: ii_left_def)
    consider (e) e where "item = Err e" | (p) i where "item = Ok i" "is_prefix (in_opcode i)"
      | (i) i where "item = Ok i" "\<not> is_prefix (in_opcode i)"
      using ii_next_items [OF st] by blast
    then show ?thesis
    proof cases
      case e
      then show ?thesis using l c folded_loop_Err [of it e it1 p f] st by simp
    next
      case p
      let ?first = "Some (case f of Some a \<Rightarrow> a | None \<Rightarrow> in_offset i)"
      have e: "folded_loop p f it = (case apply_prefix p i of
          Ok p' \<Rightarrow> folded_loop p' ?first it1
        | Err e \<Rightarrow> Ok (Some (Err e, it1\<lparr>ii_done := True\<rparr>)) | Panic \<Rightarrow> Panic)"
        using st p by (simp add: folded_loop_prefix)
      show ?thesis
      proof (cases "apply_prefix p i")
        case (Ok p')
        have "slice_ok (ii_code it1)" using less.prems c by simp
        from less.hyps [OF l this, of p' ?first] obtain r' where
          r': "folded_loop p' ?first it1 = Ok r'"
          "\<And>x it'. r' = Some (x, it') \<Longrightarrow> ii_code it' = ii_code it1 \<and> ii_left it' \<le> ii_left it1" by blast
        have "folded_loop p f it = Ok r'" using e Ok r'(1) by simp
        moreover have "ii_code it' = ii_code it \<and> ii_left it' < ii_left it" if "r' = Some (x, it')" for x it'
          using r'(2) [OF that] l c by simp
        ultimately show ?thesis by (blast intro: less_imp_le)
      qed (use e l c d no_panic_prefix in auto)
    next
      case i
      let ?first = "case f of Some a \<Rightarrow> a | None \<Rightarrow> in_offset i"
      show ?thesis
        using folded_loop_item [of it i it1 ?first f p] st i l c d
          no_panic_guard [of p "in_opcode i" ?first]
        by (cases "if prefixes_is_empty p then Ok () else check_prefix_targets p (in_opcode i) ?first") auto
    qed
  qed
qed

interpretation folded: shrinking_iter folded_iter_next "\<lambda>it. slice_ok (ii_code it)" ii_left
proof unfold_locales
  fix it x it' assume w: "slice_ok (ii_code it)" and s: "folded_iter_next it = Ok (Some (x, it'))"
  from folded_loop_step [OF w, of prefixes_default None] s
  show "slice_ok (ii_code it')" "ii_left it' < ii_left it"
    using w by (auto simp: folded_iter_next_def)
qed (use folded_loop_step in \<open>auto simp: folded_iter_next_def\<close>, blast)

text \<open>The reference semantics of folding: a function on the list of raw items.\<close>

fun fold_ref ::
    "Prefixes \<Rightarrow> u32 option \<Rightarrow> Instruction result list \<Rightarrow> FoldedInstruction result list" where
  "fold_ref p None [] = []"
| "fold_ref p (Some at) [] = [Err (prefix_error InvalidPrefixTarget at)]"
| "fold_ref p f (Err e # xs) = [Err e]"
| "fold_ref p f (Panic # xs) = []"
| "fold_ref p f (Ok i # xs) =
     (let first = (case f of Some a \<Rightarrow> a | None \<Rightarrow> in_offset i) in
      if is_prefix (in_opcode i) then
        (case apply_prefix p i of Ok p' \<Rightarrow> fold_ref p' (Some first) xs | Err e \<Rightarrow> [Err e] | Panic \<Rightarrow> [])
      else
        (case (if prefixes_is_empty p then Ok () else check_prefix_targets p (in_opcode i) first) of
           Ok _ \<Rightarrow> Ok \<lparr>fi_instruction = i, fi_prefixes = p, fi_first_offset = first\<rparr>
                     # fold_ref prefixes_default None xs
         | Err e \<Rightarrow> [Err e] | Panic \<Rightarrow> []))"

lemma drain_done [simp]:
  "drain n instruction_iter_next (it\<lparr>ii_done := True\<rparr>) = Ok (Some [])"
  "drain n folded_iter_next (it\<lparr>ii_done := True\<rparr>) = Ok (Some [])"
proof -
  have "instruction_iter_next (it\<lparr>ii_done := True\<rparr>) = Ok None" by (simp add: ii_next_done)
  then show "drain n instruction_iter_next (it\<lparr>ii_done := True\<rparr>) = Ok (Some [])"
    "drain n folded_iter_next (it\<lparr>ii_done := True\<rparr>) = Ok (Some [])"
    by (cases n; simp add: folded_iter_next_def folded_loop_None)+
qed

lemma ii_done_update: "ii_done it \<Longrightarrow> it\<lparr>ii_done := True\<rparr> = it"
  by (cases it) simp

text \<open>
  One call of \<open>next\<close> on the folded stream takes the first item of the reference and leaves an
  iterator whose stream is the rest.
\<close>

lemma folded_loop_refines:
  assumes "slice_ok (ii_code it)" and "ii_left it \<le> n"
    and "drain n instruction_iter_next it = Ok (Some xs)"
  shows "(folded_loop p f it = Ok None \<and> fold_ref p f xs = [])
    \<or> (\<exists>y it' xs'. folded_loop p f it = Ok (Some (y, it')) \<and> slice_ok (ii_code it')
         \<and> ii_left it' \<le> n \<and> drain n instruction_iter_next it' = Ok (Some xs')
         \<and> length xs' \<le> length xs \<and> (xs \<noteq> [] \<longrightarrow> length xs' < length xs)
         \<and> fold_ref p f xs = y # fold_ref prefixes_default None xs')"
  using assms
proof (induction xs arbitrary: p f it)
  case Nil
  from ii_next_total [OF Nil(1)] obtain r where r: "instruction_iter_next it = Ok r" by blast
  with Nil(3) have "instruction_iter_next it = Ok None"
    by (cases n; cases r) (auto simp: res_iff)
  then show ?case using Nil(1)
    by (cases f) (auto simp: folded_loop_None ii_left_def intro!: exI [of _ "[]"])
next
  case (Cons x xs)
  from ii_next_total [OF Cons.prems(1)] obtain r where r: "instruction_iter_next it = Ok r" by blast
  with Cons.prems(3) obtain it1 where st: "instruction_iter_next it = Ok (Some (x, it1))"
    by (cases n; cases r) (auto simp: res_iff)
  have w1: "slice_ok (ii_code it1)" using ii_next_code [OF st] Cons.prems(1) by simp
  have l1: "ii_left it1 \<le> n" using ii_next_left [OF st] Cons.prems(2) by simp
  have d1: "drain n instruction_iter_next it1 = Ok (Some xs)"
  proof (cases n)
    case 0
    then show ?thesis using ii_next_left [OF st] Cons.prems(2) by simp
  next
    case (Suc k)
    then have "drain k instruction_iter_next it1 = Ok (Some xs)"
      using Cons.prems(3) st by (auto simp: res_iff)
    moreover have "ii_left it1 \<le> k" using ii_next_left [OF st] Cons.prems(2) Suc by simp
    ultimately show ?thesis using raw.fuel_irrelevant [OF w1, of k n] l1 by simp
  qed
  have stop: ?case if "folded_loop p f it = Ok (Some (Err e, it1\<lparr>ii_done := True\<rparr>))"
    and "fold_ref p f (x # xs) = [Err e]" for e
    using that w1 by (auto simp: ii_left_def intro!: exI [of _ "[]"])
  from ii_next_items [OF st] consider (e) e where "x = Err e" "ii_done it1"
    | (p) i where "x = Ok i" "is_prefix (in_opcode i)" | (i) i where "x = Ok i" "\<not> is_prefix (in_opcode i)"
    by blast
  then show ?case
  proof cases
    case e
    then show ?thesis using folded_loop_Err [of it e it1 p f] st
      by (intro stop [of e]) (simp_all add: ii_done_update)
  next
    case p
    let ?first = "Some (case f of Some a \<Rightarrow> a | None \<Rightarrow> in_offset i)"
    show ?thesis
    proof (cases "apply_prefix p i")
      case (Ok p')
      have "folded_loop p f it = folded_loop p' ?first it1"
        and "fold_ref p f (x # xs) = fold_ref p' ?first xs"
        using st p Ok by (simp_all add: folded_loop_prefix Let_def)
      with Cons.IH [OF w1 l1 d1, of p' ?first] show ?thesis
        by (auto; fastforce)
    next
      case (Err e)
      then show ?thesis using st p by (intro stop [of e]) (simp_all add: folded_loop_prefix Let_def)
    qed (use no_panic_prefix in blast)
  next
    case i
    let ?first = "case f of Some a \<Rightarrow> a | None \<Rightarrow> in_offset i"
    let ?chk = "if prefixes_is_empty p then Ok () else check_prefix_targets p (in_opcode i) ?first"
    note fl = folded_loop_item [OF st [unfolded i(1)] i(2) refl, of p f]
    have fr: "fold_ref p f (x # xs) = (case ?chk of
        Ok _ \<Rightarrow> Ok \<lparr>fi_instruction = i, fi_prefixes = p, fi_first_offset = ?first\<rparr>
             # fold_ref prefixes_default None xs
      | Err e \<Rightarrow> [Err e] | Panic \<Rightarrow> [])"
      using i by (simp add: Let_def)
    show ?thesis
    proof (cases ?chk)
      case (Ok u)
      then show ?thesis using fl fr w1 l1 d1 by auto
    next
      case (Err e)
      then show ?thesis using fl fr by (intro stop [of e]) simp_all
    qed (use no_panic_guard in blast)
  qed
qed

lemma folded_refines:
  assumes "slice_ok (ii_code it)" and "ii_left it \<le> n" and "length xs \<le> m"
    and "drain n instruction_iter_next it = Ok (Some xs)" and "ii_left it \<le> k"
  shows "drain k folded_iter_next it = Ok (Some (fold_ref prefixes_default None xs))"
  using assms
proof (induction k arbitrary: it xs m)
  case 0
  then have "xs = []" using raw.ends [OF 0(1), of 0] raw.fuel_irrelevant [OF 0(1), of 0 n] by auto
  with folded_loop_refines [OF 0(1,2,4), of prefixes_default None] show ?case
    using folded.ends [OF 0(1), of 0] 0(5) by (auto simp: folded_iter_next_def)
next
  case (Suc k)
  from folded_loop_refines [OF Suc.prems(1,2,4), of prefixes_default None] show ?case
  proof (elim disjE exE conjE)
    fix y it' xs'
    assume st: "folded_loop prefixes_default None it = Ok (Some (y, it'))"
      and *: "slice_ok (ii_code it')" "ii_left it' \<le> n" "drain n instruction_iter_next it' = Ok (Some xs')"
        "fold_ref prefixes_default None xs = y # fold_ref prefixes_default None xs'"
    have "ii_left it' < ii_left it"
      using folded.step_left [OF Suc.prems(1)] st by (simp add: folded_iter_next_def)
    then have "drain k folded_iter_next it' = Ok (Some (fold_ref prefixes_default None xs'))"
      using Suc.IH [OF *(1,2) order_refl *(3)] Suc.prems(5) by simp
    moreover have "folded_iter_next it = Ok (Some (y, it'))" using st by (simp add: folded_iter_next_def)
    ultimately show ?thesis using * by simp
  qed (simp add: folded_iter_next_def)
qed

text \<open>Folding a tiling stream gives a tiling stream: no byte is lost to a prefix.\<close>

definition folded_start :: "FoldedInstruction \<Rightarrow> nat" where
  "folded_start f = unat (fi_first_offset f)"

definition folded_size :: "FoldedInstruction \<Rightarrow> nat" where
  "folded_size f = unat (fi_total_size f)"

text \<open>The rules of III.2 on which instructions a prefix may precede.\<close>

definition prefixes_legal :: "Prefixes \<Rightarrow> OpCode \<Rightarrow> bool" where
  "prefixes_legal p op \<longleftrightarrow>
     (px_constrained p = None \<or> op \<in> {Op_Callvirt, Op_Call, Op_Ldftn})
   \<and> (\<not> px_tail p \<or> op \<in> {Op_Call, Op_Calli, Op_Callvirt})
   \<and> (\<not> px_readonly p \<or> op \<in> {Op_Ldelema, Op_Call, Op_Callvirt})
   \<and> (\<not> px_volatile p \<or> allows_volatile op)
   \<and> (px_unaligned p = None \<or> allows_unaligned op)
   \<and> (no_checks_is_empty (px_no p) \<or> allows_no op)"

lemma check_prefix_targets_iff:
  "check_prefix_targets p op at = Ok () \<longleftrightarrow> prefixes_legal p op"
proof -
  have if_Ok: "(if b then Err e else m) = Ok v \<longleftrightarrow> \<not> b \<and> m = Ok v" for b m and e :: error and v :: unit
    by simp
  show ?thesis
    unfolding check_prefix_targets_def prefixes_legal_def Let_def if_Ok de_Morgan_conj not_not
    by (simp only: simp_thms)
qed

lemma empty_prefixes_legal: "prefixes_is_empty p \<Longrightarrow> prefixes_legal p op"
  by (simp add: prefixes_is_empty_def prefixes_legal_def)

definition folded_ok :: "FoldedInstruction \<Rightarrow> bool" where
  "folded_ok f \<longleftrightarrow> \<not> is_prefix (in_opcode (fi_instruction f))
     \<and> prefixes_legal (fi_prefixes f) (in_opcode (fi_instruction f))"

lemma fold_ref_tiles:
  assumes "tiles span_start span_size m is q" and "q \<le> u32_max"
    and "t = [] \<or> (\<exists>e. t = [Err e])"
    and "case f of None \<Rightarrow> s = m | Some a \<Rightarrow> s = unat a \<and> s < m"
  shows "\<exists>fs u q'. fold_ref p f (map Ok is @ t) = map Ok fs @ u
     \<and> tiles folded_start folded_size s fs q' \<and> q' \<le> q \<and> list_all folded_ok fs
     \<and> (u = [] \<and> t = [] \<and> q' = q \<or> (\<exists>e. u = [Err e]))"
  using assms
proof (induction "is" arbitrary: m s f p)
  case Nil
  show ?case
  proof (cases f)
    case None
    with Nil show ?thesis
      by (intro exI [of _ "[]"] exI [of _ "fold_ref p None t"] exI [of _ q]) auto
  next
    case (Some a)
    then obtain e where "fold_ref p f t = [Err e]" using Nil(3) by auto
    with Some Nil show ?thesis by (intro exI [of _ "[]"] exI [of _ "[Err e]"] exI [of _ s]) auto
  qed
next
  case (Cons i "is")
  let ?first = "case f of Some a \<Rightarrow> a | None \<Rightarrow> in_offset i"
  from Cons.prems(1) have m: "unat (in_offset i) = m" "0 < span_size i"
    and ts: "tiles span_start span_size (m + span_size i) is q"
    by (simp_all add: span_start_def [of i])
  from tiles_le [OF ts] have q: "m + span_size i \<le> q" by simp
  have first: "unat ?first = s" "s \<le> m" using Cons.prems(4) m by (auto split: option.splits)
  have stop: ?case if "fold_ref p f (map Ok (i # is) @ t) = [Err e]" for e
    using that first q by (intro exI [of _ "[]"] exI [of _ "[Err e]"] exI [of _ s]) auto
  show ?case
  proof (cases "is_prefix (in_opcode i)")
    case True
    show ?thesis
    proof (cases "apply_prefix p i")
      case (Ok p')
      have "s < m + span_size i" using first m by simp
      then show ?thesis
        using Cons.IH [OF ts Cons.prems(2,3), of s "Some ?first" p'] first True Ok
        by (simp add: Let_def)
    next
      case (Err e)
      then show ?thesis using True by (intro stop [of e]) (simp add: Let_def)
    qed (use no_panic_prefix in blast)
  next
    case False
    let ?chk = "if prefixes_is_empty p then Ok () else check_prefix_targets p (in_opcode i) ?first"
    let ?F = "\<lparr>fi_instruction = i, fi_prefixes = p, fi_first_offset = ?first\<rparr>"
    show ?thesis
    proof (cases ?chk)
      case (Ok u)
      have nx: "unat (next_offset i) = m + span_size i"
        using m q Cons.prems(2) by (simp add: next_offset_def span_size_def unat_word_ariths u32_max_def)
      have "?first \<le> next_offset i" using first nx by (simp add: word_le_nat_alt)
      then have sz: "folded_size ?F = m + span_size i - s"
        using nx first by (simp add: folded_size_def fi_total_size_def fi_end_offset_def unat_sub)
      obtain fs u q' where *: "fold_ref prefixes_default None (map Ok is @ t) = map Ok fs @ u"
        "tiles folded_start folded_size (m + span_size i) fs q'" "q' \<le> q" "list_all folded_ok fs"
        "u = [] \<and> t = [] \<and> q' = q \<or> (\<exists>e. u = [Err e])"
        using Cons.IH [OF ts Cons.prems(2,3), of "m + span_size i" None prefixes_default] by auto
      have "folded_ok ?F" using False Ok
        by (auto simp: folded_ok_def empty_prefixes_legal check_prefix_targets_iff split: if_splits)
      moreover have "fold_ref p f (map Ok (i # is) @ t) = map Ok (?F # fs) @ u"
        using *(1) False Ok by (simp add: Let_def)
      moreover have "tiles folded_start folded_size s (?F # fs) q'"
        using *(2) sz first m by (simp add: folded_start_def)
      ultimately show ?thesis using *(3-5)
        by (intro exI [of _ "?F # fs"] exI [of _ u] exI [of _ q']) simp
    next
      case (Err e)
      then show ?thesis using False by (intro stop [of e]) (simp add: Let_def)
    qed (use no_panic_guard in blast)
  qed
qed

section \<open>Properties\<close>

text \<open>C2: Decoding an instruction is exact: \<open>decode_at\<close> returns an instruction precisely when the
  code at that offset starts with the encoding of that instruction (opcode bytes, then the operand
  bytes of its operand kind, branch targets relative to the next instruction), and its size is the
  length of that encoding. It never panics.\<close>

theorem decode_at_iff_assembled:
  assumes "slice_ok code"
  shows "(decode_at code off = Ok i \<longleftrightarrow> in_offset i = off
     \<and> (\<exists>bs ys. assemble i = Some bs \<and> drop (unat off) code = bs @ ys \<and> in_size i = of_nat (length bs)))
   \<and> decode_at code off \<noteq> Panic"
  using decode_at_exact [OF assms] decode_at_total [OF assms] by blast

theorem decode_at_iff_assembled_witness:
  "decode_at [0x00, 0x2B, 0xFE] 1
     = Ok \<lparr>in_offset = 1, in_size = 2, in_opcode = Op_BrS, in_operand = O_BranchTarget 1\<rparr>"
proof -
  have k: "info Op_BrS = OPCODE_INFO ! 42" by (simp add: info_def)
  have i: "oi_encoding (info Op_BrS) = (0x2B, 0)" "oi_size (info Op_BrS) = 1"
    "oi_operand (info Op_BrS) = ShortInlineBrTarget"
    unfolding k by code_simp+
  let ?i = "\<lparr>in_offset = 1, in_size = 2, in_opcode = Op_BrS, in_operand = O_BranchTarget 1\<rparr>"
  have "assemble ?i = Some [0x2B, 0xFE]"
    by (simp add: assemble_def opcode_bytes_def i operand_encoding_def next_offset_def i8_ok_def)
  moreover have sl: "slice_ok [0x00, 0x2B, 0xFE :: u8]" by (simp add: slice_ok_def isize_max_def)
  ultimately show ?thesis using decode_at_iff_assembled [OF sl, of 1 ?i] by simp
qed

text \<open>C26: Exhausting the raw instruction stream of code of up to 4 GiB (which the code of a body never
  exceeds: its length is a field of 32 bits) always ends, and accounts for every byte: the
  instructions it yields start at offset 0, follow each other without gap or overlap, and reach the
  end of the code, unless the stream stops with the one error that decoding the next offset gives.\<close>

theorem instructions_tile_code:
  assumes "length code \<le> u32_max"
  shows "\<exists>is t q. instructions code = Ok (Some (map Ok is @ t)) \<and> raw_stream code 0 is t q"
proof -
  have "ii_left (instruction_iter_new code) \<le> length code"
    by (simp add: ii_left_def instruction_iter_new_def)
  then show ?thesis
    using raw_tiled [of "instruction_iter_new code" "length code"] assms
    by (auto simp: instructions_def instruction_iter_new_def)
qed

theorem instructions_tile_code_witness:
  "\<exists>is t q. instructions [0x00, 0x2A] = Ok (Some (map Ok is @ t)) \<and> raw_stream [0x00, 0x2A] 0 is t q"
  by (rule instructions_tile_code) (simp add: u32_max_def)

text \<open>Both streams of a code slice end, the folded one as the reference folds the raw one.\<close>

lemma code_streams:
  assumes "slice_ok code"
  shows "\<exists>xs. instructions code = Ok (Some xs)
     \<and> folded_instructions code = Ok (Some (fold_ref prefixes_default None xs))"
proof -
  let ?it = "instruction_iter_new code"
  have w: "slice_ok (ii_code ?it)" and l: "ii_left ?it \<le> length code"
    using assms by (simp_all add: instruction_iter_new_def ii_left_def)
  from raw.ends [OF w l] obtain xs where "drain (length code) instruction_iter_next ?it = Ok (Some xs)"
    by blast
  with folded_refines [OF w l order_refl this l] show ?thesis
    by (auto simp: instructions_def folded_instructions_def)
qed

text \<open>C7: The folded stream refines the raw one: exhausting \<open>FoldedIter\<close> gives exactly the list
  function \<open>fold_ref\<close> of the items the raw stream yields, errors and the dangling-prefix error
  included, and neither stream panics.\<close>

theorem folded_refines_raw:
  assumes "slice_ok code"
  shows "\<exists>xs. instructions code = Ok (Some xs)
     \<and> folded_instructions code = Ok (Some (fold_ref prefixes_default None xs))"
  by (rule code_streams [OF assms])

theorem folded_refines_raw_witness:
  "\<exists>xs. instructions [0xFE, 0x14, 0x00] = Ok (Some xs)
     \<and> folded_instructions [0xFE, 0x14, 0x00] = Ok (Some (fold_ref prefixes_default None xs))"
  by (rule folded_refines_raw) (simp add: slice_ok_def isize_max_def)

text \<open>Every instruction of the folded stream is no prefix itself and carries only prefixes that
  may precede it, and the spans from first prefix byte to instruction end tile the code from 0, up
  to its end or up to one final error.\<close>

lemma folded_tiles_code:
  assumes "length code \<le> u32_max"
  shows "\<exists>fs u q. folded_instructions code = Ok (Some (map Ok fs @ u))
     \<and> tiles folded_start folded_size 0 fs q \<and> q \<le> length code \<and> list_all folded_ok fs
     \<and> (u = [] \<and> q = length code \<or> (\<exists>e. u = [Err e]))"
proof -
  let ?it = "instruction_iter_new code"
  have w: "slice_ok (ii_code ?it)" and l: "ii_left ?it \<le> length code"
    using slice_ok_u32 [OF assms] by (simp_all add: instruction_iter_new_def ii_left_def)
  obtain "is" t q where is': "drain (length code) instruction_iter_next ?it = Ok (Some (map Ok is @ t))"
    and rs: "raw_stream code 0 is t q"
    using raw_tiled [of ?it "length code"] assms l by (auto simp: instruction_iter_new_def)
  from folded_refines [OF w l order_refl is' l]
  have f: "folded_instructions code = Ok (Some (fold_ref prefixes_default None (map Ok is @ t)))"
    by (simp add: folded_instructions_def)
  have q: "q \<le> u32_max" "q \<le> length code" and t: "t = [] \<or> (\<exists>e. t = [Err e])"
    and tl: "tiles span_start span_size 0 is q" and tq: "t = [] \<longrightarrow> q = length code"
    using rs assms by (auto simp: raw_stream_def)
  from fold_ref_tiles [OF tl q(1) t, of 0 None prefixes_default] obtain fs u q' where
    "fold_ref prefixes_default None (map Ok is @ t) = map Ok fs @ u"
    "tiles folded_start folded_size 0 fs q'" "q' \<le> q" "list_all folded_ok fs"
    "u = [] \<and> t = [] \<and> q' = q \<or> (\<exists>e. u = [Err e])" by auto
  with f q tq show ?thesis by (intro exI [of _ fs] exI [of _ u] exI [of _ q']) auto
qed

end
