(* ===== verification/Canonical.thy ===== *)
theory Canonical
  imports Il
begin

text \<open>
  Short and macro encodings against the general opcode they stand for (\<open>OpCode::canonical\<close> in
  \<open>src/src/il/mod.rs\<close>, \<open>canonical_of\<close>, \<open>implied_var\<close> and \<open>implied_i32\<close> in \<open>src/src/il/table.rs\<close>): what
  \<open>decode_at\<close> makes of the one it makes of the other.
\<close>






section \<open>Properties\<close>



end
