(* ===== verification/FoldMachine.thy ===== *)
theory FoldMachine
  imports Il
begin

text \<open>
  \<open>FoldedIter\<close> of \<open>src/src/il/mod.rs\<close> as a state machine. Between two steps it holds the
  prefixes collected so far, the offset of the first of them and the raw iterator; one step
  reads one item of the raw stream and either collects a prefix, which the caller does not see,
  or yields an item. \<open>fold_step\<close> has one rule per way out of an iteration of the loop in
  \<open>FoldedIter::next\<close>; \<open>fold_run\<close> is a run of any length with the events it went through.

  The lemmas show that a call of \<open>next\<close> is a run with one yield, that no state is stuck and the
  steps are determined, that every run can be completed and then has yielded the folded stream,
  and, by induction over the runs, what holds between any two steps: what was collected and what
  was yielded tile the code read so far, and the prefixes held are exactly those collected, each
  kind at most once.
\<close>

section \<open>States, events and steps\<close>

record FoldState =
  fs_prefixes :: Prefixes
  fs_first :: "u32 option"
  fs_raw :: InstructionIter

datatype FoldEvent = Hold Instruction | Yield "FoldedInstruction result"

definition between :: "InstructionIter \<Rightarrow> FoldState" where
  "between it = \<lparr>fs_prefixes = prefixes_default, fs_first = None, fs_raw = it\<rparr>"

definition first_of :: "u32 option \<Rightarrow> Instruction \<Rightarrow> u32" where
  "first_of f i = (case f of Some a \<Rightarrow> a | None \<Rightarrow> in_offset i)"

lemma first_of_simps [simp]: "first_of None i = in_offset i" "first_of (Some a) i = a"
  by (simp_all add: first_of_def)

lemma between_sel [simp]:
  "fs_prefixes (between it) = prefixes_default" "fs_first (between it) = None" "fs_raw (between it) = it"
  by (simp_all add: between_def)

inductive fold_step :: "FoldState \<Rightarrow> FoldEvent \<Rightarrow> FoldState \<Rightarrow> bool" where
  collect: "instruction_iter_next it = Ok (Some (Ok i, it')) \<Longrightarrow> is_prefix (in_opcode i) \<Longrightarrow>
     apply_prefix p i = Ok p' \<Longrightarrow>
     fold_step \<lparr>fs_prefixes = p, fs_first = f, fs_raw = it\<rparr> (Hold i)
       \<lparr>fs_prefixes = p', fs_first = Some (first_of f i), fs_raw = it'\<rparr>"
| bad_prefix: "instruction_iter_next it = Ok (Some (Ok i, it')) \<Longrightarrow> is_prefix (in_opcode i) \<Longrightarrow>
     apply_prefix p i = Err e \<Longrightarrow>
     fold_step \<lparr>fs_prefixes = p, fs_first = f, fs_raw = it\<rparr> (Yield (Err e))
       (between (it'\<lparr>ii_done := True\<rparr>))"
| emit: "instruction_iter_next it = Ok (Some (Ok i, it')) \<Longrightarrow> \<not> is_prefix (in_opcode i) \<Longrightarrow>
     prefixes_legal p (in_opcode i) \<Longrightarrow>
     fold_step \<lparr>fs_prefixes = p, fs_first = f, fs_raw = it\<rparr>
       (Yield (Ok \<lparr>fi_instruction = i, fi_prefixes = p, fi_first_offset = first_of f i\<rparr>)) (between it')"
| bad_target: "instruction_iter_next it = Ok (Some (Ok i, it')) \<Longrightarrow> \<not> is_prefix (in_opcode i) \<Longrightarrow>
     \<not> prefixes_legal p (in_opcode i) \<Longrightarrow>
     fold_step \<lparr>fs_prefixes = p, fs_first = f, fs_raw = it\<rparr>
       (Yield (Err (prefix_error InvalidPrefixTarget (first_of f i)))) (between (it'\<lparr>ii_done := True\<rparr>))"
| raw_error: "instruction_iter_next it = Ok (Some (Err e, it')) \<Longrightarrow>
     fold_step \<lparr>fs_prefixes = p, fs_first = f, fs_raw = it\<rparr> (Yield (Err e)) (between it')"
| dangling: "instruction_iter_next it = Ok None \<Longrightarrow>
     fold_step \<lparr>fs_prefixes = p, fs_first = Some a, fs_raw = it\<rparr>
       (Yield (Err (prefix_error InvalidPrefixTarget a))) (between (it\<lparr>ii_done := True\<rparr>))"

inductive_cases fold_step_HoldE: "fold_step s (Hold i) s'"
inductive_cases fold_step_OkE: "fold_step s (Yield (Ok y)) s'"
inductive_cases fold_step_YieldE: "fold_step s (Yield y) s'"
inductive_simps fold_step_iff: "fold_step \<lparr>fs_prefixes = p, fs_first = f, fs_raw = it\<rparr> e s'"

definition fold_final :: "FoldState \<Rightarrow> bool" where
  "fold_final s \<longleftrightarrow> fs_first s = None \<and> instruction_iter_next (fs_raw s) = Ok None"

definition fold_start :: "bytes \<Rightarrow> FoldState" where
  "fold_start code = between (instruction_iter_new code)"

text \<open>A run and its events, the last one last.\<close>

inductive fold_run :: "FoldState \<Rightarrow> FoldEvent list \<Rightarrow> FoldState \<Rightarrow> bool" for s where
  run_nil [intro!]: "fold_run s [] s"
| run_snoc [intro]: "fold_run s es t \<Longrightarrow> fold_step t e u \<Longrightarrow> fold_run s (es @ [e]) u"

inductive_cases fold_run_NilE [elim!]: "fold_run s [] t"

lemma fold_run_snocD: "fold_run s (es @ [e]) t \<Longrightarrow> \<exists>u. fold_run s es u \<and> fold_step u e t"
  by (erule fold_run.cases) auto

lemma fold_run_Cons: "fold_step s e t \<Longrightarrow> fold_run t es u \<Longrightarrow> fold_run s (e # es) u"
  by (rotate_tac, induction rule: fold_run.induct)
    (auto intro: run_nil run_snoc [of s "[]", simplified] simp flip: append_Cons)

lemma fold_run_append: "fold_run t es' u \<Longrightarrow> fold_run s es t \<Longrightarrow> fold_run s (es @ es') u"
  by (induction rule: fold_run.induct) (auto simp flip: append_assoc)

text \<open>What the caller has received, and what was collected since.\<close>

primrec event_items :: "FoldEvent \<Rightarrow> FoldedInstruction result list" where
  "event_items (Hold i) = []"
| "event_items (Yield y) = [y]"

definition yielded :: "FoldEvent list \<Rightarrow> FoldedInstruction result list" where
  "yielded es = concat (map event_items es)"

definition pending :: "FoldEvent list \<Rightarrow> Instruction list" where
  "pending es = foldl (\<lambda>ps e. case e of Hold i \<Rightarrow> ps @ [i] | Yield _ \<Rightarrow> []) [] es"

lemma yielded_simps [simp]:
  "yielded [] = []" "yielded (e # es) = event_items e @ yielded es" "yielded (es @ es') = yielded es @ yielded es'"
  by (simp_all add: yielded_def)

lemma pending_simps [simp]:
  "pending [] = []" "pending (es @ [Hold i]) = pending es @ [i]" "pending (es @ [Yield y]) = []"
  by (simp_all add: pending_def)

section \<open>The steps are determined and no state is stuck\<close>

lemma fold_step_deterministic: "fold_step s e t \<Longrightarrow> fold_step s e' t' \<Longrightarrow> e' = e \<and> t' = t"
  by (induction rule: fold_step.induct) (auto simp: fold_step_iff)

lemma fold_final_stops: "fold_final s \<Longrightarrow> \<not> fold_step s e t"
  by (auto simp: fold_final_def elim: fold_step.cases)

lemma fold_step_progress:
  assumes "slice_ok (ii_code (fs_raw s))"
  shows "fold_final s \<or> (\<exists>e t. fold_step s e t)"
proof -
  obtain p f it where s: "s = \<lparr>fs_prefixes = p, fs_first = f, fs_raw = it\<rparr>" by (cases s)
  from ii_next_total [OF assms] obtain r where r: "instruction_iter_next it = Ok r" by (auto simp: s)
  show ?thesis
  proof (cases r)
    case None
    then show ?thesis using r by (cases f) (auto simp: s fold_final_def intro: dangling)
  next
    case (Some y)
    then obtain item it' where st: "instruction_iter_next it = Ok (Some (item, it'))" using r by (cases y) simp
    from ii_next_items [OF st] consider e where "item = Err e" | i where "item = Ok i" by blast
    then show ?thesis
      by cases (use st no_panic_prefix in \<open>auto simp: s fold_step_iff; metis res.exhaust\<close>)+
  qed
qed

text \<open>Every step keeps the code and uses up the raw stream or a dangling prefix.\<close>

definition fold_left :: "FoldState \<Rightarrow> nat" where
  "fold_left s = 2 * ii_left (fs_raw s) + (if fs_first s = None then 0 else 1)"

lemma ii_left_done [simp]: "ii_left (it\<lparr>ii_done := True\<rparr>) = 0"
  by (simp add: ii_left_def)

lemma fold_step_left: "fold_step s e t \<Longrightarrow> fold_left t < fold_left s"
  by (induction rule: fold_step.induct) (auto simp: fold_left_def dest!: ii_next_left)

lemma fold_step_code: "fold_step s e t \<Longrightarrow> ii_code (fs_raw t) = ii_code (fs_raw s)"
  by (induction rule: fold_step.induct) (auto dest!: ii_next_code)

lemma fold_run_code: "fold_run s es t \<Longrightarrow> ii_code (fs_raw t) = ii_code (fs_raw s)"
  by (induction rule: fold_run.induct) (auto dest!: fold_step_code)

lemma fold_run_left: "fold_run s es t \<Longrightarrow> length es + fold_left t \<le> fold_left s"
  by (induction rule: fold_run.induct) (auto dest!: fold_step_left)

section \<open>A call of \<open>next\<close> is a run with one yield\<close>

abbreviation fold_next :: "FoldState \<Rightarrow> (FoldedInstruction result \<times> InstructionIter) option result" where
  "fold_next s \<equiv> folded_loop (fs_prefixes s) (fs_first s) (fs_raw s)"

lemma check_prefix_targets_bad:
  assumes "\<not> prefixes_legal p op"
  shows "check_prefix_targets p op at = Err (prefix_error InvalidPrefixTarget at)"
proof -
  have if_in: "x \<in> A \<Longrightarrow> y \<in> A \<Longrightarrow> (if b then x else y) \<in> A" for x y :: "unit result" and A b
    by simp
  have "check_prefix_targets p op at \<in> {Ok (), Err (prefix_error InvalidPrefixTarget at)}"
    unfolding check_prefix_targets_def Let_def by (intro if_in insertI1 insertI2)
  with assms check_prefix_targets_iff [of p op at] show ?thesis by auto
qed

lemma prefix_guard:
  "(if prefixes_is_empty p then Ok () else check_prefix_targets p op at)
     = (if prefixes_legal p op then Ok () else Err (prefix_error InvalidPrefixTarget at))"
  using check_prefix_targets_iff [of p op at] empty_prefixes_legal [of p op] check_prefix_targets_bad [of p op at]
  by auto

lemma folded_loop_first:
  "instruction_iter_next it = Ok (Some (Ok i, it')) \<Longrightarrow>
     folded_loop p f it =
       (if is_prefix (in_opcode i) then
          (case apply_prefix p i of
             Ok p' \<Rightarrow> folded_loop p' (Some (first_of f i)) it'
           | Err e \<Rightarrow> Ok (Some (Err e, it'\<lparr>ii_done := True\<rparr>))
           | Panic \<Rightarrow> Panic)
        else if prefixes_legal p (in_opcode i) then
          Ok (Some (Ok \<lparr>fi_instruction = i, fi_prefixes = p, fi_first_offset = first_of f i\<rparr>, it'))
        else Ok (Some (Err (prefix_error InvalidPrefixTarget (first_of f i)), it'\<lparr>ii_done := True\<rparr>)))"
  by (simp add: folded_loop_prefix folded_loop_item [OF _ _ refl] first_of_def prefix_guard
      split: res.split)

lemma fold_step_next:
  "fold_step s e t \<Longrightarrow>
     (case e of Hold i \<Rightarrow> fold_next s = fold_next t
      | Yield y \<Rightarrow> fold_next s = Ok (Some (y, fs_raw t)) \<and> t = between (fs_raw t))"
  by (induction rule: fold_step.induct) (auto simp: folded_loop_first folded_loop_Err folded_loop_None)

lemma fold_final_next: "fold_final s \<Longrightarrow> fold_next s = Ok None"
  by (simp add: fold_final_def folded_loop_None)

lemma fold_run_collects: "fold_run s (map Hold is) t \<Longrightarrow> fold_next s = fold_next t"
proof (induction "is" arbitrary: t rule: rev_induct)
  case (snoc i "is")
  from snoc.prems obtain u where "fold_run s (map Hold is) u" and "fold_step u (Hold i) t"
    using fold_run_snocD [of s "map Hold is" "Hold i" t] by auto
  with snoc.IH [of u] fold_step_next [of u "Hold i" t] show ?case by simp
qed (auto elim: fold_run_NilE)

text \<open>From a state with enough of the raw stream left, the loop reaches its yield or the end.\<close>

lemma fold_run_next_ex:
  assumes "slice_ok (ii_code (fs_raw s))"
  shows "(\<exists>is t. fold_run s (map Hold is) t \<and> fold_final t)
     \<or> (\<exists>is y it'. fold_run s (map Hold is @ [Yield y]) (between it'))"
  using assms
proof (induction "fold_left s" arbitrary: s rule: less_induct)
  case less
  from fold_step_progress [OF less.prems] show ?case
  proof (elim disjE exE)
    assume "fold_final s"
    then show ?thesis using run_nil [of s] by (metis list.map(1))
  next
    fix e t assume st: "fold_step s e t"
    show ?thesis
    proof (cases e)
      case (Yield y)
      then have "fold_run s (map Hold [] @ [Yield y]) (between (fs_raw t))"
        using fold_step_next [OF st] run_snoc [OF run_nil st] by simp
      then show ?thesis by blast
    next
      case (Hold i)
      have "slice_ok (ii_code (fs_raw t))" using less.prems fold_step_code [OF st] by simp
      from less.hyps [OF fold_step_left [OF st] this] show ?thesis
      proof (elim disjE exE conjE)
        fix "is" u assume "fold_run t (map Hold is) u" and "fold_final u"
        then have "fold_run s (map Hold (i # is)) u"
          using fold_run_Cons [OF st] Hold by simp
        then show ?thesis using \<open>fold_final u\<close> by blast
      next
        fix "is" y it' assume "fold_run t (map Hold is @ [Yield y]) (between it')"
        then have "fold_run s (map Hold (i # is) @ [Yield y]) (between it')"
          using fold_run_Cons [OF st] Hold by simp
        then show ?thesis by blast
      qed
    qed
  qed
qed

lemma fold_next_run:
  assumes "slice_ok (ii_code (fs_raw s))"
  shows "fold_next s = Ok (Some (y, it'))
     \<longleftrightarrow> (\<exists>is. fold_run s (map Hold is @ [Yield y]) (between it'))"
    and "fold_next s = Ok None \<longleftrightarrow> (\<exists>is t. fold_run s (map Hold is) t \<and> fold_final t)"
proof -
  have y: "fold_next s = Ok (Some (z, it''))" if "fold_run s (map Hold is @ [Yield z]) (between it'')"
    for z "is" it''
  proof -
    from fold_run_snocD [OF that] obtain u where
      "fold_run s (map Hold is) u" "fold_step u (Yield z) (between it'')" by blast
    with fold_run_collects [of s "is" u] fold_step_next [of u "Yield z" "between it''"] show ?thesis by simp
  qed
  have n: "fold_next s = Ok None" if "fold_run s (map Hold is) t" "fold_final t" for "is" t
    using fold_run_collects [OF that(1)] fold_final_next [OF that(2)] by simp
  note ex = fold_run_next_ex [OF assms]
  show "fold_next s = Ok (Some (y, it')) \<longleftrightarrow> (\<exists>is. fold_run s (map Hold is @ [Yield y]) (between it'))"
    using ex y n by (metis option.distinct(1) option.inject prod.inject res.inject(1))
  show "fold_next s = Ok None \<longleftrightarrow> (\<exists>is t. fold_run s (map Hold is) t \<and> fold_final t)"
    using ex y n by (metis option.distinct(1) res.inject(1))
qed

section \<open>Every run completes to the folded stream\<close>

text \<open>The items the caller has still to receive from a state.\<close>

definition fold_rest :: "FoldState \<Rightarrow> FoldedInstruction result list option result" where
  "fold_rest s = res_bind (fold_next s) (\<lambda>r. case r of
       None \<Rightarrow> Ok (Some [])
     | Some (y, it') \<Rightarrow>
         res_bind (drain (ii_left it') folded_iter_next it') (\<lambda>t. Ok (map_option ((#) y) t)))"

lemma fold_rest_between:
  assumes "slice_ok (ii_code it)" and "ii_left it \<le> n"
  shows "fold_rest (between it) = drain n folded_iter_next it"
proof -
  have "drain n folded_iter_next it = drain (Suc n) folded_iter_next it"
    using assms by (intro folded.fuel_irrelevant) simp_all
  moreover from ii_next_total [OF assms(1)] folded.step_total [OF assms(1)]
  obtain r where r: "folded_iter_next it = Ok r" by blast
  have "drain n folded_iter_next it' = drain (ii_left it') folded_iter_next it'" if "r = Some (y, it')" for y it'
    using folded.step_left [OF assms(1), of y it'] folded.step_inv [OF assms(1), of y it'] r that assms(2)
    by (intro folded.fuel_irrelevant) auto
  with r have "drain (Suc n) folded_iter_next it = fold_rest (between it)"
    by (auto simp: fold_rest_def folded_iter_next_def split: option.split)
  ultimately show ?thesis by simp
qed

lemma fold_step_rest:
  assumes "slice_ok (ii_code (fs_raw s))" and "fold_step s e t"
  shows "fold_rest s = res_bind (fold_rest t) (\<lambda>r. Ok (map_option ((@) (event_items e)) r))"
proof (cases e)
  case (Hold i)
  with fold_step_next [OF assms(2)] have "fold_rest s = fold_rest t" by (simp add: fold_rest_def)
  moreover have "res_bind m (\<lambda>r. Ok (map_option ((@) []) r)) = m" for m :: "FoldedInstruction result list option result"
  proof -
    have "map_option ((@) []) r = r" for r :: "FoldedInstruction result list option" by (cases r) simp_all
    then show ?thesis by (cases m) simp_all
  qed
  ultimately show ?thesis using Hold by simp
next
  case (Yield y)
  have w: "slice_ok (ii_code (fs_raw t))" using assms fold_step_code by simp
  from Yield fold_step_next [OF assms(2)] have n: "fold_next s = Ok (Some (y, fs_raw t))"
    and t: "t = between (fs_raw t)" by simp_all
  have "fold_rest t = drain (ii_left (fs_raw t)) folded_iter_next (fs_raw t)"
    using fold_rest_between [OF w order_refl] t by simp
  moreover have "(@) [y] = (#) y" by auto
  ultimately show ?thesis using n Yield by (simp add: fold_rest_def)
qed

lemma fold_run_rest:
  assumes "fold_run s es t" and "slice_ok (ii_code (fs_raw s))" and "fold_rest t = Ok (Some xs)"
  shows "fold_rest s = Ok (Some (yielded es @ xs))"
  using assms
proof (induction arbitrary: xs rule: fold_run.induct)
  case (run_snoc es t e u)
  have "slice_ok (ii_code (fs_raw t))" using fold_run_code [OF run_snoc(1)] run_snoc.prems(1) by simp
  from fold_step_rest [OF this run_snoc(2)] run_snoc.prems(2)
  have "fold_rest t = Ok (Some (event_items e @ xs))" by simp
  from run_snoc.IH [OF run_snoc.prems(1) this] show ?case by simp
qed simp

lemma fold_run_completes:
  assumes "slice_ok (ii_code (fs_raw s))"
  shows "\<exists>es t. fold_run s es t \<and> fold_final t"
  using assms
proof (induction "fold_left s" arbitrary: s rule: less_induct)
  case less
  from fold_step_progress [OF less.prems] show ?case
  proof (elim disjE exE)
    fix e t assume st: "fold_step s e t"
    have "slice_ok (ii_code (fs_raw t))" using less.prems fold_step_code [OF st] by simp
    from less.hyps [OF fold_step_left [OF st] this] fold_run_Cons [OF st] show ?thesis by blast
  qed blast
qed

lemma fold_final_rest: "fold_final s \<Longrightarrow> fold_rest s = Ok (Some [])"
  by (simp add: fold_rest_def fold_final_next)

lemma fold_rest_start:
  "slice_ok code \<Longrightarrow> fold_rest (fold_start code) = folded_instructions code"
  unfolding fold_start_def folded_instructions_def
  by (rule fold_rest_between) (simp_all add: instruction_iter_new_def ii_left_def)

lemma fold_start_sel [simp]:
  "fs_prefixes (fold_start code) = prefixes_default" "fs_first (fold_start code) = None"
  "fs_raw (fold_start code) = instruction_iter_new code"
  by (simp_all add: fold_start_def)

lemma fold_left_start: "fold_left (fold_start code) = 2 * length code"
  by (simp add: fold_left_def ii_left_def instruction_iter_new_def)

section \<open>What holds between two steps\<close>

text \<open>The operand a prefix of the given kind contributes, and the prefixes a list of prefix
  instructions amounts to.\<close>

definition prefix_arg :: "OpCode \<Rightarrow> Instruction list \<Rightarrow> Operand option" where
  "prefix_arg op ps = map_option in_operand (List.find (\<lambda>i. in_opcode i = op) ps)"

definition prefixes_of :: "Instruction list \<Rightarrow> Prefixes" where
  "prefixes_of ps =
     \<lparr>px_constrained = Option.bind (prefix_arg Op_Constrained ps) operand_token,
      px_volatile = (prefix_arg Op_Volatile ps \<noteq> None),
      px_unaligned = map_option prefix_byte (prefix_arg Op_Unaligned ps),
      px_tail = (prefix_arg Op_Tail ps \<noteq> None),
      px_readonly = (prefix_arg Op_Readonly ps \<noteq> None),
      px_no = (case prefix_arg Op_No ps of
                 None \<Rightarrow> px_no prefixes_default
               | Some o' \<Rightarrow> no_checks_from_bits (prefix_byte o'))\<rparr>"

lemma prefix_arg_Nil [simp]: "prefix_arg op [] = None"
  by (simp add: prefix_arg_def)

lemma prefix_arg_None: "prefix_arg op ps = None \<longleftrightarrow> op \<notin> in_opcode ` set ps"
  by (auto simp: prefix_arg_def find_None_iff)

lemma prefix_arg_snoc [simp]:
  "prefix_arg op (ps @ [i]) =
     (case prefix_arg op ps of Some o' \<Rightarrow> Some o'
      | None \<Rightarrow> if in_opcode i = op then Some (in_operand i) else None)"
  by (induction ps) (auto simp: prefix_arg_def)

lemma prefixes_of_Nil [simp]: "prefixes_of [] = prefixes_default"
  by (simp add: prefixes_of_def prefixes_default_def)

text \<open>A prefix instruction as the raw stream delivers it, and as \<open>apply_prefix\<close> accepts it.\<close>

definition prefix_ok :: "Instruction \<Rightarrow> bool" where
  "prefix_ok i \<longleftrightarrow> is_prefix (in_opcode i)
     \<and> (in_opcode i = Op_Constrained \<longrightarrow> operand_token (in_operand i) \<noteq> None)
     \<and> (in_opcode i = Op_No \<longrightarrow> \<not> no_checks_is_empty (no_checks_from_bits (prefix_byte (in_operand i))))"

lemma prefix_arg_ok:
  assumes "list_all prefix_ok ps"
  shows "prefix_arg Op_Constrained ps = Some o' \<Longrightarrow> operand_token o' \<noteq> None"
    and "prefix_arg Op_No ps = Some o' \<Longrightarrow> \<not> no_checks_is_empty (no_checks_from_bits (prefix_byte o'))"
  using assms
  by (auto simp: prefix_arg_def find_Some_iff list_all_length prefix_ok_def)

lemma default_no_checks [simp]: "no_checks_is_empty (px_no prefixes_default)"
  by (simp add: prefixes_default_def no_checks_is_empty_def)

lemma prefixes_of_held:
  assumes "list_all prefix_ok ps"
  shows "px_constrained (prefixes_of ps) = None \<longleftrightarrow> prefix_arg Op_Constrained ps = None"
    and "px_unaligned (prefixes_of ps) = None \<longleftrightarrow> prefix_arg Op_Unaligned ps = None"
    and "no_checks_is_empty (px_no (prefixes_of ps)) \<longleftrightarrow> prefix_arg Op_No ps = None"
  using prefix_arg_ok [OF assms]
  by (cases "prefix_arg Op_Constrained ps"; cases "prefix_arg Op_No ps"; simp add: prefixes_of_def)+

lemma decode_constrained:
  assumes "slice_ok code" and "decode_at code off = Ok i" and "in_opcode i = Op_Constrained"
  shows "operand_token (in_operand i) \<noteq> None"
proof -
  have "oi_operand (info Op_Constrained) = InlineType"
    by code_simp
  moreover from assms(2) [unfolded decode_at_exact [OF assms(1)]]
  have "operand_encoding (in_opcode i) (next_offset i) (in_operand i) \<noteq> None"
    by (auto simp: assemble_def)
  ultimately show ?thesis
    using assms(3) by (auto simp: operand_encoding_def split: Operand.splits)
qed

text \<open>What \<open>apply_prefix\<close> does on each of the six prefixes.\<close>

lemma apply_prefix_Ok:
  "in_opcode i = Op_Constrained \<Longrightarrow> apply_prefix p i = Ok p' \<longleftrightarrow>
     px_constrained p = None \<and> p' = p\<lparr>px_constrained := operand_token (in_operand i)\<rparr>"
  "in_opcode i = Op_Volatile \<Longrightarrow> apply_prefix p i = Ok p' \<longleftrightarrow>
     \<not> px_volatile p \<and> p' = p\<lparr>px_volatile := True\<rparr>"
  "in_opcode i = Op_Unaligned \<Longrightarrow> apply_prefix p i = Ok p' \<longleftrightarrow>
     px_unaligned p = None \<and> p' = p\<lparr>px_unaligned := Some (prefix_byte (in_operand i))\<rparr>"
  "in_opcode i = Op_Tail \<Longrightarrow> apply_prefix p i = Ok p' \<longleftrightarrow> \<not> px_tail p \<and> p' = p\<lparr>px_tail := True\<rparr>"
  "in_opcode i = Op_Readonly \<Longrightarrow> apply_prefix p i = Ok p' \<longleftrightarrow>
     \<not> px_readonly p \<and> p' = p\<lparr>px_readonly := True\<rparr>"
  "in_opcode i = Op_No \<Longrightarrow> apply_prefix p i = Ok p' \<longleftrightarrow>
     no_checks_is_empty (px_no p) \<and> \<not> no_checks_is_empty (no_checks_from_bits (prefix_byte (in_operand i)))
     \<and> p' = p\<lparr>px_no := no_checks_from_bits (prefix_byte (in_operand i))\<rparr>"
  by (simp_all add: apply_prefix_def Let_def) auto

lemma prefix_arg_other:
  "in_opcode i \<noteq> op \<Longrightarrow> prefix_arg op (ps @ [i]) = prefix_arg op ps"
  by (simp split: option.split)

lemma prefix_arg_first:
  "prefix_arg (in_opcode i) ps = None \<Longrightarrow> prefix_arg (in_opcode i) (ps @ [i]) = Some (in_operand i)"
  by simp

lemma apply_prefix_adds:
  assumes "list_all prefix_ok ps" and "is_prefix (in_opcode i)"
    and "in_opcode i = Op_Constrained \<Longrightarrow> operand_token (in_operand i) \<noteq> None"
    and "apply_prefix (prefixes_of ps) i = Ok p'"
  shows "p' = prefixes_of (ps @ [i])" and "in_opcode i \<notin> in_opcode ` set ps" and "prefix_ok i"
proof -
  note held = prefixes_of_held [OF assms(1)] and adds = prefix_arg_other prefix_arg_first
  consider "in_opcode i = Op_Constrained" | "in_opcode i = Op_Volatile" | "in_opcode i = Op_Unaligned"
    | "in_opcode i = Op_Tail" | "in_opcode i = Op_Readonly" | "in_opcode i = Op_No"
    using assms(2) by (auto simp: prefix_opcodes)
  then have "p' = prefixes_of (ps @ [i]) \<and> prefix_arg (in_opcode i) ps = None \<and> prefix_ok i"
  proof cases
    case 1
    then have n: "prefix_arg Op_Constrained ps = None" and p': "p' = (prefixes_of ps)\<lparr>px_constrained := operand_token (in_operand i)\<rparr>"
      using assms(4) held(1) by (simp_all add: apply_prefix_Ok)
    with 1 assms(2,3) adds [of i] show ?thesis by (simp add: prefixes_of_def prefix_ok_def)
  next
    case 2
    then have n: "prefix_arg Op_Volatile ps = None" and p': "p' = (prefixes_of ps)\<lparr>px_volatile := True\<rparr>"
      using assms(4) by (simp_all add: apply_prefix_Ok prefixes_of_def)
    with 2 assms(2,3) adds [of i] show ?thesis by (simp add: prefixes_of_def prefix_ok_def)
  next
    case 3
    then have n: "prefix_arg Op_Unaligned ps = None" and p': "p' = (prefixes_of ps)\<lparr>px_unaligned := Some (prefix_byte (in_operand i))\<rparr>"
      using assms(4) held(2) by (simp_all add: apply_prefix_Ok)
    with 3 assms(2,3) adds [of i] show ?thesis by (simp add: prefixes_of_def prefix_ok_def)
  next
    case 4
    then have n: "prefix_arg Op_Tail ps = None" and p': "p' = (prefixes_of ps)\<lparr>px_tail := True\<rparr>"
      using assms(4) by (simp_all add: apply_prefix_Ok prefixes_of_def)
    with 4 assms(2,3) adds [of i] show ?thesis by (simp add: prefixes_of_def prefix_ok_def)
  next
    case 5
    then have n: "prefix_arg Op_Readonly ps = None" and p': "p' = (prefixes_of ps)\<lparr>px_readonly := True\<rparr>"
      using assms(4) by (simp_all add: apply_prefix_Ok prefixes_of_def)
    with 5 assms(2,3) adds [of i] show ?thesis by (simp add: prefixes_of_def prefix_ok_def)
  next
    case 6
    then have n: "prefix_arg Op_No ps = None" and k: "\<not> no_checks_is_empty (no_checks_from_bits (prefix_byte (in_operand i)))"
      and p': "p' = (prefixes_of ps)\<lparr>px_no := no_checks_from_bits (prefix_byte (in_operand i))\<rparr>"
      using assms(4) held(3) by (simp_all add: apply_prefix_Ok)
    with 6 assms(2,3) adds [of i] show ?thesis by (simp add: prefixes_of_def prefix_ok_def)
  qed
  then show "p' = prefixes_of (ps @ [i])" "in_opcode i \<notin> in_opcode ` set ps" "prefix_ok i"
    by (simp_all add: prefix_arg_None)
qed

text \<open>
  The prefixes held after the instructions \<open>ps\<close> were read from position \<open>m\<close> on; a folded
  instruction with the bytes it was made of; and what holds in every state of a run.
\<close>

definition read_prefixes :: "bytes \<Rightarrow> nat \<Rightarrow> Instruction list \<Rightarrow> nat \<Rightarrow> bool" where
  "read_prefixes code m ps q \<longleftrightarrow> tiles span_start span_size m ps q
     \<and> list_all (\<lambda>i. decode_at code (in_offset i) = Ok i \<and> prefix_ok i) ps
     \<and> distinct (map in_opcode ps)"

definition folded_from :: "bytes \<Rightarrow> FoldedInstruction \<Rightarrow> bool" where
  "folded_from code f \<longleftrightarrow> folded_ok f
     \<and> decode_at code (in_offset (fi_instruction f)) = Ok (fi_instruction f)
     \<and> (\<exists>ps. fi_prefixes f = prefixes_of ps
          \<and> read_prefixes code (folded_start f) ps (span_start (fi_instruction f)))"

definition fold_held :: "bytes \<Rightarrow> FoldState \<Rightarrow> Instruction list \<Rightarrow> nat \<Rightarrow> bool" where
  "fold_held code s ps m \<longleftrightarrow> read_prefixes code m ps (unat (ii_offset (fs_raw s)))
     \<and> unat (ii_offset (fs_raw s)) \<le> length code
     \<and> fs_prefixes s = prefixes_of ps
     \<and> fs_first s = (case ps of [] \<Rightarrow> None | i # _ \<Rightarrow> Some (in_offset i))"

definition fold_inv :: "bytes \<Rightarrow> FoldEvent list \<Rightarrow> FoldState \<Rightarrow> bool" where
  "fold_inv code es s \<longleftrightarrow>
     (\<exists>fs m. tiles folded_start folded_size 0 fs m \<and> m \<le> length code \<and> list_all (folded_from code) fs
        \<and> (if ii_done (fs_raw s)
           then pending es = [] \<and> s = between (fs_raw s) \<and> (\<exists>e. yielded es = map Ok fs @ [Err e])
           else yielded es = map Ok fs \<and> fold_held code s (pending es) m))"

lemma read_prefixes_le_6:
  assumes "read_prefixes code m ps q"
  shows "length ps \<le> 6"
proof -
  let ?six = "[Op_Constrained, Op_Volatile, Op_Unaligned, Op_Tail, Op_Readonly, Op_No]"
  have "set (map in_opcode ps) \<subseteq> set ?six"
    using assms by (auto simp: read_prefixes_def list_all_iff prefix_ok_def prefix_opcodes)
  from card_mono [OF _ this] have "card (set (map in_opcode ps)) \<le> card (set ?six)" by simp
  also have "\<dots> \<le> 6" using card_length [of ?six] by simp
  finally show ?thesis
    using assms distinct_card [of "map in_opcode ps"] by (simp add: read_prefixes_def)
qed

lemma ii_next_walk:
  assumes "length (ii_code it) \<le> u32_max" and "instruction_iter_next it = Ok (Some (Ok i, it'))"
  shows "decode_at (ii_code it) (ii_offset it) = Ok i"
    and "it' = it\<lparr>ii_offset := next_offset i\<rparr>" and "\<not> ii_done it"
proof -
  from assms(2) show d: "decode_at (ii_code it) (ii_offset it) = Ok i" and n: "\<not> ii_done it"
    by (auto simp: instruction_iter_next_def Let_def split: res.splits if_splits)
  show "it' = it\<lparr>ii_offset := next_offset i\<rparr>"
    using assms(2) d n decode_at_bounds(2,4) [OF assms(1) d]
    by (auto simp: instruction_iter_next_def Let_def word_le_nat_alt split: if_splits)
qed

lemma fold_inv_start: "fold_inv code [] (fold_start code)"
  by (auto simp: fold_inv_def fold_held_def read_prefixes_def instruction_iter_new_def
      intro!: exI [of _ "[]"] exI [of _ 0])

text \<open>An instruction read next to the prefixes held.\<close>

lemma fold_held_next:
  assumes "length (ii_code it) \<le> u32_max" and "instruction_iter_next it = Ok (Some (Ok i, it'))"
    and "fold_held (ii_code it) \<lparr>fs_prefixes = p, fs_first = f, fs_raw = it\<rparr> ps m"
  shows "tiles span_start span_size m (ps @ [i]) (unat (ii_offset it'))"
    and "unat (ii_offset it') \<le> length (ii_code it)" and "unat (ii_offset it') = span_start i + span_size i"
    and "\<not> ii_done it'" and "decode_at (ii_code it) (in_offset i) = Ok i"
    and "unat (first_of f i) = m" and "read_prefixes (ii_code it) m ps (span_start i)"
proof -
  note w = ii_next_walk [OF assms(1,2)]
  note b = decode_at_bounds [OF assms(1) w(1)]
  have it': "unat (ii_offset it') = span_start i + span_size i" "span_start i = unat (ii_offset it)"
    using w b by (simp_all add: span_start_def span_size_def)
  then show "unat (ii_offset it') = span_start i + span_size i" "unat (ii_offset it') \<le> length (ii_code it)"
    using b by (simp_all add: span_size_def)
  show "\<not> ii_done it'" "decode_at (ii_code it) (in_offset i) = Ok i" using w b by simp_all
  from assms(3) it' show "read_prefixes (ii_code it) m ps (span_start i)" by (simp add: fold_held_def)
  then have t: "tiles span_start span_size m ps (span_start i)" by (simp add: read_prefixes_def)
  with it' b show "tiles span_start span_size m (ps @ [i]) (unat (ii_offset it'))"
    by (auto simp: tiles_append span_size_def)
  show "unat (first_of f i) = m"
    using assms(3) t by (cases ps) (auto simp: fold_held_def span_start_def)
qed

lemma fold_inv_emit:
  assumes u: "length (ii_code it) \<le> u32_max" and n: "instruction_iter_next it = Ok (Some (Ok i, it'))"
    and h: "fold_held (ii_code it) \<lparr>fs_prefixes = p, fs_first = f, fs_raw = it\<rparr> ps m"
    and ok: "\<not> is_prefix (in_opcode i)" "prefixes_legal p (in_opcode i)"
    and fs: "tiles folded_start folded_size 0 fs m" "list_all (folded_from (ii_code it)) fs"
    and F: "F = \<lparr>fi_instruction = i, fi_prefixes = p, fi_first_offset = first_of f i\<rparr>"
  shows "tiles folded_start folded_size 0 (fs @ [F]) (unat (ii_offset it'))"
    and "list_all (folded_from (ii_code it)) (fs @ [F])"
proof -
  note k = fold_held_next [OF u n h]
  from k(7) have "m \<le> span_start i" by (auto simp: read_prefixes_def dest: tiles_le)
  moreover have nx: "unat (next_offset i) = span_start i + span_size i" "0 < span_size i"
    using ii_next_walk [OF u n] k(3) decode_at_bounds(2) [OF u] by (auto simp: span_size_def)
  ultimately have "first_of f i \<le> next_offset i" using k(6) by (simp add: word_le_nat_alt)
  with nx k(6) have "folded_size F = span_start i + span_size i - m" and "folded_start F = m"
    by (simp_all add: F folded_size_def folded_start_def fi_total_size_def fi_end_offset_def unat_sub)
  with fs(1) nx k(3) \<open>m \<le> span_start i\<close>
  show "tiles folded_start folded_size 0 (fs @ [F]) (unat (ii_offset it'))"
    by (auto simp: tiles_append)
  have "p = prefixes_of ps" using h by (simp add: fold_held_def)
  then have "folded_from (ii_code it) F"
    using k(5,7) ok \<open>folded_start F = m\<close> by (auto simp: folded_from_def folded_ok_def F)
  with fs(2) show "list_all (folded_from (ii_code it)) (fs @ [F])" by simp
qed

lemma fold_held_collect:
  assumes u: "length (ii_code it) \<le> u32_max" and n: "instruction_iter_next it = Ok (Some (Ok i, it'))"
    and h: "fold_held (ii_code it) \<lparr>fs_prefixes = p, fs_first = f, fs_raw = it\<rparr> ps m"
    and i: "is_prefix (in_opcode i)" "apply_prefix p i = Ok p'"
  shows "fold_held (ii_code it) \<lparr>fs_prefixes = p', fs_first = Some (first_of f i), fs_raw = it'\<rparr> (ps @ [i]) m"
proof -
  note k = fold_held_next [OF u n h]
  have p: "p = prefixes_of ps" and r: "read_prefixes (ii_code it) m ps (span_start i)"
    and f: "f = (case ps of [] \<Rightarrow> None | i # _ \<Rightarrow> Some (in_offset i))"
    using h k(7) by (simp_all add: fold_held_def)
  have "list_all prefix_ok ps" using r by (simp add: read_prefixes_def list_all_iff)
  note a = apply_prefix_adds [OF this i(1) decode_constrained [OF slice_ok_u32 [OF u] k(5)] i(2) [unfolded p]]
  have "read_prefixes (ii_code it) m (ps @ [i]) (unat (ii_offset it'))"
    using r k(1,5) a by (auto simp: read_prefixes_def)
  then show ?thesis
    using k(2) a(1) f by (cases ps) (simp_all add: fold_held_def)
qed

lemma fold_step_inv:
  assumes "fold_step s e t" and "length code \<le> u32_max" and "ii_code (fs_raw s) = code" and "fold_inv code es s"
  shows "fold_inv code (es @ [e]) t"
  using assms
proof (induction rule: fold_step.induct)
  case (collect it i it' p p' f)
  then have u: "length (ii_code it) \<le> u32_max" by simp
  note w = ii_next_walk [OF u collect(1)]
  from collect.prems w(3) obtain fs m where *: "tiles folded_start folded_size 0 fs m" "m \<le> length code"
      "list_all (folded_from code) fs" "yielded es = map Ok fs"
      "fold_held code \<lparr>fs_prefixes = p, fs_first = f, fs_raw = it\<rparr> (pending es) m"
    by (auto simp: fold_inv_def)
  with fold_held_collect [OF u collect(1) _ collect(2,3)] collect.prems w show ?case
    unfolding fold_inv_def by (intro exI [of _ fs] exI [of _ m]) simp
next
  case (emit it i it' p f)
  then have u: "length (ii_code it) \<le> u32_max" by simp
  note w = ii_next_walk [OF u emit(1)]
  let ?F = "\<lparr>fi_instruction = i, fi_prefixes = p, fi_first_offset = first_of f i\<rparr>"
  from emit.prems w(3) obtain fs m where *: "tiles folded_start folded_size 0 fs m"
      "list_all (folded_from (ii_code it)) fs" "yielded es = map Ok fs"
      "fold_held (ii_code it) \<lparr>fs_prefixes = p, fs_first = f, fs_raw = it\<rparr> (pending es) m"
    by (auto simp: fold_inv_def)
  note e = fold_inv_emit [OF u emit(1) *(4) emit(2,3) *(1,2) refl]
  note k = fold_held_next [OF u emit(1) *(4)]
  have "fold_held code (between it') [] (unat (ii_offset it'))"
    using k(2) emit.prems by (simp add: fold_held_def read_prefixes_def)
  with e k(2,4) *(3) emit.prems show ?case
    unfolding fold_inv_def by (intro exI [of _ "fs @ [?F]"] exI [of _ "unat (ii_offset it')"]) simp
next
  case (raw_error it e it' p f)
  then have "ii_done it'" "\<not> ii_done it" using ii_next_items [OF raw_error(1)] ii_next_done [of it] by auto
  with raw_error.prems show ?case by (auto simp: fold_inv_def)
next
  case (bad_prefix it i it' p e f)
  then have "\<not> ii_done it" using ii_next_done [of it] by auto
  with bad_prefix.prems show ?case by (auto simp: fold_inv_def)
next
  case (bad_target it i it' p f)
  then have "\<not> ii_done it" using ii_next_done [of it] by auto
  with bad_target.prems show ?case by (auto simp: fold_inv_def)
next
  case (dangling it p a)
  then have "\<not> ii_done it" by (auto simp: fold_inv_def between_def)
  with dangling.prems show ?case by (auto simp: fold_inv_def)
qed

lemma fold_run_inv:
  "fold_run s es t \<Longrightarrow> s = fold_start code \<Longrightarrow> length code \<le> u32_max \<Longrightarrow> fold_inv code es t"
proof (induction rule: fold_run.induct)
  case (run_snoc es t e u)
  have "ii_code (fs_raw t) = code"
    using fold_run_code [OF run_snoc(1)] run_snoc.prems by (simp add: instruction_iter_new_def)
  with fold_step_inv [OF run_snoc(2) run_snoc.prems(2)] run_snoc show ?case by blast
qed (simp add: fold_inv_start)

section \<open>Properties\<close>

text \<open>C25: A call of \<open>FoldedIter::next\<close> is a run of the state machine: it returns an item exactly
  when the machine, started between two items, collects some prefixes without a sound and then
  yields that item, and it returns nothing exactly when the machine stops without yielding.\<close>

theorem folded_next_is_run:
  assumes "slice_ok (ii_code it)"
  shows "(folded_iter_next it = Ok (Some (y, it'))
       \<longleftrightarrow> (\<exists>is. fold_run (between it) (map Hold is @ [Yield y]) (between it')))
     \<and> (folded_iter_next it = Ok None \<longleftrightarrow> (\<exists>is t. fold_run (between it) (map Hold is) t \<and> fold_final t))"
  using fold_next_run(1) [of "between it" y it'] fold_next_run(2) [of "between it"] assms
  by (simp add: folded_iter_next_def)

theorem folded_next_is_run_witness:
  "folded_iter_next (instruction_iter_new []) = Ok None
     \<and> (\<exists>is t. fold_run (between (instruction_iter_new [])) (map Hold is) t \<and> fold_final t)"
proof -
  have "instruction_iter_next (instruction_iter_new []) = Ok None"
    by (simp add: instruction_iter_next_def instruction_iter_new_def)
  then have "folded_iter_next (instruction_iter_new []) = Ok None"
    by (simp add: folded_iter_next_def folded_loop_None)
  moreover have "slice_ok (ii_code (instruction_iter_new []))" by (simp add: instruction_iter_new_def)
  ultimately show ?thesis using folded_next_is_run by blast
qed

text \<open>C16: Whatever a caller has taken from a folded stream so far, the stream comes to its end: from
  every state a run reaches, the machine can go on to a final state, it cannot take more than two
  steps per byte of code altogether, and what it has then yielded is the folded stream.\<close>

theorem folded_stream_completes:
  assumes "slice_ok code" and "fold_run (fold_start code) es s"
  shows "\<exists>es' t. fold_run s es' t \<and> fold_final t \<and> length (es @ es') \<le> 2 * length code
     \<and> folded_instructions code = Ok (Some (yielded (es @ es')))"
proof -
  have "slice_ok (ii_code (fs_raw s))"
    using fold_run_code [OF assms(2)] assms(1) by (simp add: instruction_iter_new_def)
  from fold_run_completes [OF this] obtain es' t where t: "fold_run s es' t" "fold_final t" by blast
  from fold_run_append [OF t(1) assms(2)] have r: "fold_run (fold_start code) (es @ es') t" .
  have "folded_instructions code = Ok (Some (yielded (es @ es')))"
    using fold_run_rest [OF r _ fold_final_rest [OF t(2)]] fold_rest_start [OF assms(1)] assms(1)
    by (simp add: instruction_iter_new_def)
  with t fold_run_left [OF r] fold_left_start [of code] show ?thesis by (intro exI conjI) auto
qed

theorem folded_stream_completes_witness:
  "\<exists>es' t. fold_run (fold_start [0x00, 0x2A]) es' t \<and> fold_final t
     \<and> folded_instructions [0x00, 0x2A] = Ok (Some (yielded es'))"
proof -
  have "slice_ok [0x00, 0x2A :: u8]" by (simp add: slice_ok_def isize_max_def)
  from folded_stream_completes [OF this run_nil] show ?thesis by auto
qed

text \<open>C8: Between any two steps of \<open>FoldedIter\<close> over code of up to 4 GiB (which the code of a body
  never exceeds: its length is a field of 32 bits), the instructions yielded tile the code from 0 up to
  the first prefix held; the prefixes held tile on from there to the read position, are all
  different and at most six; the \<open>Prefixes\<close> record is what they amount to and the first offset is
  that of the first of them. Each instruction yielded carries the prefixes decoded right before it.
  After an error nothing is held and the error is the last item.\<close>

theorem folded_run_invariant:
  assumes "length code \<le> u32_max" and "fold_run (fold_start code) es s"
  shows "fold_inv code es s \<and> length (pending es) \<le> 6"
proof -
  have "fold_inv code es s" using fold_run_inv [OF assms(2) refl assms(1)] .
  then show ?thesis by (auto simp: fold_inv_def fold_held_def dest: read_prefixes_le_6 split: if_splits)
qed

theorem folded_run_invariant_witness:
  "\<exists>es s. fold_run (fold_start [0xFE, 0x13, 0x46]) es s \<and> fold_final s
     \<and> fold_inv [0xFE, 0x13, 0x46] es s \<and> length (pending es) \<le> 6"
proof -
  let ?code = "[0xFE, 0x13, 0x46] :: bytes"
  have l: "length ?code \<le> u32_max" by (simp add: u32_max_def)
  have "slice_ok (ii_code (fs_raw (fold_start ?code)))"
    using slice_ok_u32 [OF l] by (simp add: instruction_iter_new_def)
  from fold_run_completes [OF this] obtain es s where r: "fold_run (fold_start ?code) es s" "fold_final s" by blast
  from folded_run_invariant [OF l r(1)] r show ?thesis by blast
qed

end
