(* ===== verification/Body.thy ===== *)
theory Body
  imports Codec Token Il
begin

text \<open>
  Method bodies and exception tables (\<open>src/body.rs\<close>). A body is a tiny or fat header, the code,
  and for a fat header with \<open>MoreSects\<close> a chain of aligned data sections. \<open>FatFlags\<close> is the
  \<open>u16\<close> it wraps. The loop of \<open>parse_sections\<close> is \<open>sections_loop\<close> over one round,
  \<open>section_step\<close>; the three vectors it fills are the record \<open>sections\<close>. A slice in a \<open>MethodBody\<close>
  is the list of its bytes. \<open>MethodBody::from_image\<close> is in the theory of the image.
\<close>

section \<open>Data\<close>

definition CTX_BODY :: string where
  "CTX_BODY = ''method body''"

datatype HeaderKind = HK_Tiny | HK_Fat

definition fat_more_sects :: "u16 \<Rightarrow> bool" where
  "fat_more_sects flags \<longleftrightarrow> flags AND 0x0008 \<noteq> 0"

definition fat_init_locals :: "u16 \<Rightarrow> bool" where
  "fat_init_locals flags \<longleftrightarrow> flags AND 0x0010 \<noteq> 0"

datatype HandlerKind = H_Catch Token | H_Filter u32 | H_Finally | H_Fault

record ExceptionHandler =
  eh_kind :: HandlerKind
  eh_try_offset :: u32
  eh_try_length :: u32
  eh_handler_offset :: u32
  eh_handler_length :: u32
  eh_raw_flags :: u32

text \<open>\<open>u32::saturating_add\<close>.\<close>

definition u32_saturating_add :: "u32 \<Rightarrow> u32 \<Rightarrow> u32" where
  "u32_saturating_add a b = of_nat (min (unat a + unat b) u32_max)"

definition try_end :: "ExceptionHandler \<Rightarrow> u32" where
  "try_end h = u32_saturating_add (eh_try_offset h) (eh_try_length h)"

definition handler_end :: "ExceptionHandler \<Rightarrow> u32" where
  "handler_end h = u32_saturating_add (eh_handler_offset h) (eh_handler_length h)"

record RawSection =
  rs_kind :: u8
  rs_data :: bytes

record MethodBody =
  mb_kind :: HeaderKind
  mb_flags :: u16
  mb_max_stack :: u16
  mb_code :: bytes
  mb_code_rva :: u32
  mb_local_var_sig :: "Token option"
  mb_exception_handlers :: "ExceptionHandler list"
  mb_unknown_sections :: "RawSection list"
  mb_header_dwords :: u8
  mb_total_size :: nat
  mb_diagnostics :: "diagnostic list"

section \<open>Clauses and sections\<close>

definition read_clause_fields ::
    "reader \<Rightarrow> bool \<Rightarrow> ((u32 \<times> u32 \<times> u32 \<times> u32 \<times> u32 \<times> u32) \<times> reader) result" where
  "read_clause_fields r fat =
     (if fat then
        res_bind (reader_u32 r) (\<lambda>(a, r).
        res_bind (reader_u32 r) (\<lambda>(b, r).
        res_bind (reader_u32 r) (\<lambda>(c, r).
        res_bind (reader_u32 r) (\<lambda>(d, r).
        res_bind (reader_u32 r) (\<lambda>(e, r).
        res_bind (reader_u32 r) (\<lambda>(f, r).
        Ok ((a, b, c, d, e, f), r)))))))
      else
        res_bind (reader_u16 r) (\<lambda>(flags, r).
        res_bind (reader_u16 r) (\<lambda>(try_offset, r).
        res_bind (reader_u8 r) (\<lambda>(try_length, r).
        res_bind (reader_u16 r) (\<lambda>(handler_offset, r).
        res_bind (reader_u8 r) (\<lambda>(handler_length, r).
        res_bind (reader_u32 r) (\<lambda>(extra, r).
        Ok ((ucast flags, ucast try_offset, ucast try_length, ucast handler_offset,
             ucast handler_length, extra), r))))))))"

definition handler_kind :: "u32 \<Rightarrow> u32 \<Rightarrow> HandlerKind option" where
  "handler_kind raw_flags extra =
     (let k = raw_flags AND 0x0007 in
      if k = 0x0000 then Some (H_Catch (Token extra))
      else if k = 0x0001 then Some (H_Filter extra)
      else if k = 0x0002 then Some H_Finally
      else if k = 0x0004 then Some H_Fault
      else None)"

definition read_clause :: "bytes \<Rightarrow> bool \<Rightarrow> nat \<Rightarrow> ExceptionHandler result" where
  "read_clause chunk fat at =
     res_bind (read_clause_fields (reader_new chunk at ''exception clause'') fat)
       (\<lambda>((raw_flags, try_offset, try_length, handler_offset, handler_length, extra), r).
     res_bind (ok_or (handler_kind raw_flags extra) (error_new Malformed at ''exception clause'')) (\<lambda>kind.
     Ok \<lparr>eh_kind = kind, eh_try_offset = try_offset, eh_try_length = try_length,
         eh_handler_offset = handler_offset, eh_handler_length = handler_length,
         eh_raw_flags = raw_flags\<rparr>))"

record sections =
  se_diagnostics :: "diagnostic list"
  se_handlers :: "ExceptionHandler list"
  se_unknown :: "RawSection list"

definition push_diag :: "DiagnosticCode \<Rightarrow> nat \<Rightarrow> nat \<Rightarrow> sections \<Rightarrow> sections" where
  "push_diag c off d s = s\<lparr>se_diagnostics := se_diagnostics s @ [diagnostic_new c off d]\<rparr>"

definition read_section_header :: "reader \<Rightarrow> ((u8 \<times> nat) \<times> reader) result" where
  "read_section_header r =
     res_bind (reader_u8 r) (\<lambda>(kind, r).
     if kind AND 0x40 \<noteq> 0 then
       res_bind (reader_take 3 r) (\<lambda>(b, r).
       Ok ((kind, unat (ucast (b ! 0) OR push_bit 8 (ucast (b ! 1)) OR push_bit 16 (ucast (b ! 2)) :: u32)), r))
     else
       res_bind (reader_u8 r) (\<lambda>(sz, r).
       res_bind (reader_u16 r) (\<lambda>(_, r).
       Ok ((kind, unat sz), r))))"

text \<open>The clauses of a section body: \<open>count\<close> chunks, each decoded where it lies.\<close>

definition read_clauses :: "bytes \<Rightarrow> bool \<Rightarrow> nat \<Rightarrow> nat \<Rightarrow> nat \<Rightarrow> ExceptionHandler list result" where
  "read_clauses body fat clause_size section_start count =
     res_map (\<lambda>i.
       res_bind (index_range body (i * clause_size) ((i + 1) * clause_size)) (\<lambda>chunk.
       read_clause chunk fat (section_start + 4 + i * clause_size)))
     [0..<count]"

text \<open>
  How many bytes the section holds: the header-inclusive reading of \<open>DataSize\<close>, the
  header-exclusive one when only that divides, and never more than there are.
\<close>

definition section_body_size ::
    "Strictness \<Rightarrow> bool \<Rightarrow> nat \<Rightarrow> nat \<Rightarrow> nat \<Rightarrow> nat \<Rightarrow> sections \<Rightarrow> (nat \<times> sections) result" where
  "section_body_size strictness is_eh clause_size data_size remaining section_start s =
     (let declared = data_size;
          body_size = saturating_sub declared 4 in
      res_bind (if is_eh \<and> 0 < clause_size \<and> body_size mod clause_size \<noteq> 0
                   \<and> declared mod clause_size = 0 \<and> declared \<le> remaining then
                  if is_strict strictness then Err (error_new Malformed section_start CTX_BODY)
                  else Ok (declared, push_diag EhSectionSize section_start data_size s)
                else Ok (body_size, s)) (\<lambda>(body_size, s).
      if remaining < body_size then
        if is_strict strictness then Err (error_new Truncated section_start CTX_BODY)
        else Ok (remaining, push_diag EhSectionSize section_start data_size s)
      else Ok (body_size, s)))"

definition section_payload ::
    "Strictness \<Rightarrow> u8 \<Rightarrow> bool \<Rightarrow> nat \<Rightarrow> nat \<Rightarrow> bytes \<Rightarrow> sections \<Rightarrow> sections result" where
  "section_payload strictness kind fat clause_size section_start body s =
     (if kind AND 0x01 \<noteq> 0 then
        res_bind (if length body mod clause_size \<noteq> 0 then
                    if is_strict strictness then Err (error_new Malformed section_start CTX_BODY)
                    else Ok (push_diag EhSectionSize section_start (length body) s)
                  else Ok s) (\<lambda>s.
        res_bind (read_clauses body fat clause_size section_start (length body div clause_size)) (\<lambda>hs.
        Ok (s\<lparr>se_handlers := se_handlers s @ hs\<rparr>)))
      else Ok (s\<lparr>se_unknown := se_unknown s @ [\<lparr>rs_kind = kind, rs_data = body\<rparr>]\<rparr>))"

definition section_step :: "Strictness \<Rightarrow> reader \<Rightarrow> sections \<Rightarrow> (bool \<times> reader \<times> sections) result" where
  "section_step strictness r s =
     res_bind (reader_align_to r 0 4) (\<lambda>r.
     let section_start = r_pos r in
     res_bind (read_section_header r) (\<lambda>((kind, data_size), r).
     let fat = (kind AND 0x40 \<noteq> 0);
         clause_size = (if fat then 24 else 12) in
     res_bind (reader_remaining r) (\<lambda>remaining.
     res_bind (section_body_size strictness (kind AND 0x01 \<noteq> 0) clause_size data_size remaining section_start s)
       (\<lambda>(body_size, s).
     res_bind (reader_take body_size r) (\<lambda>(body, r).
     res_bind (section_payload strictness kind fat clause_size section_start body s) (\<lambda>s.
     Ok (kind AND 0x80 \<noteq> 0, r, s)))))))"

lemma section_step_moves: "section_step st r s = Ok (m, r', s') \<Longrightarrow> moves r 4 r'"
proof -
  have hdr: "moves r 4 r'" if "read_section_header r = Ok (x, r')" for r x r'
    using that
    by (auto simp: read_section_header_def res_iff split: if_splits dest!: reads_move(1-3))
      (auto simp: moves_def)
  assume "section_step st r s = Ok (m, r', s')"
  then have "\<exists>r1 h n p. reader_align_to r 0 4 = Ok r1 \<and> read_section_header r1 = Ok h
      \<and> reader_take n (snd h) = Ok p \<and> snd p = r'"
    unfolding section_step_def Let_def res_bind_Ok_iff case_prod_beta by (auto; blast)
  then obtain r1 h n p where "reader_align_to r 0 4 = Ok r1" "read_section_header r1 = Ok h"
    "reader_take n (snd h) = Ok p" "snd p = r'" by blast
  then have "moves r 0 r1" "moves r1 4 (snd h)" "moves (snd h) n r'"
    using reads_move(5) hdr [of r1 "fst h" "snd h"] reads_move(1) [of n "snd h" "fst p" "snd p"] by auto
  then show ?thesis by (auto simp: moves_def)
qed

function sections_loop :: "Strictness \<Rightarrow> reader \<Rightarrow> sections \<Rightarrow> (reader \<times> sections) result" where
  "sections_loop strictness r s =
     res_bind (section_step strictness r s) (\<lambda>(m, r', s').
     if \<not> m then Ok (r', s')
     else if reader_is_empty r' then
       if is_strict strictness then Err (error_new Truncated (r_pos r') CTX_BODY)
       else Ok (r', s')
     else sections_loop strictness r' s')"
  by pat_completeness auto
termination
proof (relation "measure (\<lambda>(st, r, s). length (r_data r) - r_pos r)")
  fix strictness r s x m y r' s'
  assume "section_step strictness r s = Ok x" "(m, y) = x" "(r', s') = y"
  then have "moves r 4 r'" using section_step_moves by blast
  then show "((strictness, r', s'), (strictness, r, s)) \<in> measure (\<lambda>(st, r, s). length (r_data r) - r_pos r)"
    by (auto simp: moves_def)
qed simp

declare sections_loop.simps [simp del]

definition parse_sections :: "Strictness \<Rightarrow> reader \<Rightarrow> diagnostic list \<Rightarrow> (reader \<times> sections) result" where
  "parse_sections strictness r diags =
     sections_loop strictness r \<lparr>se_diagnostics = diags, se_handlers = [], se_unknown = []\<rparr>"

section \<open>Bodies\<close>

definition parse_tiny :: "reader \<Rightarrow> u32 \<Rightarrow> MethodBody result" where
  "parse_tiny r code_rva =
     res_bind (reader_u8 r) (\<lambda>(header, r).
     let code_size = unat (drop_bit 2 header) in
     res_bind (reader_take code_size r) (\<lambda>(code, r).
     Ok \<lparr>mb_kind = HK_Tiny, mb_flags = 0, mb_max_stack = 8, mb_code = code, mb_code_rva = code_rva + 1,
         mb_local_var_sig = None, mb_exception_handlers = [], mb_unknown_sections = [],
         mb_header_dwords = 0, mb_total_size = 1 + code_size, mb_diagnostics = []\<rparr>))"

text \<open>The twelve header bytes of a fat body; then the size check and the code behind them.\<close>

definition read_fat_fields :: "reader \<Rightarrow> ((u16 \<times> u16 \<times> u32 \<times> u32) \<times> reader) result" where
  "read_fat_fields r =
     res_bind (reader_u16 r) (\<lambda>(flags_and_size, r).
     res_bind (reader_u16 r) (\<lambda>(max_stack, r).
     res_bind (reader_u32 r) (\<lambda>(code_size, r).
     res_bind (reader_u32 r) (\<lambda>(local_var_sig_tok, r).
     Ok ((flags_and_size, max_stack, code_size, local_var_sig_tok), r)))))"

definition header_size_diags :: "Strictness \<Rightarrow> u8 \<Rightarrow> diagnostic list result" where
  "header_size_diags strictness header_dwords =
     (if header_dwords \<noteq> 3 then
        if is_strict strictness then Err (error_new Malformed 0 CTX_BODY)
        else Ok [diagnostic_new FatHeaderSize 0 (unat header_dwords)]
      else Ok [])"

definition fat_header_size :: "u16 \<Rightarrow> nat" where
  "fat_header_size flags_and_size = unat (max (ucast (drop_bit 12 flags_and_size) :: u8) 3) * 4"

definition parse_fat_header ::
    "reader \<Rightarrow> Strictness \<Rightarrow> ((u16 \<times> u16 \<times> u32 \<times> bytes \<times> diagnostic list) \<times> reader) result" where
  "parse_fat_header r strictness =
     res_bind (read_fat_fields r) (\<lambda>((flags_and_size, max_stack, code_size, local_var_sig_tok), r).
     res_bind (header_size_diags strictness (ucast (drop_bit 12 flags_and_size))) (\<lambda>diags.
     res_bind (reader_seek r (fat_header_size flags_and_size)) (\<lambda>r.
     res_bind (reader_take (unat code_size) r) (\<lambda>(code, r).
     Ok ((flags_and_size, max_stack, local_var_sig_tok, code, diags), r)))))"

definition fat_sections :: "Strictness \<Rightarrow> u16 \<Rightarrow> reader \<Rightarrow> diagnostic list \<Rightarrow> (reader \<times> sections) result" where
  "fat_sections strictness flags r diags =
     (if fat_more_sects flags then parse_sections strictness r diags
      else Ok (r, \<lparr>se_diagnostics = diags, se_handlers = [], se_unknown = []\<rparr>))"

definition parse_fat :: "reader \<Rightarrow> u32 \<Rightarrow> Strictness \<Rightarrow> MethodBody result" where
  "parse_fat r code_rva strictness =
     res_bind (parse_fat_header r strictness)
       (\<lambda>((flags_and_size, max_stack, local_var_sig_tok, code, diags), r).
     let flags = flags_and_size AND 0x0FFF;
         header_dwords = ucast (drop_bit 12 flags_and_size) :: u8;
         header_size = fat_header_size flags_and_size;
         local_var_sig = (if local_var_sig_tok = 0 then None else Some (Token local_var_sig_tok)) in
     if is_strict strictness
        \<and> (case local_var_sig of Some t \<Rightarrow> token_table t \<noteq> Some T_StandAloneSig | None \<Rightarrow> False)
     then Err (error_new Malformed 8 CTX_BODY)
     else
     res_bind (fat_sections strictness flags r diags) (\<lambda>(r, s).
     Ok \<lparr>mb_kind = HK_Fat, mb_flags = flags, mb_max_stack = max_stack, mb_code = code,
         mb_code_rva = code_rva + of_nat header_size, mb_local_var_sig = local_var_sig,
         mb_exception_handlers = se_handlers s, mb_unknown_sections = se_unknown s,
         mb_header_dwords = header_dwords, mb_total_size = r_pos r, mb_diagnostics = se_diagnostics s\<rparr>))"

definition parse_with :: "bytes \<Rightarrow> u32 \<Rightarrow> Strictness \<Rightarrow> MethodBody result" where
  "parse_with bs code_rva strictness =
     (let r = reader_new bs 0 CTX_BODY in
      res_bind (reader_peek_u8 r) (\<lambda>first.
      if first AND 0x03 = 0x02 then parse_tiny r code_rva
      else if first AND 0x03 = 0x03 then parse_fat r code_rva strictness
      else Err (error_new Malformed 0 CTX_BODY)))"

definition parse_body :: "bytes \<Rightarrow> u32 \<Rightarrow> MethodBody result" where
  "parse_body bs code_rva = parse_with bs code_rva Permissive"

definition body_code_size :: "MethodBody \<Rightarrow> nat" where
  "body_code_size b = length (mb_code b)"

section \<open>Handler validation\<close>

definition partially_overlaps :: "u32 \<Rightarrow> u32 \<Rightarrow> u32 \<Rightarrow> u32 \<Rightarrow> bool" where
  "partially_overlaps a_start a_end b_start b_end \<longleftrightarrow>
     (if \<not> (a_start < b_end \<and> b_start < a_end) then False
      else \<not> (b_start \<le> a_start \<and> a_end \<le> b_end) \<and> \<not> (a_start \<le> b_start \<and> b_end \<le> a_end))"

text \<open>A \<open>for\<close> loop over \<open>enumerate()\<close> that returns at the first error.\<close>

fun for_each :: "(nat \<Rightarrow> 'a \<Rightarrow> unit result) \<Rightarrow> nat \<Rightarrow> 'a list \<Rightarrow> unit result" where
  "for_each f i [] = Ok ()"
| "for_each f i (x # xs) = res_bind (f i x) (\<lambda>_. for_each f (Suc i) xs)"

definition validate_nesting :: "nat \<Rightarrow> ExceptionHandler \<Rightarrow> nat \<Rightarrow> ExceptionHandler \<Rightarrow> unit result" where
  "validate_nesting i h j other =
     (if i = j then Ok ()
      else if partially_overlaps (eh_try_offset h) (try_end h) (eh_try_offset other) (try_end other)
        then Err (error_new Malformed i ''exception handler nesting'')
      else if partially_overlaps (eh_handler_offset h) (handler_end h) (eh_handler_offset other) (handler_end other)
        then Err (error_new Malformed i ''exception handler nesting'')
      else Ok ())"

definition validate_handler :: "nat \<Rightarrow> ExceptionHandler list \<Rightarrow> nat \<Rightarrow> ExceptionHandler \<Rightarrow> unit result" where
  "validate_handler code_len hs i h =
     (let tend = unat (eh_try_offset h) + unat (eh_try_length h);
          hend = unat (eh_handler_offset h) + unat (eh_handler_length h) in
      if code_len < tend \<or> code_len < hend then Err (error_new OutOfRange i ''exception handler'')
      else if eh_try_length h = 0 \<or> eh_handler_length h = 0 then Err (error_new Malformed i ''exception handler'')
      else if eh_handler_offset h < try_end h \<and> eh_try_offset h < handler_end h
        then Err (error_new Malformed i ''exception handler'')
      else
      res_bind (case eh_kind h of
          H_Filter filter_offset \<Rightarrow>
            if code_len \<le> unat filter_offset then Err (error_new OutOfRange i ''exception filter'')
            else if eh_handler_offset h \<le> filter_offset then Err (error_new Malformed i ''exception filter'')
            else Ok ()
        | _ \<Rightarrow> Ok ()) (\<lambda>_.
      for_each (validate_nesting i h) 0 hs))"

definition validate_handlers :: "MethodBody \<Rightarrow> unit result" where
  "validate_handlers b =
     for_each (validate_handler (length (mb_code b)) (mb_exception_handlers b)) 0 (mb_exception_handlers b)"

section \<open>Instruction offsets\<close>

fun offsets_of :: "Instruction result list \<Rightarrow> u32 list" where
  "offsets_of (Ok i # xs) = in_offset i # offsets_of xs"
| "offsets_of _ = []"

definition instruction_offsets :: "MethodBody \<Rightarrow> u32 list option result" where
  "instruction_offsets b =
     res_bind (instructions (mb_code b)) (\<lambda>t. Ok (map_option offsets_of t))"

fun boundary_in :: "u32 \<Rightarrow> Instruction result list \<Rightarrow> bool" where
  "boundary_in off (Ok i # xs) =
     (if in_offset i = off then True else if off < in_offset i then False else boundary_in off xs)"
| "boundary_in off _ = False"

definition is_instruction_boundary :: "MethodBody \<Rightarrow> u32 \<Rightarrow> bool option result" where
  "is_instruction_boundary b off =
     res_bind (instructions (mb_code b)) (\<lambda>t. Ok (map_option (boundary_in off) t))"

section \<open>No panics\<close>

lemma clause_fields_safe: "rd_safe (\<lambda>r. read_clause_fields r fat)"
  unfolding read_clause_fields_def by (intro safe_intro)

lemma section_header_safe: "rd_safe read_section_header"
  unfolding read_section_header_def [abs_def] by (intro safe_intro)

lemma clause_total:
  assumes "slice_ok chunk"
  shows "no_panic (read_clause chunk fat at)"
  unfolding read_clause_def case_prod_beta
  by (intro no_panic_bind rd_safeD(1) [OF clause_fields_safe]) (use assms in \<open>auto simp: no_panic_ok_or\<close>)

lemma clauses_total:
  assumes "slice_ok body" and "count * c \<le> length body"
  shows "no_panic (read_clauses body fat c start count)"
  unfolding read_clauses_def
proof (rule no_panic_res_map)
  fix i assume "i \<in> set [0..<count]"
  then have "(i + 1) * c \<le> count * c" by (intro mult_le_mono1) auto
  then have "(i + 1) * c \<le> length body" using assms(2) by simp
  then show "no_panic (res_bind (index_range body (i * c) ((i + 1) * c))
      (\<lambda>chunk. read_clause chunk fat (start + 4 + i * c)))"
    using assms(1) by (auto simp: res_iff clause_total)
qed

lemma align4_total: "reader_wf r \<Longrightarrow> no_panic (reader_align_to r 0 4)"
  by (simp add: reader_align4 Let_def)

lemma section_body_size_total: "no_panic (section_body_size st eh c d remaining start s)"
  unfolding section_body_size_def Let_def case_prod_beta
  by (intro no_panic_bind no_panic_if res.distinct)

lemma section_payload_total: "slice_ok body \<Longrightarrow> no_panic (section_payload st kind fat c start body s)"
  unfolding section_payload_def
  by (intro no_panic_bind no_panic_if res.distinct clauses_total) (auto simp: div_times_less_eq_dividend)

lemma section_header_moves: "read_section_header r = Ok (x, r') \<Longrightarrow> moves r 4 r'"
  by (auto simp: read_section_header_def res_iff split: if_splits dest!: reads_move(1-3))
    (auto simp: moves_def)

lemma section_step_total:
  assumes "reader_wf r"
  shows "no_panic (section_step st r s)"
proof -
  have sl: "slice_ok (r_data r)" using assms by (simp add: reader_wf_def)
  show ?thesis
    unfolding section_step_def Let_def case_prod_beta
  proof (intro no_panic_bind)
    fix r1 h n and p :: "nat \<times> sections" and b
    assume 1: "reader_align_to r 0 4 = Ok r1"
    have w1: "reader_wf r1" using moves_wf [OF reads_move(5) [OF 1] sl] .
    then show "no_panic (read_section_header r1)" by (rule rd_safeD(1) [OF section_header_safe])
    assume 2: "read_section_header r1 = Ok h"
    have w2: "reader_wf (snd h)"
      using rd_safeD(3) [OF section_header_safe w1, of "fst h" "snd h"] 2 by simp
    then show "no_panic (reader_remaining (snd h))" by (simp add: reader_remaining_wf)
    show "no_panic (section_body_size st (fst (fst h) AND 1 \<noteq> 0) (if fst (fst h) AND 64 \<noteq> 0 then 24 else 12)
        (snd (fst h)) n (r_pos r1) s)"
      by (rule section_body_size_total)
    show "no_panic (reader_take (fst p) (snd h))" using w2 by (rule rd_take.total)
    assume "reader_take (fst p) (snd h) = Ok b"
    then have "slice_ok (fst b)" using w2 by (cases b) (auto simp: rd_take.Ok_iff reader_wf_def)
    then show "no_panic (section_payload st (fst (fst h)) (fst (fst h) AND 64 \<noteq> 0)
        (if fst (fst h) AND 64 \<noteq> 0 then 24 else 12) (r_pos r1) (fst b) (snd p))"
      by (rule section_payload_total)
  qed (use assms in \<open>simp_all add: align4_total\<close>)
qed

lemma sections_loop_total: "reader_wf r \<Longrightarrow> no_panic (sections_loop st r s)"
proof (induction st r s rule: sections_loop.induct)
  case (1 st r s)
  show ?case
  proof (subst sections_loop.simps, rule no_panic_bind)
    show "no_panic (section_step st r s)" using 1(2) by (rule section_step_total)
    fix x assume x: "section_step st r s = Ok x"
    obtain m r' s' where p: "x = (m, r', s')" by (cases x)
    have "reader_wf r'" using section_step_moves [OF x [unfolded p]] 1(2)
      by (auto simp: reader_wf_def moves_def)
    then have "no_panic (sections_loop st r' s')" if "m" "\<not> reader_is_empty r'"
      using 1(1) [OF x p [symmetric] refl] that by blast
    then show "no_panic ((\<lambda>(m, r', s'). if \<not> m then Ok (r', s')
        else if reader_is_empty r' then if is_strict st then Err (error_new Truncated (r_pos r') CTX_BODY)
          else Ok (r', s') else sections_loop st r' s') x)"
      by (simp add: p)
  qed
qed

lemma sections_loop_moves: "sections_loop st r s = Ok (r', s') \<Longrightarrow> moves r 4 r'"
proof (induction st r s rule: sections_loop.induct)
  case (1 st r s)
  from 1(2) obtain m r1 s1 where st: "section_step st r s = Ok (m, r1, s1)"
    and k: "(if \<not> m then Ok (r1, s1) else if reader_is_empty r1 then if is_strict st
      then Err (error_new Truncated (r_pos r1) CTX_BODY) else Ok (r1, s1) else sections_loop st r1 s1) = Ok (r', s')"
    by (subst (asm) sections_loop.simps) (auto simp: res_bind_Ok_iff)
  note mv = section_step_moves [OF st]
  show ?case
  proof (cases "m \<and> \<not> reader_is_empty r1")
    case True
    then have "moves r1 4 r'" using 1(1) [OF st refl refl] k by simp
    then show ?thesis using mv by (auto simp: moves_def)
  next
    case False
    then show ?thesis using k mv by (auto split: if_splits)
  qed
qed

lemma fat_fields_safe: "rd_safe read_fat_fields"
  unfolding read_fat_fields_def [abs_def] by (intro safe_intro)

lemma parse_fat_header_total:
  assumes "reader_wf r"
  shows "no_panic (parse_fat_header r st)"
    and "parse_fat_header r st = Ok ((fl, mx, sg, code, ds), r') \<Longrightarrow>
       code = take (length code) (drop (fat_header_size fl) (r_data r))
       \<and> fat_header_size fl + length code \<le> length (r_data r)
       \<and> r_data r' = r_data r \<and> r_pos r' = fat_header_size fl + length code"
proof -
  note f = rd_safeD [OF fat_fields_safe assms]
  have seek: "reader_wf r1 \<Longrightarrow> reader_seek r1 h = Ok r2 \<Longrightarrow> reader_wf r2 \<and> r_data r2 = r_data r1 \<and> r_pos r2 = h"
    for r1 r2 h by (auto simp: res_iff reader_wf_def)
  show "no_panic (parse_fat_header r st)"
    unfolding parse_fat_header_def case_prod_beta
  proof (intro no_panic_bind res.distinct f(1))
    fix p :: "(u16 \<times> u16 \<times> u32 \<times> u32) \<times> reader" and r2
    show "no_panic (header_size_diags st (ucast (drop_bit 12 (fst (fst p)))))"
      by (simp add: header_size_diags_def)
    show "no_panic (reader_seek (snd p) (fat_header_size (fst (fst p))))" by (simp add: res_iff)
    assume "read_fat_fields r = Ok p" "reader_seek (snd p) (fat_header_size (fst (fst p))) = Ok r2"
    with seek f(3) [of "fst p" "snd p"] show "no_panic (reader_take (unat (fst (snd (snd (fst p))))) r2)"
      by (simp add: rd_take.total)
  qed
  assume "parse_fat_header r st = Ok ((fl, mx, sg, code, ds), r')"
  then obtain cs r1 r2 where r1: "read_fat_fields r = Ok ((fl, mx, cs, sg), r1)"
    and r2: "reader_seek r1 (fat_header_size fl) = Ok r2" and t: "reader_take (unat cs) r2 = Ok (code, r')"
    by (auto simp: parse_fat_header_def res_bind_Ok_iff)
  from seek [OF f(3) [OF r1] r2] f(2) [OF r1]
  have "reader_wf r2" "r_data r2 = r_data r" "r_pos r2 = fat_header_size fl" by (auto simp: moves_def)
  with t show "code = take (length code) (drop (fat_header_size fl) (r_data r))
       \<and> fat_header_size fl + length code \<le> length (r_data r)
       \<and> r_data r' = r_data r \<and> r_pos r' = fat_header_size fl + length code"
    by (auto simp: rd_take.Ok_iff)
qed

lemma fat_header_wf:
  assumes "reader_wf r" and "parse_fat_header r st = Ok (x, r')"
  shows "reader_wf r'"
proof -
  obtain fl mx sg code ds where "x = (fl, mx, sg, code, ds)" by (cases x)
  with parse_fat_header_total(2) [OF assms(1)] assms show ?thesis by (auto simp: reader_wf_def)
qed

lemma parse_with_total:
  assumes "slice_ok bs"
  shows "no_panic (parse_with bs rva st)"
proof -
  have w: "reader_wf (reader_new bs 0 CTX_BODY)" using assms by simp
  have "no_panic (parse_tiny r rva)" if "reader_wf r" for r
    unfolding parse_tiny_def Let_def case_prod_beta
  proof (intro no_panic_bind res.distinct)
    fix p :: "u8 \<times> reader"
    assume "reader_u8 r = Ok p"
    with rd_u8.keeps [OF that, of "fst p" "snd p"]
    show "no_panic (reader_take (unat (drop_bit 2 (fst p))) (snd p))" by (simp add: rd_take.total)
  qed (use that rd_u8.total in auto)
  moreover have "no_panic (parse_fat r rva st)" if w: "reader_wf r" for r
    unfolding parse_fat_def Let_def case_prod_beta
  proof (intro no_panic_bind no_panic_if res.distinct)
    show "no_panic (parse_fat_header r st)"
      using parse_fat_header_total(1) [OF w] .
    fix p :: "(u16 \<times> u16 \<times> u32 \<times> bytes \<times> diagnostic list) \<times> reader"
    assume "parse_fat_header r st = Ok p"
    then have "reader_wf (snd p)" using fat_header_wf [OF w, of st "fst p" "snd p"] by simp
    then show "no_panic (fat_sections st (fst (fst p) AND 0x0FFF) (snd p) (snd (snd (snd (snd (fst p))))))"
      by (simp add: fat_sections_def parse_sections_def sections_loop_total)
  qed
  ultimately show ?thesis using w
    unfolding parse_with_def Let_def
    by (intro no_panic_bind no_panic_if reader_peek_total res.distinct) auto
qed

section \<open>Where the code lies\<close>

text \<open>
  The slice a body is made of: \<open>off\<close> is where the code starts, and header, code and sections all
  lie inside the bytes given.
\<close>

definition body_within :: "bytes \<Rightarrow> u32 \<Rightarrow> MethodBody \<Rightarrow> nat \<Rightarrow> bool" where
  "body_within bs rva b off \<longleftrightarrow>
     1 \<le> off \<and> off \<le> 60 \<and> mb_code_rva b = rva + of_nat off
     \<and> mb_code b = take (length (mb_code b)) (drop off bs)
     \<and> off + length (mb_code b) \<le> mb_total_size b \<and> mb_total_size b \<le> length bs"

lemma fat_header_range:
  "12 \<le> fat_header_size w" "fat_header_size w \<le> 60"
proof -
  let ?d = "ucast (drop_bit 12 w) :: u8"
  have "unat (drop_bit 12 w) < 16"
    using unsigned_less [of w, where ?'a = nat]
    by (simp add: drop_bit_eq_div unat_div)
  then have "unat ?d < 16" by (simp add: unsigned_ucast_eq take_bit_nat_eq_self)
  then show "12 \<le> fat_header_size w" "fat_header_size w \<le> 60"
    by (simp_all add: fat_header_size_def max_def word_le_nat_alt)
qed

lemma parse_with_within:
  assumes "slice_ok bs" and "parse_with bs rva st = Ok b"
  shows "\<exists>off. body_within bs rva b off"
proof -
  let ?r = "reader_new bs 0 CTX_BODY"
  have w: "reader_wf ?r" using assms(1) by simp
  from assms(2) consider (t) "parse_tiny ?r rva = Ok b" | (f) "parse_fat ?r rva st = Ok b"
    unfolding parse_with_def Let_def by (auto simp: res_bind_Ok_iff split: if_splits)
  then show ?thesis
  proof cases
    case t
    then obtain h r1 c r2 where h: "reader_u8 ?r = Ok (h, r1)"
      and c: "reader_take (unat (drop_bit 2 h)) r1 = Ok (c, r2)"
      and b: "mb_code b = c" "mb_code_rva b = rva + 1" "mb_total_size b = 1 + unat (drop_bit 2 h)"
      by (auto simp: parse_tiny_def Let_def res_bind_Ok_iff)
    note k = rd_u8.keeps [OF w h]
    from c k have "c = take (unat (drop_bit 2 h)) (drop 1 bs)" "1 + unat (drop_bit 2 h) \<le> length bs"
      by (auto simp: rd_take.Ok_iff)
    with b have "mb_code b = take (unat (drop_bit 2 h)) (drop 1 bs)" "1 + unat (drop_bit 2 h) \<le> length bs" by auto
    with b have "body_within bs rva b 1" by (auto simp: body_within_def)
    then show ?thesis ..
  next
    case f
    then obtain fl mx sg code ds r6 r7 s where h: "parse_fat_header ?r st = Ok ((fl, mx, sg, code, ds), r6)"
      and sec: "fat_sections st (fl AND 0x0FFF) r6 ds = Ok (r7, s)"
      and b: "mb_code b = code" "mb_code_rva b = rva + of_nat (fat_header_size fl)" "mb_total_size b = r_pos r7"
      by (auto simp: parse_fat_def Let_def res_bind_Ok_iff split: if_split_asm)
    note c = parse_fat_header_total(2) [OF w h]
    have "moves r6 0 r7"
    proof (cases "fat_more_sects (fl AND 0x0FFF)")
      case True
      then have "moves r6 4 r7" using sec sections_loop_moves by (simp add: fat_sections_def parse_sections_def)
      then show ?thesis by (rule moves_weaken) simp
    qed (use sec c in \<open>auto simp: fat_sections_def moves_def\<close>)
    then have "body_within bs rva b (fat_header_size fl)"
      using fat_header_range [of fl] b c by (auto simp: body_within_def moves_def)
    then show ?thesis ..
  qed
qed

section \<open>Section sizes\<close>

text \<open>How the two readings of \<open>DataSize\<close> resolve, and that the size never exceeds what is there.\<close>

lemma section_body_size_le:
  "section_body_size st eh c d remaining start s = Ok (n, s') \<Longrightarrow> n \<le> remaining"
  by (auto simp: section_body_size_def Let_def res_bind_Ok_iff split: if_splits)

lemma section_body_size_inclusive:
  assumes "k * c \<le> remaining"
  shows "section_body_size st True c (k * c + 4) remaining start s = Ok (k * c, s)"
  using assms by (simp add: section_body_size_def saturating_sub_def Let_def)

lemma section_body_size_exclusive:
  assumes "c = 12 \<or> c = 24" and "0 < k" and "k * c \<le> remaining"
  shows "section_body_size st True c (k * c) remaining start s =
     (if is_strict st then Err (error_new Malformed start CTX_BODY)
      else Ok (k * c, push_diag EhSectionSize start (k * c) s))"
proof -
  obtain j where k: "k = Suc j" using assms(2) by (cases k) auto
  have "(k * c - 4) mod c \<noteq> 0"
  proof -
    have "k * c - 4 = j * c + (c - 4)" using assms(1) k by auto
    then show ?thesis using assms(1) by auto
  qed
  then show ?thesis using assms by (auto simp: section_body_size_def saturating_sub_def Let_def)
qed

section \<open>Encodings of bodies\<close>

definition tiny_bytes :: "bytes \<Rightarrow> bytes" where
  "tiny_bytes code = (push_bit 2 (of_nat (length code)) OR 2) # code"

definition clause_extra :: "HandlerKind \<Rightarrow> u32" where
  "clause_extra k = (case k of H_Catch t \<Rightarrow> token_value t | H_Filter f \<Rightarrow> f | _ \<Rightarrow> 0)"

definition clause_bytes :: "ExceptionHandler \<Rightarrow> bytes" where
  "clause_bytes h = le4 (eh_raw_flags h) @ le4 (eh_try_offset h) @ le4 (eh_try_length h)
     @ le4 (eh_handler_offset h) @ le4 (eh_handler_length h) @ le4 (clause_extra (eh_kind h))"

definition clause_ok :: "ExceptionHandler \<Rightarrow> bool" where
  "clause_ok h \<longleftrightarrow> handler_kind (eh_raw_flags h) (clause_extra (eh_kind h)) = Some (eh_kind h)"

text \<open>The fat exception section: kind, the header-inclusive size in three bytes, the clauses.\<close>

definition eh_section_bytes :: "ExceptionHandler list \<Rightarrow> bytes" where
  "eh_section_bytes hs =
     (let n = of_nat (24 * length hs + 4) :: u32
      in [0x41, ucast n, ucast (drop_bit 8 n), ucast (drop_bit 16 n)] @ concat (map clause_bytes hs))"

definition pad4 :: "nat \<Rightarrow> bytes" where
  "pad4 n = replicate ((4 - n mod 4) mod 4) 0"

definition fat_bytes :: "MethodBody \<Rightarrow> bytes" where
  "fat_bytes b =
     le2 (mb_flags b OR 0x3000) @ le2 (mb_max_stack b) @ le4 (of_nat (length (mb_code b)))
     @ le4 (case mb_local_var_sig b of Some t \<Rightarrow> token_value t | None \<Rightarrow> 0) @ mb_code b
     @ (if mb_exception_handlers b = [] then []
        else pad4 (length (mb_code b)) @ eh_section_bytes (mb_exception_handlers b))"

lemma length_clause_bytes [simp]: "length (clause_bytes h) = 24"
  by (simp add: clause_bytes_def)

lemma length_clauses [simp]: "length (concat (map clause_bytes hs)) = 24 * length hs"
  by (induction hs) auto

lemma read_clause_bytes:
  assumes "clause_ok h"
  shows "read_clause (clause_bytes h) True at = Ok h"
proof -
  let ?r = "reader_new (clause_bytes h) at ''exception clause''"
  have sl: "slice_ok (clause_bytes h)" by (simp add: slice_ok_def isize_max_def)
  have r: "reader_on ?r (le4 (eh_raw_flags h) @ le4 (eh_try_offset h) @ le4 (eh_try_length h)
     @ le4 (eh_handler_offset h) @ le4 (eh_handler_length h) @ le4 (clause_extra (eh_kind h)) @ [])"
    using sl by (simp add: clause_bytes_def)
  from r obtain r1 where r1: "reads_to reader_u32 ?r (eh_raw_flags h) 4 (le4 (eh_try_offset h)
      @ le4 (eh_try_length h) @ le4 (eh_handler_offset h) @ le4 (eh_handler_length h)
      @ le4 (clause_extra (eh_kind h)) @ []) r1" by (rule step_u32)
  from reads_toD(2) [OF r1] obtain r2 where r2: "reads_to reader_u32 r1 (eh_try_offset h) 4 (le4 (eh_try_length h)
      @ le4 (eh_handler_offset h) @ le4 (eh_handler_length h) @ le4 (clause_extra (eh_kind h)) @ []) r2"
    by (rule step_u32)
  from reads_toD(2) [OF r2] obtain r3 where r3: "reads_to reader_u32 r2 (eh_try_length h) 4
      (le4 (eh_handler_offset h) @ le4 (eh_handler_length h) @ le4 (clause_extra (eh_kind h)) @ []) r3"
    by (rule step_u32)
  from reads_toD(2) [OF r3] obtain r4 where r4: "reads_to reader_u32 r3 (eh_handler_offset h) 4
      (le4 (eh_handler_length h) @ le4 (clause_extra (eh_kind h)) @ []) r4" by (rule step_u32)
  from reads_toD(2) [OF r4] obtain r5 where r5: "reads_to reader_u32 r4 (eh_handler_length h) 4
      (le4 (clause_extra (eh_kind h)) @ []) r5" by (rule step_u32)
  from reads_toD(2) [OF r5] obtain r6 where r6: "reads_to reader_u32 r5 (clause_extra (eh_kind h)) 4 [] r6"
    by (rule step_u32)
  note e = reads_toD(1) [OF r1] reads_toD(1) [OF r2] reads_toD(1) [OF r3] reads_toD(1) [OF r4]
    reads_toD(1) [OF r5] reads_toD(1) [OF r6]
  show ?thesis
    using assms by (simp add: read_clause_def read_clause_fields_def e clause_ok_def)
qed

lemma nth_chunk:
  "i < length hs \<Longrightarrow> take 24 (drop (i * 24) (concat (map clause_bytes hs))) = clause_bytes (hs ! i)"
proof (induction hs arbitrary: i)
  case (Cons h hs)
  then show ?case by (cases i) (auto simp: add.commute)
qed simp

lemma read_clauses_bytes:
  assumes "list_all clause_ok hs"
  shows "read_clauses (concat (map clause_bytes hs)) True 24 start (length hs) = Ok hs"
  unfolding read_clauses_def res_map_Ok_iff list_all2_conv_all_nth
proof (intro conjI allI impI)
  fix i assume "i < length [0..<length hs]"
  then have i: "i < length hs" by simp
  then have "24 + i * 24 \<le> 24 * length hs" by simp
  then have "index_range (concat (map clause_bytes hs)) (i * 24) (24 + i * 24)
      = (Ok (clause_bytes (hs ! i)) :: bytes result)"
    using nth_chunk [OF i] by (simp add: index_range_def get_range_def)
  moreover have "read_clause (clause_bytes (hs ! i)) True (start + 4 + i * 24) = Ok (hs ! i)"
    using assms i by (intro read_clause_bytes) (simp add: list_all_length)
  ultimately show "res_bind (index_range (concat (map clause_bytes hs)) ([0..<length hs] ! i * 24) (([0..<length hs] ! i + 1) * 24))
      (\<lambda>chunk. read_clause chunk True (start + 4 + [0..<length hs] ! i * 24)) = Ok (hs ! i)"
    using i by (simp add: algebra_simps)
qed simp

text \<open>Reading a padded exception section back.\<close>

lemma three_bytes:
  assumes "n < 2 ^ 24"
  shows "unat (ucast (ucast (of_nat n :: u32) :: u8) OR push_bit 8 (ucast (ucast (drop_bit 8 (of_nat n :: u32)) :: u8))
      OR push_bit 16 (ucast (ucast (drop_bit 16 (of_nat n :: u32)) :: u8)) :: u32) = n"
proof -
  have u: "unat (of_nat n :: u32) = n" using assms by (simp add: unat_of_nat take_bit_nat_eq_self)
  then have lt: "(of_nat n :: u32) < 2 ^ 24" using assms by (simp add: word_less_nat_alt)
  have nb: "bit (of_nat n :: u32) k \<Longrightarrow> k < 24" for k using bit_less_pow [OF lt, of k] by (meson not_less)
  have "(ucast (ucast (of_nat n :: u32) :: u8) OR push_bit 8 (ucast (ucast (drop_bit 8 (of_nat n :: u32)) :: u8))
      OR push_bit 16 (ucast (ucast (drop_bit 16 (of_nat n :: u32)) :: u8)) :: u32) = of_nat n"
  proof (rule bit_word_eqI)
    fix k assume "k < LENGTH(32)"
    show "bit (ucast (ucast (of_nat n :: u32) :: u8) OR push_bit 8 (ucast (ucast (drop_bit 8 (of_nat n :: u32)) :: u8))
      OR push_bit 16 (ucast (ucast (drop_bit 16 (of_nat n :: u32)) :: u8)) :: u32) k = bit (of_nat n :: u32) k"
      using nb [of k] by (cases "k < 8"; cases "k < 16"; cases "k < 24") (auto simp: u8_bits)
  qed
  with u show ?thesis by simp
qed

lemma length_pad4: "(p + length (pad4 n)) mod 4 = 0" if "p mod 4 = n mod 4"
proof -
  have "(p + (4 - n mod 4) mod 4) mod 4 = (n mod 4 + (4 - n mod 4)) mod 4"
    using that by (metis mod_add_eq mod_mod_trivial)
  then show ?thesis by (simp add: pad4_def)
qed

lemma section_header_on:
  assumes "reader_on r ([0x41, ucast (of_nat n :: u32), ucast (drop_bit 8 (of_nat n :: u32)),
      ucast (drop_bit 16 (of_nat n :: u32))] @ ys)" and "n < 2 ^ 24"
  obtains r' where "reads_to read_section_header r (0x41, n) 4 ys r'"
proof -
  let ?b = "[ucast (of_nat n :: u32), ucast (drop_bit 8 (of_nat n :: u32)), ucast (drop_bit 16 (of_nat n :: u32))] :: bytes"
  from assms(1) have on: "reader_on r (0x41 # (?b @ ys))" by simp
  obtain r1 where r1: "reads_to reader_u8 r 0x41 1 (?b @ ys) r1" using step_u8 [OF on] .
  obtain r2 where r2: "reads_to (reader_take 3) r1 ?b 3 ys r2"
    using step_take [OF reads_toD(2) [OF r1], of 3] by auto
  have "read_section_header r = Ok ((0x41, n), r2)"
    using three_bytes [OF assms(2)]
    by (simp add: read_section_header_def reads_toD(1) [OF r1] reads_toD(1) [OF r2] del: unsigned_ucast_eq)
  then have "reads_to read_section_header r (0x41, n) 4 ys r2"
    using r1 r2 by (simp add: reads_to_def)
  then show ?thesis using that by blast
qed

lemma eh_section_read:
  assumes on: "reader_on r (pad4 (r_pos r) @ eh_section_bytes hs @ ys)"
    and len: "24 * length hs + 4 < 2 ^ 24" and hs: "list_all clause_ok hs"
  shows "\<exists>r'. parse_sections st r ds = Ok (r', \<lparr>se_diagnostics = ds, se_handlers = hs, se_unknown = []\<rparr>)
     \<and> reader_on r' ys \<and> r_pos r' = r_pos r + length (pad4 (r_pos r)) + (24 * length hs + 4)"
proof -
  let ?n = "24 * length hs + 4" and ?p = "pad4 (r_pos r)" and ?cs = "concat (map clause_bytes hs)"
  let ?s = "\<lparr>se_diagnostics = ds, se_handlers = [], se_unknown = []\<rparr>"
  define r1 where "r1 = reader_adv r (length ?p)"
  have on1: "reader_on r1 ([0x41, ucast (of_nat ?n :: u32), ucast (drop_bit 8 (of_nat ?n :: u32)),
      ucast (drop_bit 16 (of_nat ?n :: u32))] @ (?cs @ ys))"
    using reader_on_adv [OF on refl] by (simp add: r1_def eh_section_bytes_def Let_def)
  have wf: "reader_wf r" and wf1: "reader_wf r1" using on on1 by (simp_all add: reader_on_def)
  have "reader_align_to r 0 4 = Ok r1"
    using wf wf1 by (simp add: reader_align4 r1_def pad4_def Let_def reader_wf_def)
  moreover obtain r2 where r2: "reads_to read_section_header r1 (0x41, ?n) 4 (?cs @ ys) r2"
    using section_header_on [OF on1 len] .
  obtain r3 where r3: "reads_to (reader_take (24 * length hs)) r2 ?cs (24 * length hs) ys r3"
    using step_take [OF reads_toD(2) [OF r2], of "24 * length hs"] by auto
  have wf2: "reader_wf r2" and dr: "drop (r_pos r2) (r_data r2) = ?cs @ ys"
    using reads_toD(2) [OF r2] by (simp_all add: reader_on_def)
  have "24 * length hs \<le> length (r_data r2) - r_pos r2"
    using arg_cong [OF dr, of length] by simp
  then have sz: "section_body_size st True 24 ?n (length (r_data r2) - r_pos r2) (r_pos r1) ?s = Ok (24 * length hs, ?s)"
    using section_body_size_inclusive [of "length hs" 24] by (simp add: mult.commute)
  have "section_payload st 0x41 True 24 (r_pos r1) ?cs ?s = Ok (?s\<lparr>se_handlers := hs\<rparr>)"
    using read_clauses_bytes [OF hs] by (simp add: section_payload_def)
  ultimately have "section_step st r ?s = Ok (False, r3, ?s\<lparr>se_handlers := hs\<rparr>)"
    using reads_toD(1) [OF r2] reads_toD(1) [OF r3] sz reader_remaining_wf [OF wf2]
    by (simp add: section_step_def Let_def)
  then have "parse_sections st r ds = Ok (r3, ?s\<lparr>se_handlers := hs\<rparr>)"
    by (simp add: parse_sections_def sections_loop.simps)
  moreover have "r_pos r3 = r_pos r + length ?p + ?n"
    using reads_toD(3) [OF r2] reads_toD(3) [OF r3] by (simp add: r1_def)
  ultimately show ?thesis using reads_toD(2) [OF r3] by auto
qed

section \<open>Round trips\<close>

text \<open>The bodies \<open>fat_bytes\<close> can express: three header dwords, no foreign sections.\<close>

definition fat_body_ok :: "u32 \<Rightarrow> MethodBody \<Rightarrow> bool" where
  "fat_body_ok rva b \<longleftrightarrow>
     mb_kind b = HK_Fat \<and> take_bit 12 (mb_flags b) = mb_flags b \<and> take_bit 2 (mb_flags b) = 3
     \<and> fat_more_sects (mb_flags b) = (mb_exception_handlers b \<noteq> [])
     \<and> length (mb_code b) \<le> u32_max \<and> mb_code_rva b = rva + 12
     \<and> (case mb_local_var_sig b of Some t \<Rightarrow> token_table t = Some T_StandAloneSig | None \<Rightarrow> True)
     \<and> list_all clause_ok (mb_exception_handlers b) \<and> 24 * length (mb_exception_handlers b) + 4 < 2 ^ 24
     \<and> mb_unknown_sections b = [] \<and> mb_header_dwords b = 3
     \<and> mb_total_size b = length (fat_bytes b) \<and> mb_diagnostics b = []"

lemma bit_0x3000: "bit (0x3000 :: u16) n \<longleftrightarrow> n = 12 \<or> n = 13"
proof -
  have "(0x3000 :: u16) = push_bit 12 (mask 2)" by (simp add: mask_eq_exp_minus_1)
  then show ?thesis by (simp only: bit_push_bit_iff bit_mask_iff) auto
qed

lemma three: "bit (3 :: 'a::len word) n \<longleftrightarrow> n < LENGTH('a) \<and> n < 2"
  using bit_mask_iff [of 2 n, where 'a = "'a word"] by (simp add: mask_eq_exp_minus_1 possible_bit_word)

lemma fat_flag_bits:
  assumes "take_bit 12 (f :: u16) = f" and "take_bit 2 f = 3"
  shows "(f OR 0x3000) AND 0x0FFF = f" and "(ucast (drop_bit 12 (f OR 0x3000)) :: u8) = 3"
    and "(ucast (f OR 0x3000) :: u8) AND 3 = 3"
proof -
  have hi: "bit f n \<Longrightarrow> n < 12" for n using assms(1) by (metis bit_take_bit_iff)
  have "(f OR 0x3000) AND 0x0FFF = take_bit 12 (f OR 0x3000)"
    by (simp add: take_bit_eq_mask mask_eq_exp_minus_1)
  also have "\<dots> = f"
    by (rule bit_word_eqI) (auto simp: bit_take_bit_iff bit_or_iff bit_0x3000 simp del: bit_numeral_word_iff dest: hi)
  finally show "(f OR 0x3000) AND 0x0FFF = f" .
  have "bit (drop_bit 12 (f OR 0x3000)) n \<longleftrightarrow> n < 2" for n
    using hi [of "12 + n"] by (auto simp: bit_drop_bit_eq bit_or_iff bit_0x3000 three simp del: bit_numeral_word_iff)
  then show "(ucast (drop_bit 12 (f OR 0x3000)) :: u8) = 3"
    by (intro bit_word_eqI) (simp add: bit_unsigned_iff three del: bit_numeral_word_iff)
  have tb: "bit (take_bit 2 f) n \<longleftrightarrow> bit (3 :: u16) n" for n by (simp only: assms(2))
  have lo: "bit f n" if "n < 2" for n
    using tb [of n, unfolded bit_take_bit_iff three] that by simp
  show "(ucast (f OR 0x3000) :: u8) AND 3 = 3"
    by (rule bit_word_eqI) (auto simp: bit_and_iff bit_unsigned_iff bit_or_iff three lo simp del: bit_numeral_word_iff)
qed

lemma le2_bytes: "le2 w = [ucast w, ucast (drop_bit 8 w)]"
  by (simp add: le2_def to_le_bytes_def upt_rec)

lemma local_sig_value:
  assumes "case sig of Some t \<Rightarrow> token_table t = Some T_StandAloneSig | None \<Rightarrow> True"
  shows "(if (case sig of Some t \<Rightarrow> token_value t | None \<Rightarrow> 0) = 0 then None
      else Some (Token (case sig of Some t \<Rightarrow> token_value t | None \<Rightarrow> 0))) = sig"
proof (cases sig)
  case (Some t)
  have "token_value t \<noteq> 0"
  proof
    assume "token_value t = 0"
    then have "token_table t = Some T_Module"
      by (simp add: token_table_def token_table_byte_def TableId_from_u8_def)
    then show False using assms Some by simp
  qed
  then show ?thesis using Some by simp
qed simp

lemma parse_fat_bytes:
  assumes ok: "fat_body_ok rva b" and sl: "slice_ok (fat_bytes b @ post)"
  shows "parse_with (fat_bytes b @ post) rva st = Ok b"
proof -
  define w where "w = mb_flags b OR 0x3000"
  let ?n = "of_nat (length (mb_code b)) :: u32"
  let ?sg = "case mb_local_var_sig b of Some t \<Rightarrow> token_value t | None \<Rightarrow> 0"
  let ?tail = "(if mb_exception_handlers b = [] then []
        else pad4 (length (mb_code b)) @ eh_section_bytes (mb_exception_handlers b)) @ post"
  let ?r = "reader_new (fat_bytes b @ post) 0 CTX_BODY"
  have bits: "w AND 0x0FFF = mb_flags b" "(ucast (drop_bit 12 w) :: u8) = 3" "(ucast w :: u8) AND 3 = 3"
    using fat_flag_bits [of "mb_flags b"] ok by (simp_all add: fat_body_ok_def w_def)
  have n: "unat ?n = length (mb_code b)"
    using ok by (simp add: fat_body_ok_def unat_of_nat take_bit_nat_eq_self u32_max_def)
  have on: "reader_on ?r (le2 w @ (le2 (mb_max_stack b) @ (le4 ?n @ (le4 ?sg @ (mb_code b @ ?tail)))))"
    using sl by (simp add: fat_bytes_def w_def)
  obtain r1 where r1: "reads_to reader_u16 ?r w 2 (le2 (mb_max_stack b) @ (le4 ?n @ (le4 ?sg @ (mb_code b @ ?tail)))) r1"
    using step_u16 [OF on] .
  obtain r2 where r2: "reads_to reader_u16 r1 (mb_max_stack b) 2 (le4 ?n @ (le4 ?sg @ (mb_code b @ ?tail))) r2"
    using step_u16 [OF reads_toD(2) [OF r1]] .
  obtain r3 where r3: "reads_to reader_u32 r2 ?n 4 (le4 ?sg @ (mb_code b @ ?tail)) r3"
    using step_u32 [OF reads_toD(2) [OF r2]] .
  obtain r4 where r4: "reads_to reader_u32 r3 ?sg 4 (mb_code b @ ?tail) r4"
    using step_u32 [OF reads_toD(2) [OF r3]] .
  have p4: "r_pos r4 = 12"
    using reads_toD(3) [OF r1] reads_toD(3) [OF r2] reads_toD(3) [OF r3] reads_toD(3) [OF r4] by simp
  obtain r5 where r5: "reads_to (reader_take (length (mb_code b))) r4 (mb_code b) (length (mb_code b)) ?tail r5"
    using step_take [OF reads_toD(2) [OF r4] refl] .
  have hs: "fat_header_size w = 12" unfolding fat_header_size_def bits(2) by simp
  have "reader_seek r4 12 = Ok r4"
    using p4 reads_toD(2) [OF r4] by (auto simp: res_iff reader_on_def reader_wf_def)
  then have hdr: "parse_fat_header ?r st = Ok ((w, mb_max_stack b, ?sg, mb_code b, []), r5)"
    using r1 r2 r3 r4 r5
    by (simp add: parse_fat_header_def read_fat_fields_def reads_to_def bits(2) hs n header_size_diags_def)
  have p5: "r_pos r5 = 12 + length (mb_code b)" using p4 reads_toD(3) [OF r5] by simp
  obtain r6 where sec: "fat_sections st (mb_flags b) r5 [] =
      Ok (r6, \<lparr>se_diagnostics = [], se_handlers = mb_exception_handlers b, se_unknown = []\<rparr>)"
    and p6: "r_pos r6 = mb_total_size b"
  proof (cases "mb_exception_handlers b = []")
    case True
    then show ?thesis using that [of r5] ok p5 by (simp add: fat_sections_def fat_body_ok_def fat_bytes_def)
  next
    case False
    have "(12 + length (mb_code b)) mod 4 = length (mb_code b) mod 4" by presburger
    then have "pad4 (r_pos r5) = pad4 (length (mb_code b))" by (simp add: pad4_def p5)
    then have "reader_on r5 (pad4 (r_pos r5) @ eh_section_bytes (mb_exception_handlers b) @ post)"
      using reads_toD(2) [OF r5] False by simp
    from eh_section_read [OF this, of st "[]"] ok False that p5 \<open>pad4 (r_pos r5) = pad4 (length (mb_code b))\<close>
    show ?thesis by (auto simp: fat_sections_def fat_body_ok_def fat_bytes_def eh_section_bytes_def Let_def)
  qed
  have peek: "reader_peek_u8 ?r = Ok (ucast w)"
    by (simp add: reader_peek_u8_def get_at_def fat_bytes_def le2_bytes w_def [symmetric])
  have sig: "case mb_local_var_sig b of Some t \<Rightarrow> token_table t = Some T_StandAloneSig | None \<Rightarrow> True"
    using ok by (simp add: fat_body_ok_def)
  have "parse_fat ?r rva st = Ok b"
    using ok sig unfolding parse_fat_def hdr res_bind.simps case_prod_conv Let_def local_sig_value [OF sig] bits sec hs
    by (cases b) (auto simp: fat_body_ok_def p6 split: option.splits)
  then show ?thesis by (simp add: parse_with_def Let_def peek bits(3))
qed

lemma parse_tiny_bytes:
  assumes "length code < 64" and "slice_ok (tiny_bytes code @ post)"
  shows "parse_with (tiny_bytes code @ post) rva st =
     Ok \<lparr>mb_kind = HK_Tiny, mb_flags = 0, mb_max_stack = 8, mb_code = code, mb_code_rva = rva + 1,
         mb_local_var_sig = None, mb_exception_handlers = [], mb_unknown_sections = [],
         mb_header_dwords = 0, mb_total_size = length (tiny_bytes code), mb_diagnostics = []\<rparr>"
proof -
  let ?r = "reader_new (tiny_bytes code @ post) 0 CTX_BODY"
  define h :: u8 where "h = push_bit 2 (of_nat (length code)) OR 2"
  have u: "unat (of_nat (length code) :: u8) = length code"
    using assms(1) by (simp add: unat_of_nat take_bit_nat_eq_self)
  then have lt: "(of_nat (length code) :: u8) < 2 ^ 6" using assms(1) by (simp add: word_less_nat_alt)
  have two: "bit (2 :: u8) n \<longleftrightarrow> n = 1" for n
    using bit_exp_iff [of 1 n, where 'a = u8] by auto
  have nb: "n < 6" if "bit (of_nat (length code) :: u8) n" for n
    using bit_less_pow [OF lt] that by (meson not_less)
  have "drop_bit 2 h = of_nat (length code)"
    by (rule bit_word_eqI)
      (auto simp: h_def bit_drop_bit_eq bit_or_iff bit_push_bit_iff two simp del: bit_numeral_word_iff dest: nb)
  then have n: "unat (drop_bit 2 h) = length code" using u by simp
  have k: "h AND 3 = 2"
    by (rule bit_word_eqI)
      (auto simp: h_def bit_and_iff bit_or_iff bit_push_bit_iff two three simp del: bit_numeral_word_iff)
  have tb: "tiny_bytes code = h # code" by (simp add: tiny_bytes_def h_def)
  have on: "reader_on ?r (h # (code @ post))" using assms(2) by (simp add: tb)
  obtain r1 where r1: "reads_to reader_u8 ?r h 1 (code @ post) r1" using step_u8 [OF on] .
  obtain r2 where r2: "reads_to (reader_take (length code)) r1 code (length code) post r2"
    using step_take [OF reads_toD(2) [OF r1] refl] .
  have "reader_peek_u8 ?r = Ok h"
    by (simp add: reader_peek_u8_def get_at_def tb)
  then show ?thesis
    using reads_toD(1) [OF r1] reads_toD(1) [OF r2]
    by (simp add: parse_with_def Let_def k parse_tiny_def n tb)
qed

section \<open>Validation\<close>

lemma for_each_iff: "for_each f i xs = Ok () \<longleftrightarrow> (\<forall>k < length xs. f (i + k) (xs ! k) = Ok ())"
proof (induction xs arbitrary: i)
  case (Cons x xs)
  have "for_each f i (x # xs) = Ok () \<longleftrightarrow> f i x = Ok () \<and> for_each f (Suc i) xs = Ok ()"
    by (cases "f i x") auto
  then show ?case by (simp add: Cons.IH All_less_Suc2)
qed simp

text \<open>The ranges a clause speaks of, and what II.25.4.6 asks of them.\<close>

definition try_range :: "ExceptionHandler \<Rightarrow> nat set" where
  "try_range h = {unat (eh_try_offset h) ..< unat (eh_try_offset h) + unat (eh_try_length h)}"

definition handler_range :: "ExceptionHandler \<Rightarrow> nat set" where
  "handler_range h = {unat (eh_handler_offset h) ..< unat (eh_handler_offset h) + unat (eh_handler_length h)}"

definition laminar :: "nat set \<Rightarrow> nat set \<Rightarrow> bool" where
  "laminar A B \<longleftrightarrow> A \<inter> B = {} \<or> A \<subseteq> B \<or> B \<subseteq> A"

definition handler_ok :: "nat \<Rightarrow> ExceptionHandler \<Rightarrow> bool" where
  "handler_ok n h \<longleftrightarrow> try_range h \<noteq> {} \<and> try_range h \<subseteq> {..<n} \<and> handler_range h \<noteq> {}
     \<and> handler_range h \<subseteq> {..<n} \<and> try_range h \<inter> handler_range h = {}
     \<and> (case eh_kind h of H_Filter f \<Rightarrow> f < eh_handler_offset h | _ \<Rightarrow> True)"

lemma interval_subset: "(a::nat) < b \<Longrightarrow> {a..<b} \<subseteq> {c..<d} \<longleftrightarrow> c \<le> a \<and> b \<le> d"
  by (simp add: ivl_subset)

lemma interval_disjoint: "{a..<b} \<inter> {c..<d::nat} = {} \<longleftrightarrow> \<not> (max a c < min b d)"
  by (auto simp: disjoint_iff not_le)

lemma laminar_intervals:
  assumes "(a::nat) < b" and "c < d"
  shows "laminar {a..<b} {c..<d} \<longleftrightarrow>
     \<not> (a < d \<and> c < b) \<or> c \<le> a \<and> b \<le> d \<or> a \<le> c \<and> d \<le> b"
  using assms by (auto simp: laminar_def interval_subset interval_disjoint)

lemma end_exact:
  "unat a + unat b \<le> u32_max \<Longrightarrow> unat (u32_saturating_add a b) = unat a + unat b"
  by (simp add: u32_saturating_add_def u32_max_def unat_word_ariths)

definition ranges_in :: "nat \<Rightarrow> ExceptionHandler \<Rightarrow> bool" where
  "ranges_in n h \<longleftrightarrow> eh_try_length h \<noteq> 0 \<and> eh_handler_length h \<noteq> 0
     \<and> unat (eh_try_offset h) + unat (eh_try_length h) \<le> n
     \<and> unat (eh_handler_offset h) + unat (eh_handler_length h) \<le> n"

lemma handler_ok_ranges: "handler_ok n h \<Longrightarrow> ranges_in n h"
  by (auto simp: handler_ok_def ranges_in_def try_range_def handler_range_def unat_eq_0
      lessThan_atLeast0 ivl_subset)

lemma nesting_iff:
  assumes "n \<le> u32_max" and "ranges_in n h" and "ranges_in n other"
  shows "validate_nesting i h j other = Ok () \<longleftrightarrow>
     i = j \<or> laminar (try_range h) (try_range other) \<and> laminar (handler_range h) (handler_range other)"
proof -
  have e: "unat (try_end x) = unat (eh_try_offset x) + unat (eh_try_length x)"
    "unat (handler_end x) = unat (eh_handler_offset x) + unat (eh_handler_length x)"
    "0 < unat (eh_try_length x)" "0 < unat (eh_handler_length x)" if "ranges_in n x" for x
    using that assms(1) by (auto simp: ranges_in_def try_end_def handler_end_def end_exact unat_gt_0)
  note eh = e [OF assms(2)] and eo = e [OF assms(3)]
  have t: "partially_overlaps (eh_try_offset h) (try_end h) (eh_try_offset other) (try_end other)
      \<longleftrightarrow> \<not> laminar (try_range h) (try_range other)"
    unfolding try_range_def using eh eo
    by (subst laminar_intervals) (auto simp: partially_overlaps_def word_less_nat_alt word_le_nat_alt)
  have k: "partially_overlaps (eh_handler_offset h) (handler_end h) (eh_handler_offset other) (handler_end other)
      \<longleftrightarrow> \<not> laminar (handler_range h) (handler_range other)"
    unfolding handler_range_def using eh eo
    by (subst laminar_intervals) (auto simp: partially_overlaps_def word_less_nat_alt word_le_nat_alt)
  show ?thesis by (simp add: validate_nesting_def t k)
qed

lemma validate_handler_iff:
  assumes "n \<le> u32_max"
  shows "validate_handler n hs i h = Ok () \<longleftrightarrow> handler_ok n h \<and> for_each (validate_nesting i h) 0 hs = Ok ()"
proof (cases "ranges_in n h")
  case True
  then have e: "unat (try_end h) = unat (eh_try_offset h) + unat (eh_try_length h)"
    "unat (handler_end h) = unat (eh_handler_offset h) + unat (eh_handler_length h)"
    "0 < unat (eh_try_length h)" "0 < unat (eh_handler_length h)"
    using assms by (auto simp: ranges_in_def try_end_def handler_end_def end_exact unat_gt_0)
  have d: "eh_handler_offset h < try_end h \<and> eh_try_offset h < handler_end h
      \<longleftrightarrow> try_range h \<inter> handler_range h \<noteq> {}"
    using e by (auto simp: try_range_def handler_range_def interval_disjoint word_less_nat_alt)
  have r: "try_range h \<noteq> {} \<and> try_range h \<subseteq> {..<n} \<and> handler_range h \<noteq> {} \<and> handler_range h \<subseteq> {..<n}"
    using True e by (auto simp: ranges_in_def try_range_def handler_range_def)
  have f: "f < eh_handler_offset h \<Longrightarrow> unat f < n" for f
    using True by (auto simp: ranges_in_def word_less_nat_alt)
  have lims: "\<not> n < unat (try_end h)" "\<not> n < unat (handler_end h)"
    "\<not> n < unat (eh_try_offset h) + unat (eh_try_length h)"
    "\<not> n < unat (eh_handler_offset h) + unat (eh_handler_length h)"
    "eh_try_length h \<noteq> 0" "eh_handler_length h \<noteq> 0"
    using True e by (auto simp: ranges_in_def)
  show ?thesis
  proof (cases "eh_kind h")
    case (H_Filter x)
    then show ?thesis using r f [of x] lims
      by (auto simp: validate_handler_def Let_def handler_ok_def d not_le not_less split: if_splits)
  qed (use r lims in \<open>auto simp: validate_handler_def Let_def handler_ok_def d split: if_splits\<close>)
next
  case False
  then have "validate_handler n hs i h \<noteq> Ok ()"
    by (auto simp: validate_handler_def Let_def ranges_in_def)
  then show ?thesis using False handler_ok_ranges by blast
qed

lemma validate_handlers_iff:
  assumes "length (mb_code b) \<le> u32_max"
  shows "validate_handlers b = Ok () \<longleftrightarrow>
     list_all (handler_ok (length (mb_code b))) (mb_exception_handlers b)
     \<and> list_all (\<lambda>h. list_all (\<lambda>other. laminar (try_range h) (try_range other)
            \<and> laminar (handler_range h) (handler_range other)) (mb_exception_handlers b))
          (mb_exception_handlers b)"
proof -
  let ?hs = "mb_exception_handlers b" and ?n = "length (mb_code b)"
  have self: "laminar A A" for A by (simp add: laminar_def)
  have "validate_handlers b = Ok () \<longleftrightarrow>
      (\<forall>i < length ?hs. handler_ok ?n (?hs ! i) \<and> (\<forall>j < length ?hs. validate_nesting i (?hs ! i) j (?hs ! j) = Ok ()))"
    by (simp add: validate_handlers_def for_each_iff validate_handler_iff [OF assms])
  also have "\<dots> \<longleftrightarrow> (\<forall>i < length ?hs. handler_ok ?n (?hs ! i)) \<and> (\<forall>i < length ?hs. \<forall>j < length ?hs.
      laminar (try_range (?hs ! i)) (try_range (?hs ! j)) \<and> laminar (handler_range (?hs ! i)) (handler_range (?hs ! j)))"
    using nesting_iff [OF assms handler_ok_ranges handler_ok_ranges] self by metis
  finally show ?thesis by (simp add: list_all_length)
qed

section \<open>Instruction boundaries\<close>

lemma offsets_of_stream: "offsets_of (map Ok is @ t) = map in_offset is" if "t = [] \<or> (\<exists>e. t = [Err e])"
  using that by (induction "is") auto

lemma boundary_iff:
  assumes "tiles span_start span_size p is q" and "t = [] \<or> (\<exists>e. t = [Err e])"
  shows "boundary_in off (map Ok is @ t) \<longleftrightarrow> off \<in> set (map in_offset is)"
  using assms(1)
proof (induction "is" arbitrary: p)
  case Nil
  then show ?case using assms(2) by auto
next
  case (Cons i "is")
  have "unat (in_offset i) < unat (in_offset j)" if "j \<in> set is" for j
  proof -
    from that obtain k where "k < length is" "is ! k = j" by (auto simp: in_set_conv_nth)
    with Cons.prems tiles_nth(1) [of span_start span_size "p + span_size i" "is" q k]
    show ?thesis by (auto simp: span_start_def [of i] span_start_def [of j])
  qed
  then have "off < in_offset i \<Longrightarrow> off \<notin> set (map in_offset is)"
    by (force simp: word_less_nat_alt)
  with Cons show ?case by auto
qed

lemma tiles_offsets_sorted:
  assumes "tiles span_start span_size p is q"
  shows "sorted_wrt (<) (map in_offset is)"
proof -
  have "in_offset (is ! i) < in_offset (is ! j)" if "i < j" "j < length is" for i j
  proof -
    have "span_start (is ! i) + span_size (is ! i) \<le> span_start (is ! j)"
      using tiles_disjoint [OF assms that] .
    then show ?thesis
      using tiles_nth(3) [OF assms, of i] that by (simp add: span_start_def word_less_nat_alt)
  qed
  then show ?thesis by (simp add: sorted_wrt_iff_nth_less)
qed

section \<open>Properties\<close>

text \<open>C28: Parsing a method body never panics, whatever the bytes; and the body it gives lies inside
  the input: its code is the slice behind the header, at the RVA recorded for it, and the total size
  covers the code and does not pass the end of the input.\<close>

theorem parse_body_within_input:
  assumes "slice_ok bs"
  shows "no_panic (parse_with bs rva st)
     \<and> (\<forall>b. parse_with bs rva st = Ok b \<longrightarrow> (\<exists>off. body_within bs rva b off))"
  using parse_with_total [OF assms] parse_with_within [OF assms] by blast

theorem parse_body_within_input_witness:
  "no_panic (parse_with [0x06, 0x2A] 0x2050 Permissive)
     \<and> (\<exists>b off. parse_with [0x06, 0x2A] 0x2050 Permissive = Ok b \<and> body_within [0x06, 0x2A] 0x2050 b off)"
proof -
  have sl: "slice_ok [0x06, 0x2A :: u8]" by (simp add: slice_ok_def isize_max_def)
  have "tiny_bytes [0x2A] @ [] = [0x06, 0x2A]" by (simp add: tiny_bytes_def)
  then obtain b where "parse_with [0x06, 0x2A] 0x2050 Permissive = Ok b"
    using parse_tiny_bytes [of "[0x2A]" "[]"] sl by simp
  then show ?thesis using parse_body_within_input [OF sl] by blast
qed

text \<open>C5: Fat bodies round-trip: a body laid out as II.25.4 says (three header dwords, the code, and
  where it has handlers the padded fat exception section) is parsed back as it was, whatever follows
  it, with its total size the number of bytes laid out and no diagnostic.\<close>

theorem fat_body_roundtrip:
  assumes "fat_body_ok rva b" and "slice_ok (fat_bytes b @ post)"
  shows "parse_with (fat_bytes b @ post) rva st = Ok b"
  by (rule parse_fat_bytes [OF assms])

theorem fat_body_roundtrip_witness:
  "\<exists>b. mb_exception_handlers b \<noteq> [] \<and> length (fat_bytes b) = 44
     \<and> parse_with (fat_bytes b @ [0xFF]) 0x2050 Permissive = Ok b"
proof -
  let ?h = "\<lparr>eh_kind = H_Finally, eh_try_offset = 0, eh_try_length = 1,
     eh_handler_offset = 1, eh_handler_length = 1, eh_raw_flags = 2\<rparr>"
  let ?b = "\<lparr>mb_kind = HK_Fat, mb_flags = 0x1B, mb_max_stack = 8, mb_code = [0x00, 0xDC, 0x2A],
     mb_code_rva = 0x2050 + 12, mb_local_var_sig = None, mb_exception_handlers = [?h],
     mb_unknown_sections = [], mb_header_dwords = 3, mb_total_size = 44, mb_diagnostics = []\<rparr>"
  have l: "length (fat_bytes ?b) = 44" by (simp add: fat_bytes_def eh_section_bytes_def pad4_def Let_def)
  have "fat_body_ok 0x2050 ?b"
    unfolding fat_body_ok_def l
    by (simp add: fat_more_sects_def clause_ok_def clause_extra_def handler_kind_def u32_max_def)
  moreover have "slice_ok (fat_bytes ?b @ [0xFF])"
    using l by (simp add: slice_ok_def isize_max_def)
  ultimately have "parse_with (fat_bytes ?b @ [0xFF]) 0x2050 Permissive = Ok ?b"
    by (rule fat_body_roundtrip)
  with l show ?thesis by (intro exI [of _ ?b]) simp
qed

text \<open>Tiny bodies round-trip: fewer than 64 bytes of code behind the one-byte header come back
  with the fixed stack of eight, no locals, no handlers and a total size of one byte more.\<close>

lemma tiny_body_roundtrip:
  assumes "length code < 64" and "slice_ok (tiny_bytes code @ post)"
  shows "parse_with (tiny_bytes code @ post) rva st =
     Ok \<lparr>mb_kind = HK_Tiny, mb_flags = 0, mb_max_stack = 8, mb_code = code, mb_code_rva = rva + 1,
         mb_local_var_sig = None, mb_exception_handlers = [], mb_unknown_sections = [],
         mb_header_dwords = 0, mb_total_size = length (tiny_bytes code), mb_diagnostics = []\<rparr>"
  by (rule parse_tiny_bytes [OF assms])

text \<open>The size of an exception section is settled for both readings of \<open>DataSize\<close>: with the four
  header bytes counted it is taken as it stands; without them (the known compiler defect) it is
  rejected when strict and repaired with one diagnostic when lenient. It never exceeds what is left.\<close>

lemma eh_section_size:
  assumes "c = 12 \<or> c = 24" and "0 < k" and "k * c \<le> remaining"
  shows "section_body_size st True c (k * c + 4) remaining start s = Ok (k * c, s)
     \<and> section_body_size st True c (k * c) remaining start s =
         (if is_strict st then Err (error_new Malformed start CTX_BODY)
          else Ok (k * c, push_diag EhSectionSize start (k * c) s))
     \<and> (\<forall>eh d n s'. section_body_size st eh c d remaining start s = Ok (n, s') \<longrightarrow> n \<le> remaining)"
  using section_body_size_inclusive [OF assms(3)] section_body_size_exclusive [OF assms] section_body_size_le
  by blast

text \<open>C9: \<open>validate_handlers\<close> accepts exactly the bodies whose clauses keep II.25.4.6: every try and
  handler range is non-empty and inside the code, they are disjoint, a filter starts before its
  handler, and the ranges of two clauses are nested or disjoint. The comparison of 32-bit ends with
  saturating addition loses nothing.\<close>

theorem validate_handlers_exact:
  assumes "length (mb_code b) \<le> u32_max"
  shows "validate_handlers b = Ok () \<longleftrightarrow>
     list_all (handler_ok (length (mb_code b))) (mb_exception_handlers b)
     \<and> list_all (\<lambda>h. list_all (\<lambda>other. laminar (try_range h) (try_range other)
            \<and> laminar (handler_range h) (handler_range other)) (mb_exception_handlers b))
          (mb_exception_handlers b)"
  by (rule validate_handlers_iff [OF assms])

theorem validate_handlers_exact_witness:
  "\<exists>b. length (mb_exception_handlers b) = 1 \<and> validate_handlers b = Ok ()"
proof -
  let ?h = "\<lparr>eh_kind = H_Finally, eh_try_offset = 0, eh_try_length = 1,
     eh_handler_offset = 1, eh_handler_length = 1, eh_raw_flags = 2\<rparr>"
  let ?b = "\<lparr>mb_kind = HK_Fat, mb_flags = 0x1B, mb_max_stack = 8, mb_code = [0x00, 0xDC, 0x2A],
     mb_code_rva = 12, mb_local_var_sig = None, mb_exception_handlers = [?h],
     mb_unknown_sections = [], mb_header_dwords = 3, mb_total_size = 44, mb_diagnostics = []\<rparr>"
  have "validate_handlers ?b = Ok ()"
    by (subst validate_handlers_exact)
      (auto simp: u32_max_def handler_ok_def laminar_def try_range_def handler_range_def)
  then show ?thesis by (intro exI [of _ ?b]) simp
qed

text \<open>The instruction offsets of a body are strictly increasing and each decodes; and an offset
  is an instruction boundary exactly when it is one of them.\<close>

lemma boundary_is_membership:
  assumes "length (mb_code b) \<le> u32_max"
  shows "\<exists>offs. instruction_offsets b = Ok (Some offs) \<and> sorted_wrt (<) offs
     \<and> list_all (\<lambda>p. \<exists>i. decode_at (mb_code b) p = Ok i) offs
     \<and> is_instruction_boundary b off = Ok (Some (off \<in> set offs))"
proof -
  obtain "is" t q where d: "instructions (mb_code b) = Ok (Some (map Ok is @ t))"
    and rs: "raw_stream (mb_code b) 0 is t q"
    using raw_tiled [of "instruction_iter_new (mb_code b)" "length (mb_code b)"] assms
    by (fastforce simp: instructions_def instruction_iter_new_def ii_left_def)
  have t: "t = [] \<or> (\<exists>e. t = [Err e])" and tl: "tiles span_start span_size 0 is q"
    using rs by (auto simp: raw_stream_def)
  have "list_all (\<lambda>p. \<exists>i. decode_at (mb_code b) p = Ok i) (map in_offset is)"
    using rs by (auto simp: raw_stream_def list_all_iff)
  then show ?thesis
    using tiles_offsets_sorted [OF tl] d
    by (simp add: instruction_offsets_def is_instruction_boundary_def offsets_of_stream [OF t]
        boundary_iff [OF tl t])
qed

end
