(* ===== verification/Fuzz.thy ===== *)
theory Fuzz
  imports Body
begin

text \<open>
  The fuzz targets of the repository (\<open>src/fuzz/fuzz_targets/\<close>) are programs of their own: each
  takes a sequence of bytes, drives the crate with it and asserts what must hold of the answers. A
  failing \<open>assert!\<close> is a panic, so a target is a function to \<open>unit result\<close>, and that no input
  makes it fail is that the function returns \<open>Ok ()\<close>. This theory has the loops the targets are
  written with and the targets \<open>il.rs\<close> and \<open>body.rs\<close>; \<open>FuzzParse\<close> and \<open>FuzzMetadata\<close> have the others.

  A \<open>for\<close> loop over an iterator drives its \<open>next\<close>, with fuel for as many rounds as the iterator
  can have; running out of it would be \<open>Panic\<close>, so \<open>Ok ()\<close> includes that the loop ends.
\<close>

section \<open>Assertions and loops\<close>

definition assert_that :: "bool \<Rightarrow> unit result" where
  "assert_that b = (if b then Ok () else Panic)"

text \<open>\<open>let _ = e\<close> of a fallible and of an infallible expression; \<open>expect\<close> and \<open>unwrap\<close>.\<close>

definition discard :: "'a result \<Rightarrow> unit result" where
  "discard r = (case r of Panic \<Rightarrow> Panic | _ \<Rightarrow> Ok ())"

definition touch :: "'a \<Rightarrow> unit result" where
  "touch x = Ok ()"

text \<open>\<open>if let Ok(x) = e \{ .. \}\<close>, and \<open>let Ok(x) = e else \{ continue \}\<close> with the rest of the round.\<close>

definition when_ok :: "'a result \<Rightarrow> ('a \<Rightarrow> unit result) \<Rightarrow> unit result" where
  "when_ok r f = (case r of Ok x \<Rightarrow> f x | Err _ \<Rightarrow> Ok () | Panic \<Rightarrow> Panic)"

definition expect :: "'a result \<Rightarrow> 'a result" where
  "expect r = (case r of Ok x \<Rightarrow> Ok x | _ \<Rightarrow> Panic)"

datatype 'a flow = Continue 'a | Break 'a

fun for_in :: "nat \<Rightarrow> ('s, 'x) stepper \<Rightarrow> ('x \<Rightarrow> 'a \<Rightarrow> 'a flow result) \<Rightarrow> 's \<Rightarrow> 'a \<Rightarrow> 'a result" where
  "for_in 0 nxt body s a = res_bind (nxt s) (\<lambda>r. case r of None \<Rightarrow> Ok a | Some _ \<Rightarrow> Panic)"
| "for_in (Suc n) nxt body s a =
     res_bind (nxt s) (\<lambda>r. case r of
         None \<Rightarrow> Ok a
       | Some (x, s') \<Rightarrow> res_bind (body x a) (\<lambda>k. case k of
             Break a' \<Rightarrow> Ok a'
           | Continue a' \<Rightarrow> for_in n nxt body s' a'))"

fun for_items :: "('x \<Rightarrow> 'a \<Rightarrow> 'a flow result) \<Rightarrow> 'x list \<Rightarrow> 'a \<Rightarrow> 'a result" where
  "for_items body [] a = Ok a"
| "for_items body (x # xs) a =
     res_bind (body x a) (\<lambda>k. case k of Break a' \<Rightarrow> Ok a' | Continue a' \<Rightarrow> for_items body xs a')"

definition each :: "('x \<Rightarrow> unit result) \<Rightarrow> 'x list \<Rightarrow> unit result" where
  "each f xs = for_items (\<lambda>x a. res_bind (f x) (\<lambda>_. Ok (Continue a))) xs ()"

text \<open>\<open>Iterator::take\<close>.\<close>

definition take_next :: "('s, 'x) stepper \<Rightarrow> (nat \<times> 's, 'x) stepper" where
  "take_next nxt ns =
     (case ns of
        (0, s) \<Rightarrow> Ok None
      | (Suc n, s) \<Rightarrow> res_bind (nxt s) (\<lambda>r. Ok (map_option (\<lambda>(x, s'). (x, (n, s'))) r)))"

lemma assert_that_Ok [simp]: "assert_that b = Ok u \<longleftrightarrow> b" "assert_that True = Ok ()"
  by (simp_all add: assert_that_def)

lemma discard_Ok [simp]: "no_panic r \<Longrightarrow> discard r = Ok ()"
  by (cases r) (simp_all add: discard_def)

lemma touch_Ok [simp]: "touch x = Ok ()"
  by (simp add: touch_def)

lemma when_ok_Ok: "no_panic r \<Longrightarrow> (\<And>x. r = Ok x \<Longrightarrow> f x = Ok ()) \<Longrightarrow> when_ok r f = Ok ()"
  by (cases r) (simp_all add: when_ok_def)

lemma expect_Ok [simp]: "expect (Ok x) = Ok x"
  by (simp add: expect_def)

lemma for_in_items:
  "drain n nxt s = Ok (Some xs) \<Longrightarrow> for_in n nxt body s a = for_items body xs a"
  by (induction n nxt s arbitrary: xs a rule: drain.induct)
    (fastforce simp: res_iff split: option.splits prod.splits flow.split intro!: arg_cong [where f = "res_bind _"])+

lemma each_Ok: "(\<And>x. x \<in> set xs \<Longrightarrow> f x = Ok ()) \<Longrightarrow> each f xs = Ok ()"
  by (induction xs) (simp_all add: each_def)

lemma each_Nil [simp]: "each f [] = Ok ()"
  by (simp add: each_def)

lemma each_Cons [simp]: "each f (x # xs) = res_bind (f x) (\<lambda>_. each f xs)"
  by (simp add: each_def res_bind_assoc)

lemma take_drain:
  "drain n nxt s = Ok (Some xs) \<Longrightarrow> drain n (take_next nxt) (k, s) = Ok (Some (take k xs))"
proof (induction n nxt s arbitrary: xs k rule: drain.induct)
  case (1 nxt s)
  then have "nxt s = Ok None" "xs = []" by (cases "nxt s"; cases "res_ok (nxt s)"; auto split: option.splits)+
  then show ?case by (cases k) (simp_all add: take_next_def)
next
  case (2 n nxt s)
  show ?case
  proof (cases k)
    case (Suc j)
    from 2(2) consider "nxt s = Ok None" "xs = []"
      | x s' ys where "nxt s = Ok (Some (x, s'))" "drain n nxt s' = Ok (Some ys)" "xs = x # ys"
    proof -
      from 2(2) obtain r where "nxt s = Ok r" by (cases "nxt s") simp_all
      with 2(2) that show thesis by (cases r) (auto simp: res_iff)
    qed
    then show ?thesis
    proof cases
      case (2 x s' ys)
      with "2.IH" [of "Some (x, s')" "(x, s')" x s' ys j] show ?thesis by (simp add: Suc take_next_def)
    qed (simp add: Suc take_next_def)
  qed (simp add: take_next_def)
qed

section \<open>The target \<open>il\<close>\<close>

fun same_operand :: "Operand \<Rightarrow> Operand \<Rightarrow> bool" where
  "same_operand (O_R32 a) (O_R32 b) \<longleftrightarrow> a = b"
| "same_operand (O_R64 a) (O_R64 b) \<longleftrightarrow> a = b"
| "same_operand a b \<longleftrightarrow> a = b"

definition fuzz_il_item ::
    "bytes \<Rightarrow> Instruction result \<Rightarrow> nat \<times> u32 option \<Rightarrow> (nat \<times> u32 option) flow result" where
  "fuzz_il_item code item acc =
     (case acc of (tot, previous) \<Rightarrow>
      case item of
        Panic \<Rightarrow> Panic
      | Err _ \<Rightarrow> Ok (Break (tot, previous))
      | Ok i \<Rightarrow>
          res_bind (assert_that (0 < in_size i)) (\<lambda>_.
          res_bind (assert_that (unat (in_offset i) = tot)) (\<lambda>_.
          res_bind (assert_that (unat (in_offset i) + unat (in_size i) \<le> length code)) (\<lambda>_.
          res_bind (case previous of Some p \<Rightarrow> assert_that (p < in_offset i) | None \<Rightarrow> Ok ()) (\<lambda>_.
          res_bind (usize_add tot (unat (in_size i))) (\<lambda>tot.
          res_bind (expect (decode_at code (in_offset i))) (\<lambda>again.
          res_bind (assert_that (in_offset again = in_offset i)) (\<lambda>_.
          res_bind (assert_that (in_size again = in_size i)) (\<lambda>_.
          res_bind (assert_that (in_opcode again = in_opcode i)) (\<lambda>_.
          res_bind (assert_that (same_operand (in_operand again) (in_operand i))) (\<lambda>_.
          res_bind (index_range [fst (oi_encoding (info (in_opcode i))), snd (oi_encoding (info (in_opcode i)))]
                      0 (oi_size (info (in_opcode i)))) (\<lambda>bs.
          res_bind (expect (from_bytes bs)) (\<lambda>(op, _).
          res_bind (assert_that (op = in_opcode i)) (\<lambda>_.
          res_bind (touch (canonical_of (in_opcode i))) (\<lambda>_.
          res_bind (touch (branch_targets (in_operand i))) (\<lambda>_.
          res_bind (touch (operand_token (in_operand i))) (\<lambda>_.
          Ok (Continue (tot, Some (in_offset i))))))))))))))))))))"

definition fuzz_il_folded :: "FoldedInstruction result \<Rightarrow> unit \<Rightarrow> unit flow result" where
  "fuzz_il_folded item acc =
     (case item of
        Panic \<Rightarrow> Panic
      | Err _ \<Rightarrow> Ok (Break ())
      | Ok f \<Rightarrow>
          res_bind (assert_that (0 < fi_total_size f)) (\<lambda>_.
          res_bind (assert_that (\<not> is_prefix (in_opcode (fi_instruction f)))) (\<lambda>_.
          Ok (Continue ()))))"

definition fuzz_il :: "bytes \<Rightarrow> unit result" where
  "fuzz_il code =
     res_bind (for_in (length code) instruction_iter_next (fuzz_il_item code) (instruction_iter_new code) (0, None))
       (\<lambda>(tot, _).
     res_bind (assert_that (tot \<le> length code)) (\<lambda>_.
     res_bind (for_in (length code) folded_iter_next fuzz_il_folded (instruction_iter_new code) ()) (\<lambda>_.
     res_bind (discard (decode_at code (of_nat (length code)))) (\<lambda>_.
     discard (decode_at code 0xFFFFFFFF)))))"

lemma same_operand_refl [simp]: "same_operand a a"
  by (cases a) simp_all

lemma encoding_slice:
  "index_range [fst (oi_encoding (info op)), snd (oi_encoding (info op))] 0 (oi_size (info op))
     = Ok (opcode_bytes op)"
  using length_opcode_bytes(2,3) [of op]
  by (auto simp: index_range_iff opcode_bytes_def numeral_2_eq_2 le_Suc_eq)

lemma opcode_bytes_decode: "from_bytes (opcode_bytes op) = Ok (op, oi_size (info op))"
  by (simp add: from_bytes_iff)

lemma fuzz_il_item_Ok:
  assumes "length code \<le> u32_max" and "decode_at code (in_offset i) = Ok i"
    and "case previous of Some p \<Rightarrow> p < in_offset i | None \<Rightarrow> True"
  shows "fuzz_il_item code (Ok i) (unat (in_offset i), previous)
     = Ok (Continue (unat (in_offset i) + span_size i, Some (in_offset i)))"
proof -
  note b = decode_at_bounds [OF assms(1,2)]
  have "unat (in_offset i) + unat (in_size i) \<le> usize_max"
    using b assms(1) by (simp add: u32_max_def usize_max_def)
  moreover have "0 < in_size i" using b(2) by (simp add: word_less_nat_alt)
  moreover have "(case previous of Some p \<Rightarrow> assert_that (p < in_offset i) | None \<Rightarrow> Ok ()) = Ok ()"
    using assms(3) by (cases previous) simp_all
  ultimately show ?thesis
    using b(3) assms(2)
    by (simp add: fuzz_il_item_def encoding_slice opcode_bytes_decode span_size_def usize_add_def)
qed

lemma fuzz_il_items:
  assumes "length code \<le> u32_max" and "tiles span_start span_size p is q"
    and "list_all (\<lambda>i. decode_at code (in_offset i) = Ok i) is" and "t = [] \<or> (\<exists>e. t = [Err e])"
    and "case previous of Some x \<Rightarrow> unat x < p | None \<Rightarrow> True"
  shows "\<exists>prev. for_items (fuzz_il_item code) (map Ok is @ t) (p, previous) = Ok (q, prev)"
  using assms(2,3,5)
proof (induction "is" arbitrary: p previous)
  case Nil
  then show ?case using assms(4) by (auto simp: fuzz_il_item_def)
next
  case (Cons i "is")
  from Cons.prems(1) have i: "unat (in_offset i) = p" "0 < span_size i"
    and ts: "tiles span_start span_size (p + span_size i) is q"
    by (simp_all add: span_start_def [of i])
  have "case previous of Some x \<Rightarrow> x < in_offset i | None \<Rightarrow> True"
    using Cons.prems(3) i by (auto simp: word_less_nat_alt split: option.splits)
  then have "fuzz_il_item code (Ok i) (p, previous) = Ok (Continue (p + span_size i, Some (in_offset i)))"
    using fuzz_il_item_Ok [OF assms(1), of i previous] Cons.prems(2) i by simp
  then show ?case
    using Cons.IH [OF ts, of "Some (in_offset i)"] Cons.prems(2) i by simp
qed

text \<open>The two streams of a code slice, for the loops over them.\<close>

lemma raw_stream_of:
  assumes "length code \<le> u32_max"
  obtains "is" t q where "instructions code = Ok (Some (map Ok is @ t))" and "raw_stream code 0 is t q"
proof -
  have "ii_left (instruction_iter_new code) \<le> length code"
    by (simp add: ii_left_def instruction_iter_new_def)
  then show ?thesis
    using raw_tiled [of "instruction_iter_new code" "length code"] assms that
    by (fastforce simp: instructions_def instruction_iter_new_def)
qed

lemma folded_stream_of:
  assumes "length code \<le> u32_max"
  obtains fs u q where "folded_instructions code = Ok (Some (map Ok fs @ u))"
    and "tiles folded_start folded_size 0 fs q" and "q \<le> length code" and "list_all folded_ok fs"
    and "u = [] \<or> (\<exists>e. u = [Err e])"
  using folded_tiles_code [OF assms] that by blast

lemma fuzz_il_folded_items:
  assumes "tiles folded_start folded_size p fs q" and "list_all folded_ok fs" and "u = [] \<or> (\<exists>e. u = [Err e])"
  shows "for_items fuzz_il_folded (map Ok fs @ u) () = Ok ()"
  using assms(1,2)
proof (induction fs arbitrary: p)
  case (Cons f fs)
  have "0 < fi_total_size f" using Cons.prems(1) by (simp add: folded_size_def word_less_nat_alt)
  with Cons show ?case by (auto simp: fuzz_il_folded_def folded_ok_def)
qed (use assms(3) in \<open>auto simp: fuzz_il_folded_def\<close>)

section \<open>The target \<open>body\<close>\<close>

definition fuzz_body_item :: "Instruction result \<Rightarrow> nat \<Rightarrow> nat flow result" where
  "fuzz_body_item item tot =
     (case item of
        Panic \<Rightarrow> Panic
      | Err _ \<Rightarrow> Ok (Break tot)
      | Ok i \<Rightarrow>
          res_bind (assert_that (0 < in_size i)) (\<lambda>_.
          res_bind (assert_that (unat (in_offset i) = tot)) (\<lambda>_.
          res_bind (usize_add tot (unat (in_size i))) (\<lambda>tot.
          Ok (Continue tot)))))"

definition fuzz_body_folded :: "FoldedInstruction result \<Rightarrow> nat \<Rightarrow> nat flow result" where
  "fuzz_body_folded item folded_end =
     (case item of
        Panic \<Rightarrow> Panic
      | Err _ \<Rightarrow> Ok (Break folded_end)
      | Ok f \<Rightarrow>
          res_bind (assert_that (of_nat folded_end \<le> fi_first_offset f)) (\<lambda>_.
          Ok (Continue (unat (fi_end_offset f)))))"

text \<open>\<open>offsets.windows(2).all(|w| w[0] < w[1])\<close>.\<close>

definition increasing_windows :: "u32 list \<Rightarrow> bool" where
  "increasing_windows offs \<longleftrightarrow> list_all (\<lambda>(a, b). a < b) (zip offs (drop 1 offs))"

definition fuzz_parsed_body :: "bytes \<Rightarrow> MethodBody \<Rightarrow> unit result" where
  "fuzz_parsed_body body_bytes b =
     (let code = mb_code b in
      res_bind (assert_that (length code \<le> length body_bytes)) (\<lambda>_.
      res_bind (assert_that (mb_total_size b \<le> length body_bytes)) (\<lambda>_.
      res_bind (discard (validate_handlers b)) (\<lambda>_.
      res_bind (touch (length (mb_diagnostics b))) (\<lambda>_.
      res_bind (for_in (length code) instruction_iter_next fuzz_body_item (instruction_iter_new code) 0) (\<lambda>tot.
      res_bind (assert_that (tot \<le> length code)) (\<lambda>_.
      res_bind (for_in (length code) folded_iter_next fuzz_body_folded (instruction_iter_new code) 0) (\<lambda>folded_end.
      res_bind (assert_that (folded_end \<le> length code)) (\<lambda>_.
      res_bind (res_bind (instruction_offsets b) unwrap_res) (\<lambda>offsets.
      res_bind (assert_that (increasing_windows offsets)) (\<lambda>_.
      case get_at offsets 0 of
        Some first \<Rightarrow> res_bind (res_bind (is_instruction_boundary b first) unwrap_res) assert_that
      | None \<Rightarrow> Ok ())))))))))))"

definition fuzz_body :: "bytes \<Rightarrow> unit result" where
  "fuzz_body dat =
     (if length dat < 4 then Ok ()
      else
      let rva = from_le_bytes [dat ! 0, dat ! 1, dat ! 2, dat ! 3] in
      res_bind (index_from dat 4) (\<lambda>body_bytes.
      each (\<lambda>strictness. when_ok (parse_with body_bytes rva strictness) (fuzz_parsed_body body_bytes))
        [Permissive, Strict]))"

lemma fuzz_body_items:
  assumes "tiles span_start span_size p is q" and "q \<le> u32_max" and "t = [] \<or> (\<exists>e. t = [Err e])"
  shows "for_items fuzz_body_item (map Ok is @ t) p = Ok q"
  using assms(1)
proof (induction "is" arbitrary: p)
  case (Cons i "is")
  then have i: "unat (in_offset i) = p" "0 < span_size i" and ts: "tiles span_start span_size (p + span_size i) is q"
    by (simp_all add: span_start_def [of i])
  have "p + span_size i \<le> usize_max" using tiles_le [OF ts] assms(2) by (simp add: u32_max_def usize_max_def)
  with i Cons.IH [OF ts] show ?case
    by (simp add: fuzz_body_item_def span_size_def usize_add_def word_less_nat_alt)
qed (use assms(3) in \<open>auto simp: fuzz_body_item_def\<close>)

lemma folded_end_is:
  assumes "folded_start f + folded_size f \<le> u32_max"
  shows "unat (fi_end_offset f) = folded_start f + folded_size f"
proof -
  have "fi_end_offset f = fi_first_offset f + fi_total_size f" by (simp add: fi_total_size_def)
  with assms show ?thesis
    by (simp add: folded_start_def folded_size_def unat_word_ariths u32_max_def)
qed

lemma fuzz_body_folded_items:
  assumes "tiles folded_start folded_size p fs q" and "q \<le> u32_max" and "u = [] \<or> (\<exists>e. u = [Err e])"
  shows "for_items fuzz_body_folded (map Ok fs @ u) p = Ok q"
  using assms(1)
proof (induction fs arbitrary: p)
  case (Cons f fs)
  then have f: "folded_start f = p" and ts: "tiles folded_start folded_size (p + folded_size f) fs q" by simp_all
  have "folded_start f + folded_size f \<le> u32_max" using tiles_le [OF ts] f assms(2) by simp
  from folded_end_is [OF this] have "unat (fi_end_offset f) = p + folded_size f" using f by simp
  moreover have "of_nat p \<le> fi_first_offset f" using f by (auto simp: folded_start_def)
  ultimately show ?case using Cons.IH [OF ts] by (simp add: fuzz_body_folded_def)
qed (use assms(3) in \<open>auto simp: fuzz_body_folded_def\<close>)

lemma no_panic_for_each: "(\<And>i x. x \<in> set xs \<Longrightarrow> no_panic (f i x)) \<Longrightarrow> no_panic (for_each f n xs)"
  by (induction xs arbitrary: n) (auto simp: res_iff)

lemma validate_handlers_total: "no_panic (validate_handlers b)"
proof -
  have "no_panic (validate_nesting i h j other)" for i h j other
    by (simp add: validate_nesting_def)
  then show ?thesis
    unfolding validate_handlers_def validate_handler_def Let_def
    by (auto simp: res_iff no_panic_for_each intro!: no_panic_for_each split: HandlerKind.splits if_splits)
qed

lemma increasing_windows_sorted: "sorted_wrt (<) offs \<Longrightarrow> increasing_windows offs"
  by (induction offs rule: induct_list012) (auto simp: increasing_windows_def)

text \<open>The length of the code is a field of the header: six bits of a tiny one, 32 of a fat one.\<close>

lemma taken_length: "reader_take n r = Ok (c, r') \<Longrightarrow> length c \<le> n"
  by (auto simp: reader_take_def checked_add_def get_range_def res_bind_Ok_iff split: if_split_asm)

lemma parse_with_code_fits:
  assumes "parse_with bs rva st = Ok b"
  shows "length (mb_code b) \<le> u32_max"
proof -
  let ?r = "reader_new bs 0 CTX_BODY"
  from assms consider (t) "parse_tiny ?r rva = Ok b" | (f) "parse_fat ?r rva st = Ok b"
    unfolding parse_with_def Let_def by (auto simp: res_bind_Ok_iff split: if_splits)
  then show ?thesis
  proof cases
    case t
    then obtain h :: u8 and r1 r2 where "reader_take (unat (drop_bit 2 h)) r1 = Ok (mb_code b, r2)"
      by (auto simp: parse_tiny_def Let_def res_bind_Ok_iff)
    from taken_length [OF this] show ?thesis
      using unsigned_less [of "drop_bit 2 h", where ?'a = nat] by (simp add: u32_max_def)
  next
    case f
    then obtain n :: u32 and r1 r2 where "reader_take (unat n) r1 = Ok (mb_code b, r2)"
      by (auto simp: parse_fat_def parse_fat_header_def Let_def res_bind_Ok_iff split: if_split_asm)
    from taken_length [OF this] show ?thesis
      using unsigned_less [of n, where ?'a = nat] by (simp add: u32_max_def)
  qed
qed

lemma fuzz_parsed_body_Ok:
  assumes "slice_ok bs" and "parse_with bs rva st = Ok b"
  shows "fuzz_parsed_body bs b = Ok ()"
proof -
  let ?code = "mb_code b"
  from parse_with_within [OF assms] obtain off where w: "body_within bs rva b off" by blast
  then have len: "length ?code \<le> length bs" "mb_total_size b \<le> length bs" by (auto simp: body_within_def)
  note u = parse_with_code_fits [OF assms(2)]
  obtain "is" t q where r: "instructions ?code = Ok (Some (map Ok is @ t))" and rs: "raw_stream ?code 0 is t q"
    using raw_stream_of [OF u] .
  then have q: "q \<le> length ?code" "tiles span_start span_size 0 is q" "t = [] \<or> (\<exists>e. t = [Err e])"
    by (auto simp: raw_stream_def)
  have 1: "for_in (length ?code) instruction_iter_next fuzz_body_item (instruction_iter_new ?code) 0 = Ok q"
    using fuzz_body_items [OF q(2) _ q(3)] q(1) u by (simp add: for_in_items [OF r [unfolded instructions_def]])
  obtain fs x e where f: "folded_instructions ?code = Ok (Some (map Ok fs @ x))"
    and t: "tiles folded_start folded_size 0 fs e" and e: "e \<le> length ?code" and x: "x = [] \<or> (\<exists>e. x = [Err e])"
    using folded_stream_of [OF u] by metis
  have 2: "for_in (length ?code) folded_iter_next fuzz_body_folded (instruction_iter_new ?code) 0 = Ok e"
    using fuzz_body_folded_items [OF t _ x] e u by (simp add: for_in_items [OF f [unfolded folded_instructions_def]])
  obtain offs where o: "instruction_offsets b = Ok (Some offs)" "sorted_wrt (<) offs"
    using boundary_is_membership [OF u, of 0] by blast
  have m: "is_instruction_boundary b off = Ok (Some (off \<in> set offs))" for off
    using boundary_is_membership [OF u, of off] o(1) by auto
  show ?thesis
    using len 1 2 q(1) e increasing_windows_sorted [OF o(2)]
    by (auto simp: fuzz_parsed_body_def Let_def validate_handlers_total o(1) m get_at_def)
qed

section \<open>Properties\<close>

text \<open>C18: The fuzz target \<open>il\<close> cannot fail: for code of up to 4 GiB, every assertion it makes about
  the two instruction streams holds, decoding again gives the same instruction, every opcode is read
  back from its own encoding, and decoding at or past the end does not panic.\<close>

theorem fuzz_il_passes:
  assumes "length code \<le> u32_max"
  shows "fuzz_il code = Ok ()"
proof -
  obtain "is" t q where r: "instructions code = Ok (Some (map Ok is @ t))" and rs: "raw_stream code 0 is t q"
    using raw_stream_of [OF assms] .
  obtain prev where "for_items (fuzz_il_item code) (map Ok is @ t) (0, None) = Ok (q, prev)"
    using fuzz_il_items [OF assms, of 0 "is" q t None] rs by (auto simp: raw_stream_def)
  then have 1: "for_in (length code) instruction_iter_next (fuzz_il_item code) (instruction_iter_new code) (0, None)
      = Ok (q, prev)"
    by (simp add: for_in_items [OF r [unfolded instructions_def]])
  obtain fs u e where f: "folded_instructions code = Ok (Some (map Ok fs @ u))"
    and fs: "tiles folded_start folded_size 0 fs e" "list_all folded_ok fs" "u = [] \<or> (\<exists>e. u = [Err e])"
    using folded_stream_of [OF assms] by metis
  have 2: "for_in (length code) folded_iter_next fuzz_il_folded (instruction_iter_new code) () = Ok ()"
    using fuzz_il_folded_items [OF fs] by (simp add: for_in_items [OF f [unfolded folded_instructions_def]])
  show ?thesis
    using 1 2 rs decode_at_total [OF slice_ok_u32 [OF assms]]
    by (simp add: fuzz_il_def raw_stream_def)
qed

theorem fuzz_il_passes_witness: "fuzz_il [0xFE, 0x13, 0x46, 0x2A] = Ok ()"
  by (rule fuzz_il_passes) (simp add: u32_max_def)

text \<open>C17: The fuzz target \<open>body\<close> cannot fail: whatever the RVA and the bytes, in both strictness
  modes, a body that parses lies in its input, its handlers can be validated without a panic, its two
  streams start at 0 and never go back or pass the end of the code, and its instruction offsets
  increase and are instruction boundaries.\<close>

theorem fuzz_body_passes:
  assumes "slice_ok dat"
  shows "fuzz_body dat = Ok ()"
proof -
  let ?bs = "drop 4 dat"
  have l: "slice_ok ?bs" using assms by (simp add: slice_ok_def)
  have "when_ok (parse_with ?bs rva st) (fuzz_parsed_body ?bs) = Ok ()" for rva st
    using parse_with_total [OF l] fuzz_parsed_body_Ok [OF l] by (intro when_ok_Ok)
  then show ?thesis
    by (auto simp: fuzz_body_def Let_def index_from_def get_from_def intro!: each_Ok)
qed

theorem fuzz_body_passes_witness: "fuzz_body [0x50, 0x20, 0, 0, 0x06, 0x2A] = Ok ()"
  by (rule fuzz_body_passes) (simp add: slice_ok_def isize_max_def)

end
