(* ===== verification/Heaps.thy ===== *)
theory Heaps
  imports Compressed Token Iter
begin

text \<open>
  The four metadata heaps (\<open>src/heaps.rs\<close>). The source's \<open>StringsHeap\<close>, \<open>BlobHeap\<close>,
  \<open>GuidHeap\<close> and \<open>UserStringsHeap\<close> are newtypes around one \<open>Span\<close>; here they are synonyms
  of its record, and the accessors the macro \<open>heap_common!\<close> writes four times are written
  once. A heap index, a \<open>u32\<close>, is the \<open>nat\<close> it is widened to.

  Modelled: \<open>Span::at\<close>; \<open>bytes\<close>, \<open>str\<close>, \<open>str_opt\<close>, \<open>lossy\<close> and \<open>iter\<close> of the string heap, with
  the standard library's UTF-8 validation written out; \<open>get\<close>, \<open>get_with_size\<close>,
  \<open>body_offset\<close> and \<open>iter\<close> of the blob heap; \<open>count\<close>, \<open>get\<close>, \<open>get_opt\<close> and \<open>iter\<close> of the GUID
  heap; \<open>get\<close>, \<open>get_at\<close>, \<open>iter\<close>, the splitting of an entry and its UTF-16 code units for the
  user-string heap. The \<open>Display\<close> and \<open>Debug\<close> forms are in \<open>Format\<close>.
\<close>

section \<open>Spans\<close>

record span =
  span_data :: bytes
  span_base :: nat

definition span_new :: "bytes \<Rightarrow> nat \<Rightarrow> span" where
  "span_new d b = \<lparr>span_data = d, span_base = b\<rparr>"

definition span_at :: "span \<Rightarrow> nat \<Rightarrow> string \<Rightarrow> bytes result" where
  "span_at s off ctx =
     ok_or (get_from (span_data s) off) (error_new OutOfRange (saturating_add (span_base s) off) ctx)"

definition heap_empty :: span where
  "heap_empty = \<lparr>span_data = [], span_base = 0\<rparr>"

definition heap_len :: "span \<Rightarrow> nat" where
  "heap_len h = length (span_data h)"

definition heap_is_empty :: "span \<Rightarrow> bool" where
  "heap_is_empty h \<longleftrightarrow> span_data h = []"

lemma span_at_iff [res_iff]:
  "span_at s off ctx = Ok r \<longleftrightarrow> off \<le> length (span_data s) \<and> r = drop off (span_data s)"
  "span_at s off ctx = Err e \<longleftrightarrow> length (span_data s) < off
     \<and> e = error_new OutOfRange (saturating_add (span_base s) off) ctx"
  "span_at s off ctx = Panic \<longleftrightarrow> False"
  by (auto simp: span_at_def res_iff)

section \<open>The string heap\<close>

definition strings_bytes :: "span \<Rightarrow> nat \<Rightarrow> bytes result" where
  "strings_bytes h index =
     res_bind (span_at h index ''#Strings'') (\<lambda>rest.
     let e = (case position (\<lambda>b. b = 0) rest of Some n \<Rightarrow> n | None \<Rightarrow> length rest)
     in index_range rest 0 e)"

text \<open>
  UTF-8 validation as the standard library does it: \<open>utf8_char_len\<close> is the length of the
  well-formed sequence at the front, if there is one, and \<open>utf8_bad_len\<close> the number of bytes
  that one replacement character stands for otherwise.
\<close>

definition is_cont :: "u8 \<Rightarrow> bool" where
  "is_cont b \<longleftrightarrow> 0x80 \<le> b \<and> b \<le> 0xBF"

definition second_ok :: "u8 \<Rightarrow> u8 \<Rightarrow> bool" where
  "second_ok b c \<longleftrightarrow>
     (if b = 0xE0 then 0xA0 \<le> c \<and> c \<le> 0xBF
      else if b = 0xED then 0x80 \<le> c \<and> c \<le> 0x9F
      else if b = 0xF0 then 0x90 \<le> c \<and> c \<le> 0xBF
      else if b = 0xF4 then 0x80 \<le> c \<and> c \<le> 0x8F
      else is_cont c)"

definition utf8_width :: "u8 \<Rightarrow> nat" where
  "utf8_width b =
     (if b < 0x80 then 1
      else if b < 0xC2 then 0
      else if b < 0xE0 then 2
      else if b < 0xF0 then 3
      else if b < 0xF5 then 4
      else 0)"

definition utf8_char_len :: "bytes \<Rightarrow> nat option" where
  "utf8_char_len bs =
     (case bs of [] \<Rightarrow> None
      | b # cs \<Rightarrow>
        let w = utf8_width b in
        if w = 0 then None
        else if w = 1 then Some 1
        else case cs of [] \<Rightarrow> None
             | c # ds \<Rightarrow>
               if second_ok b c \<and> w - 2 \<le> length ds \<and> list_all is_cont (take (w - 2) ds)
               then Some w else None)"

definition utf8_bad_len :: "bytes \<Rightarrow> nat" where
  "utf8_bad_len bs =
     (case bs of
        b # c # ds \<Rightarrow>
          if utf8_width b < 2 \<or> \<not> second_ok b c then 1
          else if utf8_width b = 4 \<and> ds \<noteq> [] \<and> is_cont (hd ds) then 3
          else 2
      | _ \<Rightarrow> 1)"

lemma utf8_char_len_bounds:
  assumes "utf8_char_len bs = Some n"
  shows "0 < n" "n \<le> length bs" "n \<le> 4"
  using assms
  by (auto simp: utf8_char_len_def utf8_width_def Let_def split: list.splits if_splits)

lemma utf8_char_len_shrinks: "utf8_char_len bs = Some n \<Longrightarrow> length bs - n < length bs"
  using utf8_char_len_bounds [of bs n] by simp

lemma utf8_bad_len_pos: "0 < utf8_bad_len bs"
  by (auto simp: utf8_bad_len_def split: list.splits)

function utf8_valid_up_to :: "bytes \<Rightarrow> nat" where
  "utf8_valid_up_to bs =
     (case utf8_char_len bs of None \<Rightarrow> 0 | Some n \<Rightarrow> n + utf8_valid_up_to (drop n bs))"
  by pat_completeness auto
termination
  by (relation "measure length") (auto simp: utf8_char_len_shrinks)

function from_utf8_lossy :: "bytes \<Rightarrow> bytes" where
  "from_utf8_lossy bs =
     (if bs = [] then []
      else case utf8_char_len bs of
             Some n \<Rightarrow> take n bs @ from_utf8_lossy (drop n bs)
           | None \<Rightarrow> [0xEF, 0xBF, 0xBD] @ from_utf8_lossy (drop (utf8_bad_len bs) bs))"
  by pat_completeness auto
termination
  by (relation "measure length") (auto simp: utf8_char_len_shrinks utf8_bad_len_pos)

declare utf8_valid_up_to.simps [simp del] from_utf8_lossy.simps [simp del]

definition strings_str :: "span \<Rightarrow> nat \<Rightarrow> bytes result" where
  "strings_str h index =
     res_bind (strings_bytes h index) (\<lambda>bs.
     if utf8_valid_up_to bs = length bs then Ok bs
     else Err (error_new InvalidUtf8
            (saturating_add (saturating_add (span_base h) index) (utf8_valid_up_to bs)) ''#Strings''))"

definition strings_str_opt :: "span \<Rightarrow> nat \<Rightarrow> bytes option" where
  "strings_str_opt h index = res_ok (strings_str h index)"

definition strings_lossy :: "span \<Rightarrow> nat \<Rightarrow> bytes result" where
  "strings_lossy h index = res_bind (strings_bytes h index) (\<lambda>bs. Ok (from_utf8_lossy bs))"

text \<open>The iterator's state is its position; \<open>start as u32\<close> truncates.\<close>

definition strings_iter_next :: "span \<Rightarrow> (nat, nat \<times> bytes) stepper" where
  "strings_iter_next h pos =
     (if length (span_data h) \<le> pos then Ok None
      else res_bind (index_from (span_data h) pos) (\<lambda>rest.
           let len = (case position (\<lambda>b. b = 0) rest of Some n \<Rightarrow> n | None \<Rightarrow> length rest) in
           res_bind (usize_add pos len) (\<lambda>e.
           res_bind (usize_add e 1) (\<lambda>pos'.
           res_bind (index_range rest 0 len) (\<lambda>bs.
           Ok (Some ((pos mod 2 ^ 32, bs), pos')))))))"

definition strings_iter :: "span \<Rightarrow> (nat \<times> bytes) list option result" where
  "strings_iter h = drain (length (span_data h) + 1) (strings_iter_next h) 0"

section \<open>The blob heap\<close>

definition blob_get :: "span \<Rightarrow> nat \<Rightarrow> bytes result" where
  "blob_get h index =
     res_bind (span_at h index ''#Blob'') (\<lambda>rest.
     let base = saturating_add (span_base h) index in
     res_bind (map_err (\<lambda>e. error_rebase e base) (read_compressed_u32 rest)) (\<lambda>(len, used).
     res_bind (ok_or (checked_add used (unat len)) (error_new OutOfRange base ''#Blob'')) (\<lambda>e.
     ok_or (get_range rest used e) (error_new OutOfRange base ''#Blob''))))"

definition blob_get_with_size :: "span \<Rightarrow> nat \<Rightarrow> (bytes \<times> nat) result" where
  "blob_get_with_size h index =
     res_bind (span_at h index ''#Blob'') (\<lambda>rest.
     let base = saturating_add (span_base h) index in
     res_bind (map_err (\<lambda>e. error_rebase e base) (read_compressed_u32 rest)) (\<lambda>(len, used).
     res_bind (ok_or (checked_add used (unat len)) (error_new OutOfRange base ''#Blob'')) (\<lambda>e.
     res_bind (ok_or (get_range rest used e) (error_new OutOfRange base ''#Blob'')) (\<lambda>bs.
     Ok (bs, e)))))"

definition blob_body_offset :: "span \<Rightarrow> nat \<Rightarrow> nat result" where
  "blob_body_offset h index =
     res_bind (span_at h index ''#Blob'') (\<lambda>rest.
     let base = saturating_add (span_base h) index in
     res_bind (map_err (\<lambda>e. error_rebase e base) (read_compressed_u32 rest)) (\<lambda>(len, used).
     Ok (saturating_add base used)))"

text \<open>\<open>u32::try_from\<close> and \<open>u32::checked_add\<close>.\<close>

definition try_u32 :: "nat \<Rightarrow> nat option" where
  "try_u32 n = (if n \<le> u32_max then Some n else None)"

definition u32_checked_add :: "nat \<Rightarrow> nat \<Rightarrow> nat option" where
  "u32_checked_add a b = (if a + b \<le> u32_max then Some (a + b) else None)"

text \<open>A decoding error, or a position that leaves \<open>u32\<close>, ends the iteration.\<close>

definition blob_iter_next :: "span \<Rightarrow> (nat, nat \<times> bytes) stepper" where
  "blob_iter_next h pos =
     (if heap_len h \<le> pos then Ok None
      else case blob_get_with_size h pos of
             Panic \<Rightarrow> Panic
           | Err _ \<Rightarrow> Ok None
           | Ok (bs, nbytes) \<Rightarrow>
               (case Option.bind (try_u32 nbytes) (u32_checked_add pos) of
                  None \<Rightarrow> Ok None
                | Some pos' \<Rightarrow> Ok (Some ((pos, bs), pos'))))"

definition blob_iter :: "span \<Rightarrow> (nat \<times> bytes) list option result" where
  "blob_iter h = drain (heap_len h) (blob_iter_next h) 0"

section \<open>The GUID heap\<close>

definition guid_count :: "span \<Rightarrow> nat" where
  "guid_count h = length (span_data h) div 16"

definition guid_get :: "span \<Rightarrow> nat \<Rightarrow> bytes result" where
  "guid_get h index =
     (if index = 0 then Err (error_new OutOfRange (span_base h) ''#GUID'')
      else res_bind (usize_sub index 1) (\<lambda>i.
           res_bind (ok_or (checked_mul i 16) (error_new OutOfRange (span_base h) ''#GUID'')) (\<lambda>start.
           res_bind (usize_add start 16) (\<lambda>e.
           ok_or (get_range (span_data h) start e)
             (error_new OutOfRange (saturating_add (span_base h) start) ''#GUID'')))))"

definition guid_get_opt :: "span \<Rightarrow> nat \<Rightarrow> bytes option" where
  "guid_get_opt h index = res_ok (guid_get h index)"

text \<open>The range \<open>1..=count as u32\<close>, filtered by \<open>get\<close>.\<close>

definition guid_iter :: "span \<Rightarrow> (nat \<times> bytes) list" where
  "guid_iter h =
     List.map_filter (\<lambda>i. map_option (\<lambda>g. (i, g)) (res_ok (guid_get h i)))
       [1..<guid_count h mod 2 ^ 32 + 1]"

section \<open>The user-string heap\<close>

record user_string =
  us_bytes :: bytes
  us_flag :: "u8 option"
  us_odd_length :: bool

definition us_len_utf16 :: "user_string \<Rightarrow> nat" where
  "us_len_utf16 s = length (us_bytes s) div 2"

definition us_is_empty :: "user_string \<Rightarrow> bool" where
  "us_is_empty s \<longleftrightarrow> length (us_bytes s) < 2"

definition us_has_special_chars :: "user_string \<Rightarrow> bool" where
  "us_has_special_chars s \<longleftrightarrow> (case us_flag s of Some f \<Rightarrow> f \<noteq> 0 | None \<Rightarrow> False)"

definition us_code_units :: "user_string \<Rightarrow> u16 list" where
  "us_code_units s =
     map (\<lambda>i. from_le_bytes [us_bytes s ! (i * 2), us_bytes s ! (i * 2 + 1)])
       [0..<length (us_bytes s) div 2]"

text \<open>
  \<open>char::decode_utf16\<close> of the standard library with every unpaired surrogate replaced by
  \<open>U+FFFD\<close>; a character is its code point.
\<close>

fun decode_utf16_lossy :: "u16 list \<Rightarrow> nat list" where
  "decode_utf16_lossy [] = []"
| "decode_utf16_lossy (u # us) =
     (if u < 0xD800 \<or> 0xDFFF < u then unat u # decode_utf16_lossy us
      else if 0xDC00 \<le> u then 0xFFFD # decode_utf16_lossy us
      else case us of
             v # vs \<Rightarrow>
               if 0xDC00 \<le> v \<and> v \<le> 0xDFFF
               then (0x10000 + (unat u - 0xD800) * 0x400 + (unat v - 0xDC00)) # decode_utf16_lossy vs
               else 0xFFFD # decode_utf16_lossy us
           | [] \<Rightarrow> [0xFFFD])"

definition us_to_string_lossy :: "user_string \<Rightarrow> nat list" where
  "us_to_string_lossy s = decode_utf16_lossy (us_code_units s)"

definition split_user_string :: "bytes \<Rightarrow> user_string" where
  "split_user_string body =
     (if body = [] then \<lparr>us_bytes = [], us_flag = None, us_odd_length = False\<rparr>
      else let flag = last body;
               rest = butlast body;
               odd_length = (length rest mod 2 \<noteq> 0);
               units = (if odd_length then take (length rest - 1) rest else rest)
           in \<lparr>us_bytes = units, us_flag = Some flag, us_odd_length = odd_length\<rparr>)"

definition us_get_at :: "span \<Rightarrow> nat \<Rightarrow> user_string result" where
  "us_get_at h offset =
     res_bind (span_at h offset ''#US'') (\<lambda>rest.
     let base = saturating_add (span_base h) offset in
     res_bind (map_err (\<lambda>e. error_rebase e base) (read_compressed_u32 rest)) (\<lambda>(len, used).
     res_bind (ok_or (checked_add used (unat len)) (error_new OutOfRange base ''#US'')) (\<lambda>e.
     res_bind (ok_or (get_range rest used e) (error_new OutOfRange base ''#US'')) (\<lambda>body.
     Ok (split_user_string body)))))"

definition us_get :: "span \<Rightarrow> u32 \<Rightarrow> user_string result" where
  "us_get h token = us_get_at h (unat (us_token_offset token))"

definition us_get_with_size :: "span \<Rightarrow> nat \<Rightarrow> (user_string \<times> nat) result" where
  "us_get_with_size h offset =
     res_bind (span_at h offset ''#US'') (\<lambda>rest.
     let base = saturating_add (span_base h) offset in
     res_bind (map_err (\<lambda>e. error_rebase e base) (read_compressed_u32 rest)) (\<lambda>(len, used).
     res_bind (ok_or (checked_add used (unat len)) (error_new OutOfRange base ''#US'')) (\<lambda>e.
     res_bind (ok_or (get_range rest used e) (error_new OutOfRange base ''#US'')) (\<lambda>body.
     Ok (split_user_string body, e)))))"

definition us_iter_next :: "span \<Rightarrow> (nat, u32 \<times> user_string) stepper" where
  "us_iter_next h pos =
     (if heap_len h \<le> pos then Ok None
      else case us_get_with_size h pos of
             Panic \<Rightarrow> Panic
           | Err _ \<Rightarrow> Ok None
           | Ok (v, nbytes) \<Rightarrow>
               (case Option.bind (try_u32 nbytes) (u32_checked_add pos) of
                  None \<Rightarrow> Ok None
                | Some pos' \<Rightarrow> Ok (Some ((0x70000000 OR of_nat pos, v), pos'))))"

definition us_iter :: "span \<Rightarrow> (u32 \<times> user_string) list option result" where
  "us_iter h = drain (heap_len h) (us_iter_next h) 0"

section \<open>Accessors\<close>

lemma heap_simps [simp]:
  "span_data (span_new d b) = d" "span_base (span_new d b) = b"
  "heap_len h = length (span_data h)"
  by (simp_all add: span_new_def heap_len_def)

lemma position_takeWhile:
  "(case position p xs of Some n \<Rightarrow> n | None \<Rightarrow> length xs) = length (takeWhile (\<lambda>x. \<not> p x) xs)"
  by (induction xs) (auto split: option.splits)

lemma strings_bytes_eq:
  "strings_bytes h i =
     (if i \<le> length (span_data h) then Ok (takeWhile (\<lambda>b. b \<noteq> 0) (drop i (span_data h)))
      else Err (error_new OutOfRange (saturating_add (span_base h) i) ''#Strings''))"
  by (auto simp: strings_bytes_def position_takeWhile span_at_def get_from_def index_range_def
      get_range_def length_takeWhile_le takeWhile_eq_take [symmetric])

lemma no_panic_strings_bytes [no_panic_intro]: "no_panic (strings_bytes h i)"
  by (simp add: strings_bytes_eq)

text \<open>The entry at an offset of a length-prefixed heap: its prefix width and its body.\<close>

definition entry_at :: "bytes \<Rightarrow> nat \<Rightarrow> (nat \<times> bytes) option" where
  "entry_at d i =
     (case read_compressed_u32 (drop i d) of
        Ok (len, used) \<Rightarrow>
          if i + used + unat len \<le> length d then Some (used, take (unat len) (drop (i + used) d)) else None
      | _ \<Rightarrow> None)"

lemma prefix_sum_fits:
  "read_compressed_u32 bs = Ok (len, used) \<Longrightarrow> checked_add used (unat len) = Some (used + unat len)"
  using read_compressed_width [of bs len used] by (simp add: checked_add_def usize_max_def)

lemma entry_at_Some:
  "entry_at d i = Some (used, b) \<longleftrightarrow>
     read_compressed_u32 (drop i d) = Ok (of_nat (length b), used) \<and> length b < 2 ^ 32
     \<and> i + used + length b \<le> length d \<and> b = take (length b) (drop (i + used) d)"
  (is "?l \<longleftrightarrow> ?r")
proof
  assume ?l
  then obtain len where r: "read_compressed_u32 (drop i d) = Ok (len, used)"
    "i + used + unat len \<le> length d" "b = take (unat len) (drop (i + used) d)"
    by (auto simp: entry_at_def split: res.splits if_splits)
  then have "length b = unat len" by simp
  with r unsigned_less [of len] show ?r by simp
next
  assume ?r
  then show ?l by (simp add: entry_at_def unat_of_nat take_bit_nat_eq_self)
qed

text \<open>The three entry points of a length-prefixed heap share one lookup, with its errors.\<close>

definition fetch :: "string \<Rightarrow> span \<Rightarrow> nat \<Rightarrow> (bytes \<times> nat) result" where
  "fetch ctx h i =
     (if length (span_data h) < i then Err (error_new OutOfRange (saturating_add (span_base h) i) ctx)
      else case read_compressed_u32 (drop i (span_data h)) of
             Err e \<Rightarrow> Err (error_rebase e (saturating_add (span_base h) i))
           | Panic \<Rightarrow> Panic
           | Ok _ \<Rightarrow>
               (case entry_at (span_data h) i of
                  Some (used, b) \<Rightarrow> Ok (b, used + length b)
                | None \<Rightarrow> Err (error_new OutOfRange (saturating_add (span_base h) i) ctx)))"

lemma fetch_fuse:
  "res_bind (span_at h i ctx) (\<lambda>rest.
     let base = saturating_add (span_base h) i in
     res_bind (map_err (\<lambda>e. error_rebase e base) (read_compressed_u32 rest)) (\<lambda>(len, used).
     res_bind (ok_or (checked_add used (unat len)) (error_new OutOfRange base ctx)) (\<lambda>e.
     res_bind (ok_or (get_range rest used e) (error_new OutOfRange base ctx)) (\<lambda>body. k body e))))
   = res_bind (fetch ctx h i) (\<lambda>(b, n). k b n)"
proof (cases "read_compressed_u32 (drop i (span_data h))")
  case (Ok p)
  obtain len used where p: "p = (len, used)" by (cases p)
  note w = read_compressed_width [OF Ok [unfolded p]]
  show ?thesis using w
    by (auto simp: fetch_def span_at_def get_from_def Ok p prefix_sum_fits [OF Ok [unfolded p]]
        entry_at_def get_range_def ac_simps)
qed (simp_all add: fetch_def span_at_def get_from_def)

lemma heap_get_fetch:
  "blob_get h i = res_bind (fetch ''#Blob'' h i) (\<lambda>(b, n). Ok b)"
  "blob_get_with_size h i = fetch ''#Blob'' h i"
  "us_get_at h i = res_bind (fetch ''#US'' h i) (\<lambda>(b, n). Ok (split_user_string b))"
  "us_get_with_size h i = res_bind (fetch ''#US'' h i) (\<lambda>(b, n). Ok (split_user_string b, n))"
proof -
  have id: "res_bind m Ok = m" for m :: "'x result" by (cases m) auto
  show "blob_get h i = res_bind (fetch ''#Blob'' h i) (\<lambda>(b, n). Ok b)"
    using fetch_fuse [of h i "''#Blob''" "\<lambda>b n. Ok b"] by (simp add: blob_get_def id)
  show "blob_get_with_size h i = fetch ''#Blob'' h i"
    using fetch_fuse [of h i "''#Blob''" "\<lambda>b n. Ok (b, n)"] by (simp add: blob_get_with_size_def id)
  show "us_get_at h i = res_bind (fetch ''#US'' h i) (\<lambda>(b, n). Ok (split_user_string b))"
    using fetch_fuse [of h i "''#US''"] by (simp add: us_get_at_def)
  show "us_get_with_size h i = res_bind (fetch ''#US'' h i) (\<lambda>(b, n). Ok (split_user_string b, n))"
    using fetch_fuse [of h i "''#US''"] by (simp add: us_get_with_size_def)
qed

lemma fetch_iff [res_iff]:
  "fetch ctx h i = Ok (b, n) \<longleftrightarrow>
     i \<le> length (span_data h) \<and> (\<exists>used. entry_at (span_data h) i = Some (used, b) \<and> n = used + length b)"
  "fetch ctx h i = Panic \<longleftrightarrow> False"
  using no_panic_read_compressed(1) [of "drop i (span_data h)"]
  by (auto simp: fetch_def entry_at_def split: res.splits option.splits if_splits)

lemma blob_get_iff [res_iff]:
  "blob_get h i = Ok b \<longleftrightarrow>
     i \<le> length (span_data h) \<and> (\<exists>used. entry_at (span_data h) i = Some (used, b))"
  "blob_get h i = Panic \<longleftrightarrow> False"
  by (auto simp: heap_get_fetch res_iff)

lemma us_get_at_iff [res_iff]:
  "us_get_at h i = Ok u \<longleftrightarrow> i \<le> length (span_data h)
     \<and> (\<exists>used b. entry_at (span_data h) i = Some (used, b) \<and> u = split_user_string b)"
  "us_get_at h i = Panic \<longleftrightarrow> False"
  by (auto simp: heap_get_fetch res_iff)

lemma blob_body_offset_total [no_panic_intro]: "no_panic (blob_body_offset h i)"
  by (auto simp: blob_body_offset_def res_iff Let_def no_panic_read_compressed)

text \<open>An entry, laid out: prefix, then body.\<close>

lemma entry_at_layout:
  "entry_at d i = Some (used, b) \<and> i \<le> length d \<longleftrightarrow>
     width_ok used \<and> length b < 2 ^ width_bits used
     \<and> (\<exists>pre post. d = pre @ compress_at used (of_nat (length b)) @ b @ post \<and> length pre = i)"
  (is "?l \<longleftrightarrow> ?r")
proof
  assume l: ?l
  then have r: "read_compressed_u32 (drop i d) = Ok (of_nat (length b), used)" "length b < 2 ^ 32"
    "i + used + length b \<le> length d" "b = take (length b) (drop (i + used) d)"
    by (auto simp: entry_at_Some)
  from read_compressed_Ok [OF r(1)]
  have w: "width_ok used" "(of_nat (length b) :: u32) < 2 ^ width_bits used"
    "take used (drop i d) = compress_at used (of_nat (length b))" by auto
  from w(1) have "unat ((2 :: u32) ^ width_bits used) = 2 ^ width_bits used"
    by (auto simp: width_ok_def width_bits_def)
  with w(2) r(2) have "length b < 2 ^ width_bits used"
    by (simp add: word_less_nat_alt unat_of_nat take_bit_nat_eq_self)
  moreover have "d = take i d @ compress_at used (of_nat (length b)) @ b @ drop (i + used + length b) d"
  proof -
    have "d = take i d @ take used (drop i d) @ take (length b) (drop used (drop i d))
        @ drop (length b) (drop used (drop i d))"
      by (simp only: append_take_drop_id)
    then show ?thesis using w(3) r(4) by (simp add: ac_simps)
  qed
  ultimately show ?r using w(1) r(3) by (metis length_take min.absorb2 l)
next
  assume ?r
  then obtain pre post where w: "width_ok used" "length b < 2 ^ width_bits used"
    and d: "d = pre @ compress_at used (of_nat (length b)) @ b @ post" "length pre = i" by blast
  have "(2::nat) ^ width_bits used \<le> 2 ^ 29"
    by (rule power_increasing) (auto simp: width_bits_def)
  with w(2) have l: "length b < 2 ^ 29" by linarith
  have "unat ((2 :: u32) ^ width_bits used) = 2 ^ width_bits used"
    using w(1) by (auto simp: width_ok_def width_bits_def)
  with w(2) l have "(of_nat (length b) :: u32) < 2 ^ width_bits used"
    by (simp add: word_less_nat_alt unat_of_nat take_bit_nat_eq_self)
  from read_compress_at [OF w(1) this] l show ?l
    by (simp add: entry_at_Some d length_compress_at [OF w(1)])
qed

section \<open>Iteration\<close>

text \<open>The number of bytes the entry at an offset occupies, prefix included.\<close>

definition entry_size :: "bytes \<Rightarrow> nat \<Rightarrow> nat" where
  "entry_size d i = (case entry_at d i of Some (used, b) \<Rightarrow> used + length b | None \<Rightarrow> 0)"

lemma entry_at_bounds:
  "entry_at d i = Some (used, b) \<Longrightarrow> 0 < used \<and> used \<le> 4 \<and> length b < 2 ^ 29 \<and> i + used + length b \<le> length d"
  using read_compressed_width [of "drop i d"]
  by (auto simp: entry_at_def split: res.splits if_splits)

lemma fetch_entry [simp]:
  "entry_at (span_data h) i = Some (used, b) \<Longrightarrow> i \<le> length (span_data h) \<Longrightarrow>
     fetch ctx h i = Ok (b, used + length b)"
  by (auto simp: fetch_iff)

lemma blob_iter_next_iff:
  "blob_iter_next h pos = Ok (Some ((i, b), pos')) \<longleftrightarrow>
     i = pos \<and> pos < length (span_data h) \<and> pos' \<le> u32_max
     \<and> (\<exists>used. entry_at (span_data h) pos = Some (used, b) \<and> pos' = pos + used + length b)"
  by (auto simp: blob_iter_next_def res_iff try_u32_def u32_checked_add_def heap_get_fetch
      Option.bind_eq_Some_conv split: res.splits option.splits if_splits)

lemma us_iter_next_iff:
  "us_iter_next h pos = Ok (Some ((t, u), pos')) \<longleftrightarrow>
     t = 0x70000000 OR of_nat pos \<and> pos < length (span_data h) \<and> pos' \<le> u32_max
     \<and> (\<exists>used b. entry_at (span_data h) pos = Some (used, b) \<and> pos' = pos + used + length b
          \<and> u = split_user_string b)"
  by (auto simp: us_iter_next_def res_iff try_u32_def u32_checked_add_def heap_get_fetch
      Option.bind_eq_Some_conv split: res.splits option.splits if_splits)

lemma entry_iter_total:
  "\<exists>r. blob_iter_next h pos = Ok r" "\<exists>r. us_iter_next h pos = Ok r"
  by (auto simp: blob_iter_next_def us_iter_next_def heap_get_fetch res_iff
      split: res.splits option.splits)

interpretation blob: tiling_iter "blob_iter_next h" "\<lambda>p. p \<le> length (span_data h)" "\<lambda>p. p"
    "length (span_data h)" fst "\<lambda>x. entry_size (span_data h) (fst x)" for h
proof unfold_locales
  fix s x s' assume "blob_iter_next h s = Ok (Some (x, s'))"
  then show "s' \<le> length (span_data h)"
    and "fst x = s \<and> 0 < entry_size (span_data h) (fst x) \<and> s' = s + entry_size (span_data h) (fst x)"
    by (cases x; auto simp: blob_iter_next_iff entry_size_def dest: entry_at_bounds)+
qed (simp_all add: entry_iter_total)

text \<open>A user-string token carries its offset in 24 bits.\<close>

definition us_item_start :: "u32 \<times> user_string \<Rightarrow> nat" where
  "us_item_start x = unat (us_token_offset (fst x))"

lemma us_item_start:
  assumes "pos < 2 ^ 24"
  shows "us_item_start (0x70000000 OR of_nat pos, u) = pos"
    and "us_token_has_table_byte (0x70000000 OR of_nat pos)"
proof -
  have u: "unat (of_nat pos :: u32) = pos"
    using assms by (simp add: unat_of_nat take_bit_nat_eq_self)
  then have lt: "(of_nat pos :: u32) < 2 ^ 24" using assms by (simp add: word_less_nat_alt)
  have c: "bit (0x70000000 :: u32) n \<longleftrightarrow> n = 28 \<or> n = 29 \<or> n = 30" for n
  proof -
    have "(0x70000000 :: u32) = push_bit 28 7" by simp
    then have "bit (0x70000000 :: u32) n \<longleftrightarrow> n < 32 \<and> 28 \<le> n \<and> bit (7 :: u32) (n - 28)"
      by (simp only: bit_push_bit_iff) auto
    also have "bit (7 :: u32) k \<longleftrightarrow> k < 3" for k
    proof -
      have "(7 :: u32) = mask 3" by (simp add: mask_eq_exp_minus_1)
      then show ?thesis by (simp only: bit_mask_iff) auto
    qed
    finally show ?thesis by auto
  qed
  have nb: "bit (of_nat pos :: u32) n \<Longrightarrow> n < 24" for n
    using bit_less_pow [OF lt, of n] by (meson not_less)
  have "take_bit 24 (0x70000000 OR of_nat pos :: u32) = of_nat pos"
    by (rule bit_word_eqI) (auto simp: bit_take_bit_iff bit_or_iff c simp del: bit_numeral_word_iff dest: nb)
  with u show "us_item_start (0x70000000 OR of_nat pos, u) = pos"
    by (simp add: us_item_start_def us_token_offset_def and_RID_MASK)
  have "drop_bit 24 (0x70000000 OR of_nat pos :: u32) = 0x70"
  proof (rule bit_word_eqI)
    fix n assume "n < LENGTH(32)"
    have "(0x70 :: u32) = drop_bit 24 0x70000000" by simp
    then have k: "bit (0x70 :: u32) n \<longleftrightarrow> bit (0x70000000 :: u32) (24 + n)"
      by (simp only: bit_drop_bit_eq o_def)
    show "bit (drop_bit 24 (0x70000000 OR of_nat pos :: u32)) n = bit (0x70 :: u32) n"
      using k bit_less_pow [OF lt, of "24 + n"]
      by (auto simp: bit_drop_bit_eq bit_or_iff simp del: bit_numeral_word_iff)
  qed
  then show "us_token_has_table_byte (0x70000000 OR of_nat pos)"
    by (simp add: us_token_has_table_byte_def)
qed

interpretation us: tiling_iter "us_iter_next h"
    "\<lambda>p. p \<le> length (span_data h) \<and> length (span_data h) \<le> 2 ^ 24" "\<lambda>p. p"
    "length (span_data h)" us_item_start "\<lambda>x. entry_size (span_data h) (us_item_start x)" for h
proof unfold_locales
  fix s x s'
  assume "s \<le> length (span_data h) \<and> length (span_data h) \<le> 2 ^ 24"
    and "us_iter_next h s = Ok (Some (x, s'))"
  then show "s' \<le> length (span_data h) \<and> length (span_data h) \<le> 2 ^ 24"
    and "us_item_start x = s \<and> 0 < entry_size (span_data h) (us_item_start x)
       \<and> s' = s + entry_size (span_data h) (us_item_start x)"
    by (cases x; auto simp: us_iter_next_iff entry_size_def us_item_start(1) dest: entry_at_bounds)+
qed (simp_all add: entry_iter_total)

lemma strings_iter_next_eq:
  assumes "slice_ok (span_data h)"
  shows "strings_iter_next h pos =
    (if length (span_data h) \<le> pos then Ok None
     else let b = takeWhile (\<lambda>b. b \<noteq> 0) (drop pos (span_data h))
          in Ok (Some ((pos mod 2 ^ 32, b), pos + length b + 1)))"
proof (cases "length (span_data h) \<le> pos")
  case False
  have le: "length (takeWhile (\<lambda>b. b \<noteq> 0) (drop pos (span_data h))) \<le> length (drop pos (span_data h))"
    by (rule length_takeWhile_le)
  show ?thesis using False le slice_ok_length [OF assms]
    by (auto simp: strings_iter_next_def position_takeWhile index_from_def get_from_def
        index_range_def get_range_def usize_add_def usize_max_def takeWhile_eq_take [symmetric] Let_def)
qed (simp add: strings_iter_next_def)

interpretation strs: tiling_iter "strings_iter_next h"
    "\<lambda>p. p \<le> length (span_data h) + 1 \<and> length (span_data h) \<le> u32_max" "\<lambda>p. p"
    "length (span_data h) + 1" fst "\<lambda>x. length (snd x) + 1" for h
proof -
  have sl: "slice_ok (span_data h)" if "length (span_data h) \<le> u32_max"
    using that by (simp add: slice_ok_def isize_max_def u32_max_def)
  show "tiling_iter (strings_iter_next h)
    (\<lambda>p. p \<le> length (span_data h) + 1 \<and> length (span_data h) \<le> u32_max) (\<lambda>p. p)
    (length (span_data h) + 1) fst (\<lambda>x. length (snd x) + 1)"
  proof unfold_locales
    fix s x s'
    assume a: "s \<le> length (span_data h) + 1 \<and> length (span_data h) \<le> u32_max"
      and n: "strings_iter_next h s = Ok (Some (x, s'))"
    have "length (takeWhile (\<lambda>b. b \<noteq> 0) (drop s (span_data h))) \<le> length (drop s (span_data h))"
      by (rule length_takeWhile_le)
    then show "s' \<le> length (span_data h) + 1 \<and> length (span_data h) \<le> u32_max"
      and "fst x = s \<and> 0 < length (snd x) + 1 \<and> s' = s + (length (snd x) + 1)"
      using a n strings_iter_next_eq [OF sl, of s] by (auto simp: u32_max_def Let_def split: if_splits)
  qed (auto simp: strings_iter_next_eq [OF sl] Let_def)
qed

section \<open>GUIDs and user strings\<close>

lemma guid_get_eq:
  assumes "i \<le> u32_max"
  shows "guid_get h i =
    (if 0 < i \<and> i \<le> guid_count h then Ok (take 16 (drop ((i - 1) * 16) (span_data h)))
     else Err (error_new OutOfRange
            (if i = 0 then span_base h else saturating_add (span_base h) ((i - 1) * 16)) ''#GUID''))"
proof (cases "i = 0")
  case False
  then obtain k where i: "i = Suc k" by (cases i) auto
  have "Suc k \<le> length (span_data h) div 16 \<longleftrightarrow> k * 16 + 16 \<le> length (span_data h)"
    by (simp add: less_eq_div_iff_mult_less_eq add.commute)
  with assms show ?thesis
    by (auto simp: guid_get_def guid_count_def usize_sub_def checked_mul_def usize_add_def
        get_range_def usize_max_def u32_max_def i)
qed (simp add: guid_get_def)

lemma guid_iter_all:
  assumes "guid_count h \<le> u32_max"
  shows "guid_iter h = map (\<lambda>i. (i, take 16 (drop ((i - 1) * 16) (span_data h)))) [1..<guid_count h + 1]"
proof -
  have m: "guid_count h mod 2 ^ 32 = guid_count h" using assms by (simp add: u32_max_def)
  have f: "List.map_filter (\<lambda>i. map_option (\<lambda>g. (i, g)) (res_ok (guid_get h i))) is
      = map (\<lambda>i. (i, take 16 (drop ((i - 1) * 16) (span_data h)))) is"
    if "\<forall>i \<in> set is. 0 < i \<and> i \<le> guid_count h" for "is"
    using that
  proof (induction "is")
    case (Cons i rest)
    then have "guid_get h i = Ok (take 16 (drop ((i - 1) * 16) (span_data h)))"
      using guid_get_eq [of i h] assms by auto
    with Cons show ?case by (simp add: map_filter_simps)
  qed (simp add: map_filter_simps)
  show ?thesis unfolding guid_iter_def m by (rule f) auto
qed

text \<open>UTF-16 code units as the bytes of an entry.\<close>

definition utf16_bytes :: "u16 list \<Rightarrow> bytes" where
  "utf16_bytes us = concat (map (to_le_bytes 2) us)"

lemma utf16_bytes_simps [simp]:
  "utf16_bytes [] = []" "utf16_bytes (u # us) = to_le_bytes 2 u @ utf16_bytes us"
  by (simp_all add: utf16_bytes_def)

lemma length_utf16_bytes [simp]: "length (utf16_bytes us) = 2 * length us"
  by (induction us) auto

lemma utf16_bytes_nth:
  assumes "i < length us"
  shows "[utf16_bytes us ! (i * 2), utf16_bytes us ! (i * 2 + 1)] = to_le_bytes 2 (us ! i)"
  using assms
proof (induction us arbitrary: i)
  case (Cons u us)
  obtain a b where ab: "to_le_bytes 2 u = [a, b]" by (simp add: to_le_bytes_def numeral_2_eq_2)
  with Cons show ?case by (cases i) auto
qed simp

lemma code_units_of_utf16:
  "us_bytes s = utf16_bytes us \<Longrightarrow> us_code_units s = us"
  by (rule nth_equalityI)
    (auto simp: us_code_units_def utf16_bytes_nth from_to_le_bytes simp del: One_nat_def from_le_bytes.simps)

lemma split_even_entry:
  "split_user_string (utf16_bytes us @ [flag]) = \<lparr>us_bytes = utf16_bytes us, us_flag = Some flag, us_odd_length = False\<rparr>"
  by (simp add: split_user_string_def)

section \<open>UTF-8\<close>

lemma valid_prefix:
  assumes "utf8_valid_up_to bs = length bs" and "bs \<noteq> []"
  shows "\<exists>n. utf8_char_len bs = Some n \<and> utf8_valid_up_to (drop n bs) = length (drop n bs)"
proof -
  from assms obtain n where n: "utf8_char_len bs = Some n"
    using utf8_valid_up_to.simps [of bs] by (cases "utf8_char_len bs") auto
  then have "n + utf8_valid_up_to (drop n bs) = length bs"
    using assms(1) utf8_valid_up_to.simps [of bs] by simp
  with n show ?thesis by simp
qed

lemma lossy_of_valid: "utf8_valid_up_to bs = length bs \<Longrightarrow> from_utf8_lossy bs = bs"
proof (induction bs rule: measure_induct_rule [of length])
  case (less bs)
  show ?case
  proof (cases "bs = []")
    case True
    then show ?thesis by (simp add: from_utf8_lossy.simps)
  next
    case False
    from valid_prefix [OF less.prems False] obtain n
      where n: "utf8_char_len bs = Some n" "utf8_valid_up_to (drop n bs) = length (drop n bs)" by blast
    then have "from_utf8_lossy (drop n bs) = drop n bs"
      using utf8_char_len_bounds [OF n(1)] by (intro less.IH) auto
    then show ?thesis using False n(1) from_utf8_lossy.simps [of bs] by simp
  qed
qed

section \<open>Properties\<close>

text \<open>A string index resolves exactly when it is within the heap, whatever the heap holds: the
  entry is the bytes up to the next NUL (or the end), and the UTF-8 and lossy readings of an entry
  agree whenever the former succeeds.\<close>

lemma strings_entry:
  "strings_bytes h i =
     (if i \<le> length (span_data h) then Ok (takeWhile (\<lambda>b. b \<noteq> 0) (drop i (span_data h)))
      else Err (error_new OutOfRange (saturating_add (span_base h) i) ''#Strings''))
   \<and> (strings_str h i = Ok s \<longrightarrow> strings_lossy h i = Ok s \<and> strings_bytes h i = Ok s)"
  by (auto simp: strings_bytes_eq strings_str_def strings_lossy_def lossy_of_valid split: if_splits)

text \<open>Iterating the string heap ends and visits adjacent entries that tile it: each item is the
  entry at its index, the first starts at 0, each next one right after the previous NUL, and the
  last reaches the end of the heap.\<close>

lemma strings_iter_tiles:
  assumes "length (span_data h) \<le> u32_max"
  shows "\<exists>xs q. strings_iter h = Ok (Some xs) \<and> tiles fst (\<lambda>x. length (snd x) + 1) 0 xs q
     \<and> list_all (\<lambda>(i, b). strings_bytes h i = Ok b) xs
     \<and> length (span_data h) \<le> q \<and> q \<le> length (span_data h) + 1"
proof -
  have sl: "slice_ok (span_data h)" using assms by (simp add: slice_ok_def isize_max_def u32_max_def)
  obtain xs q where *: "strings_iter h = Ok (Some xs)" "tiles fst (\<lambda>x. length (snd x) + 1) 0 xs q"
    "q \<le> length (span_data h) + 1" "strings_iter_next h q = Ok None"
    "list_all (\<lambda>x. \<exists>t t'. (t \<le> length (span_data h) + 1 \<and> length (span_data h) \<le> u32_max) \<and> t = fst x
        \<and> strings_iter_next h t = Ok (Some (x, t'))) xs"
    using strs.tiled [of 0 h "length (span_data h) + 1"] assms unfolding strings_iter_def by auto
  have "list_all (\<lambda>(i, b). strings_bytes h i = Ok b) xs"
    by (rule list.pred_mono_strong [OF *(5)])
      (auto simp: strings_iter_next_eq [OF sl] strings_bytes_eq Let_def split: if_splits)
  moreover have "length (span_data h) \<le> q"
    using *(4) by (simp add: strings_iter_next_eq [OF sl] Let_def split: if_splits)
  ultimately show ?thesis using * by blast
qed

text \<open>C35: A blob lookup succeeds exactly on a heap that has, at that index, a compressed length of
  any legal width followed by that many bytes, and returns those bytes; on any other heap it is an
  error and never a panic.\<close>

theorem blob_get_exact:
  "(blob_get h i = Ok b \<longleftrightarrow>
     (\<exists>used pre post. width_ok used \<and> length b < 2 ^ width_bits used \<and> length pre = i
        \<and> span_data h = pre @ compress_at used (of_nat (length b)) @ b @ post))
   \<and> blob_get h i \<noteq> Panic"
proof -
  have "blob_get h i = Ok b \<longleftrightarrow>
      (\<exists>used. entry_at (span_data h) i = Some (used, b) \<and> i \<le> length (span_data h))"
    by (auto simp: blob_get_iff)
  then show ?thesis unfolding entry_at_layout by (auto simp: blob_get_iff)
qed

text \<open>Iterating the blob heap always ends, after at most one item per byte: the items tile a
  prefix of the heap without gap or overlap, each is what a lookup of its index gives, and the
  iteration stops only at the end of the heap or at an index whose lookup fails.\<close>

lemma blob_iter_tiles:
  assumes "length (span_data h) \<le> u32_max"
  shows "\<exists>xs q. blob_iter h = Ok (Some xs)
     \<and> tiles fst (\<lambda>x. entry_size (span_data h) (fst x)) 0 xs q \<and> q \<le> length (span_data h)
     \<and> list_all (\<lambda>(i, b). blob_get h i = Ok b) xs
     \<and> (q = length (span_data h) \<or> (\<exists>e. blob_get h q = Err e))"
proof -
  obtain xs q where *: "blob_iter h = Ok (Some xs)"
    "tiles fst (\<lambda>x. entry_size (span_data h) (fst x)) 0 xs q" "q \<le> length (span_data h)"
    "blob_iter_next h q = Ok None"
    "list_all (\<lambda>x. \<exists>t t'. t \<le> length (span_data h) \<and> t = fst x
        \<and> blob_iter_next h t = Ok (Some (x, t'))) xs"
    using blob.tiled [of 0 h "length (span_data h)"] unfolding blob_iter_def by auto
  have "list_all (\<lambda>(i, b). blob_get h i = Ok b) xs"
    by (rule list.pred_mono_strong [OF *(5)]) (auto simp: blob_iter_next_iff blob_get_iff)
  moreover have "q = length (span_data h) \<or> (\<exists>e. blob_get h q = Err e)"
  proof (cases "blob_get h q")
    case (Ok b)
    then obtain used where e: "entry_at (span_data h) q = Some (used, b)" by (auto simp: blob_get_iff)
    with entry_at_bounds [OF e] assms *(3) have "q < length (span_data h) \<Longrightarrow>
        blob_iter_next h q = Ok (Some ((q, b), q + used + length b))"
      by (auto simp: blob_iter_next_iff)
    with *(3,4) show ?thesis by fastforce
  next
    case Panic
    then show ?thesis by (simp add: blob_get_iff)
  qed blast
  ultimately show ?thesis using * by blast
qed

text \<open>C36: A user string written the way the specification lays it out (compressed length, UTF-16LE
  code units, flag byte) is found through its \<open>ldstr\<close> token with the same code units and flag.\<close>

theorem user_string_roundtrip:
  assumes "span_data h = pre @ compress_at w (of_nat (2 * length us + 1)) @ utf16_bytes us @ [flag] @ post"
    and "width_ok w" and "2 * length us + 1 < 2 ^ width_bits w" and "length pre < 2 ^ 24"
  shows "\<exists>s. us_get h (0x70000000 OR of_nat (length pre)) = Ok s
     \<and> us_code_units s = us \<and> us_flag s = Some flag \<and> \<not> us_odd_length s \<and> us_len_utf16 s = length us"
proof -
  let ?b = "utf16_bytes us @ [flag]"
  have off: "unat (us_token_offset (0x70000000 OR of_nat (length pre))) = length pre"
    using us_item_start(1) [OF assms(4)] by (simp add: us_item_start_def)
  have "entry_at (span_data h) (length pre) = Some (w, ?b) \<and> length pre \<le> length (span_data h)"
    unfolding entry_at_layout using assms
    by (intro conjI exI [of _ pre] exI [of _ post]) (simp_all add: ac_simps)
  then have "us_get h (0x70000000 OR of_nat (length pre)) = Ok (split_user_string ?b)"
    by (auto simp: us_get_def off us_get_at_iff)
  then show ?thesis
    by (auto simp: split_even_entry us_len_utf16_def intro: code_units_of_utf16)
qed

theorem user_string_roundtrip_witness:
  "\<exists>s. us_get (span_new ([0] @ compress_at 1 5 @ utf16_bytes [0x48, 0x69] @ [0] @ []) 0)
       (0x70000000 OR of_nat (length [0 :: u8])) = Ok s
     \<and> us_code_units s = [0x48, 0x69] \<and> us_flag s = Some 0 \<and> \<not> us_odd_length s
     \<and> us_len_utf16 s = length [0x48, 0x69 :: u16]"
  by (rule user_string_roundtrip [where w = 1 and post = "[]"]) (simp_all add: width_ok_def width_bits_def)

text \<open>A GUID index resolves exactly for the indices 1 to \<open>count\<close>, to the 16 bytes of that slot,
  and iterating the heap yields exactly those, in order.\<close>

lemma guid_heap_exact:
  assumes "i \<le> u32_max" and "guid_count h \<le> u32_max"
  shows "guid_get_opt h i =
      (if 0 < i \<and> i \<le> guid_count h then Some (take 16 (drop ((i - 1) * 16) (span_data h))) else None)
    \<and> guid_get h i \<noteq> Panic
    \<and> guid_iter h = map (\<lambda>i. (i, take 16 (drop ((i - 1) * 16) (span_data h)))) [1..<guid_count h + 1]"
  using guid_iter_all [OF assms(2)] by (auto simp: guid_get_opt_def guid_get_eq [OF assms(1)])

end
