(* ===== verification/Format.thy ===== *)
theory Format
  imports Heaps
begin

text \<open>
  The text forms of the library's values: numbers as the formatting macros print them, and the
  \<open>Display\<close> and \<open>Debug\<close> forms of tokens, row ids and heap indices (\<open>src/src/token.rs\<close>), GUIDs
  (\<open>src/src/heaps.rs\<close>), errors and diagnostics (\<open>src/src/error.rs\<close>). A Rust \<open>String\<close> is its UTF-8
  \<open>bytes\<close>. The lemmas read the text back.
\<close>

section \<open>Numbers\<close>

definition ascii :: "string \<Rightarrow> bytes" where
  "ascii s = map of_char s"

definition digit_of :: "nat \<Rightarrow> u8" where
  "digit_of d = (if d < 10 then of_nat (48 + d) else of_nat (87 + d))"

text \<open>\<open>{n}\<close> and \<open>{n:x}\<close>: the digits of a number, without leading zeros.\<close>

function digits_in :: "nat \<Rightarrow> nat \<Rightarrow> bytes" where
  "digits_in radix n = (if n < radix \<or> radix < 2 then [digit_of n] else digits_in radix (n div radix) @ [digit_of (n mod radix)])"
  by pat_completeness auto
termination by (relation "measure snd") auto

declare digits_in.simps [simp del]

definition dec :: "nat \<Rightarrow> bytes" where
  "dec n = digits_in 10 n"

definition dec_int :: "int \<Rightarrow> bytes" where
  "dec_int i = (if i < 0 then ascii ''-'' @ dec (nat (- i)) else dec (nat i))"

definition hex :: "nat \<Rightarrow> bytes" where
  "hex n = ascii ''0x'' @ digits_in 16 n"

definition hex_padded :: "nat \<Rightarrow> nat \<Rightarrow> bytes" where
  "hex_padded width n = (let ds = digits_in 16 n in ascii ''0x'' @ replicate (width - length ds) 48 @ ds)"

definition token_display :: "Token \<Rightarrow> bytes" where
  "token_display tok = hex_padded 8 (unat (token_value tok))"

definition row_name :: "TableId \<Rightarrow> nat \<Rightarrow> bytes" where
  "row_name table rid = ascii (TableId_name table) @ ascii ''['' @ dec rid @ ascii '']''"

definition rid_debug :: "TableId \<Rightarrow> u32 \<Rightarrow> bytes" where
  "rid_debug table rid = row_name table (unat rid)"

fun joined :: "bytes \<Rightarrow> bytes list \<Rightarrow> bytes" where
  "joined sep [] = []"
| "joined sep [x] = x"
| "joined sep (x # xs) = x @ sep @ joined sep xs"

section \<open>Reading numbers and row names back\<close>

definition digit_value :: "u8 \<Rightarrow> nat" where
  "digit_value b = (if unat b < 58 then unat b - 48 else unat b - 87)"

definition digits_value :: "nat \<Rightarrow> bytes \<Rightarrow> nat" where
  "digits_value radix ds = foldl (\<lambda>v d. v * radix + digit_value d) 0 ds"

lemma digit_of_value: "d < 16 \<Longrightarrow> digit_value (digit_of d) = d"
proof -
  assume "d < 16"
  then have "d \<in> set [0..<16]" by simp
  then show ?thesis by (auto simp: upt_rec digit_value_def digit_of_def)
qed

text \<open>The digits give the number back, with or without zeros in front.\<close>

lemma digits_value_in: "2 \<le> radix \<Longrightarrow> radix \<le> 16 \<Longrightarrow> digits_value radix (digits_in radix n) = n"
proof (induction radix n rule: digits_in.induct)
  case (1 radix n)
  show ?case
  proof (cases "n < radix")
    case True
    then show ?thesis using 1 by (subst digits_in.simps) (simp add: digits_value_def digit_of_value)
  next
    case False
    have "n mod radix < 16" using 1(2,3) mod_less_divisor [of radix n] by linarith
    then show ?thesis using 1 False
      by (subst digits_in.simps) (simp add: digits_value_def digit_of_value)
  qed
qed

lemma digits_value_zeros: "digits_value radix (replicate k 48 @ ds) = digits_value radix ds"
proof -
  have "foldl (\<lambda>v d. v * radix + digit_value d) 0 (replicate k 48) = 0"
    by (induction k) (simp_all add: digit_value_def)
  then show ?thesis by (simp add: digits_value_def)
qed

lemma dec_value: "digits_value 10 (dec n) = n"
  unfolding dec_def by (rule digits_value_in) simp_all

lemma dec_inj: "dec m = dec n \<Longrightarrow> m = n"
  by (metis dec_value)

lemma hex_padded_cut: "hex_padded w n = 48 # 120 # replicate (w - length (digits_in 16 n)) 48 @ digits_in 16 n"
  by (simp add: hex_padded_def Let_def ascii_def)

lemma hex_padded_value: "digits_value 16 (tl (tl (hex_padded w n))) = n"
  unfolding hex_padded_cut list.sel digits_value_zeros by (rule digits_value_in) simp_all

lemma hex_padded_inj: "hex_padded w m = hex_padded w n \<Longrightarrow> m = n"
  by (metis hex_padded_value)

text \<open>A table name is letters only, so the bracket ends it.\<close>

definition letters :: "bytes \<Rightarrow> bool" where
  "letters bs \<longleftrightarrow> bs \<noteq> [] \<and> list_all (\<lambda>b. 65 \<le> b \<and> b \<noteq> 91 \<and> b < 123) bs"

lemma table_name_letters: "letters (ascii (TableId_name table))"
  by (cases table) (simp_all add: letters_def ascii_def)

lemma row_name_cut: "takeWhile (\<lambda>b. b \<noteq> 91) (row_name table rid) = ascii (TableId_name table)"
  "dropWhile (\<lambda>b. b \<noteq> 91) (row_name table rid) = 91 # dec rid @ [93]"
proof -
  have l: "\<forall>b \<in> set (ascii (TableId_name table)). b \<noteq> 91" using table_name_letters [of table] by (auto simp: letters_def list_all_iff)
  have r: "row_name table rid = ascii (TableId_name table) @ 91 # dec rid @ [93]" by (simp add: row_name_def ascii_def)
  show "takeWhile (\<lambda>b. b \<noteq> 91) (row_name table rid) = ascii (TableId_name table)"
    "dropWhile (\<lambda>b. b \<noteq> 91) (row_name table rid) = 91 # dec rid @ [93]"
    using l by (simp_all add: r takeWhile_append2 dropWhile_append2)
qed

lemma table_names_distinct: "distinct (map (\<lambda>t. ascii (TableId_name t)) TableId_ALL)"
  by code_simp

lemma table_name_inj: "ascii (TableId_name a) = ascii (TableId_name b) \<Longrightarrow> a = b"
  using table_names_distinct unfolding distinct_map inj_on_def by simp

lemma row_name_inj: "row_name t m = row_name u n \<Longrightarrow> t = u \<and> m = n"
  using row_name_cut [of t m] row_name_cut [of u n] table_name_inj dec_inj by auto

section \<open>Tokens, heap indices, GUIDs, errors\<close>

definition token_debug :: "Token \<Rightarrow> bytes" where
  "token_debug tok =
     (case token_table tok of
        Some t \<Rightarrow> ascii ''Token('' @ ascii (TableId_name t) @ ascii ''['' @ dec (unat (token_rid tok)) @ ascii ''])''
      | None \<Rightarrow> ascii ''Token('' @ hex_padded 8 (unat (token_value tok)) @ ascii '')'')"

text \<open>The \<open>heap_index!\<close> types, by the name of their heap.\<close>

definition heap_index_debug :: "string \<Rightarrow> u32 \<Rightarrow> bytes" where
  "heap_index_debug heap index = ascii heap @ ascii ''['' @ hex (unat index) @ ascii '']''"

definition heap_index_is_empty :: "u32 \<Rightarrow> bool" where
  "heap_index_is_empty index \<longleftrightarrow> index = 0"

definition user_string_debug :: "u32 \<Rightarrow> bytes" where
  "user_string_debug tok = heap_index_debug ''#US'' (us_token_offset tok)"

definition hex_byte :: "u8 \<Rightarrow> bytes" where
  "hex_byte b = (let ds = digits_in 16 (unat b) in replicate (2 - length ds) 48 @ ds)"

definition guid_zero :: bytes where
  "guid_zero = replicate 16 0"

definition guid_display :: "bytes \<Rightarrow> bytes" where
  "guid_display b =
     concat (map (\<lambda>i. hex_byte (b ! i)) [3, 2, 1, 0]) @ ascii ''-''
     @ concat (map (\<lambda>i. hex_byte (b ! i)) [5, 4]) @ ascii ''-''
     @ concat (map (\<lambda>i. hex_byte (b ! i)) [7, 6]) @ ascii ''-''
     @ concat (map (\<lambda>i. hex_byte (b ! i)) [8, 9]) @ ascii ''-''
     @ concat (map hex_byte (drop 10 b))"

definition guid_debug :: "bytes \<Rightarrow> bytes" where
  "guid_debug b = ascii ''Guid('' @ guid_display b @ ascii '')''"

definition at_offset :: "nat option \<Rightarrow> bytes" where
  "at_offset off = (case off of Some n \<Rightarrow> ascii '' at offset '' @ hex n | None \<Rightarrow> [])"

definition error_display :: "error \<Rightarrow> bytes" where
  "error_display e =
     ascii (err_context e) @ ascii '': '' @ ascii (ErrorKind_as_str (err_kind e)) @ at_offset (err_offset e)"

definition diagnostic_display :: "diagnostic \<Rightarrow> bytes" where
  "diagnostic_display d =
     ascii (DiagnosticCode_as_str (diag_code d)) @ ascii '' (detail '' @ hex (diag_detail d) @ ascii '')''
     @ at_offset (diag_offset d)"

text \<open>The printed form of a GUID tells its sixteen bytes.\<close>

lemma hex_byte_digits: "hex_byte b = [digit_of (unat b div 16), digit_of (unat b mod 16)]"
proof -
  have "unat b < 256" using unsigned_less [of b, where ?'a = nat] by simp
  then show ?thesis
    by (cases "unat b < 16") (simp_all add: hex_byte_def Let_def digits_in.simps [of 16] digit_of_def [of 0])
qed

lemma hex_byte_inj: "hex_byte a = hex_byte b \<longleftrightarrow> a = b"
proof
  assume "hex_byte a = hex_byte b"
  then have d: "digit_of (unat a div 16) = digit_of (unat b div 16)" "digit_of (unat a mod 16) = digit_of (unat b mod 16)"
    by (simp_all add: hex_byte_digits)
  have "unat a div 16 < 16" "unat b div 16 < 16"
    using unsigned_less [of a, where ?'a = nat] unsigned_less [of b, where ?'a = nat] by simp_all
  then have "unat a div 16 = unat b div 16" "unat a mod 16 = unat b mod 16"
    using d digit_of_value by (metis, metis mod_less_divisor zero_less_numeral)
  then have "unat a = unat b" by (metis div_mult_mod_eq)
  then show "a = b" by (simp add: word_unat_eq_iff)
qed simp

lemma hex_byte_append: "hex_byte x @ r = hex_byte y @ s \<longleftrightarrow> x = y \<and> r = s"
  using hex_byte_inj [of x y] by (auto simp: hex_byte_digits)

lemma hex_bytes_inj: "concat (map hex_byte xs) = concat (map hex_byte ys) \<longleftrightarrow> xs = ys"
proof (induction xs arbitrary: ys)
  case Nil
  then show ?case by (cases ys) (simp_all add: hex_byte_digits)
next
  case (Cons x xs)
  then show ?case by (cases ys) (simp_all add: hex_byte_append, simp add: hex_byte_digits)
qed

lemma guid_display_inj:
  assumes "length a = 16" and "length b = 16" and "guid_display a = guid_display b"
  shows "a = b"
proof -
  have e: "a ! 3 = b ! 3" "a ! 2 = b ! 2" "a ! 1 = b ! 1" "a ! 0 = b ! 0" "a ! 5 = b ! 5" "a ! 4 = b ! 4"
    "a ! 7 = b ! 7" "a ! 6 = b ! 6" "a ! 8 = b ! 8" "a ! 9 = b ! 9" and d: "drop 10 a = drop 10 b"
    using assms(3) by (simp_all add: guid_display_def hex_byte_append hex_bytes_inj)
  have "take 10 a = take 10 b"
  proof (rule nth_equalityI)
    fix i assume "i < length (take 10 a)"
    then have "i < 10" by simp
    then have "i = 0 \<or> i = 1 \<or> i = 2 \<or> i = 3 \<or> i = 4 \<or> i = 5 \<or> i = 6 \<or> i = 7 \<or> i = 8 \<or> i = 9" by presburger
    then show "take 10 a ! i = take 10 b ! i" using e by (elim disjE) simp_all
  qed (simp add: assms(1,2))
  then show ?thesis using d by (metis append_take_drop_id)
qed

lemma guid_renders:
  "guid_display [0x00, 0x11, 0x22, 0x33, 0x44, 0x55, 0x66, 0x77, 0x88, 0x99, 0xAA, 0xBB, 0xCC, 0xDD, 0xEE, 0xFF]
     = ascii ''33221100-5544-7766-8899-aabbccddeeff''"
  by (simp add: guid_display_def hex_byte_digits digit_of_def ascii_def)

lemma error_renders:
  "error_display (error_new Truncated 16 ''CLI header'') = ascii ''CLI header: truncated input at offset 0x10''"
  by (simp add: error_display_def at_offset_def hex_def digits_in.simps digit_of_def ascii_def)

end
