(* ===== verification/Lookup.thy ===== *)
theory Lookup
  imports Tables "HOL-Library.Product_Lexorder"
begin

text \<open>
  Parent and owner lookups (\<open>src/tables/lookup.rs\<close>). The loops take the column they read as
  a function \<open>get\<close> from row id to value; \<open>rows_with_key\<close> and \<open>owner_of_list\<close> pass
  \<open>raw_column\<close>. A half-open \<open>Range<u32>\<close> is a pair; row ids are \<open>nat\<close>, key values
  \<open>u32\<close>. The locale \<open>table_column\<close> is what the searches need of a column.
\<close>

section \<open>Rows by key\<close>

definition sort_key_coded :: "TableId \<Rightarrow> CodedIndex option" where
  "sort_key_coded table =
     (case table of
        T_Constant \<Rightarrow> Some C_HasConstant
      | T_CustomAttribute \<Rightarrow> Some C_HasCustomAttribute
      | T_FieldMarshal \<Rightarrow> Some C_HasFieldMarshal
      | T_DeclSecurity \<Rightarrow> Some C_HasDeclSecurity
      | T_MethodSemantics \<Rightarrow> Some C_HasSemantics
      | T_ImplMap \<Rightarrow> Some C_MemberForwarded
      | T_GenericParam \<Rightarrow> Some C_TypeOrMethodDef
      | T_CustomDebugInformation \<Rightarrow> Some C_HasCustomDebugInformation
      | _ \<Rightarrow> None)"

function lower_bound :: "(nat \<Rightarrow> u32 result) \<Rightarrow> u32 \<Rightarrow> nat \<Rightarrow> nat \<Rightarrow> nat result" where
  "lower_bound get key lo hi =
     (if lo < hi then
        let mid = lo + (hi - lo) div 2 in
        res_bind (get mid) (\<lambda>v.
        if v < key then lower_bound get key (mid + 1) hi else lower_bound get key lo mid)
      else Ok lo)"
  by pat_completeness auto
termination by (relation "measure (\<lambda>(_, _, lo, hi). hi - lo)") auto

function collect_run :: "(nat \<Rightarrow> u32 result) \<Rightarrow> u32 \<Rightarrow> nat \<Rightarrow> nat \<Rightarrow> nat list result" where
  "collect_run get key count rid =
     (if rid \<le> count then
        res_bind (get rid) (\<lambda>v.
        if v = key then res_bind (collect_run get key count (rid + 1)) (\<lambda>rids. Ok (rid # rids)) else Ok [])
      else Ok [])"
  by pat_completeness auto
termination by (relation "measure (\<lambda>(_, _, count, rid). Suc count - rid)") auto

declare lower_bound.simps [simp del] collect_run.simps [simp del]

fun scan_keys :: "(nat \<Rightarrow> u32 result) \<Rightarrow> u32 \<Rightarrow> nat list \<Rightarrow> nat list result" where
  "scan_keys get key [] = Ok []"
| "scan_keys get key (rid # rids) =
     res_bind (get rid) (\<lambda>v. res_bind (scan_keys get key rids) (\<lambda>out. Ok (if v = key then rid # out else out)))"

definition rows_with_key :: "Tables \<Rightarrow> TableId \<Rightarrow> u32 \<Rightarrow> nat list result" where
  "rows_with_key t table key =
     res_bind (ok_or (sort_key_column table) (error_detached Unsupported ''sorted lookup'')) (\<lambda>column.
     let count = row_count t table; get = (\<lambda>rid. raw_column t table rid column) in
     if count = 0 then Ok []
     else if is_sorted t table then
       res_bind (u32_add count 1) (\<lambda>hi.
       res_bind (lower_bound get key 1 hi) (collect_run get key count))
     else scan_keys get key [1..<count + 1])"

definition first_row_with_key :: "Tables \<Rightarrow> TableId \<Rightarrow> u32 \<Rightarrow> nat option result" where
  "first_row_with_key t table key =
     res_bind (rows_with_key t table key) (\<lambda>rids. Ok (get_at rids 0))"

definition sort_key_for :: "TableId \<Rightarrow> Token \<Rightarrow> u32 option" where
  "sort_key_for table parent =
     (case sort_key_coded table of
        Some kind \<Rightarrow> coded_encode kind parent
      | None \<Rightarrow> Some (token_rid parent))"

definition rows_for_parent :: "Tables \<Rightarrow> TableId \<Rightarrow> Token \<Rightarrow> nat list result" where
  "rows_for_parent t table parent =
     (case sort_key_for table parent of
        Some key \<Rightarrow> rows_with_key t table key
      | None \<Rightarrow> Ok [])"

section \<open>List columns\<close>

definition u32_clamp :: "nat \<Rightarrow> nat \<Rightarrow> nat \<Rightarrow> nat result" where
  "u32_clamp lo hi v = (if hi < lo then Panic else Ok (max lo (min v hi)))"

definition list_range :: "Tables \<Rightarrow> TableId \<Rightarrow> nat \<Rightarrow> nat \<Rightarrow> TableId \<Rightarrow> (nat \<times> nat) result" where
  "list_range t owner_table owner_rid column target =
     (let count = row_count t owner_table in
      if owner_rid = 0 \<or> count < owner_rid
      then Err (error_detached OutOfRange (TableId_name owner_table))
      else
      let limit = min (logical_row_count t target + 1) u32_max in
      res_bind (raw_column t owner_table owner_rid column) (\<lambda>v.
      res_bind (u32_clamp 1 limit (unat v)) (\<lambda>start.
      res_bind (if owner_rid = count then Ok limit
                else res_bind (raw_column t owner_table (owner_rid + 1) column) (\<lambda>w.
                     u32_clamp 1 limit (unat w))) (\<lambda>end.
      Ok (start, max end start)))))"

definition range_contains :: "nat \<times> nat \<Rightarrow> nat \<Rightarrow> bool" where
  "range_contains r x \<longleftrightarrow> fst r \<le> x \<and> x < snd r"

function owner_search :: "(nat \<Rightarrow> u32 result) \<Rightarrow> nat \<Rightarrow> nat \<Rightarrow> nat \<Rightarrow> nat \<Rightarrow> nat result" where
  "owner_search get member_rid lo hi candidate =
     (if lo \<le> hi then
        let mid = lo + (hi - lo) div 2 in
        res_bind (get mid) (\<lambda>v.
        if unat v \<le> member_rid then res_bind (u32_add mid 1) (\<lambda>lo. owner_search get member_rid lo hi mid)
        else if mid = 1 then Ok candidate
        else if mid = 0 then Panic
        else owner_search get member_rid lo (mid - 1) candidate)
      else Ok candidate)"
  by pat_completeness auto
termination by (relation "measure (\<lambda>(_, _, lo, hi, _). Suc hi - lo)") (auto simp: u32_add_iff)

declare owner_search.simps [simp del]

fun first_range_with :: "(nat \<Rightarrow> (nat \<times> nat) result) \<Rightarrow> nat \<Rightarrow> nat list \<Rightarrow> nat option result" where
  "first_range_with rng member_rid [] = Ok None"
| "first_range_with rng member_rid (rid # rids) =
     res_bind (rng rid) (\<lambda>r.
     if range_contains r member_rid then Ok (Some rid) else first_range_with rng member_rid rids)"

definition owner_of_list :: "Tables \<Rightarrow> TableId \<Rightarrow> nat \<Rightarrow> TableId \<Rightarrow> nat \<Rightarrow> nat option result" where
  "owner_of_list t owner_table column target member_rid =
     (let count = row_count t owner_table;
          rng = (\<lambda>rid. list_range t owner_table rid column target) in
      if count = 0 \<or> member_rid = 0 then Ok None
      else
      res_bind (owner_search (\<lambda>rid. raw_column t owner_table rid column) member_rid 1 count 0) (\<lambda>candidate.
      res_bind (if candidate \<noteq> 0 then res_bind (rng candidate) (\<lambda>r. Ok (range_contains r member_rid))
                else Ok False) (\<lambda>found.
      if found then Ok (Some candidate)
      else first_range_with rng member_rid [1..<count + 1])))"

section \<open>The named lookups\<close>

definition field_range where "field_range t type_def = list_range t T_TypeDef type_def 4 T_Field"
definition method_range where "method_range t type_def = list_range t T_TypeDef type_def 5 T_MethodDef"
definition param_range where "param_range t meth = list_range t T_MethodDef meth 5 T_Param"
definition event_range where "event_range t event_map = list_range t T_EventMap event_map 1 T_Event"
definition property_range where
  "property_range t property_map = list_range t T_PropertyMap property_map 1 T_Property"

definition type_of_field where "type_of_field t field = owner_of_list t T_TypeDef 4 T_Field field"
definition type_of_method where "type_of_method t meth = owner_of_list t T_TypeDef 5 T_MethodDef meth"
definition method_of_param where "method_of_param t param = owner_of_list t T_MethodDef 5 T_Param param"

definition event_map_of where "event_map_of t type_def = first_row_with_key t T_EventMap type_def"
definition property_map_of where "property_map_of t type_def = first_row_with_key t T_PropertyMap type_def"

definition generic_params :: "Tables \<Rightarrow> Token \<Rightarrow> nat list result" where
  "generic_params t owner =
     res_bind (rows_for_parent t T_GenericParam owner) (\<lambda>rids.
     res_bind (res_map (\<lambda>rid. res_bind (raw_column t T_GenericParam rid 0) (\<lambda>number. Ok (number, rid))) rids)
       (\<lambda>keyed. Ok (map snd (sort keyed))))"

definition generic_param_constraints where
  "generic_param_constraints t generic_param = rows_with_key t T_GenericParamConstraint generic_param"

text \<open>\<open>match self.first_row_with_key(..)? \{ Some(rid) => Ok(Some(f(rid)?)), None => Ok(None) \}\<close>.\<close>

definition first_then :: "nat option result \<Rightarrow> (nat \<Rightarrow> 'b result) \<Rightarrow> 'b option result" where
  "first_then m f =
     res_bind m (\<lambda>r. case r of Some rid \<Rightarrow> res_bind (f rid) (\<lambda>x. Ok (Some x)) | None \<Rightarrow> Ok None)"

definition enclosing_type where
  "enclosing_type t type_def =
     first_then (first_row_with_key t T_NestedClass type_def) (\<lambda>rid. raw_column t T_NestedClass rid 1)"

fun scan_nested :: "Tables \<Rightarrow> u32 \<Rightarrow> nat list \<Rightarrow> u32 list result" where
  "scan_nested t type_def [] = Ok []"
| "scan_nested t type_def (rid # rids) =
     res_bind (raw_column t T_NestedClass rid 1) (\<lambda>enclosing.
     if enclosing = type_def then
       res_bind (raw_column t T_NestedClass rid 0) (\<lambda>nested.
       res_bind (scan_nested t type_def rids) (\<lambda>out. Ok (nested # out)))
     else scan_nested t type_def rids)"

definition nested_types where
  "nested_types t type_def = scan_nested t type_def [1..<row_count t T_NestedClass + 1]"

definition custom_attributes where "custom_attributes t parent = rows_for_parent t T_CustomAttribute parent"
definition interface_impls where "interface_impls t type_def = rows_with_key t T_InterfaceImpl type_def"
definition method_impls where "method_impls t type_def = rows_with_key t T_MethodImpl type_def"
definition semantics_for where "semantics_for t association = rows_for_parent t T_MethodSemantics association"
definition decl_security_for where "decl_security_for t parent = rows_for_parent t T_DeclSecurity parent"

text \<open>The same for a table keyed by a coded index: no key, no row.\<close>

definition keyed_then :: "Tables \<Rightarrow> TableId \<Rightarrow> Token \<Rightarrow> (nat \<Rightarrow> 'b result) \<Rightarrow> 'b option result" where
  "keyed_then t table parent f =
     (case sort_key_for table parent of
        Some key \<Rightarrow> first_then (first_row_with_key t table key) f
      | None \<Rightarrow> Ok None)"

definition constant_of where
  "constant_of t parent = keyed_then t T_Constant parent (row_of t T_Constant ConstantRow_decode)"

definition field_marshal_of where
  "field_marshal_of t parent = keyed_then t T_FieldMarshal parent (\<lambda>rid. raw_column t T_FieldMarshal rid 1)"

definition field_rva_of where
  "field_rva_of t field =
     first_then (first_row_with_key t T_FieldRva field) (\<lambda>rid. raw_column t T_FieldRva rid 0)"

definition field_layout_of where
  "field_layout_of t field =
     first_then (first_row_with_key t T_FieldLayout field) (\<lambda>rid. raw_column t T_FieldLayout rid 0)"

definition class_layout_of where
  "class_layout_of t type_def =
     first_then (first_row_with_key t T_ClassLayout type_def) (row_of t T_ClassLayout ClassLayoutRow_decode)"

definition impl_map_of where
  "impl_map_of t member_tok = keyed_then t T_ImplMap member_tok (row_of t T_ImplMap ImplMapRow_decode)"

section \<open>Searching a column\<close>

text \<open>What the searches rely on: a column whose rows from 1 to \<open>count\<close> can be read.\<close>

locale table_column =
  fixes get :: "nat \<Rightarrow> u32 result"
    and val :: "nat \<Rightarrow> u32"
    and count :: nat
  assumes get_val: "1 \<le> rid \<Longrightarrow> rid \<le> count \<Longrightarrow> get rid = Ok (val rid)"
begin

definition ascending :: bool where
  "ascending \<longleftrightarrow> (\<forall>i j. 1 \<le> i \<longrightarrow> i \<le> j \<longrightarrow> j \<le> count \<longrightarrow> val i \<le> val j)"

lemma ascending_iff: "ascending \<longleftrightarrow> sorted_wrt (\<le>) (map val [1..<count + 1])"
proof
  show "ascending \<Longrightarrow> sorted_wrt (\<le>) (map val [1..<count + 1])"
    by (auto simp: ascending_def sorted_wrt_iff_nth_less simp del: upt_Suc)
  assume s: "sorted_wrt (\<le>) (map val [1..<count + 1])"
  show ascending unfolding ascending_def
  proof (intro allI impI)
    fix i j assume "1 \<le> i" "i \<le> j" "j \<le> count"
    then show "val i \<le> val j"
      using sorted_wrt_nth_less [OF s, of "i - 1" "j - 1"] by (cases "i = j") (auto simp del: upt_Suc)
  qed
qed

lemma ascendingD: "ascending \<Longrightarrow> 1 \<le> i \<Longrightarrow> i \<le> j \<Longrightarrow> j \<le> count \<Longrightarrow> val i \<le> val j"
  by (simp add: ascending_def)

lemma lower_bound_splits:
  assumes ascending and "1 \<le> lo" and "lo \<le> hi" and "hi \<le> count + 1"
    and "\<And>r. 1 \<le> r \<Longrightarrow> r < lo \<Longrightarrow> val r < key" and "\<And>r. hi \<le> r \<Longrightarrow> r \<le> count \<Longrightarrow> key \<le> val r"
  shows "\<exists>p. lower_bound get key lo hi = Ok p \<and> 1 \<le> p \<and> p \<le> count + 1
     \<and> (\<forall>r. 1 \<le> r \<and> r < p \<longrightarrow> val r < key) \<and> (\<forall>r. p \<le> r \<and> r \<le> count \<longrightarrow> key \<le> val r)"
  using assms(2-)
proof (induction "hi - lo" arbitrary: lo hi rule: less_induct)
  case less
  show ?case
  proof (cases "lo < hi")
    case True
    let ?m = "lo + (hi - lo) div 2"
    have m: "lo \<le> ?m" "?m < hi" "1 \<le> ?m" "?m \<le> count" using True less.prems(1,3) by auto
    have g: "lower_bound get key lo hi =
        (if val ?m < key then lower_bound get key (?m + 1) hi else lower_bound get key lo ?m)"
      using True get_val [OF m(3,4)] by (subst lower_bound.simps) (simp add: Let_def)
    show ?thesis
    proof (cases "val ?m < key")
      case below: True
      have "val r < key" if "1 \<le> r" "r < ?m + 1" for r
        using ascendingD [OF assms(1), of r ?m] that m below by simp
      with less.hyps [of hi "?m + 1"] below m less.prems g show ?thesis by auto
    next
      case False
      have "key \<le> val r" if "?m \<le> r" "r \<le> count" for r
        using ascendingD [OF assms(1), of ?m r] that m False by simp
      with less.hyps [of ?m lo] False m less.prems g show ?thesis by auto
    qed
  next
    case False
    then have "lower_bound get key lo hi = Ok lo" by (subst lower_bound.simps) simp
    moreover have "lo = hi" using False less.prems(2) by simp
    ultimately show ?thesis using less.prems by auto
  qed
qed

lemma collect_run_takeWhile:
  assumes "1 \<le> rid"
  shows "collect_run get key count rid = Ok (takeWhile (\<lambda>r. val r = key) [rid..<count + 1])"
  using assms
proof (induction "Suc count - rid" arbitrary: rid rule: less_induct)
  case less
  show ?case
  proof (cases "rid \<le> count")
    case True
    then have "[rid..<count + 1] = rid # [rid + 1..<count + 1]" by (simp add: upt_conv_Cons)
    with less.hyps [of "rid + 1"] less.prems True get_val [OF less.prems True] show ?thesis
      by (subst collect_run.simps) simp
  qed (subst collect_run.simps, simp)
qed

lemma search_finds_all:
  assumes ascending
  shows "res_bind (lower_bound get key 1 (count + 1)) (collect_run get key count)
     = Ok (filter (\<lambda>r. val r = key) [1..<count + 1])"
proof -
  obtain p where p: "lower_bound get key 1 (count + 1) = Ok p" "1 \<le> p" "p \<le> count + 1"
    "\<And>r. 1 \<le> r \<Longrightarrow> r < p \<Longrightarrow> val r < key" "\<And>r. p \<le> r \<Longrightarrow> r \<le> count \<Longrightarrow> key \<le> val r"
    using lower_bound_splits [OF assms, of 1 "count + 1" key] by auto
  have s: "[1..<count + 1] = [1..<p] @ [p..<count + 1]" using p(2,3) by (metis le_iff_add upt_add_eq_append)
  have "filter (\<lambda>r. val r = key) [1..<p] = []" using p(4) by (fastforce simp: filter_empty_conv)
  moreover have "takeWhile (\<lambda>r. val r = key) [q..<count + 1] = filter (\<lambda>r. val r = key) [q..<count + 1]"
    if "p \<le> q" for q
    using that
  proof (induction "Suc count - q" arbitrary: q rule: less_induct)
    case less
    show ?case
    proof (cases "q \<le> count")
      case True
      then have u: "[q..<count + 1] = q # [q + 1..<count + 1]" by (simp add: upt_conv_Cons)
      show ?thesis
      proof (cases "val q = key")
        case False
        then have "key < val q" using p(5) [OF less.prems True] by simp
        then have "filter (\<lambda>r. val r = key) [q..<count + 1] = []"
          using ascendingD [OF assms, of q] p(2) less.prems by (force simp: filter_empty_conv simp del: upt_Suc)
        with False show ?thesis unfolding u by simp
      qed (use less.hyps [of "q + 1"] True less.prems u in simp)
    qed simp
  qed
  ultimately show ?thesis
    unfolding p(1) s res_bind.simps collect_run_takeWhile [OF p(2)] by (simp del: upt_Suc)
qed

lemma scan_keys_all: "scan_keys get key [1..<count + 1] = Ok (filter (\<lambda>r. val r = key) [1..<count + 1])"
proof -
  have "scan_keys get key rids = Ok (filter (\<lambda>r. val r = key) rids)" if "set rids \<subseteq> {1..count}" for rids
    using that get_val by (induction rids) auto
  from this [of "[1..<count + 1]"] show ?thesis
    by (simp add: atLeastLessThanSuc_atLeastAtMost del: upt_Suc)
qed

lemma owner_search_total:
  assumes "count < u32_max" and "1 \<le> lo" and "hi \<le> count" and "c \<le> count"
  shows "\<exists>c'. owner_search get m lo hi c = Ok c' \<and> c' \<le> count"
  using assms(2-)
proof (induction "Suc hi - lo" arbitrary: lo hi c rule: less_induct)
  case less
  show ?case
  proof (cases "lo \<le> hi")
    case True
    define k where "k = lo + (hi - lo) div 2"
    have k: "1 \<le> k" "k \<le> count" "lo \<le> k" "k \<le> hi" using True less.prems by (auto simp: k_def)
    have up: "k + 1 \<le> u32_max" using k(2) assms(1) by simp
    have step: "owner_search get m lo hi c =
        (if unat (val k) \<le> m then owner_search get m (k + 1) hi k
         else if k = 1 then Ok c else owner_search get m lo (k - 1) c)"
      using True k(1) get_val [OF k(1,2)] up by (subst owner_search.simps) (simp add: Let_def u32_add_def flip: k_def)
    show ?thesis
      unfolding step using less.hyps [of hi "k + 1" k] less.hyps [of "k - 1" lo c] k less.prems by auto
  qed (use less.prems in \<open>subst owner_search.simps, simp\<close>)
qed

end

section \<open>The columns of parsed tables\<close>

definition readable :: "Tables \<Rightarrow> TableId \<Rightarrow> nat \<Rightarrow> nat" where
  "readable t table j =
     (if (\<exists>w. tables_wf w t) \<and> j < length (columns_of table) then row_count t table else 0)"

interpretation col: table_column "\<lambda>rid. raw_column t table rid j" "\<lambda>rid. cell t table rid j" "readable t table j"
  for t table j
  by unfold_locales (auto simp: readable_def raw_column_cell split: if_splits)

lemma readable_wf: "tables_wf w t \<Longrightarrow> j < length (columns_of table) \<Longrightarrow> readable t table j = row_count t table"
  by (auto simp: readable_def)

definition matching_rows :: "Tables \<Rightarrow> TableId \<Rightarrow> nat \<Rightarrow> u32 \<Rightarrow> nat list" where
  "matching_rows t table c key = filter (\<lambda>rid. cell t table rid c = key) [1..<row_count t table + 1]"

lemma rows_with_key_all:
  assumes "tables_wf w t" and "is_sorted t table \<longrightarrow> key_sorted t table" and "row_count t table < u32_max"
    and "sort_key_column table = Some c"
  shows "rows_with_key t table key = Ok (matching_rows t table c key)"
proof -
  note r = readable_wf [OF assms(1) sort_key_column_less [OF assms(4)]]
  have "col.ascending t table c" if "is_sorted t table"
    using assms(2,4) that unfolding col.ascending_iff unfolding r key_sorted_def keys_sorted_def by auto
  then show ?thesis
    using col.search_finds_all [of t table c key] col.scan_keys_all [of t table c key] assms(3,4)
    by (auto simp: rows_with_key_def r matching_rows_def Let_def u32_add_def simp del: upt_Suc)
qed

section \<open>List ranges\<close>

definition list_limit :: "Tables \<Rightarrow> TableId \<Rightarrow> nat" where
  "list_limit t target = min (logical_row_count t target + 1) u32_max"

text \<open>Where the run of an owner starts, inside the rows of the target; and the start after the last.\<close>

definition run_start :: "Tables \<Rightarrow> TableId \<Rightarrow> nat \<Rightarrow> TableId \<Rightarrow> nat \<Rightarrow> nat" where
  "run_start t owner c target rid =
     (if rid = row_count t owner + 1 then list_limit t target
      else max 1 (min (unat (cell t owner rid c)) (list_limit t target)))"

lemma list_limit_pos [simp]: "Suc 0 \<le> list_limit t target" "list_limit t target \<noteq> 0"
  by (simp_all add: list_limit_def u32_max_def)

lemma list_range_exact:
  assumes "tables_wf w t" and "c < length (columns_of owner)" and "1 \<le> rid" and "rid \<le> row_count t owner"
  shows "list_range t owner rid c target =
     Ok (run_start t owner c target rid, max (run_start t owner c target (rid + 1)) (run_start t owner c target rid))"
  using raw_column_cell [OF assms(1) _ _ assms(2)] assms(3,4)
  unfolding list_range_def Let_def list_limit_def [symmetric]
  by (auto simp: run_start_def u32_clamp_def max.commute)

definition owns :: "Tables \<Rightarrow> TableId \<Rightarrow> nat \<Rightarrow> TableId \<Rightarrow> nat \<Rightarrow> nat \<Rightarrow> bool" where
  "owns t owner c target rid m \<longleftrightarrow> 1 \<le> rid \<and> rid \<le> row_count t owner
     \<and> run_start t owner c target rid \<le> m \<and> m < run_start t owner c target (rid + 1)"

lemma range_contains_owns:
  assumes "tables_wf w t" and "c < length (columns_of owner)" and "1 \<le> rid" and "rid \<le> row_count t owner"
  shows "\<exists>r. list_range t owner rid c target = Ok r \<and> (range_contains r m \<longleftrightarrow> owns t owner c target rid m)"
  using list_range_exact [OF assms] assms(3,4) by (auto simp: range_contains_def owns_def)

lemma first_range_spec:
  assumes "\<And>rid. rid \<in> set rids \<Longrightarrow> \<exists>r. rng rid = Ok r \<and> (range_contains r m \<longleftrightarrow> P rid)"
  shows "\<exists>x. first_range_with rng m rids = Ok x
     \<and> (case x of Some rid \<Rightarrow> rid \<in> set rids \<and> P rid | None \<Rightarrow> \<forall>rid \<in> set rids. \<not> P rid)"
  using assms
proof (induction rids)
  case (Cons a rids)
  obtain r where r: "rng a = Ok r" "range_contains r m \<longleftrightarrow> P a" using Cons.prems [of a] by auto
  obtain x where "first_range_with rng m rids = Ok x"
    "case x of Some rid \<Rightarrow> rid \<in> set rids \<and> P rid | None \<Rightarrow> \<forall>rid \<in> set rids. \<not> P rid"
    using Cons by auto
  with r show ?case by (cases "P a") (auto split: option.splits)
qed simp

lemma owner_of_list_spec:
  assumes "tables_wf w t" and "c < length (columns_of owner)" and small: "row_count t owner < u32_max"
  shows "\<exists>x. owner_of_list t owner c target m = Ok x
     \<and> (case x of Some rid \<Rightarrow> owns t owner c target rid m | None \<Rightarrow> \<forall>rid. \<not> owns t owner c target rid m)"
proof (cases "row_count t owner = 0 \<or> m = 0")
  case True
  have "1 \<le> run_start t owner c target rid" for rid by (simp add: run_start_def)
  then have "\<not> owns t owner c target rid m" for rid
    using True by (auto simp: owns_def) (metis One_nat_def not_less_eq_eq zero_le)
  then show ?thesis using True by (simp add: owner_of_list_def Let_def)
next
  case False
  let ?n = "row_count t owner" and ?rng = "\<lambda>rid. list_range t owner rid c target"
  obtain k where k: "owner_search (\<lambda>rid. raw_column t owner rid c) m 1 ?n 0 = Ok k" "k \<le> ?n"
    using col.owner_search_total [where t = t and table = owner and j = c, of 1 ?n 0 m] readable_wf [OF assms(1,2)] small by auto
  note rc = range_contains_owns [OF assms(1,2)]
  obtain x where x: "first_range_with ?rng m [1..<?n + 1] = Ok x"
    "case x of Some rid \<Rightarrow> owns t owner c target rid m | None \<Rightarrow> \<forall>rid. \<not> owns t owner c target rid m"
    using first_range_spec [of "[1..<?n + 1]" ?rng m "\<lambda>rid. owns t owner c target rid m"] rc
    by (fastforce simp: owns_def split: option.splits simp del: upt_Suc)
  show ?thesis
  proof (cases "k = 0")
    case True
    then show ?thesis using False k x by (simp add: owner_of_list_def Let_def del: upt_Suc)
  next
    case nz: False
    then obtain r where "?rng k = Ok r" "range_contains r m \<longleftrightarrow> owns t owner c target k m" using rc [of k target m] k by auto
    then show ?thesis using False nz k x by (cases "owns t owner c target k m") (simp_all add: owner_of_list_def Let_def del: upt_Suc)
  qed
qed

section \<open>Runs of owners\<close>

definition list_ascending :: "Tables \<Rightarrow> TableId \<Rightarrow> nat \<Rightarrow> bool" where
  "list_ascending t owner c \<longleftrightarrow>
     sorted_wrt (\<le>) (map (\<lambda>rid. cell t owner rid c) [1..<row_count t owner + 1])"

lemma run_start_mono:
  assumes "list_ascending t owner c" and "1 \<le> i" and "i \<le> j" and "j \<le> row_count t owner + 1"
  shows "run_start t owner c target i \<le> run_start t owner c target j"
proof (cases "j = row_count t owner + 1")
  case True
  then show ?thesis by (simp add: run_start_def)
next
  case False
  then have "cell t owner i c \<le> cell t owner j c"
    using sorted_wrt_nth_less [OF assms(1) [unfolded list_ascending_def], of "i - 1" "j - 1"] assms(2-4)
    by (cases "i = j") (auto simp del: upt_Suc)
  then show ?thesis using False assms(3,4) by (auto simp: run_start_def word_le_nat_alt)
qed

lemma owner_unique:
  assumes "list_ascending t owner c" and "owns t owner c target i m" and "owns t owner c target j m"
  shows "i = j"
proof (rule ccontr)
  assume "i \<noteq> j"
  then consider "i < j" | "j < i" by linarith
  then show False
    using assms(2,3) run_start_mono [OF assms(1), of "i + 1" j target] run_start_mono [OF assms(1), of "j + 1" i target]
    by cases (auto simp: owns_def)
qed

lemma owner_exists:
  assumes "0 < row_count t owner" and "run_start t owner c target 1 \<le> m" and "m < list_limit t target"
  shows "\<exists>i. owns t owner c target i m"
proof -
  let ?P = "\<lambda>i. i \<le> row_count t owner \<and> run_start t owner c target i \<le> m \<and> 1 \<le> i"
  define i where "i = (GREATEST i. ?P i)"
  have i: "?P i" unfolding i_def
    by (rule GreatestI_nat [where P = ?P and k = 1 and b = "row_count t owner"]) (use assms(1,2) in auto)
  have "\<not> ?P (i + 1)"
    using Greatest_le_nat [where P = ?P and k = "i + 1" and b = "row_count t owner"] unfolding i_def by fastforce
  then have "m < run_start t owner c target (i + 1)"
    using i assms(3) by (cases "i = row_count t owner") (auto simp: run_start_def)
  with i show ?thesis by (auto simp: owns_def)
qed

section \<open>Properties\<close>

text \<open>C10: Looking rows up by key finds all of them and nothing else, in row-id order, by binary search
  where the table really is sorted and by scanning where it is not; tables without a sort key are
  refused. The table has fewer than \<open>2 ^ 32 - 1\<close> rows, more than a metadata stream can hold: the search
  adds one to the row count in 32 bits.\<close>

theorem rows_with_key_exact:
  assumes "slice_ok dat" and "base + length dat \<le> usize_max"
    and "tables_parse dat base unc st diags = Ok (t, ds)" and "row_count t table < u32_max"
  shows "rows_with_key t table key =
    (case sort_key_column table of
       None \<Rightarrow> Err (error_detached Unsupported ''sorted lookup'')
     | Some c \<Rightarrow> Ok (filter (\<lambda>rid. cell t table rid c = key) [1..<row_count t table + 1]))"
proof -
  obtain h rc where wf: "tables_wf (stream_width h rc) t" and s: "is_sorted t table \<longleftrightarrow> key_sorted t table"
    using tables_parse_wf(2) [OF assms(1-3)] by blast
  show ?thesis
    using rows_with_key_all [OF wf _ assms(4)] s
    by (auto simp: matching_rows_def rows_with_key_def simp del: upt_Suc split: option.splits)
qed

theorem rows_with_key_exact_witness:
  "\<exists>t ds. tables_parse keyed_stream 0 False Strict [] = Ok (t, ds)
     \<and> rows_with_key t T_FieldMarshal 4 = Ok [2] \<and> rows_with_key t T_FieldMarshal 3 = Ok []
     \<and> rows_with_key t T_MethodDef 7 = Err (error_detached Unsupported ''sorted lookup'')"
proof -
  obtain t ds where p: "tables_parse keyed_stream 0 False Strict [] = Ok (t, ds)" "row_count t T_FieldMarshal = 2"
    "cell t T_FieldMarshal 1 0 = 2" "cell t T_FieldMarshal 2 0 = 4" "row_count t T_MethodDef = 0"
    by (rule keyed_stream_parses)
  have small: "row_count t T_FieldMarshal < u32_max" "row_count t T_MethodDef < u32_max" using p(2,5) by (simp_all add: u32_max_def)
  note r = rows_with_key_exact [OF keyed_stream_slice keyed_stream_fits p(1)]
  have "[1..<2 + 1 :: nat] = [1, 2]" by (simp add: upt_rec)
  then have "rows_with_key t T_FieldMarshal 4 = Ok [2]" "rows_with_key t T_FieldMarshal 3 = Ok []"
    unfolding r [OF small(1)] p(2) using p(3,4) by (simp_all add: sort_key_column_def)
  moreover have "rows_with_key t T_MethodDef 7 = Err (error_detached Unsupported ''sorted lookup'')"
    unfolding r [OF small(2)] by (simp add: sort_key_column_def)
  ultimately show ?thesis using p(1) by blast
qed

lemma sample_method_list:
  assumes "tables_wf (stream_width 0 (declared_counts 69 (\<lambda>_. 1))) t"
    and "drop (tl_data_offset (table_layout t T_TypeDef)) (tb_data t) = drop 10 sample_body"
  shows "cell t T_TypeDef 1 5 = 1"
proof -
  let ?w = "stream_width 0 (declared_counts 69 (\<lambda>_. 1))" and ?l = "table_layout t T_TypeDef"
  note col = column_in_row [OF tables_wfD(3) [OF assms(1)], of 5 T_TypeDef]
  have c: "columns_of T_TypeDef ! 5 = CK_Rid T_MethodDef" "5 < length (columns_of T_TypeDef)"
    by (simp_all add: row_defs)
  have "tl_column_widths ?l ! 5 = 2" "tl_column_offsets ?l ! 5 = 12"
    using col(3,4) c
    by (simp_all add: stream_width_def column_width_def sample_counts slot_of_def row_defs offset_of_def
        coded_column_width_def small_row_limit_def map_filter_simps TableId_ptr_source_def nth_append)
  moreover have "drop (tl_data_offset ?l + 12) (tb_data t) = drop 12 (drop 10 sample_body)"
    using assms(2) by (metis add.commute drop_drop)
  ultimately show ?thesis by (simp add: cell_def cell_offset_def sample_body_def)
qed

text \<open>C22: The owner of a member through a list column, in a table of fewer than \<open>2 ^ 32 - 1\<close> rows (the
  search counts in 32 bits; a metadata stream cannot hold more): the lookup never panics and never
  fails on a parsed stream; what it returns is an owner whose run holds the member, and it returns
  nothing only when no run does, whatever the order of the column.\<close>

theorem owner_of_list_exact:
  assumes "slice_ok dat" and "base + length dat \<le> usize_max"
    and "tables_parse dat base unc st diags = Ok (t, ds)" and "c < length (columns_of owner)"
    and "row_count t owner < u32_max"
  shows "\<exists>x. owner_of_list t owner c target m = Ok x
     \<and> (case x of Some rid \<Rightarrow> owns t owner c target rid m | None \<Rightarrow> \<forall>rid. \<not> owns t owner c target rid m)"
  using tables_parse_wf(2) [OF assms(1-3)] owner_of_list_spec [OF _ assms(4,5)] by blast

theorem owner_of_list_exact_witness:
  "\<exists>t ds. tables_parse sample_stream 0 False Strict [] = Ok (t, ds)
     \<and> owner_of_list t T_TypeDef 5 T_MethodDef 1 = Ok (Some 1) \<and> owner_of_list t T_TypeDef 5 T_MethodDef 2 = Ok None"
proof -
  obtain t ds where p: "tables_parse sample_stream 0 False Strict [] = Ok (t, ds)"
    "row_count t T_TypeDef = 1" "row_count t T_MethodDef = 1" "row_count t T_MethodPtr = 0"
    "tables_wf (stream_width 0 (declared_counts 69 (\<lambda>_. 1))) t"
    "drop (tl_data_offset (table_layout t T_TypeDef)) (tb_data t) = drop 10 sample_body"
    using sample_stream_parses by metis
  have small: "row_count t T_TypeDef < u32_max" and col: "5 < length (columns_of T_TypeDef)"
    using p(2) by (simp_all add: u32_max_def row_defs)
  have l: "list_limit t T_MethodDef = 2"
    by (simp add: list_limit_def logical_row_count_def TableId_ptr_source_def p(3,4) u32_max_def)
  have o: "owns t T_TypeDef 5 T_MethodDef rid m \<longleftrightarrow> rid = 1 \<and> m = 1" for rid m
    by (auto simp: owns_def run_start_def p(2) l sample_method_list [OF p(5,6), unfolded One_nat_def])
  have "owner_of_list t T_TypeDef 5 T_MethodDef 1 = Ok (Some 1)" "owner_of_list t T_TypeDef 5 T_MethodDef 2 = Ok None"
    using owner_of_list_exact [OF sample_stream_slice sample_stream_fits p(1) col small, of T_MethodDef 1]
      owner_of_list_exact [OF sample_stream_slice sample_stream_fits p(1) col small, of T_MethodDef 2]
    by (auto simp: o split: option.splits)
  with p(1) show ?thesis by blast
qed

text \<open>Where a list column does not decrease the runs of the owners partition the members from the
  first run on: every such member has exactly one owner, and the lookup finds it.\<close>

lemma list_runs_partition:
  assumes "slice_ok dat" and "base + length dat \<le> usize_max"
    and "tables_parse dat base unc st diags = Ok (t, ds)" and "c < length (columns_of owner)"
    and "list_ascending t owner c" and "0 < row_count t owner"
    and "run_start t owner c target 1 \<le> m" and "m < list_limit t target" and "row_count t owner < u32_max"
  shows "\<exists>rid. owner_of_list t owner c target m = Ok (Some rid)
     \<and> (\<forall>rid'. owns t owner c target rid' m \<longleftrightarrow> rid' = rid)"
proof -
  obtain h rc where wf: "tables_wf (stream_width h rc) t" using tables_parse_wf(2) [OF assms(1-3)] by blast
  obtain x where "owner_of_list t owner c target m = Ok x"
    "case x of Some rid \<Rightarrow> owns t owner c target rid m | None \<Rightarrow> \<forall>rid. \<not> owns t owner c target rid m"
    using owner_of_list_spec [OF wf assms(4,9)] by blast
  then show ?thesis
    using owner_exists [OF assms(6-8)] owner_unique [OF assms(5)] by (cases x) auto
qed

lemma sort_key_coded_column:
  "sort_key_coded table = Some k \<Longrightarrow> sort_key_column table = Some c \<Longrightarrow> columns_of table ! c = CK_Coded k"
  by (cases table) (auto simp: sort_key_coded_def sort_key_column_def row_defs)

lemma encoded_rid_small:
  assumes "coded_encode k tok = Some v"
  shows "unat (drop_bit (tag_bits k) v) < 2 ^ 24"
proof -
  obtain t tag where p: "position (\<lambda>x. x = Some t) (coded_tables k) = Some tag"
    and v: "v = push_bit (tag_bits k) (token_rid tok) OR of_nat tag"
    using assms by (auto simp: coded_encode_Some)
  have "tag < 2 ^ tag_bits k" using p coded_tables_fit [of k] by (auto simp: position_Some_iff)
  then have "drop_bit (tag_bits k) v = take_bit (32 - tag_bits k) (token_rid tok)"
    unfolding v by (rule join_tag(2) [OF _ tag_bits_bounds(2)])
  moreover have "unat (take_bit n (token_rid tok)) \<le> unat (token_rid tok)" for n
    by (simp add: unsigned_take_bit_eq take_bit_nat_less_eq_self)
  ultimately show ?thesis using token_rid_less [of tok] by (metis le_less_trans)
qed

text \<open>C38: The rows of a parent, in a table keyed by a coded index (of fewer than \<open>2 ^ 32 - 1\<close> rows): the
  key column is of the kind the lookup encodes for, and the row ids found are, in order, those whose
  key column decodes to the parent and names it by a row id of 24 bits. A parent the kind cannot hold
  has none, and a row whose longer row id only decodes to the parent because a token keeps 24 bits of
  it is not found.\<close>

theorem rows_for_parent_exact:
  assumes "slice_ok dat" and "base + length dat \<le> usize_max"
    and "tables_parse dat base unc st diags = Ok (t, ds)" and "row_count t table < u32_max"
    and "sort_key_coded table = Some k" and "sort_key_column table = Some c"
  shows "columns_of table ! c = CK_Coded k
     \<and> rows_for_parent t table parent =
         Ok (filter (\<lambda>rid. coded_decode k (cell t table rid c) off = Ok parent
               \<and> unat (drop_bit (tag_bits k) (cell t table rid c)) < 2 ^ 24) [1..<row_count t table + 1])
     \<and> (coded_encode k parent = None \<longrightarrow> rows_for_parent t table parent = Ok [])"
proof -
  obtain h rc where wf: "tables_wf (stream_width h rc) t" and s: "is_sorted t table \<longleftrightarrow> key_sorted t table"
    using tables_parse_wf(2) [OF assms(1-3)] by blast
  note rows = rows_with_key_all [OF wf _ assms(4,6)]
  have found: "coded_decode k v off = Ok parent \<and> unat (drop_bit (tag_bits k) v) < 2 ^ 24
      \<longleftrightarrow> coded_encode k parent = Some v" for v
    using encode_then_decode decode_then_encode encoded_rid_small by blast
  show ?thesis
  proof (cases "coded_encode k parent")
    case None
    then have "rows_for_parent t table parent = Ok []" using assms(5) by (simp add: rows_for_parent_def sort_key_for_def)
    then show ?thesis unfolding found None using sort_key_coded_column [OF assms(5,6)] by simp
  next
    case (Some key)
    then have "rows_for_parent t table parent = Ok (matching_rows t table c key)"
      using rows s assms(5) by (simp add: rows_for_parent_def sort_key_for_def)
    moreover have "matching_rows t table c key = filter (\<lambda>rid. Some key = Some (cell t table rid c)) [1..<row_count t table + 1]"
      unfolding matching_rows_def by (intro filter_cong) auto
    ultimately show ?thesis unfolding found Some using sort_key_coded_column [OF assms(5,6)] by simp
  qed
qed

theorem rows_for_parent_exact_witness:
  "\<exists>t ds. tables_parse keyed_stream 0 False Strict [] = Ok (t, ds)
     \<and> rows_for_parent t T_FieldMarshal (Token 0x04000002) = Ok [2]
     \<and> rows_for_parent t T_FieldMarshal (Token 0x04000003) = Ok []"
proof -
  obtain t ds where p: "tables_parse keyed_stream 0 False Strict [] = Ok (t, ds)" "row_count t T_FieldMarshal = 2"
    "cell t T_FieldMarshal 1 0 = 2" "cell t T_FieldMarshal 2 0 = 4"
    by (rule keyed_stream_parses)
  have small: "row_count t T_FieldMarshal < u32_max" using p(2) by (simp add: u32_max_def)
  have keys: "sort_key_coded T_FieldMarshal = Some C_HasFieldMarshal" "sort_key_column T_FieldMarshal = Some 0"
    by (simp_all add: sort_key_coded_def sort_key_column_def)
  note r = rows_for_parent_exact [OF keyed_stream_slice keyed_stream_fits p(1) small keys, THEN conjunct2, THEN conjunct1]
  have d: "coded_decode C_HasFieldMarshal 2 0 = Ok (Token 0x04000001)" "coded_decode C_HasFieldMarshal 4 0 = Ok (Token 0x04000002)"
    by (simp_all add: coded_decode_def tag_mask_def get_at_def token_new_def RID_MASK_def)
  have u: "[1..<2 + 1 :: nat] = [1, 2]" by (simp add: upt_rec)
  show ?thesis
    using p(1) r [of "Token 0x04000002" 0] r [of "Token 0x04000003" 0] unfolding p(2) u by (auto simp: p(4) p(3) [unfolded One_nat_def] d)
qed

end
