(* ===== verification/Pe.thy ===== *)
theory Pe
  imports Codec Heaps Rows Body
begin

text \<open>
  The PE container (\<open>src/pe.rs\<close>): parsing the headers and the section table, RVA translation,
  the CLI header, and \<open>MethodBody::from_image\<close> of \<open>src/body.rs\<close>. Fields that are
  inspected bit by bit or compared as \<open>u32\<close> are words; file offsets are \<open>nat\<close>. The
  plain getters are the selectors of the records.
\<close>

section \<open>Data\<close>

definition CTX_PE :: string where
  "CTX_PE = ''PE image''"

definition CLI_HEADER_DIRECTORY :: nat where
  "CLI_HEADER_DIRECTORY = 14"

record DataDirectory =
  dd_rva :: u32
  dd_size :: u32

definition dd_is_empty :: "DataDirectory \<Rightarrow> bool" where
  "dd_is_empty d \<longleftrightarrow> dd_rva d = 0 \<and> dd_size d = 0"

definition dd_default :: DataDirectory where
  "dd_default = \<lparr>dd_rva = 0, dd_size = 0\<rparr>"

record Section =
  sec_name_bytes :: bytes
  sec_virtual_size :: u32
  sec_virtual_address :: u32
  sec_size_of_raw_data :: u32
  sec_pointer_to_raw_data :: u32
  sec_characteristics :: u32

definition section_name :: "Section \<Rightarrow> bytes option" where
  "section_name s =
     (let e = (case position (\<lambda>b. b = 0) (sec_name_bytes s) of Some n \<Rightarrow> n | None \<Rightarrow> 8);
          name = take e (sec_name_bytes s) in
      if utf8_valid_up_to name = length name then Some name else None)"

definition mapped_size :: "Section \<Rightarrow> u32" where
  "mapped_size s = (if sec_virtual_size s = 0 then sec_size_of_raw_data s else sec_virtual_size s)"

definition contains_rva :: "Section \<Rightarrow> u32 \<Rightarrow> bool" where
  "contains_rva s rva \<longleftrightarrow>
     (let e = u32_saturating_add (sec_virtual_address s) (mapped_size s)
      in sec_virtual_address s \<le> rva \<and> rva < e)"

text \<open>\<open>CliFlags\<close> is its \<open>u32\<close>.\<close>

definition cli_flag :: "u32 \<Rightarrow> u32 \<Rightarrow> bool" where
  "cli_flag mask_bit flags \<longleftrightarrow> flags AND mask_bit \<noteq> 0"

definition il_only where "il_only = cli_flag 0x00000001"
definition requires_32bit where "requires_32bit = cli_flag 0x00000002"
definition il_library where "il_library = cli_flag 0x00000004"
definition strong_name_signed where "strong_name_signed = cli_flag 0x00000008"
definition native_entry_point where "native_entry_point = cli_flag 0x00000010"
definition track_debug_data where "track_debug_data = cli_flag 0x00010000"
definition prefers_32bit where "prefers_32bit = cli_flag 0x00020000"

datatype EntryPoint = EP_None | EP_Token Token | EP_Rva u32

record CliHeader =
  cli_size :: u32
  cli_major_runtime_version :: u16
  cli_minor_runtime_version :: u16
  cli_metadata :: DataDirectory
  cli_flags :: u32
  cli_entry_point :: EntryPoint
  cli_resources :: DataDirectory
  cli_strong_name_signature :: DataDirectory
  cli_code_manager_table :: DataDirectory
  cli_vtable_fixups :: DataDirectory
  cli_export_address_table_jumps :: DataDirectory
  cli_managed_native_header :: DataDirectory

record PeImage =
  pe_bytes :: bytes
  pe_strictness :: Strictness
  pe_diagnostics :: "diagnostic list"
  pe_machine :: u16
  pe_characteristics :: u16
  pe_is_pe32_plus :: bool
  pe_image_base :: u64
  pe_section_alignment :: u32
  pe_file_alignment :: u32
  pe_size_of_image :: u32
  pe_size_of_headers :: u32
  pe_subsystem :: u16
  pe_dll_characteristics :: u16
  pe_entry_point_rva :: u32
  pe_data_directories :: "DataDirectory list"
  pe_sections :: "Section list"

section \<open>Reading the headers\<close>

text \<open>The two signatures; the reader is left behind the second.\<close>

definition read_signatures :: "reader \<Rightarrow> (nat \<times> reader) result" where
  "read_signatures r =
     res_bind (reader_take 2 r) (\<lambda>(mz, r).
     if mz \<noteq> [0x4D, 0x5A] then Err (error_new Malformed 0 CTX_PE)
     else
     res_bind (reader_seek r 0x3C) (\<lambda>r.
     res_bind (reader_u32 r) (\<lambda>(pe_offset, r).
     res_bind (reader_seek r (unat pe_offset)) (\<lambda>r.
     res_bind (reader_take 4 r) (\<lambda>(pe, r).
     if pe \<noteq> [0x50, 0x45, 0, 0] then Err (error_new Malformed (unat pe_offset) CTX_PE)
     else Ok (unat pe_offset, r))))))"

definition read_coff_header :: "reader \<Rightarrow> ((u16 \<times> u16 \<times> u16 \<times> u16) \<times> reader) result" where
  "read_coff_header r =
     res_bind (reader_u16 r) (\<lambda>(machine, r).
     res_bind (reader_u16 r) (\<lambda>(number_of_sections, r).
     res_bind (reader_u32 r) (\<lambda>(_, r).
     res_bind (reader_u32 r) (\<lambda>(_, r).
     res_bind (reader_u32 r) (\<lambda>(_, r).
     res_bind (reader_u16 r) (\<lambda>(size_of_optional_header, r).
     res_bind (reader_u16 r) (\<lambda>(characteristics, r).
     Ok ((machine, number_of_sections, size_of_optional_header, characteristics), r))))))))"

text \<open>Seeking to a fixed distance behind the start of the optional header.\<close>

definition seek_behind :: "nat \<Rightarrow> nat \<Rightarrow> reader \<Rightarrow> reader result" where
  "seek_behind start k r = res_bind (usize_add start k) (reader_seek r)"

definition read_magic :: "nat \<Rightarrow> reader \<Rightarrow> (bool \<times> reader) result" where
  "read_magic optional_start r =
     res_bind (reader_u16 r) (\<lambda>(magic, r).
     if magic = 0x010B then Ok (False, r)
     else if magic = 0x020B then Ok (True, r)
     else Err (error_new Unsupported optional_start CTX_PE))"

definition read_image_base :: "nat \<Rightarrow> bool \<Rightarrow> reader \<Rightarrow> ((u64 \<times> nat) \<times> reader) result" where
  "read_image_base optional_start is_plus r =
     (if is_plus then
        res_bind (seek_behind optional_start 24 r) (\<lambda>r.
        res_bind (reader_u64 r) (\<lambda>(image_base, r).
        res_bind (usize_add optional_start 108) (\<lambda>dir_count_offset. Ok ((image_base, dir_count_offset), r))))
      else
        res_bind (seek_behind optional_start 28 r) (\<lambda>r.
        res_bind (reader_u32 r) (\<lambda>(image_base, r).
        res_bind (usize_add optional_start 92) (\<lambda>dir_count_offset. Ok ((ucast image_base, dir_count_offset), r)))))"

record optional_header =
  oh_plus :: bool
  oh_entry_point_rva :: u32
  oh_image_base :: u64
  oh_section_alignment :: u32
  oh_file_alignment :: u32
  oh_size_of_image :: u32
  oh_size_of_headers :: u32
  oh_subsystem :: u16
  oh_dll_characteristics :: u16

definition read_optional_header :: "nat \<Rightarrow> reader \<Rightarrow> ((optional_header \<times> nat) \<times> reader) result" where
  "read_optional_header optional_start r =
     res_bind (read_magic optional_start r) (\<lambda>(is_plus, r).
     res_bind (seek_behind optional_start 16 r) (\<lambda>r.
     res_bind (reader_u32 r) (\<lambda>(entry_point_rva, r).
     res_bind (read_image_base optional_start is_plus r) (\<lambda>((image_base, dir_count_offset), r).
     res_bind (reader_u32 r) (\<lambda>(section_alignment, r).
     res_bind (reader_u32 r) (\<lambda>(file_alignment, r).
     res_bind (seek_behind optional_start 56 r) (\<lambda>r.
     res_bind (reader_u32 r) (\<lambda>(size_of_image, r).
     res_bind (reader_u32 r) (\<lambda>(size_of_headers, r).
     res_bind (seek_behind optional_start 68 r) (\<lambda>r.
     res_bind (reader_u16 r) (\<lambda>(subsystem, r).
     res_bind (reader_u16 r) (\<lambda>(dll_characteristics, r).
     Ok ((\<lparr>oh_plus = is_plus, oh_entry_point_rva = entry_point_rva, oh_image_base = image_base,
           oh_section_alignment = section_alignment, oh_file_alignment = file_alignment,
           oh_size_of_image = size_of_image, oh_size_of_headers = size_of_headers,
           oh_subsystem = subsystem, oh_dll_characteristics = dll_characteristics\<rparr>,
          dir_count_offset), r)))))))))))))"

definition read_dir :: "reader \<Rightarrow> (DataDirectory \<times> reader) result" where
  "read_dir r =
     res_bind (reader_u32 r) (\<lambda>(rva, r).
     res_bind (reader_u32 r) (\<lambda>(sz, r).
     Ok (\<lparr>dd_rva = rva, dd_size = sz\<rparr>, r)))"

fun read_n :: "(reader \<Rightarrow> ('a \<times> reader) result) \<Rightarrow> nat \<Rightarrow> reader \<Rightarrow> ('a list \<times> reader) result" where
  "read_n rd 0 r = Ok ([], r)"
| "read_n rd (Suc n) r =
     res_bind (rd r) (\<lambda>(x, r). res_bind (read_n rd n r) (\<lambda>(xs, r). Ok (x # xs, r)))"

definition read_directories :: "nat \<Rightarrow> reader \<Rightarrow> (DataDirectory list \<times> reader) result" where
  "read_directories dir_count_offset r =
     res_bind (reader_seek r dir_count_offset) (\<lambda>r.
     res_bind (reader_u32 r) (\<lambda>(declared_dirs, r).
     res_bind (reader_remaining r) (\<lambda>remaining.
     read_n read_dir (min (min (unat declared_dirs) 16) (remaining div 8)) r)))"

definition read_section_fields :: "reader \<Rightarrow> (Section \<times> reader) result" where
  "read_section_fields r =
     res_bind (reader_take 8 r) (\<lambda>(name_bytes, r).
     res_bind (reader_u32 r) (\<lambda>(virtual_size, r).
     res_bind (reader_u32 r) (\<lambda>(virtual_address, r).
     res_bind (reader_u32 r) (\<lambda>(size_of_raw_data, r).
     res_bind (reader_u32 r) (\<lambda>(pointer_to_raw_data, r).
     res_bind (reader_u32 r) (\<lambda>(_, r).
     res_bind (reader_u32 r) (\<lambda>(_, r).
     res_bind (reader_u16 r) (\<lambda>(_, r).
     res_bind (reader_u16 r) (\<lambda>(_, r).
     res_bind (reader_u32 r) (\<lambda>(characteristics, r).
     Ok (\<lparr>sec_name_bytes = name_bytes, sec_virtual_size = virtual_size,
          sec_virtual_address = virtual_address, sec_size_of_raw_data = size_of_raw_data,
          sec_pointer_to_raw_data = pointer_to_raw_data, sec_characteristics = characteristics\<rparr>, r)))))))))))"

text \<open>A section whose file range ends behind the file is rejected or cut.\<close>

definition clamp_section :: "Strictness \<Rightarrow> nat \<Rightarrow> nat \<Rightarrow> Section \<Rightarrow> (Section \<times> diagnostic list) result" where
  "clamp_section strictness file_len at s =
     (let raw_end = unat (sec_pointer_to_raw_data s) + unat (sec_size_of_raw_data s) in
      if file_len < raw_end then
        if is_strict strictness then Err (error_new Truncated at CTX_PE)
        else
          Ok (s\<lparr>sec_size_of_raw_data :=
                of_nat (min (saturating_sub file_len (unat (sec_pointer_to_raw_data s))) u32_max)\<rparr>,
              [diagnostic_new SectionRangeClamped at raw_end])
      else Ok (s, []))"

definition read_section :: "Strictness \<Rightarrow> nat \<Rightarrow> reader \<Rightarrow> ((Section \<times> diagnostic list) \<times> reader) result" where
  "read_section strictness file_len r =
     (let at = reader_absolute r in
      res_bind (read_section_fields r) (\<lambda>(s, r).
      res_bind (clamp_section strictness file_len at s) (\<lambda>sd. Ok (sd, r))))"

definition read_sections ::
    "Strictness \<Rightarrow> nat \<Rightarrow> nat \<Rightarrow> nat \<Rightarrow> reader \<Rightarrow> ((Section \<times> diagnostic list) list \<times> reader) result" where
  "read_sections strictness file_len sections_offset number_of_sections r =
     res_bind (reader_seek r sections_offset) (\<lambda>r.
     res_bind (reader_remaining r) (\<lambda>remaining.
     let section_count = min number_of_sections (remaining div 40) in
     if is_strict strictness \<and> section_count \<noteq> number_of_sections
     then Err (error_new Truncated sections_offset CTX_PE)
     else read_n (read_section strictness file_len) section_count r))"

definition pe_parse_with :: "bytes \<Rightarrow> Strictness \<Rightarrow> PeImage result" where
  "pe_parse_with bs strictness =
     res_bind (read_signatures (reader_new bs 0 CTX_PE)) (\<lambda>(_, r).
     res_bind (read_coff_header r)
       (\<lambda>((machine, number_of_sections, size_of_optional_header, characteristics), r).
     let optional_start = r_pos r in
     res_bind (read_optional_header optional_start r) (\<lambda>((oh, dir_count_offset), r).
     res_bind (read_directories dir_count_offset r) (\<lambda>(data_directories, r).
     res_bind (ok_or (checked_add optional_start (unat size_of_optional_header))
                 (error_new Malformed optional_start CTX_PE)) (\<lambda>sections_offset.
     res_bind (read_sections strictness (length bs) sections_offset (unat number_of_sections) r) (\<lambda>(sds, r).
     Ok \<lparr>pe_bytes = bs, pe_strictness = strictness, pe_diagnostics = concat (map snd sds),
         pe_machine = machine, pe_characteristics = characteristics, pe_is_pe32_plus = oh_plus oh,
         pe_image_base = oh_image_base oh, pe_section_alignment = oh_section_alignment oh,
         pe_file_alignment = oh_file_alignment oh, pe_size_of_image = oh_size_of_image oh,
         pe_size_of_headers = oh_size_of_headers oh, pe_subsystem = oh_subsystem oh,
         pe_dll_characteristics = oh_dll_characteristics oh, pe_entry_point_rva = oh_entry_point_rva oh,
         pe_data_directories = data_directories, pe_sections = map fst sds\<rparr>))))))"

definition pe_parse :: "bytes \<Rightarrow> PeImage result" where
  "pe_parse bs = pe_parse_with bs Permissive"

section \<open>RVA translation\<close>

definition data_directory :: "PeImage \<Rightarrow> nat \<Rightarrow> DataDirectory" where
  "data_directory img index =
     (case get_at (pe_data_directories img) index of Some d \<Rightarrow> d | None \<Rightarrow> dd_default)"

text \<open>The loop over the sections stops at the first one that contains the RVA.\<close>

definition rva_to_offset :: "PeImage \<Rightarrow> u32 \<Rightarrow> nat option" where
  "rva_to_offset img rva =
     (case find (\<lambda>s. contains_rva s rva) (pe_sections img) of
        Some s \<Rightarrow>
          (let delta = rva - sec_virtual_address s in
           if sec_size_of_raw_data s \<le> delta then None
           else Option.bind (checked_add (unat (sec_pointer_to_raw_data s)) (unat delta)) (\<lambda>offset.
             if offset \<le> length (pe_bytes img) then Some offset else None))
      | None \<Rightarrow>
          if rva < pe_size_of_headers img \<and> unat rva < length (pe_bytes img) then Some (unat rva) else None)"

definition rva_available :: "PeImage \<Rightarrow> u32 \<Rightarrow> nat option" where
  "rva_available img rva =
     (case find (\<lambda>s. contains_rva s rva) (pe_sections img) of
        Some s \<Rightarrow>
          (let delta = rva - sec_virtual_address s in
           if sec_size_of_raw_data s \<le> delta then None
           else
             let in_section = unat (sec_size_of_raw_data s - delta) in
             Option.bind (checked_add (unat (sec_pointer_to_raw_data s)) (unat delta)) (\<lambda>file_start.
             Option.bind (checked_sub (length (pe_bytes img)) file_start) (\<lambda>in_file.
             Some (min in_section in_file))))
      | None \<Rightarrow>
          if rva < pe_size_of_headers img then
            checked_sub (min (unat (pe_size_of_headers img)) (length (pe_bytes img))) (unat rva)
          else None)"

definition or_zero :: "nat option \<Rightarrow> nat" where
  "or_zero x = (case x of Some n \<Rightarrow> n | None \<Rightarrow> 0)"

definition rva_slice :: "PeImage \<Rightarrow> u32 \<Rightarrow> nat \<Rightarrow> bytes result" where
  "rva_slice img rva len =
     res_bind (ok_or (rva_to_offset img rva) (error_detached OutOfRange ''RVA'')) (\<lambda>offset.
     let available = or_zero (rva_available img rva) in
     if available < len then Err (error_new OutOfRange offset ''RVA'')
     else
     res_bind (ok_or (checked_add offset len) (error_new OutOfRange offset ''RVA'')) (\<lambda>e.
     ok_or (get_range (pe_bytes img) offset e) (error_new Truncated offset ''RVA'')))"

definition rva_rest :: "PeImage \<Rightarrow> u32 \<Rightarrow> bytes result" where
  "rva_rest img rva =
     res_bind (ok_or (rva_available img rva) (error_detached OutOfRange ''RVA'')) (rva_slice img rva)"

section \<open>The CLI header\<close>

definition read_cli_dirs :: "reader \<Rightarrow> ((DataDirectory \<times> DataDirectory \<times> DataDirectory \<times> DataDirectory
    \<times> DataDirectory \<times> DataDirectory) \<times> reader) result" where
  "read_cli_dirs r =
     res_bind (read_dir r) (\<lambda>(resources, r).
     res_bind (read_dir r) (\<lambda>(strong_name_signature, r).
     res_bind (read_dir r) (\<lambda>(code_manager_table, r).
     res_bind (read_dir r) (\<lambda>(vtable_fixups, r).
     res_bind (read_dir r) (\<lambda>(export_address_table_jumps, r).
     res_bind (read_dir r) (\<lambda>(managed_native_header, r).
     Ok ((resources, strong_name_signature, code_manager_table, vtable_fixups,
          export_address_table_jumps, managed_native_header), r)))))))"

definition read_cli_header :: "reader \<Rightarrow> (CliHeader \<times> reader) result" where
  "read_cli_header r =
     res_bind (reader_u32 r) (\<lambda>(sz, r).
     res_bind (reader_u16 r) (\<lambda>(major_runtime_version, r).
     res_bind (reader_u16 r) (\<lambda>(minor_runtime_version, r).
     res_bind (read_dir r) (\<lambda>(metadata, r).
     res_bind (reader_u32 r) (\<lambda>(flags, r).
     res_bind (reader_u32 r) (\<lambda>(entry_point_raw, r).
     res_bind (read_cli_dirs r) (\<lambda>((resources, strong_name_signature, code_manager_table, vtable_fixups,
          export_address_table_jumps, managed_native_header), r).
     Ok (\<lparr>cli_size = sz, cli_major_runtime_version = major_runtime_version,
          cli_minor_runtime_version = minor_runtime_version, cli_metadata = metadata, cli_flags = flags,
          cli_entry_point =
            (if entry_point_raw = 0 then EP_None
             else if native_entry_point flags then EP_Rva entry_point_raw
             else EP_Token (Token entry_point_raw)),
          cli_resources = resources, cli_strong_name_signature = strong_name_signature,
          cli_code_manager_table = code_manager_table, cli_vtable_fixups = vtable_fixups,
          cli_export_address_table_jumps = export_address_table_jumps,
          cli_managed_native_header = managed_native_header\<rparr>, r))))))))"

definition cli_header :: "PeImage \<Rightarrow> CliHeader result" where
  "cli_header img =
     (let dir = data_directory img CLI_HEADER_DIRECTORY in
      if dd_is_empty dir then Err (error_detached Malformed ''CLI header'')
      else
      res_bind (rva_slice img (dd_rva dir) (min 72 (or_zero (rva_available img (dd_rva dir))))) (\<lambda>bs.
      let base = or_zero (rva_to_offset img (dd_rva dir)) in
      res_bind (read_cli_header (reader_new bs base ''CLI header'')) (\<lambda>(header, _).
      if cli_size header \<noteq> 72 \<and> is_strict (pe_strictness img)
      then Err (error_new Malformed base ''CLI header'')
      else Ok header)))"

definition cli_header_diagnostics :: "PeImage \<Rightarrow> diagnostic list result" where
  "cli_header_diagnostics img =
     (case cli_header img of
        Ok header \<Rightarrow>
          (let base = or_zero (rva_to_offset img (dd_rva (data_directory img CLI_HEADER_DIRECTORY))) in
           Ok ((if cli_size header \<noteq> 72 then [diagnostic_new CliHeaderSize base (unat (cli_size header))] else [])
             @ (if prefers_32bit (cli_flags header) \<and> \<not> requires_32bit (cli_flags header)
                then [diagnostic_new BitnessFlagsInconsistent base (unat (cli_flags header))] else [])))
      | Err _ \<Rightarrow> Ok []
      | Panic \<Rightarrow> Panic)"

definition entry_point_token :: "PeImage \<Rightarrow> Token option result" where
  "entry_point_token img =
     (case cli_header img of
        Ok header \<Rightarrow>
          Ok (case cli_entry_point header of
                EP_Token t \<Rightarrow> if token_table t = Some T_MethodDef then Some t else None
              | _ \<Rightarrow> None)
      | Err _ \<Rightarrow> Ok None
      | Panic \<Rightarrow> Panic)"

text \<open>The metadata region the CLI header names: its bytes and its file offset.\<close>

definition metadata_region :: "PeImage \<Rightarrow> (bytes \<times> nat) result" where
  "metadata_region img =
     res_bind (cli_header img) (\<lambda>header.
     let dir = cli_metadata header in
     if dd_is_empty dir then Err (error_detached Malformed ''metadata directory'')
     else
     res_bind (ok_or (rva_available img (dd_rva dir)) (error_detached OutOfRange ''metadata directory''))
       (\<lambda>available.
     res_bind (rva_slice img (dd_rva dir) (min (unat (dd_size dir)) available)) (\<lambda>bs.
     Ok (bs, or_zero (rva_to_offset img (dd_rva dir))))))"

section \<open>Method bodies of an image\<close>

definition from_image :: "PeImage \<Rightarrow> MethodDefRow \<Rightarrow> MethodBody option result" where
  "from_image img meth =
     (if has_no_body meth then Ok None
      else
      res_bind (rva_rest img (method_def_rva meth)) (\<lambda>bs.
      res_bind (parse_with bs (method_def_rva meth) (pe_strictness img)) (\<lambda>b. Ok (Some b))))"

section \<open>Reads that may seek\<close>

text \<open>
  Like \<open>rd_safe\<close>, but a read may move the cursor anywhere inside the slice: the headers are
  read by seeking.
\<close>

definition rd_in :: "(reader \<Rightarrow> ('a \<times> reader) result) \<Rightarrow> bool" where
  "rd_in rd \<longleftrightarrow> (\<forall>r. reader_wf r \<longrightarrow> no_panic (rd r) \<and>
     (\<forall>x r'. rd r = Ok (x, r') \<longrightarrow> reader_wf r' \<and> r_data r' = r_data r))"

named_theorems in_intro \<open>reads that stay inside the slice\<close>

lemma rd_inD:
  assumes "rd_in rd" and "reader_wf r"
  shows "no_panic (rd r)" and "rd r = Ok (x, r') \<Longrightarrow> reader_wf r' \<and> r_data r' = r_data r"
  using assms unfolding rd_in_def by blast+

lemma rd_inI:
  "(\<And>r. reader_wf r \<Longrightarrow> no_panic (rd r))
   \<Longrightarrow> (\<And>r x r'. reader_wf r \<Longrightarrow> rd r = Ok (x, r') \<Longrightarrow> reader_wf r' \<and> r_data r' = r_data r) \<Longrightarrow> rd_in rd"
  unfolding rd_in_def by blast

lemma in_safe: "rd_safe rd \<Longrightarrow> rd_in rd"
proof (rule rd_inI)
  assume f: "rd_safe rd"
  fix r assume w: "reader_wf r"
  show "no_panic (rd r)" by (rule rd_safeD(1) [OF f w])
  fix x r' assume "rd r = Ok (x, r')"
  with rd_safeD(2,3) [OF f w this] show "reader_wf r' \<and> r_data r' = r_data r" by (simp add: moves_def)
qed

lemma in_case [in_intro]: "(\<And>a b. rd_in (f a b)) \<Longrightarrow> rd_in (case x of (a, b) \<Rightarrow> f a b)"
  by (cases x) simp

lemmas in_reads [in_intro] = safe_reads [THEN in_safe] safe_return [THEN in_safe] safe_fail [THEN in_safe]

lemma in_if [in_intro]: "rd_in f \<Longrightarrow> rd_in g \<Longrightarrow> rd_in (\<lambda>r. if b then f r else g r)"
  by (cases b) auto

lemma in_bind [in_intro]:
  assumes "rd_in rd" and "\<And>x. rd_in (f x)"
  shows "rd_in (\<lambda>r. res_bind (rd r) (\<lambda>(x, r). f x r))"
proof (rule rd_inI)
  fix r assume w: "reader_wf r"
  note a = rd_inD [OF assms(1) w]
  show "no_panic (res_bind (rd r) (\<lambda>(x, r). f x r))"
    using a(1) rd_inD(1) [OF assms(2)] a(2) by (cases "rd r") auto
  fix y r' assume "res_bind (rd r) (\<lambda>(x, r). f x r) = Ok (y, r')"
  then obtain x r1 where 1: "rd r = Ok (x, r1)" "f x r1 = Ok (y, r')" by (auto simp: res_bind_Ok_iff)
  from a(2) [OF 1(1)] have r1: "reader_wf r1" "r_data r1 = r_data r" by auto
  from rd_inD(2) [OF assms(2) r1(1) 1(2)] show "reader_wf r' \<and> r_data r' = r_data r" by (simp add: r1(2))
qed

lemma in_seek [in_intro]: "rd_in f \<Longrightarrow> rd_in (\<lambda>r. res_bind (reader_seek r p) f)"
proof (rule rd_inI)
  fix r assume f: "rd_in f" and w: "reader_wf r"
  have r1: "reader_wf r1 \<and> r_data r1 = r_data r" if "reader_seek r p = Ok r1" for r1
    using that w by (auto simp: reader_seek_iff reader_wf_def)
  have "no_panic (reader_seek r p)" by (simp add: reader_seek_def)
  then show "no_panic (res_bind (reader_seek r p) f)" using r1 rd_inD(1) [OF f] by (cases "reader_seek r p") auto
  fix x r' assume "res_bind (reader_seek r p) f = Ok (x, r')"
  then obtain r1 where 1: "reader_seek r p = Ok r1" "f r1 = Ok (x, r')" by (auto simp: res_bind_Ok_iff)
  from rd_inD(2) [OF f _ 1(2)] r1 [OF 1(1)] show "reader_wf r' \<and> r_data r' = r_data r" by simp
qed

lemma in_seek_behind:
  "start + k \<le> usize_max \<Longrightarrow> rd_in f \<Longrightarrow> rd_in (\<lambda>r. res_bind (seek_behind start k r) f)"
  using in_seek [of f "start + k"] by (simp add: seek_behind_def usize_add_def)

lemma in_usize_add: "a + b \<le> usize_max \<Longrightarrow> rd_in (f (a + b)) \<Longrightarrow> rd_in (\<lambda>r. res_bind (usize_add a b) (\<lambda>n. f n r))"
  by (simp add: usize_add_def)

lemma in_remaining [in_intro]:
  "(\<And>n. rd_in (f n)) \<Longrightarrow> rd_in (\<lambda>r. res_bind (reader_remaining r) (\<lambda>n. f n r))"
  by (rule rd_inI) (auto simp: reader_remaining_wf dest: rd_inD)

lemma in_read_n [in_intro]:
  assumes "rd_in rd"
  shows "rd_in (read_n rd n)"
proof (induction n)
  case (Suc n)
  have "rd_in (\<lambda>r. res_bind (rd r) (\<lambda>(x, r). (\<lambda>x r. res_bind (read_n rd n r) (\<lambda>(xs, r). Ok (x # xs, r))) x r))"
    by (intro in_intro assms Suc)
  then show ?case by simp
qed (simp add: in_intro)

lemma signatures_in: "rd_in read_signatures"
  unfolding read_signatures_def [abs_def] by (intro in_intro)

lemma coff_in: "rd_in read_coff_header"
  unfolding read_coff_header_def [abs_def] by (intro in_intro)

lemma magic_in: "rd_in (read_magic start)"
  unfolding read_magic_def [abs_def] by (intro in_intro)

lemma image_base_in: "start + 108 \<le> usize_max \<Longrightarrow> rd_in (read_image_base start p)"
  unfolding read_image_base_def [abs_def]
  by (intro in_intro in_seek_behind in_usize_add) simp_all

lemma optional_header_in: "start + 108 \<le> usize_max \<Longrightarrow> rd_in (read_optional_header start)"
  unfolding read_optional_header_def [abs_def]
  by (intro in_intro in_seek_behind magic_in image_base_in) simp_all

lemma dir_in: "rd_in read_dir"
  unfolding read_dir_def [abs_def] by (intro in_intro)

lemma directories_in: "rd_in (read_directories off)"
  unfolding read_directories_def [abs_def] by (intro in_intro dir_in)

lemma section_fields_in: "rd_in read_section_fields"
  unfolding read_section_fields_def [abs_def] by (intro in_intro)

lemma clamp_section_total: "no_panic (clamp_section st n at s)"
  by (simp add: clamp_section_def Let_def)

lemma section_in: "rd_in (read_section st n)"
proof (rule rd_inI)
  fix r assume w: "reader_wf r"
  note a = rd_inD [OF section_fields_in w]
  show "no_panic (read_section st n r)"
    using a(1) clamp_section_total by (auto simp: read_section_def Let_def res_iff)
  fix x r' assume "read_section st n r = Ok (x, r')"
  then obtain s where "read_section_fields r = Ok (s, r')" by (auto simp: read_section_def Let_def res_bind_Ok_iff)
  from a(2) [OF this] show "reader_wf r' \<and> r_data r' = r_data r" .
qed

lemma sections_in: "rd_in (read_sections st n off k)"
  unfolding read_sections_def [abs_def] Let_def by (intro in_intro section_in)

section \<open>Parsed images\<close>

text \<open>What file bytes a section has, it has inside the file.\<close>

definition section_in_file :: "nat \<Rightarrow> Section \<Rightarrow> bool" where
  "section_in_file n s \<longleftrightarrow>
     sec_size_of_raw_data s = 0 \<or> unat (sec_pointer_to_raw_data s) + unat (sec_size_of_raw_data s) \<le> n"

definition pe_wf :: "PeImage \<Rightarrow> bool" where
  "pe_wf img \<longleftrightarrow> slice_ok (pe_bytes img) \<and> list_all (section_in_file (length (pe_bytes img))) (pe_sections img)"

lemma clamp_section_in_file:
  assumes "clamp_section st n at s = Ok (s', d)"
  shows "section_in_file n s'"
proof (cases "n < unat (sec_pointer_to_raw_data s) + unat (sec_size_of_raw_data s)")
  case True
  then have s': "s' = s\<lparr>sec_size_of_raw_data := of_nat (min (n - unat (sec_pointer_to_raw_data s)) u32_max)\<rparr>"
    using assms by (auto simp: clamp_section_def Let_def saturating_sub_def split: if_splits)
  have "unat (of_nat (min (n - unat (sec_pointer_to_raw_data s)) u32_max) :: u32) \<le> n - unat (sec_pointer_to_raw_data s)"
    by (simp add: unat_of_nat u32_max_def)
  then show ?thesis unfolding s' section_in_file_def
    by (cases "n \<le> unat (sec_pointer_to_raw_data s)") auto
qed (use assms in \<open>auto simp: clamp_section_def Let_def section_in_file_def split: if_splits\<close>)

lemma read_n_all:
  assumes "read_n rd n r = Ok (xs, r')" and "\<And>r x r'. rd r = Ok (x, r') \<Longrightarrow> P x"
  shows "list_all P xs"
  using assms(1)
proof (induction n arbitrary: r xs)
  case (Suc n)
  then show ?case using assms(2) by (auto simp: res_bind_Ok_iff)
qed simp

lemma read_sections_in_file:
  assumes "read_sections st n off k r = Ok (sds, r')"
  shows "list_all (section_in_file n) (map fst sds)"
proof -
  have "section_in_file n (fst x)" if "read_section st n r = Ok (x, r')" for r x r'
    using that clamp_section_in_file by (cases x) (auto simp: read_section_def Let_def res_bind_Ok_iff)
  then show ?thesis
    using assms read_n_all [of "read_section st n" _ _ _ r' "\<lambda>x. section_in_file n (fst x)"]
    by (fastforce simp: read_sections_def Let_def res_bind_Ok_iff list.pred_map comp_def split: if_splits)
qed

lemma pe_parse_wf:
  assumes "slice_ok bs"
  shows "no_panic (pe_parse_with bs st)"
    and "pe_parse_with bs st = Ok img \<Longrightarrow> pe_wf img \<and> pe_bytes img = bs \<and> pe_strictness img = st"
proof -
  have w: "reader_wf (reader_new bs 0 CTX_PE)" using assms by simp
  have fits: "start + 108 \<le> usize_max" if "reader_wf r" "start = r_pos r" for start r
    using that slice_ok_length [of "r_data r"] by (auto simp: reader_wf_def usize_max_def)
  note a = rd_inD [OF signatures_in w]
  show "no_panic (pe_parse_with bs st)"
    unfolding pe_parse_with_def Let_def case_prod_beta
  proof (intro no_panic_bind res.distinct no_panic_ok_or a(1))
    fix p :: "nat \<times> reader" assume 1: "read_signatures (reader_new bs 0 CTX_PE) = Ok p"
    then have r1: "reader_wf (snd p)" using a(2) [where x = "fst p" and r' = "snd p"] by simp
    show "no_panic (read_coff_header (snd p))" by (rule rd_inD(1) [OF coff_in r1])
    fix q :: "(u16 \<times> u16 \<times> u16 \<times> u16) \<times> reader" assume 2: "read_coff_header (snd p) = Ok q"
    then have r2: "reader_wf (snd q)" using rd_inD(2) [OF coff_in r1, where x = "fst q" and r' = "snd q"] by simp
    note oh = optional_header_in [OF fits [OF r2 refl]]
    show "no_panic (read_optional_header (r_pos (snd q)) (snd q))" by (rule rd_inD(1) [OF oh r2])
    fix o' :: "(optional_header \<times> nat) \<times> reader" assume 3: "read_optional_header (r_pos (snd q)) (snd q) = Ok o'"
    then have r3: "reader_wf (snd o')" using rd_inD(2) [OF oh r2, where x = "fst o'" and r' = "snd o'"] by simp
    show "no_panic (read_directories (snd (fst o')) (snd o'))" by (rule rd_inD(1) [OF directories_in r3])
    fix d :: "DataDirectory list \<times> reader" assume 4: "read_directories (snd (fst o')) (snd o') = Ok d"
    then have r4: "reader_wf (snd d)" using rd_inD(2) [OF directories_in r3, where x = "fst d" and r' = "snd d"] by simp
    show "no_panic (read_sections st (length bs) off k (snd d))" for off k
      by (rule rd_inD(1) [OF sections_in r4])
  qed
  show "pe_wf img \<and> pe_bytes img = bs \<and> pe_strictness img = st" if "pe_parse_with bs st = Ok img"
    using that read_sections_in_file assms
    unfolding pe_parse_with_def Let_def by (fastforce simp: res_bind_Ok_iff pe_wf_def)
qed

section \<open>What an RVA denotes\<close>

text \<open>
  The file bytes behind an RVA: the offset of the first and their number. The first section
  that contains the RVA decides; behind the sections, the headers map to themselves.
\<close>

definition backing :: "PeImage \<Rightarrow> u32 \<Rightarrow> (nat \<times> nat) option" where
  "backing img rva =
     (case find (\<lambda>s. contains_rva s rva) (pe_sections img) of
        Some s \<Rightarrow>
          (let d = unat rva - unat (sec_virtual_address s); n = unat (sec_size_of_raw_data s) in
           if d < n then Some (unat (sec_pointer_to_raw_data s) + d, n - d) else None)
      | None \<Rightarrow>
          (let n = min (unat (pe_size_of_headers img)) (length (pe_bytes img)) in
           if unat rva < n then Some (unat rva, n - unat rva) else None))"

lemma find_in: "find P xs = Some x \<Longrightarrow> x \<in> set xs \<and> P x"
  by (auto simp: find_Some_iff)

lemma section_delta:
  assumes "contains_rva s rva"
  shows "unat (rva - sec_virtual_address s) = unat rva - unat (sec_virtual_address s)"
  using assms by (simp add: contains_rva_def Let_def unat_sub)

lemma u32_sum_fits: "unat (a :: u32) + unat (b :: u32) \<le> usize_max"
  using unsigned_less [of a, where ?'a = nat] unsigned_less [of b, where ?'a = nat]
  by (simp add: usize_max_def)

lemma backing_in_file:
  assumes "pe_wf img" and "backing img rva = Some (off, n)"
  shows "0 < n" and "off + n \<le> length (pe_bytes img)"
proof -
  have "section_in_file (length (pe_bytes img)) s" if "find P (pe_sections img) = Some s" for P s
    using find_in [OF that] assms(1) by (auto simp: pe_wf_def list_all_iff)
  then show "0 < n" "off + n \<le> length (pe_bytes img)"
    using assms(2) unfolding backing_def Let_def section_in_file_def
    by (fastforce split: option.splits if_splits)+
qed

lemma rva_in_section:
  assumes "pe_wf img" and f: "find (\<lambda>s. contains_rva s rva) (pe_sections img) = Some s"
  shows "rva_to_offset img rva = map_option fst (backing img rva)"
    and "rva_available img rva = map_option snd (backing img rva)"
proof -
  have s: "section_in_file (length (pe_bytes img)) s" and c: "contains_rva s rva"
    using find_in [OF f] assms(1) by (auto simp: pe_wf_def list_all_iff)
  note d = section_delta [OF c]
  have lt: "sec_size_of_raw_data s \<le> rva - sec_virtual_address s
      \<longleftrightarrow> unat (sec_size_of_raw_data s) \<le> unat rva - unat (sec_virtual_address s)"
    by (simp add: word_le_nat_alt d)
  have sum: "unat (sec_pointer_to_raw_data s) + (unat rva - unat (sec_virtual_address s)) \<le> usize_max"
    using u32_sum_fits [of "sec_pointer_to_raw_data s" "rva - sec_virtual_address s"] by (simp add: d)
  have n: "unat (sec_size_of_raw_data s - (rva - sec_virtual_address s))
      = unat (sec_size_of_raw_data s) - (unat rva - unat (sec_virtual_address s))"
    if "\<not> sec_size_of_raw_data s \<le> rva - sec_virtual_address s"
    using that by (simp add: unat_sub d)
  show "rva_to_offset img rva = map_option fst (backing img rva)"
    using s by (auto simp: rva_to_offset_def backing_def f Let_def lt d checked_add_def sum section_in_file_def)
  show "rva_available img rva = map_option snd (backing img rva)"
    using s n
    by (auto simp: rva_available_def backing_def f Let_def lt d checked_add_def checked_sub_def sum section_in_file_def)
qed

lemma rva_to_offset_backing:
  assumes "pe_wf img"
  shows "rva_to_offset img rva = map_option fst (backing img rva)"
proof (cases "find (\<lambda>s. contains_rva s rva) (pe_sections img)")
  case None
  then show ?thesis by (auto simp: rva_to_offset_def backing_def Let_def word_less_nat_alt)
qed (rule rva_in_section(1) [OF assms])

lemma rva_available_backing:
  assumes "pe_wf img"
  shows "backing img rva = Some (off, n) \<Longrightarrow> rva_available img rva = Some n"
    and "backing img rva = None \<Longrightarrow> or_zero (rva_available img rva) = 0"
proof -
  have "(backing img rva = Some (off, n) \<longrightarrow> rva_available img rva = Some n)
      \<and> (backing img rva = None \<longrightarrow> or_zero (rva_available img rva) = 0)"
  proof (cases "find (\<lambda>s. contains_rva s rva) (pe_sections img)")
    case None
    then show ?thesis
      by (auto simp: rva_available_def backing_def Let_def word_less_nat_alt checked_sub_def or_zero_def
          split: option.splits)
  next
    case (Some s)
    with rva_in_section(2) [OF assms Some] show ?thesis by (simp add: or_zero_def)
  qed
  then show "backing img rva = Some (off, n) \<Longrightarrow> rva_available img rva = Some n"
    and "backing img rva = None \<Longrightarrow> or_zero (rva_available img rva) = 0" by blast+
qed

lemma rva_slice_backing:
  assumes "pe_wf img"
  shows "rva_slice img rva len =
    (case backing img rva of
       None \<Rightarrow> Err (error_detached OutOfRange ''RVA'')
     | Some (off, n) \<Rightarrow>
         if n < len then Err (error_new OutOfRange off ''RVA'')
         else Ok (take len (drop off (pe_bytes img))))"
proof (cases "backing img rva")
  case None
  then show ?thesis by (simp add: rva_slice_def rva_to_offset_backing [OF assms])
next
  case (Some on)
  obtain off n where b: "backing img rva = Some (off, n)" using Some by (cases on) simp
  have l: "length (pe_bytes img) \<le> 9223372036854775807"
    using assms slice_ok_length by (auto simp: pe_wf_def)
  show ?thesis
    using b l backing_in_file [OF assms b] rva_to_offset_backing [OF assms] rva_available_backing(1) [OF assms b]
    by (auto simp: rva_slice_def or_zero_def checked_add_def get_range_def usize_max_def)
qed

lemma rva_slice_total: "pe_wf img \<Longrightarrow> no_panic (rva_slice img rva len)"
  by (auto simp: rva_slice_backing split: option.split)

lemma rva_rest_backing:
  assumes "pe_wf img"
  shows "rva_rest img rva =
    (case backing img rva of
       None \<Rightarrow> Err (error_detached OutOfRange ''RVA'')
     | Some (off, n) \<Rightarrow> Ok (take n (drop off (pe_bytes img))))"
proof (cases "backing img rva")
  case None
  then show ?thesis
    by (cases "rva_available img rva") (simp_all add: rva_rest_def rva_slice_backing [OF assms])
next
  case (Some on)
  then show ?thesis
    by (cases on) (simp add: rva_rest_def rva_slice_backing [OF assms] rva_available_backing(1) [OF assms])
qed

section \<open>The CLI header and the metadata region\<close>

lemma cli_dirs_in: "rd_in read_cli_dirs"
  unfolding read_cli_dirs_def [abs_def] by (intro in_intro dir_in)

lemma cli_header_in: "rd_in read_cli_header"
  unfolding read_cli_header_def [abs_def] by (intro in_intro dir_in cli_dirs_in)

lemma cli_header_total:
  assumes "pe_wf img"
  shows "no_panic (cli_header img)"
proof -
  have ok: "slice_ok bs" if "rva_slice img rva n = Ok bs" for rva n bs
    using that assms
    by (auto simp: rva_slice_backing [OF assms] pe_wf_def split: option.splits if_splits)
  have rd: "no_panic (read_cli_header (reader_new bs b c))" if "slice_ok bs" for bs b c
    using rd_inD(1) [OF cli_header_in, of "reader_new bs b c"] that by simp
  show ?thesis
    unfolding cli_header_def Let_def case_prod_beta
    by (cases "dd_is_empty (data_directory img CLI_HEADER_DIRECTORY)")
      (auto simp: res_iff rva_slice_total [OF assms] split: if_splits dest!: ok rd)
qed

lemma metadata_region_backing:
  assumes "pe_wf img"
  shows "no_panic (metadata_region img)"
    and "metadata_region img = Ok (bs, base) \<Longrightarrow> \<exists>header n. cli_header img = Ok header
      \<and> backing img (dd_rva (cli_metadata header)) = Some (base, n)
      \<and> bs = take (min (unat (dd_size (cli_metadata header))) n) (drop base (pe_bytes img))"
proof -
  show "no_panic (metadata_region img)"
    unfolding metadata_region_def Let_def
    using cli_header_total [OF assms] rva_slice_total [OF assms] by (simp add: res_iff)
  assume "metadata_region img = Ok (bs, base)"
  then obtain h n where h: "cli_header img = Ok h"
    and n: "rva_available img (dd_rva (cli_metadata h)) = Some n"
    and sl: "rva_slice img (dd_rva (cli_metadata h)) (min (unat (dd_size (cli_metadata h))) n) = Ok bs"
    and b: "base = or_zero (rva_to_offset img (dd_rva (cli_metadata h)))"
    by (auto simp: metadata_region_def Let_def res_iff split: if_splits)
  from sl obtain off k where k: "backing img (dd_rva (cli_metadata h)) = Some (off, k)"
    and bs: "bs = take (min (unat (dd_size (cli_metadata h))) n) (drop off (pe_bytes img))"
    by (auto simp: rva_slice_backing [OF assms] split: option.splits if_splits)
  from rva_available_backing(1) [OF assms k] n have "k = n" by simp
  moreover have "off = base" using b k by (simp add: rva_to_offset_backing [OF assms] or_zero_def)
  ultimately show "\<exists>header n. cli_header img = Ok header
      \<and> backing img (dd_rva (cli_metadata header)) = Some (base, n)
      \<and> bs = take (min (unat (dd_size (cli_metadata header))) n) (drop base (pe_bytes img))"
    using h k bs by blast
qed

lemma metadata_region_in_file:
  assumes "pe_wf img" and "metadata_region img = Ok (bs, base)"
  shows "bs = take (length bs) (drop base (pe_bytes img))" and "base + length bs \<le> length (pe_bytes img)"
    and "slice_ok bs"
proof -
  obtain h :: CliHeader and n where b: "backing img (dd_rva (cli_metadata h)) = Some (base, n)"
    and bs: "bs = take (min (unat (dd_size (cli_metadata h))) n) (drop base (pe_bytes img))"
    using metadata_region_backing(2) [OF assms] by blast
  have "base + n \<le> length (pe_bytes img)" by (rule backing_in_file(2) [OF assms(1) b])
  then show "bs = take (length bs) (drop base (pe_bytes img))" "base + length bs \<le> length (pe_bytes img)"
    by (auto simp: bs)
  show "slice_ok bs" using assms(1) by (simp add: bs pe_wf_def)
qed

lemma from_image_within:
  assumes "pe_wf img"
  shows "no_panic (from_image img meth)"
    and "from_image img meth = Ok (Some b) \<Longrightarrow> \<exists>off n k. \<not> has_no_body meth
      \<and> backing img (method_def_rva meth) = Some (off, n) \<and> 1 \<le> k \<and> mb_code_rva b = method_def_rva meth + of_nat k
      \<and> mb_code b = take (length (mb_code b)) (drop (off + k) (pe_bytes img))
      \<and> k + length (mb_code b) \<le> mb_total_size b \<and> mb_total_size b \<le> n"
proof -
  have ok: "slice_ok (take n (drop off (pe_bytes img)))" for off n
    using assms by (simp add: pe_wf_def)
  show "no_panic (from_image img meth)"
    using parse_with_total [OF ok]
    by (auto simp: from_image_def res_iff rva_rest_backing [OF assms] split: option.splits)
  assume "from_image img meth = Ok (Some b)"
  then obtain off n where m: "\<not> has_no_body meth" and b: "backing img (method_def_rva meth) = Some (off, n)"
    and p: "parse_with (take n (drop off (pe_bytes img))) (method_def_rva meth) (pe_strictness img) = Ok b"
    by (auto simp: from_image_def rva_rest_backing [OF assms] res_iff split: option.splits if_splits)
  obtain k where w: "body_within (take n (drop off (pe_bytes img))) (method_def_rva meth) b k"
    using parse_with_within [OF ok p] by blast
  have len: "length (take n (drop off (pe_bytes img))) = n"
    using backing_in_file(2) [OF assms b] by simp
  have "k + length (mb_code b) \<le> n" using w unfolding body_within_def len by linarith
  then have "mb_code b = take (length (mb_code b)) (drop (off + k) (pe_bytes img))"
    using w unfolding body_within_def by (metis add.commute add_le_imp_le_diff diff_add_inverse drop_drop drop_take le_add1 min.absorb1 take_take)
  then show "\<exists>off n k. \<not> has_no_body meth
      \<and> backing img (method_def_rva meth) = Some (off, n) \<and> 1 \<le> k \<and> mb_code_rva b = method_def_rva meth + of_nat k
      \<and> mb_code b = take (length (mb_code b)) (drop (off + k) (pe_bytes img))
      \<and> k + length (mb_code b) \<le> mb_total_size b \<and> mb_total_size b \<le> n"
    using m b w len unfolding body_within_def by (intro exI [of _ off] exI [of _ n] exI [of _ k]) simp
qed

section \<open>A concrete image\<close>

text \<open>
  A PE32 file of 504 bytes with one section, which holds the CLI header, a tiny method body
  and a metadata region with an empty table stream and a small string heap.
\<close>

definition sample_metadata :: bytes where
  "sample_metadata =
     [66, 83, 74, 66, 1, 0, 1, 0, 0, 0, 0, 0, 4, 0, 0, 0, 118, 52, 0, 0, 0, 0, 2, 0,
      56, 0, 0, 0, 24, 0, 0, 0, 35, 126, 0, 0, 80, 0, 0, 0, 4, 0, 0, 0, 35, 83, 116, 114, 105, 110, 103, 115]
     @ replicate 8 0 @ [2, 0, 0, 1] @ replicate 17 0 @ [97, 0, 0]"

definition sample_headers :: bytes where
  "sample_headers =
     [77, 90] @ replicate 58 0 @ [64, 0, 0, 0, 80, 69, 0, 0, 76, 1, 1] @ replicate 13 0
     @ [216, 0, 2, 1, 11, 1] @ replicate 28 0 @ [64, 0, 0, 32, 0, 0, 0, 2] @ replicate 19 0
     @ [64, 0, 0, 0, 1, 0, 0, 0, 0, 0, 0, 3, 0, 64, 133] @ replicate 20 0 @ [15] @ replicate 116 0
     @ [32, 0, 0, 72, 0, 0, 0, 46, 116, 101, 120, 116, 0, 0, 0, 160, 0, 0, 0, 0, 32, 0, 0, 160, 0, 0, 0, 88, 1]
     @ replicate 14 0 @ [32, 0, 0, 96]"

definition sample_image :: bytes where
  "sample_image = sample_headers
     @ [72, 0, 0, 0, 2, 0, 5, 0, 76, 32, 0, 0, 84, 0, 0, 0, 1] @ replicate 55 0
     @ [6, 42, 0, 0] @ sample_metadata"

definition sample_pe :: PeImage where
  "sample_pe =
     \<lparr>pe_bytes = sample_image, pe_strictness = Strict, pe_diagnostics = [],
      pe_machine = 0x14C, pe_characteristics = 0x102, pe_is_pe32_plus = False, pe_image_base = 0x400000,
      pe_section_alignment = 0x2000, pe_file_alignment = 0x200, pe_size_of_image = 0x4000,
      pe_size_of_headers = 0x100, pe_subsystem = 3, pe_dll_characteristics = 0x8540,
      pe_entry_point_rva = 0, pe_data_directories =
          [dd_default, dd_default, dd_default, dd_default, dd_default, dd_default, dd_default, dd_default, dd_default, dd_default, dd_default, dd_default, dd_default, dd_default,
           \<lparr>dd_rva = 0x2000, dd_size = 72\<rparr>],
      pe_sections =
        [\<lparr>sec_name_bytes = [46, 116, 101, 120, 116, 0, 0, 0], sec_virtual_size = 160,
          sec_virtual_address = 0x2000, sec_size_of_raw_data = 160, sec_pointer_to_raw_data = 0x158,
          sec_characteristics = 0x60000020\<rparr>]\<rparr>"

lemma sample_image_length [simp]: "length sample_image = 504"
  by (simp add: sample_image_def sample_headers_def sample_metadata_def)

lemma sample_image_slice [simp]: "slice_ok sample_image"
  by (simp add: slice_ok_def isize_max_def)

text \<open>The bytes of the image are computed only where a read asks for them.\<close>

lemma from_le_zeros:
  "from_le_bytes (replicate n 0 @ bs) = push_bit (8 * n) (from_le_bytes bs)"
  "from_le_bytes (replicate n 0) = 0"
  by (induction n) (simp_all add: push_bit_push_bit)

lemma read_n_numeral:
  "read_n rd (numeral k) r =
     res_bind (rd r) (\<lambda>(x, r). res_bind (read_n rd (pred_numeral k) r) (\<lambda>(xs, r). Ok (x # xs, r)))"
  by (simp add: numeral_eq_Suc)

lemmas sample_explicit = sample_image_def [unfolded sample_headers_def sample_metadata_def]

lemmas sample_bytes =
  arg_cong [where f = "\<lambda>bs. take n (drop p bs)" for n p, OF sample_explicit]
  arg_cong [where f = "take n" for n, OF sample_explicit]

lemmas read_steps = reader_u16_def reader_u32_def reader_u64_def reader_take_def reader_seek_def seek_behind_def
  reader_remaining_def usize_add_def usize_sub_def usize_max_def checked_add_def get_range_def reader_new_def

abbreviation sample_at :: "nat \<Rightarrow> reader" where
  "sample_at p \<equiv> \<lparr>r_data = sample_image, r_pos = p, r_base = 0, r_context = CTX_PE\<rparr>"

lemma sample_signatures: "read_signatures (reader_new sample_image 0 CTX_PE) = Ok (64, sample_at 68)"
  by (simp add: read_signatures_def read_steps sample_bytes from_le_zeros)

lemma sample_coff: "read_coff_header (sample_at 68) = Ok ((0x14C, 1, 216, 0x102), sample_at 88)"
  by (simp add: read_coff_header_def read_steps sample_bytes from_le_zeros)

lemma sample_optional:
  "read_optional_header 88 (sample_at 88) =
     Ok ((\<lparr>oh_plus = False, oh_entry_point_rva = 0, oh_image_base = 0x400000, oh_section_alignment = 0x2000,
           oh_file_alignment = 0x200, oh_size_of_image = 0x4000, oh_size_of_headers = 0x100, oh_subsystem = 3,
           oh_dll_characteristics = 0x8540\<rparr>, 180), sample_at 160)"
  by (simp add: read_optional_header_def read_magic_def read_image_base_def read_steps sample_bytes from_le_zeros)

lemma sample_directories:
  "read_directories 180 (sample_at 160) = Ok (pe_data_directories sample_pe, sample_at 304)"
  by (simp add: read_directories_def read_dir_def read_steps sample_bytes from_le_zeros read_n_numeral dd_default_def sample_pe_def)

lemma sample_sections:
  "read_sections Strict 504 304 (Suc 0) (sample_at 304) = Ok ([(hd (pe_sections sample_pe), [])], sample_at 344)"
  by (simp add: read_sections_def read_section_def read_section_fields_def clamp_section_def
      read_steps sample_bytes from_le_zeros sample_pe_def Let_def)

lemma sample_pe_parses: "pe_parse_with sample_image Strict = Ok sample_pe"
  by (simp add: pe_parse_with_def sample_signatures sample_coff sample_optional sample_directories
      sample_sections checked_add_def usize_max_def Let_def sample_pe_def)

lemma sample_pe_wf: "pe_wf sample_pe"
  using pe_parse_wf(2) [OF sample_image_slice sample_pe_parses] by simp

lemma sample_pe_bytes [simp]: "pe_bytes sample_pe = sample_image"
  by (simp add: sample_pe_def)

lemma sample_backing:
  "backing sample_pe 0x2000 = Some (344, 160)"
  "backing sample_pe 0x2048 = Some (416, 88)"
  "backing sample_pe 0x204C = Some (420, 84)"
  by (simp_all add: backing_def sample_pe_def contains_rva_def mapped_size_def u32_saturating_add_def u32_max_def Let_def)

lemmas sample_rva = rva_slice_backing [OF sample_pe_wf] rva_rest_backing [OF sample_pe_wf]
  rva_to_offset_backing [OF sample_pe_wf] sample_backing [THEN rva_available_backing(1) [OF sample_pe_wf]] sample_backing

lemma sample_cli_header:
  "cli_header sample_pe = Ok
     \<lparr>cli_size = 72, cli_major_runtime_version = 2, cli_minor_runtime_version = 5,
      cli_metadata = \<lparr>dd_rva = 0x204C, dd_size = 84\<rparr>, cli_flags = 1, cli_entry_point = EP_None,
      cli_resources = dd_default, cli_strong_name_signature = dd_default, cli_code_manager_table = dd_default,
      cli_vtable_fixups = dd_default, cli_export_address_table_jumps = dd_default,
      cli_managed_native_header = dd_default\<rparr>"
proof -
  have d: "data_directory sample_pe 14 = \<lparr>dd_rva = 0x2000, dd_size = 72\<rparr>"
    by (simp add: data_directory_def get_at_def sample_pe_def)
  show ?thesis
    by (simp add: cli_header_def CLI_HEADER_DIRECTORY_def d dd_is_empty_def sample_rva or_zero_def
        read_cli_header_def read_cli_dirs_def read_dir_def read_steps sample_bytes from_le_zeros dd_default_def Let_def)
qed

lemma sample_metadata_region: "metadata_region sample_pe = Ok (sample_metadata, 420)"
  by (simp add: metadata_region_def sample_cli_header dd_is_empty_def Let_def or_zero_def sample_rva
      sample_bytes sample_metadata_def)

section \<open>Properties\<close>

text \<open>C21: Parsing an image never panics, whatever the bytes are. In an image that parses, every
  section with file bytes has them inside the file, so a section that was cut is cut to what the
  file really holds.\<close>

theorem pe_parse_safe:
  assumes "slice_ok bs"
  shows "no_panic (pe_parse_with bs st)
     \<and> (\<forall>img. pe_parse_with bs st = Ok img \<longrightarrow>
          pe_bytes img = bs \<and> list_all (section_in_file (length bs)) (pe_sections img))"
  using pe_parse_wf [OF assms, of st] by (auto simp: pe_wf_def)

theorem pe_parse_safe_witness:
  "slice_ok sample_image \<and> list_all (section_in_file (length sample_image)) (pe_sections sample_pe)"
  using pe_parse_safe [OF sample_image_slice, of Strict] sample_pe_parses by simp

text \<open>C12: Reading a slice at an RVA of a parsed image returns exactly the file bytes that back it:
  those of the first section that contains it, or of the headers. It fails when nothing backs the
  RVA, and when fewer bytes back it than are asked for; it never reads past the section or the
  file.\<close>

theorem rva_slice_exact:
  assumes "slice_ok bs" and "pe_parse_with bs st = Ok img"
  shows "rva_slice img rva len =
    (case backing img rva of
       None \<Rightarrow> Err (error_detached OutOfRange ''RVA'')
     | Some (off, n) \<Rightarrow>
         if n < len then Err (error_new OutOfRange off ''RVA'')
         else Ok (take len (drop off bs)))"
  using rva_slice_backing pe_parse_wf(2) [OF assms] by fastforce

theorem rva_slice_exact_witness:
  "pe_parse_with sample_image Strict = Ok sample_pe
     \<and> rva_slice sample_pe 0x2048 2 = Ok (take 2 (drop 416 sample_image))
     \<and> rva_slice sample_pe 0x2048 89 = Err (error_new OutOfRange 416 ''RVA'')"
  using rva_slice_exact [OF sample_image_slice sample_pe_parses]
  by (simp add: sample_pe_parses sample_backing)

text \<open>The metadata region of a parsed image is the part of the file that backs the RVA in the
  CLI header, cut to the declared size, and the base offset handed to the metadata parser is the
  file offset of its first byte. Locating it never panics.\<close>

lemma metadata_region_exact:
  assumes "slice_ok file" and "pe_parse_with file st = Ok img"
  shows "no_panic (metadata_region img)
     \<and> (\<forall>bs base. metadata_region img = Ok (bs, base) \<longrightarrow>
          bs = take (length bs) (drop base file) \<and> base + length bs \<le> length file
          \<and> (\<exists>header n. cli_header img = Ok header
               \<and> backing img (dd_rva (cli_metadata header)) = Some (base, n)
               \<and> length bs = min (unat (dd_size (cli_metadata header))) n))"
proof -
  have w: "pe_wf img" and f: "pe_bytes img = file" using pe_parse_wf(2) [OF assms] by auto
  have len: "base + n \<le> length file" if "backing img rva = Some (base, n)" for rva base n
    using backing_in_file(2) [OF w that] by (simp add: f)
  have "\<exists>header n. cli_header img = Ok header \<and> backing img (dd_rva (cli_metadata header)) = Some (base, n)
      \<and> length bs = min (unat (dd_size (cli_metadata header))) n" if "metadata_region img = Ok (bs, base)" for bs base
    using metadata_region_backing(2) [OF w that] by (fastforce simp: f dest: len)
  then show ?thesis
    using metadata_region_backing(1) [OF w] metadata_region_in_file(1,2) [OF w] by (simp add: f)
qed

text \<open>Parsing the body of a method row of a parsed image never panics, and the code it returns
  lies, byte for byte, in the file behind the row's RVA: after the body's header, inside the bytes
  that back that RVA and inside the total size of the body.\<close>

lemma from_image_exact:
  assumes "slice_ok file" and "pe_parse_with file st = Ok img"
  shows "no_panic (from_image img meth)
     \<and> (\<forall>b. from_image img meth = Ok (Some b) \<longrightarrow> \<not> has_no_body meth
          \<and> (\<exists>off n k. backing img (method_def_rva meth) = Some (off, n) \<and> 1 \<le> k
               \<and> mb_code_rva b = method_def_rva meth + of_nat k
               \<and> mb_code b = take (length (mb_code b)) (drop (off + k) file)
               \<and> k + length (mb_code b) \<le> mb_total_size b \<and> mb_total_size b \<le> n))"
proof -
  have w: "pe_wf img" and f: "pe_bytes img = file" using pe_parse_wf(2) [OF assms] by auto
  show ?thesis using from_image_within [OF w, of meth] by (auto simp: f)
qed

end
