(* ===== verification/Metadata.thy ===== *)
theory Metadata
  imports Heaps Tables Pe
begin

text \<open>
  The metadata root (\<open>src/metadata.rs\<close>): the root header, the stream directory, and the
  dispatch of the streams to the heaps and to the table stream; and \<open>PeImage::metadata\<close>
  of \<open>src/pe.rs\<close>, which runs it on the region the CLI header names. The plain getters are
  the selectors of the records.
\<close>

section \<open>Data\<close>

definition CTX_METADATA :: string where
  "CTX_METADATA = ''metadata root''"

definition METADATA_SIGNATURE :: u32 where
  "METADATA_SIGNATURE = 0x424A5342"

record StreamHeader =
  sh_name_bytes :: bytes
  sh_offset :: u32
  sh_size :: u32
  sh_data :: bytes

definition stream_name :: "StreamHeader \<Rightarrow> bytes option" where
  "stream_name s =
     (if utf8_valid_up_to (sh_name_bytes s) = length (sh_name_bytes s) then Some (sh_name_bytes s) else None)"

definition stream_name_lossy :: "StreamHeader \<Rightarrow> bytes" where
  "stream_name_lossy s = from_utf8_lossy (sh_name_bytes s)"

definition stream_is_clamped :: "StreamHeader \<Rightarrow> bool" where
  "stream_is_clamped s \<longleftrightarrow> length (sh_data s) \<noteq> unat (sh_size s)"

record Metadata =
  md_bytes :: bytes
  md_base :: nat
  md_strictness :: Strictness
  md_diagnostics :: "diagnostic list"
  md_major_version :: u16
  md_minor_version :: u16
  md_flags :: u16
  md_version_bytes :: bytes
  md_streams :: "StreamHeader list"
  md_strings :: span
  md_user_strings :: span
  md_blobs :: span
  md_guids :: span
  md_tables :: Tables
  md_has_pdb_stream :: bool

section \<open>The root header\<close>

definition read_version ::
    "Strictness \<Rightarrow> reader \<Rightarrow> ((bytes \<times> diagnostic list) \<times> reader) result" where
  "read_version strictness r =
     res_bind (reader_u32 r) (\<lambda>(version_length, r).
     let version_at = reader_absolute r in
     res_bind (reader_take (unat version_length) r) (\<lambda>(version_field, r).
     case position (\<lambda>b. b = 0) version_field of
       Some e \<Rightarrow> res_bind (index_range version_field 0 e) (\<lambda>version. Ok ((version, []), r))
     | None \<Rightarrow>
         if is_strict strictness then Err (error_new Malformed version_at CTX_METADATA)
         else Ok ((version_field, [diagnostic_new VersionStringPadding version_at (unat version_length)]), r)))"

record root_header =
  rh_major_version :: u16
  rh_minor_version :: u16
  rh_version_bytes :: bytes
  rh_flags :: u16
  rh_stream_count :: u16

definition read_root ::
    "nat \<Rightarrow> Strictness \<Rightarrow> reader \<Rightarrow> ((root_header \<times> diagnostic list) \<times> reader) result" where
  "read_root base strictness r =
     res_bind (reader_u32 r) (\<lambda>(signature, r).
     if signature \<noteq> METADATA_SIGNATURE then Err (error_new Malformed base CTX_METADATA)
     else
     res_bind (reader_u16 r) (\<lambda>(major_version, r).
     res_bind (reader_u16 r) (\<lambda>(minor_version, r).
     res_bind (reader_u32 r) (\<lambda>(_, r).
     res_bind (read_version strictness r) (\<lambda>((version_bytes, diags), r).
     res_bind (reader_u16 r) (\<lambda>(flags, r).
     res_bind (reader_u16 r) (\<lambda>(stream_count, r).
     Ok ((\<lparr>rh_major_version = major_version, rh_minor_version = minor_version,
           rh_version_bytes = version_bytes, rh_flags = flags, rh_stream_count = stream_count\<rparr>,
          diags), r))))))))"

section \<open>The stream directory\<close>

text \<open>\<open>a.next_multiple_of(k)\<close>, which overflows like an addition.\<close>

definition next_multiple_of :: "nat \<Rightarrow> nat \<Rightarrow> nat result" where
  "next_multiple_of a k = (if a mod k = 0 then Ok a else usize_add a (k - a mod k))"

text \<open>The name at the cursor, and how far the entry extends behind the start of the name.\<close>

definition split_name ::
    "Strictness \<Rightarrow> nat \<Rightarrow> bytes \<Rightarrow> (bytes \<times> nat \<times> diagnostic list) result" where
  "split_name strictness at rest =
     (case position (\<lambda>b. b = 0) rest of
        Some n \<Rightarrow>
          res_bind (index_range rest 0 n) (\<lambda>name.
          res_bind (usize_add n 1) (\<lambda>n1.
          res_bind (next_multiple_of n1 4) (\<lambda>advance. Ok (name, advance, []))))
      | None \<Rightarrow>
          if is_strict strictness then Err (error_new Malformed at CTX_METADATA)
          else Ok (rest, length rest, [diagnostic_new StreamNamePadding at (length rest)]))"

definition read_stream_name ::
    "Strictness \<Rightarrow> reader \<Rightarrow> ((bytes \<times> diagnostic list) \<times> reader) result" where
  "read_stream_name strictness r =
     res_bind (reader_rest r) (\<lambda>rest.
     res_bind (split_name strictness (reader_absolute r) rest) (\<lambda>(name_bytes, advance, diags).
     if 32 < length name_bytes \<and> is_strict strictness
     then Err (error_new Malformed (reader_absolute r) CTX_METADATA)
     else
     res_bind (usize_add (r_pos r) advance) (\<lambda>e.
     res_bind (reader_seek r e) (\<lambda>r. Ok ((name_bytes, diags), r)))))"

text \<open>The bytes of a stream, cut to the metadata region.\<close>

definition stream_data ::
    "Strictness \<Rightarrow> bytes \<Rightarrow> nat \<Rightarrow> u32 \<Rightarrow> u32 \<Rightarrow> (bytes \<times> diagnostic list) result" where
  "stream_data strictness bs base offset sz =
     (let start = unat offset;
          declared_end = saturating_add start (unat sz);
          e = min declared_end (length bs);
          dat = (case get_range bs (min start (length bs)) e of Some d \<Rightarrow> d | None \<Rightarrow> []) in
      if length dat \<noteq> unat sz then
        res_bind (usize_add base start) (\<lambda>at.
        if is_strict strictness then Err (error_new Truncated at CTX_METADATA)
        else Ok (dat, [diagnostic_new StreamRangeClamped at declared_end]))
      else Ok (dat, []))"

text \<open>
  The loop over the directory. A directory that ends before the offset or the size of an entry
  ends the list when lenient.
\<close>

definition truncated_list ::
    "Strictness \<Rightarrow> nat \<Rightarrow> diagnostic list \<Rightarrow> (StreamHeader list \<times> diagnostic list) result" where
  "truncated_list strictness at diags =
     (if is_strict strictness then Err (error_new Truncated at CTX_METADATA) else Ok ([], diags))"

definition read_stream ::
    "Strictness \<Rightarrow> bytes \<Rightarrow> nat \<Rightarrow> u32 \<Rightarrow> u32 \<Rightarrow> reader
     \<Rightarrow> ((StreamHeader \<times> diagnostic list) \<times> reader) result" where
  "read_stream strictness bs base offset sz r =
     res_bind (read_stream_name strictness r) (\<lambda>((name_bytes, d1), r).
     res_bind (stream_data strictness bs base offset sz) (\<lambda>(dat, d2).
     Ok ((\<lparr>sh_name_bytes = name_bytes, sh_offset = offset, sh_size = sz, sh_data = dat\<rparr>, d1 @ d2), r)))"

fun read_streams ::
    "Strictness \<Rightarrow> bytes \<Rightarrow> nat \<Rightarrow> nat \<Rightarrow> reader \<Rightarrow> diagnostic list
     \<Rightarrow> (StreamHeader list \<times> diagnostic list) result" where
  "read_streams strictness bs base 0 r diags = Ok ([], diags)"
| "read_streams strictness bs base (Suc n) r diags =
     (let at = reader_absolute r in
      case reader_u32 r of
        Panic \<Rightarrow> Panic
      | Err _ \<Rightarrow> truncated_list strictness at diags
      | Ok (offset, r) \<Rightarrow>
          (case reader_u32 r of
             Panic \<Rightarrow> Panic
           | Err _ \<Rightarrow> truncated_list strictness at diags
           | Ok (sz, r) \<Rightarrow>
               res_bind (read_stream strictness bs base offset sz r) (\<lambda>((s, d), r).
               res_bind (read_streams strictness bs base n r (diags @ d)) (\<lambda>(ss, diags).
               Ok (s # ss, diags)))))"

section \<open>Dispatch of the streams\<close>

text \<open>The stream names, \<open>#Strings\<close> and so on.\<close>

definition STRINGS_NAME :: bytes where
  "STRINGS_NAME = [0x23, 0x53, 0x74, 0x72, 0x69, 0x6E, 0x67, 0x73]"

definition US_NAME :: bytes where
  "US_NAME = [0x23, 0x55, 0x53]"

definition BLOB_NAME :: bytes where
  "BLOB_NAME = [0x23, 0x42, 0x6C, 0x6F, 0x62]"

definition GUID_NAME :: bytes where
  "GUID_NAME = [0x23, 0x47, 0x55, 0x49, 0x44]"

definition TABLES_NAME :: bytes where
  "TABLES_NAME = [0x23, 0x7E]"

definition UNCOMPRESSED_NAME :: bytes where
  "UNCOMPRESSED_NAME = [0x23, 0x2D]"

definition PDB_NAME :: bytes where
  "PDB_NAME = [0x23, 0x50, 0x64, 0x62]"

record dispatch =
  di_strings :: span
  di_user_strings :: span
  di_blobs :: span
  di_guids :: span
  di_table_stream :: "(bytes \<times> nat \<times> bool) option"
  di_seen :: "bytes list"
  di_has_pdb_stream :: bool
  di_diagnostics :: "diagnostic list"

definition dispatch_start :: "diagnostic list \<Rightarrow> dispatch" where
  "dispatch_start diags =
     \<lparr>di_strings = heap_empty, di_user_strings = heap_empty, di_blobs = heap_empty, di_guids = heap_empty,
      di_table_stream = None, di_seen = [], di_has_pdb_stream = False, di_diagnostics = diags\<rparr>"

definition dispatch_name :: "StreamHeader \<Rightarrow> nat \<Rightarrow> dispatch \<Rightarrow> dispatch" where
  "dispatch_name s at d =
     (let name = sh_name_bytes s in
      if name = STRINGS_NAME then d\<lparr>di_strings := span_new (sh_data s) at\<rparr>
      else if name = US_NAME then d\<lparr>di_user_strings := span_new (sh_data s) at\<rparr>
      else if name = BLOB_NAME then d\<lparr>di_blobs := span_new (sh_data s) at\<rparr>
      else if name = GUID_NAME then d\<lparr>di_guids := span_new (sh_data s) at\<rparr>
      else if name = TABLES_NAME then
        (if di_table_stream d = None then d\<lparr>di_table_stream := Some (sh_data s, at, False)\<rparr> else d)
      else if name = UNCOMPRESSED_NAME then
        (if di_table_stream d = None then d\<lparr>di_table_stream := Some (sh_data s, at, True)\<rparr> else d)
      else if name = PDB_NAME then d\<lparr>di_has_pdb_stream := True\<rparr>
      else d)"

definition dispatch_stream :: "Strictness \<Rightarrow> nat \<Rightarrow> StreamHeader \<Rightarrow> dispatch \<Rightarrow> dispatch result" where
  "dispatch_stream strictness base s d =
     (let at = saturating_add base (unat (sh_offset s)) in
      if sh_name_bytes s \<in> set (di_seen d) then
        if is_strict strictness then Err (error_new Malformed at CTX_METADATA)
        else Ok (d\<lparr>di_diagnostics := di_diagnostics d @ [diagnostic_new DuplicateStreamName at 0]\<rparr>)
      else Ok (dispatch_name s at (d\<lparr>di_seen := di_seen d @ [sh_name_bytes s]\<rparr>)))"

definition parse_table_stream ::
    "Strictness \<Rightarrow> nat \<Rightarrow> (bytes \<times> nat \<times> bool) option \<Rightarrow> diagnostic list \<Rightarrow> (Tables \<times> diagnostic list) result" where
  "parse_table_stream strictness base found diags =
     (case found of
        Some (dat, at, uncompressed) \<Rightarrow> tables_parse dat at uncompressed strictness diags
      | None \<Rightarrow>
          if is_strict strictness then Err (error_new Malformed base CTX_METADATA)
          else Ok (tables_empty, diags))"

definition metadata_parse_at :: "bytes \<Rightarrow> nat \<Rightarrow> Strictness \<Rightarrow> Metadata result" where
  "metadata_parse_at bs base strictness =
     res_bind (read_root base strictness (reader_new bs base CTX_METADATA)) (\<lambda>((rh, diags), r).
     res_bind (read_streams strictness bs base (unat (rh_stream_count rh)) r diags) (\<lambda>(streams, diags).
     res_bind (res_fold (dispatch_stream strictness base) streams (dispatch_start diags)) (\<lambda>d.
     res_bind (parse_table_stream strictness base (di_table_stream d) (di_diagnostics d)) (\<lambda>(tables, diags).
     Ok \<lparr>md_bytes = bs, md_base = base, md_strictness = strictness, md_diagnostics = diags,
         md_major_version = rh_major_version rh, md_minor_version = rh_minor_version rh,
         md_flags = rh_flags rh, md_version_bytes = rh_version_bytes rh, md_streams = streams,
         md_strings = di_strings d, md_user_strings = di_user_strings d, md_blobs = di_blobs d,
         md_guids = di_guids d, md_tables = tables, md_has_pdb_stream = di_has_pdb_stream d\<rparr>))))"

definition metadata_parse :: "bytes \<Rightarrow> Metadata result" where
  "metadata_parse bs = metadata_parse_at bs 0 Permissive"

definition metadata_parse_with :: "bytes \<Rightarrow> Strictness \<Rightarrow> Metadata result" where
  "metadata_parse_with bs strictness = metadata_parse_at bs 0 strictness"

definition metadata_stream :: "Metadata \<Rightarrow> bytes \<Rightarrow> StreamHeader option" where
  "metadata_stream m name = find (\<lambda>s. sh_name_bytes s = name) (md_streams m)"

definition version_string :: "Metadata \<Rightarrow> bytes" where
  "version_string m = from_utf8_lossy (md_version_bytes m)"

definition metadata_is_uncompressed :: "Metadata \<Rightarrow> bool" where
  "metadata_is_uncompressed m = tb_uncompressed (md_tables m)"

text \<open>\<open>PeImage::metadata\<close>.\<close>

definition pe_metadata :: "PeImage \<Rightarrow> Metadata result" where
  "pe_metadata img =
     res_bind (metadata_region img) (\<lambda>(bs, base). metadata_parse_at bs base (pe_strictness img))"

section \<open>Parsing never panics\<close>

lemma version_total:
  assumes "reader_wf r"
  shows "no_panic (read_version st r)"
    and "read_version st r = Ok (x, r') \<Longrightarrow> reader_wf r' \<and> r_data r' = r_data r"
proof -
  have *: "no_panic (read_version st r) \<and>
      (read_version st r = Ok (x, r') \<longrightarrow> reader_wf r' \<and> r_data r' = r_data r)"
  proof (cases "reader_u32 r")
    case (Ok p)
    then have 1: "reader_wf (snd p) \<and> r_data (snd p) = r_data r"
      using rd_u32.keeps [OF assms, of "fst p" "snd p"] by simp
    show ?thesis
    proof (cases "reader_take (unat (fst p)) (snd p)")
      case (Ok q)
      then have "reader_wf (snd q) \<and> r_data (snd q) = r_data r"
        using 1 rd_take.keeps [of "snd p" _ "fst q" "snd q"] by simp
      then show ?thesis using \<open>reader_u32 r = Ok p\<close> Ok
        by (auto simp: read_version_def Let_def case_prod_beta res_iff position_Some_iff split: option.splits if_splits)
    qed (use 1 \<open>reader_u32 r = Ok p\<close> rd_take.total in \<open>auto simp: read_version_def Let_def case_prod_beta\<close>)
  qed (use rd_u32.total [OF assms] in \<open>auto simp: read_version_def\<close>)
  show "no_panic (read_version st r)" using * by simp
  show "read_version st r = Ok (x, r') \<Longrightarrow> reader_wf r' \<and> r_data r' = r_data r" using * by simp
qed

lemma version_in: "rd_in (read_version st)"
  by (rule rd_inI) (auto simp: version_total)

lemma root_in: "rd_in (read_root base st)"
  unfolding read_root_def [abs_def] by (intro in_intro version_in)

lemma next_multiple_of_4: "n + 3 \<le> usize_max \<Longrightarrow> next_multiple_of n 4 = Ok ((n + 3) div 4 * 4)"
  unfolding next_multiple_of_def usize_add_def by (cases "n mod 4 = 0") (auto, presburger+)

lemma split_name_eq:
  assumes "slice_ok rest"
  shows "split_name st at rest =
    (case position (\<lambda>b. b = 0) rest of
       Some n \<Rightarrow> Ok (take n rest, (n + 4) div 4 * 4, [])
     | None \<Rightarrow>
         if is_strict st then Err (error_new Malformed at CTX_METADATA)
         else Ok (rest, length rest, [diagnostic_new StreamNamePadding at (length rest)]))"
proof (cases "position (\<lambda>b. b = 0) rest")
  case (Some n)
  have "n < length rest" by (rule position_less [OF Some])
  moreover from this have "n + 4 \<le> usize_max"
    using slice_ok_length [OF assms] by (simp add: usize_max_def)
  ultimately show ?thesis
    using next_multiple_of_4 [of "n + 1"]
    by (simp add: split_name_def Some index_range_def get_range_def usize_add_def add.commute)
qed (simp add: split_name_def)

lemma split_name_total:
  assumes "slice_ok rest"
  shows "no_panic (split_name st at rest)"
    and "split_name st at rest = Ok (nm, adv, ds) \<Longrightarrow> adv \<le> length rest + 4"
  unfolding split_name_eq [OF assms]
  by (auto split: option.splits if_splits dest!: position_less)

lemma stream_name_in: "rd_in (read_stream_name st)"
proof (rule rd_inI)
  fix r assume w: "reader_wf r"
  have rest: "reader_rest r = Ok (drop (r_pos r) (r_data r))" "slice_ok (drop (r_pos r) (r_data r))"
    using w by (auto simp: reader_rest_wf reader_wf_def)
  note sn = split_name_total [OF rest(2)]
  have p: "r_pos r + adv \<le> usize_max" if "adv \<le> length (drop (r_pos r) (r_data r)) + 4" for adv
    using that w slice_ok_length [of "r_data r"] unfolding reader_wf_def usize_max_def length_drop by linarith
  show "no_panic (read_stream_name st r)"
    using sn(1) by (auto simp: read_stream_name_def rest(1) res_iff split: if_splits dest!: sn(2) p)
  fix x r' assume "read_stream_name st r = Ok (x, r')"
  then show "reader_wf r' \<and> r_data r' = r_data r"
    using w by (auto simp: read_stream_name_def rest(1) res_iff reader_wf_def split: if_splits)
qed

text \<open>The data of a stream is what its offset and size select from the region.\<close>

lemma stream_data_exact:
  assumes "slice_ok bs"
  shows "base + u32_max \<le> usize_max \<Longrightarrow> no_panic (stream_data st bs base off sz)"
    and "stream_data st bs base off sz = Ok (d, ds) \<Longrightarrow> d = take (unat sz) (drop (unat off) bs)"
proof -
  have u: "unat off \<le> u32_max"
    using unsigned_less [of off, where ?'a = nat] by (simp add: u32_max_def)
  then show "base + u32_max \<le> usize_max \<Longrightarrow> no_panic (stream_data st bs base off sz)"
    by (auto simp: stream_data_def Let_def res_iff split: if_splits)
  have l: "length bs \<le> usize_max" using slice_ok_length [OF assms] by (simp add: usize_max_def)
  have "(case get_range bs (min (unat off) (length bs)) (min (saturating_add (unat off) (unat sz)) (length bs)) of
      Some d \<Rightarrow> d | None \<Rightarrow> []) = take (unat sz) (drop (unat off) bs)"
    using l by (auto simp: get_range_def saturating_add_def min_def)
  then show "stream_data st bs base off sz = Ok (d, ds) \<Longrightarrow> d = take (unat sz) (drop (unat off) bs)"
    by (auto simp: stream_data_def Let_def res_iff split: if_splits)
qed

definition stream_in :: "bytes \<Rightarrow> StreamHeader \<Rightarrow> bool" where
  "stream_in bs s \<longleftrightarrow> sh_data s = take (unat (sh_size s)) (drop (unat (sh_offset s)) bs)"

lemma read_stream_total:
  assumes "reader_wf r" and "slice_ok bs"
  shows "base + u32_max \<le> usize_max \<Longrightarrow> no_panic (read_stream st bs base off sz r)"
    and "read_stream st bs base off sz r = Ok ((s, d), r') \<Longrightarrow>
      stream_in bs s \<and> sh_offset s = off \<and> sh_size s = sz \<and> reader_wf r' \<and> r_data r' = r_data r"
proof -
  note n = rd_inD [OF stream_name_in assms(1)]
  show "base + u32_max \<le> usize_max \<Longrightarrow> no_panic (read_stream st bs base off sz r)"
    using n(1) stream_data_exact(1) [OF assms(2)] by (simp add: read_stream_def res_iff case_prod_beta')
  assume "read_stream st bs base off sz r = Ok ((s, d), r')"
  then obtain nm d1 dat d2 where 1: "read_stream_name st r = Ok ((nm, d1), r')"
    and 2: "stream_data st bs base off sz = Ok (dat, d2)"
    and s: "s = \<lparr>sh_name_bytes = nm, sh_offset = off, sh_size = sz, sh_data = dat\<rparr>"
    by (auto simp: read_stream_def res_iff)
  from n(2) [OF 1] stream_data_exact(2) [OF assms(2) 2] s
  show "stream_in bs s \<and> sh_offset s = off \<and> sh_size s = sz \<and> reader_wf r' \<and> r_data r' = r_data r"
    by (simp add: stream_in_def)
qed

lemma read_streams_total:
  assumes "reader_wf r" and "slice_ok bs"
  shows "base + u32_max \<le> usize_max \<Longrightarrow> no_panic (read_streams st bs base n r diags)"
    and "read_streams st bs base n r diags = Ok (ss, ds) \<Longrightarrow> list_all (stream_in bs) ss \<and> length ss \<le> n"
proof -
  have "(base + u32_max \<le> usize_max \<longrightarrow> no_panic (read_streams st bs base n r diags)) \<and>
    (\<forall>ss ds. read_streams st bs base n r diags = Ok (ss, ds) \<longrightarrow> list_all (stream_in bs) ss \<and> length ss \<le> n)"
    using assms(1)
  proof (induction n arbitrary: r diags)
    case (Suc n)
    have w2: "reader_wf r2" if "reader_u32 r = Ok (off, r1)" "reader_u32 r1 = Ok (sz, r2)" for off r1 sz r2
      using rd_u32.keeps [OF Suc.prems that(1)] rd_u32.keeps [OF _ that(2)] by simp
    show ?case
    proof (cases "\<exists>off r1 sz r2. reader_u32 r = Ok (off, r1) \<and> reader_u32 r1 = Ok (sz, r2)")
      case True
      then obtain off r1 sz r2 where rd: "reader_u32 r = Ok (off, r1)" "reader_u32 r1 = Ok (sz, r2)" by blast
      note t = read_stream_total [OF w2 [OF rd] assms(2), where base = base and st = st and off = off and sz = sz]
      have 3: "reader_wf r3 \<and> stream_in bs s" if "read_stream st bs base off sz r2 = Ok ((s, d), r3)" for s d r3
        using t(2) [OF that] by simp
      show ?thesis
        using t(1) Suc.IH by (auto simp: rd Let_def res_iff dest!: 3) (metis le_SucI | blast)+
    next
      case False
      have "no_panic (reader_u32 r)" by (rule rd_u32.total [OF Suc.prems])
      moreover have "no_panic (reader_u32 r1)" if "reader_u32 r = Ok (off, r1)" for off r1
        using rd_u32.keeps [OF Suc.prems that] rd_u32.total by simp
      ultimately show ?thesis using False
        by (auto simp: truncated_list_def Let_def split: res.splits prod.splits if_splits)
    qed
  qed simp
  then show "base + u32_max \<le> usize_max \<Longrightarrow> no_panic (read_streams st bs base n r diags)"
    and "read_streams st bs base n r diags = Ok (ss, ds) \<Longrightarrow> list_all (stream_in bs) ss \<and> length ss \<le> n"
    by blast+
qed

section \<open>What the dispatch finds\<close>

text \<open>The reference: the first stream of a name, in the order of the directory.\<close>

definition first_named :: "bytes list \<Rightarrow> StreamHeader list \<Rightarrow> StreamHeader option" where
  "first_named names ss = find (\<lambda>s. sh_name_bytes s \<in> set names) ss"

definition heap_of :: "nat \<Rightarrow> bytes \<Rightarrow> StreamHeader list \<Rightarrow> span" where
  "heap_of base name ss =
     (case first_named [name] ss of
        Some s \<Rightarrow> span_new (sh_data s) (saturating_add base (unat (sh_offset s)))
      | None \<Rightarrow> heap_empty)"

definition table_stream_of :: "nat \<Rightarrow> StreamHeader list \<Rightarrow> (bytes \<times> nat \<times> bool) option" where
  "table_stream_of base ss =
     map_option (\<lambda>s. (sh_data s, saturating_add base (unat (sh_offset s)), sh_name_bytes s = UNCOMPRESSED_NAME))
       (first_named [TABLES_NAME, UNCOMPRESSED_NAME] ss)"

lemmas name_defs = STRINGS_NAME_def US_NAME_def BLOB_NAME_def GUID_NAME_def TABLES_NAME_def
  UNCOMPRESSED_NAME_def PDB_NAME_def

lemma first_named_snoc:
  "first_named ns (ss @ [s]) =
     (case first_named ns ss of Some x \<Rightarrow> Some x | None \<Rightarrow> if sh_name_bytes s \<in> set ns then Some s else None)"
  by (induction ss) (auto simp: first_named_def)

lemma first_named_None: "first_named ns ss = None \<longleftrightarrow> (\<forall>s \<in> set ss. sh_name_bytes s \<notin> set ns)"
  by (auto simp: first_named_def find_None_iff)

lemma first_named_seen: "n \<in> sh_name_bytes ` set ss \<Longrightarrow> \<exists>x. first_named [n] ss = Some x"
  using first_named_None [of "[n]" ss] by auto

definition dispatched :: "nat \<Rightarrow> StreamHeader list \<Rightarrow> dispatch \<Rightarrow> bool" where
  "dispatched base ss d \<longleftrightarrow>
     set (di_seen d) = sh_name_bytes ` set ss
     \<and> di_strings d = heap_of base STRINGS_NAME ss \<and> di_user_strings d = heap_of base US_NAME ss
     \<and> di_blobs d = heap_of base BLOB_NAME ss \<and> di_guids d = heap_of base GUID_NAME ss
     \<and> di_table_stream d = table_stream_of base ss
     \<and> (di_has_pdb_stream d \<longleftrightarrow> PDB_NAME \<in> sh_name_bytes ` set ss)"

lemma dispatched_start: "dispatched base [] (dispatch_start ds)"
  by (simp add: dispatched_def dispatch_start_def heap_of_def table_stream_of_def first_named_def)

lemma heap_of_snoc:
  "heap_of base n (ss @ [s]) =
     (if n \<notin> sh_name_bytes ` set ss \<and> sh_name_bytes s = n
      then span_new (sh_data s) (saturating_add base (unat (sh_offset s))) else heap_of base n ss)"
  using first_named_seen [of n ss] first_named_None [of "[n]" ss]
  by (auto simp: heap_of_def first_named_snoc split: option.split)

lemma table_stream_of_snoc:
  "table_stream_of base (ss @ [s]) =
     (if table_stream_of base ss = None \<and> sh_name_bytes s \<in> {TABLES_NAME, UNCOMPRESSED_NAME}
      then Some (sh_data s, saturating_add base (unat (sh_offset s)), sh_name_bytes s = UNCOMPRESSED_NAME)
      else table_stream_of base ss)"
  by (auto simp: table_stream_of_def first_named_snoc split: option.split)

lemma table_stream_seen:
  "n \<in> {TABLES_NAME, UNCOMPRESSED_NAME} \<Longrightarrow> n \<in> sh_name_bytes ` set ss \<Longrightarrow> table_stream_of base ss \<noteq> None"
  using first_named_None [of "[TABLES_NAME, UNCOMPRESSED_NAME]" ss] by (auto simp: table_stream_of_def)

lemma dispatch_name_fields:
  "di_seen (dispatch_name s at d) = di_seen d"
  "di_strings (dispatch_name s at d) =
     (if sh_name_bytes s = STRINGS_NAME then span_new (sh_data s) at else di_strings d)"
  "di_user_strings (dispatch_name s at d) =
     (if sh_name_bytes s = US_NAME then span_new (sh_data s) at else di_user_strings d)"
  "di_blobs (dispatch_name s at d) = (if sh_name_bytes s = BLOB_NAME then span_new (sh_data s) at else di_blobs d)"
  "di_guids (dispatch_name s at d) = (if sh_name_bytes s = GUID_NAME then span_new (sh_data s) at else di_guids d)"
  "di_table_stream (dispatch_name s at d) =
     (if di_table_stream d = None \<and> sh_name_bytes s \<in> {TABLES_NAME, UNCOMPRESSED_NAME}
      then Some (sh_data s, at, sh_name_bytes s = UNCOMPRESSED_NAME) else di_table_stream d)"
  "di_has_pdb_stream (dispatch_name s at d) \<longleftrightarrow> di_has_pdb_stream d \<or> sh_name_bytes s = PDB_NAME"
  by (simp_all add: dispatch_name_def Let_def name_defs)

lemma dispatch_stream_step:
  assumes "dispatched base ss d" and "dispatch_stream st base s d = Ok d'"
  shows "dispatched base (ss @ [s]) d'"
    and "is_strict st \<Longrightarrow> sh_name_bytes s \<notin> sh_name_bytes ` set ss"
proof -
  have seen: "set (di_seen d) = sh_name_bytes ` set ss" using assms(1) by (simp add: dispatched_def)
  show "is_strict st \<Longrightarrow> sh_name_bytes s \<notin> sh_name_bytes ` set ss"
    using assms(2) by (auto simp: dispatch_stream_def Let_def seen)
  show "dispatched base (ss @ [s]) d'"
  proof (cases "sh_name_bytes s \<in> set (di_seen d)")
    case True
    then obtain ds where d': "d' = d\<lparr>di_diagnostics := ds\<rparr>"
      using assms(2) by (auto simp: dispatch_stream_def Let_def split: if_splits)
    have old: "sh_name_bytes s \<in> sh_name_bytes ` set ss" using True seen by simp
    have heap: "heap_of base n (ss @ [s]) = heap_of base n ss" for n
      using old by (auto simp: heap_of_snoc)
    have tab: "table_stream_of base (ss @ [s]) = table_stream_of base ss"
      using table_stream_seen [OF _ old, of base] by (auto simp: table_stream_of_snoc)
    have img: "sh_name_bytes ` set (ss @ [s]) = sh_name_bytes ` set ss" using old by auto
    show ?thesis using assms(1) unfolding d' dispatched_def heap tab img by simp
  next
    case False
    then have d': "d' = dispatch_name s (saturating_add base (unat (sh_offset s))) (d\<lparr>di_seen := di_seen d @ [sh_name_bytes s]\<rparr>)"
      using assms(2) by (simp add: dispatch_stream_def Let_def)
    have new: "sh_name_bytes s \<notin> sh_name_bytes ` set ss" using False seen by simp
    have heap: "heap_of base n (ss @ [s]) = (if sh_name_bytes s = n
        then span_new (sh_data s) (saturating_add base (unat (sh_offset s))) else heap_of base n ss)" for n
      using new by (auto simp: heap_of_snoc)
    show ?thesis
      using assms(1) unfolding d' dispatched_def dispatch_name_fields heap table_stream_of_snoc
      by (simp add: insert_commute disj_commute eq_commute)
  qed
qed

lemma dispatch_streams:
  assumes "res_fold (dispatch_stream st base) ss (dispatch_start ds) = Ok d"
  shows "dispatched base ss d" and "is_strict st \<Longrightarrow> distinct (map sh_name_bytes ss)"
proof -
  have "dispatched base ss d \<and> (is_strict st \<longrightarrow> distinct (map sh_name_bytes ss))"
    using assms
  proof (induction ss arbitrary: d rule: rev_induct)
    case (snoc s ss)
    then obtain m where m: "res_fold (dispatch_stream st base) ss (dispatch_start ds) = Ok m"
      "dispatch_stream st base s m = Ok d" by (auto simp: res_fold_append res_iff)
    from snoc.IH [OF m(1)] dispatch_stream_step [OF _ m(2)] show ?case by auto
  qed (simp add: dispatched_start)
  then show "dispatched base ss d" and "is_strict st \<Longrightarrow> distinct (map sh_name_bytes ss)" by auto
qed

lemma dispatch_total: "no_panic (res_fold (dispatch_stream st base) ss d)"
  by (rule no_panic_res_fold [where P = "\<lambda>_. True"]) (simp_all add: dispatch_stream_def Let_def)

section \<open>Parsed metadata\<close>

definition metadata_wf :: "Metadata \<Rightarrow> bool" where
  "metadata_wf m \<longleftrightarrow>
     list_all (stream_in (md_bytes m)) (md_streams m)
     \<and> md_strings m = heap_of (md_base m) STRINGS_NAME (md_streams m)
     \<and> md_user_strings m = heap_of (md_base m) US_NAME (md_streams m)
     \<and> md_blobs m = heap_of (md_base m) BLOB_NAME (md_streams m)
     \<and> md_guids m = heap_of (md_base m) GUID_NAME (md_streams m)
     \<and> (md_has_pdb_stream m \<longleftrightarrow> PDB_NAME \<in> sh_name_bytes ` set (md_streams m))
     \<and> (case table_stream_of (md_base m) (md_streams m) of
          None \<Rightarrow> md_tables m = tables_empty
        | Some (dat, at, unc) \<Rightarrow>
            \<exists>ds0 ds. tables_parse dat at unc (md_strictness m) ds0 = Ok (md_tables m, ds))"

lemma table_stream_fits:
  assumes "list_all (stream_in bs) ss" and "slice_ok bs" and "base + u32_max + length bs \<le> usize_max"
    and "table_stream_of base ss = Some (dat, at, unc)"
  shows "slice_ok dat" and "at + length dat \<le> usize_max"
proof -
  obtain s where s: "s \<in> set ss" and d: "dat = sh_data s" "at = saturating_add base (unat (sh_offset s))"
    using assms(4) by (auto simp: table_stream_of_def first_named_def dest!: find_in)
  have dat: "dat = take (unat (sh_size s)) (drop (unat (sh_offset s)) bs)"
    using assms(1) s d(1) by (simp add: list_all_iff stream_in_def)
  show "slice_ok dat" using assms(2) by (simp add: dat)
  have u: "unat (sh_offset s) \<le> u32_max"
    using unsigned_less [of "sh_offset s", where ?'a = nat] by (simp add: u32_max_def)
  have "length dat \<le> length bs" unfolding dat by simp
  then show "at + length dat \<le> usize_max"
    using u assms(3) by (simp add: d(2) saturating_add_def)
qed

lemma metadata_parse_at_wf:
  assumes "slice_ok bs" and "base + u32_max + length bs \<le> usize_max"
  shows "no_panic (metadata_parse_at bs base st)"
    and "metadata_parse_at bs base st = Ok m \<Longrightarrow>
      metadata_wf m \<and> md_bytes m = bs \<and> md_base m = base \<and> md_strictness m = st
      \<and> (is_strict st \<longrightarrow> distinct (map sh_name_bytes (md_streams m)))"
proof -
  have w: "reader_wf (reader_new bs base CTX_METADATA)" using assms(1) by simp
  note rt = rd_inD [OF root_in w]
  note ss = read_streams_total [OF _ assms(1)]
  have b: "base + u32_max \<le> usize_max" using assms(2) by simp
  have tp: "no_panic (parse_table_stream st base (di_table_stream d) ds)"
    if "list_all (stream_in bs) ss" "dispatched base ss d" for d ds ss
    using table_stream_fits [OF that(1) assms] tables_parse_wf(1) that(2)
    by (auto simp: parse_table_stream_def dispatched_def split: option.split)
  show "no_panic (metadata_parse_at bs base st)"
    unfolding metadata_parse_at_def case_prod_beta
  proof (intro no_panic_bind res.distinct rt(1))
    fix p assume "read_root base st (reader_new bs base CTX_METADATA) = Ok p"
    then have r: "reader_wf (snd p)" using rt(2) [where x = "fst p" and r' = "snd p"] by simp
    show "no_panic (read_streams st bs base (unat (rh_stream_count (fst (fst p)))) (snd p) (snd (fst p)))"
      by (rule ss(1) [OF r b])
    fix q assume q: "read_streams st bs base (unat (rh_stream_count (fst (fst p)))) (snd p) (snd (fst p)) = Ok q"
    show "no_panic (res_fold (dispatch_stream st base) (fst q) (dispatch_start (snd q)))" by (rule dispatch_total)
    fix d assume d: "res_fold (dispatch_stream st base) (fst q) (dispatch_start (snd q)) = Ok d"
    show "no_panic (parse_table_stream st base (di_table_stream d) (di_diagnostics d))"
      using tp [OF _ dispatch_streams(1) [OF d]] ss(2) [OF r, where ss = "fst q" and ds = "snd q"] q by simp
  qed
  assume "metadata_parse_at bs base st = Ok m"
  then obtain rh ds r strs ds2 d tb ds3 where
    r: "read_root base st (reader_new bs base CTX_METADATA) = Ok ((rh, ds), r)"
    and s: "read_streams st bs base (unat (rh_stream_count rh)) r ds = Ok (strs, ds2)"
    and d: "res_fold (dispatch_stream st base) strs (dispatch_start ds2) = Ok d"
    and t: "parse_table_stream st base (di_table_stream d) (di_diagnostics d) = Ok (tb, ds3)"
    and m: "m = \<lparr>md_bytes = bs, md_base = base, md_strictness = st, md_diagnostics = ds3,
         md_major_version = rh_major_version rh, md_minor_version = rh_minor_version rh,
         md_flags = rh_flags rh, md_version_bytes = rh_version_bytes rh, md_streams = strs,
         md_strings = di_strings d, md_user_strings = di_user_strings d, md_blobs = di_blobs d,
         md_guids = di_guids d, md_tables = tb, md_has_pdb_stream = di_has_pdb_stream d\<rparr>"
    by (auto simp: metadata_parse_at_def res_iff)
  have "list_all (stream_in bs) strs" using ss(2) [OF _ s] rt(2) [OF r] by blast
  moreover have "case table_stream_of base strs of None \<Rightarrow> tb = tables_empty
      | Some (dat, at, unc) \<Rightarrow> \<exists>ds0 ds. tables_parse dat at unc st ds0 = Ok (tb, ds)"
    using t dispatch_streams(1) [OF d]
    by (auto simp: parse_table_stream_def dispatched_def split: option.splits if_splits)
  ultimately show "metadata_wf m \<and> md_bytes m = bs \<and> md_base m = base \<and> md_strictness m = st
      \<and> (is_strict st \<longrightarrow> distinct (map sh_name_bytes (md_streams m)))"
    using dispatch_streams [OF d] unfolding m metadata_wf_def dispatched_def
    by (cases "table_stream_of base strs") auto
qed

section \<open>Written metadata\<close>

text \<open>
  A metadata region with the streams \<open>ss\<close>, as a compiler writes it: the root header, the
  directory with padded names, and the streams one behind the other.
\<close>

definition name_field :: "bytes \<Rightarrow> bytes" where
  "name_field nm = nm @ replicate (4 - length nm mod 4) 0"

fun directory_bytes :: "nat \<Rightarrow> (bytes \<times> bytes) list \<Rightarrow> bytes" where
  "directory_bytes at [] = []"
| "directory_bytes at ((nm, d) # ss) =
     le4 (of_nat at) @ le4 (of_nat (length d)) @ name_field nm
     @ directory_bytes (at + length d) ss"

fun placed_streams :: "nat \<Rightarrow> (bytes \<times> bytes) list \<Rightarrow> StreamHeader list" where
  "placed_streams at [] = []"
| "placed_streams at ((nm, d) # ss) =
     \<lparr>sh_name_bytes = nm, sh_offset = of_nat at, sh_size = of_nat (length d), sh_data = d\<rparr>
     # placed_streams (at + length d) ss"

definition root_bytes :: "u16 \<Rightarrow> u16 \<Rightarrow> u16 \<Rightarrow> bytes \<Rightarrow> nat \<Rightarrow> nat \<Rightarrow> bytes" where
  "root_bytes mj mn fl ver pad n =
     le4 METADATA_SIGNATURE @ le2 mj @ le2 mn @ le4 0 @ le4 (of_nat (length ver + pad))
     @ (ver @ replicate pad 0) @ le2 fl @ le2 (of_nat n)"

definition streams_at :: "bytes \<Rightarrow> nat \<Rightarrow> (bytes \<times> bytes) list \<Rightarrow> nat" where
  "streams_at ver pad ss = 20 + length ver + pad + length (directory_bytes 0 ss)"

definition metadata_bytes :: "u16 \<Rightarrow> u16 \<Rightarrow> u16 \<Rightarrow> bytes \<Rightarrow> nat \<Rightarrow> (bytes \<times> bytes) list \<Rightarrow> bytes" where
  "metadata_bytes mj mn fl ver pad ss =
     root_bytes mj mn fl ver pad (length ss) @ directory_bytes (streams_at ver pad ss) ss @ concat (map snd ss)"

definition name_ok :: "bytes \<Rightarrow> bool" where
  "name_ok nm \<longleftrightarrow> 0 \<notin> set nm \<and> length nm \<le> 32"

lemma length_directory: "length (directory_bytes at ss) = length (directory_bytes at' ss)"
  by (induction at ss arbitrary: at' rule: directory_bytes.induct) auto

lemma length_root [simp]: "length (root_bytes mj mn fl ver pad n) = 20 + length ver + pad"
  by (simp add: root_bytes_def)

lemma position_pad: "0 \<notin> set nm \<Longrightarrow> position (\<lambda>b. b = 0) (nm @ 0 # xs) = Some (length nm)"
  by (induction nm) auto

lemma name_field_pad: "\<exists>zs. name_field nm = nm @ 0 # zs"
  unfolding name_field_def by (cases "4 - length nm mod 4") (auto simp: Suc_le_eq dest: diff_is_0_eq [THEN iffD1])

lemma length_name_field: "length (name_field nm) = (length nm + 4) div 4 * 4"
  unfolding name_field_def by simp presburger

lemma written_name:
  assumes "reader_on r (name_field nm @ ys)" and "name_ok nm"
  obtains r' where "reads_to (read_stream_name st) r (nm, []) (length (name_field nm)) ys r'"
proof -
  obtain zs where zs: "name_field nm = nm @ 0 # zs" using name_field_pad by blast
  have w: "reader_wf r" and dr: "drop (r_pos r) (r_data r) = name_field nm @ ys"
    using assms(1) by (simp_all add: reader_on_def)
  have sl: "slice_ok (name_field nm @ ys)" using w by (metis dr reader_wf_def slice_ok_drop)
  have pos: "position (\<lambda>b. b = 0) (name_field nm @ ys) = Some (length nm)"
    using assms(2) position_pad [of nm "zs @ ys"] by (simp add: zs name_ok_def)
  have "length (name_field nm @ ys) = length (r_data r) - r_pos r" by (metis dr length_drop)
  then have fit: "r_pos r + length (name_field nm) \<le> length (r_data r)" using w unfolding reader_wf_def length_append by linarith
  have "length (r_data r) \<le> usize_max"
    using w slice_ok_length [of "r_data r"] by (simp add: reader_wf_def usize_max_def)
  then have "read_stream_name st r = Ok ((nm, []), reader_adv r (length (name_field nm)))"
    using w dr fit assms(2)
    by (simp add: read_stream_name_def reader_rest_wf split_name_eq [OF sl] pos length_name_field [symmetric]
        name_ok_def usize_add_def reader_seek_def) (simp add: zs)
  then have "reads_to (read_stream_name st) r (nm, []) (length (name_field nm)) ys (reader_adv r (length (name_field nm)))"
    using reader_on_adv [OF assms(1) refl] by (simp add: reads_to_def)
  then show thesis by (rule that)
qed

lemma from_le_of_nat: "n \<le> u32_max \<Longrightarrow> unat (of_nat n :: u32) = n"
  by (simp add: unat_of_nat u32_max_def)

lemma read_written_streams:
  assumes "reader_on r (directory_bytes at ss @ ys)" and "length bs \<le> u32_max"
    and "drop at bs = concat (map snd ss)" and "at \<le> length bs" and "list_all (\<lambda>(nm, d). name_ok nm) ss"
  shows "read_streams st bs base (length ss) r ds = Ok (placed_streams at ss, ds)"
  using assms
proof (induction at ss arbitrary: r ds rule: directory_bytes.induct)
  case (2 at nm d ss)
  let ?dir = "directory_bytes (at + length d) ss @ ys"
  have "reader_on r (le4 (of_nat at) @ (le4 (of_nat (length d)) @ (name_field nm @ ?dir)))" using "2.prems"(1) by simp
  then obtain r1 where r1: "reads_to reader_u32 r (of_nat at) 4 (le4 (of_nat (length d)) @ (name_field nm @ ?dir)) r1"
    using step_u32 by blast
  obtain r2 where r2: "reads_to reader_u32 r1 (of_nat (length d)) 4 (name_field nm @ ?dir) r2"
    using step_u32 [OF reads_toD(2) [OF r1]] .
  obtain r3 where r3: "reads_to (read_stream_name st) r2 (nm, []) (length (name_field nm)) ?dir r3"
    using written_name [OF reads_toD(2) [OF r2]] "2.prems"(5) by auto
  have len: "at + length d \<le> length bs"
    using arg_cong [OF "2.prems"(3), of length] "2.prems"(4) by simp
  have data: "drop at bs = d @ concat (map snd ss)" using "2.prems"(3) by simp
  have "stream_data st bs base (of_nat at) (of_nat (length d)) = Ok (d, [])"
    using len "2.prems"(2) data
    by (auto simp: stream_data_def Let_def from_le_of_nat saturating_add_def get_range_def min_def u32_max_def usize_max_def)
  then have rs: "read_stream st bs base (of_nat at) (of_nat (length d)) r2 =
      Ok ((\<lparr>sh_name_bytes = nm, sh_offset = of_nat at, sh_size = of_nat (length d), sh_data = d\<rparr>, []), r3)"
    by (simp add: read_stream_def reads_toD(1) [OF r3])
  have "drop (at + length d) bs = concat (map snd ss)" using data by (metis add.commute append_eq_conv_conj drop_drop)
  then have "read_streams st bs base (length ss) r3 ds = Ok (placed_streams (at + length d) ss, ds)"
    using "2.IH" [OF reads_toD(2) [OF r3] "2.prems"(2) _ len, of ds] "2.prems"(5) by simp
  then show ?case by (simp add: Let_def reads_toD(1) [OF r1] reads_toD(1) [OF r2] rs)
qed simp

text \<open>Regions a writer produces: the name and version fields are terminated and everything fits.\<close>

definition region_ok :: "bytes \<Rightarrow> nat \<Rightarrow> (bytes \<times> bytes) list \<Rightarrow> bool" where
  "region_ok ver pad ss \<longleftrightarrow>
     0 < pad \<and> 0 \<notin> set ver \<and> list_all (\<lambda>(nm, d). name_ok nm) ss \<and> distinct (map fst ss)
     \<and> length ss < 2 ^ 16 \<and> length (metadata_bytes 0 0 0 ver pad ss) \<le> u32_max"

lemma length_metadata:
  "length (metadata_bytes mj mn fl ver pad ss) = streams_at ver pad ss + length (concat (map snd ss))"
  using length_directory [of "streams_at ver pad ss" ss 0] by (simp add: metadata_bytes_def streams_at_def)

lemma read_written_version:
  assumes "reader_on r (le4 (of_nat (length ver + pad)) @ ((ver @ replicate pad 0) @ ys))"
    and "0 < pad" and "0 \<notin> set ver" and "length ver + pad \<le> u32_max"
  obtains r' where "read_version st r = Ok ((ver, []), r')" "reader_on r' ys" "r_data r' = r_data r"
proof -
  obtain r1 where r1: "reads_to reader_u32 r (of_nat (length ver + pad)) 4 ((ver @ replicate pad 0) @ ys) r1"
    using step_u32 [OF assms(1)] .
  obtain r2 where r2: "reads_to (reader_take (length ver + pad)) r1 (ver @ replicate pad 0) (length ver + pad) ys r2"
    using step_take [OF reads_toD(2) [OF r1]] by (metis length_append length_replicate)
  have "position (\<lambda>b. b = 0) (ver @ replicate pad 0) = Some (length ver)"
    using position_pad [OF assms(3)] assms(2) by (cases pad) auto
  then have "read_version st r = Ok ((ver, []), r2)"
    using from_le_of_nat [OF assms(4)]
    by (simp add: read_version_def reads_toD(1) [OF r1] reads_toD(1) [OF r2] Let_def index_range_def get_range_def)
  then show thesis by (rule that) (simp_all add: reads_toD(2) [OF r2] reads_toD(4) [OF r1] reads_toD(4) [OF r2])
qed

lemma read_written_root:
  assumes "reader_on r (root_bytes mj mn fl ver pad n @ ys)"
    and "0 < pad" and "0 \<notin> set ver" and "length ver + pad \<le> u32_max"
  obtains r' where "read_root base st r = Ok ((\<lparr>rh_major_version = mj, rh_minor_version = mn,
      rh_version_bytes = ver, rh_flags = fl, rh_stream_count = of_nat n\<rparr>, []), r')" "reader_on r' ys"
proof -
  let ?v = "le4 (of_nat (length ver + pad)) @ ((ver @ replicate pad 0) @ (le2 fl @ (le2 (of_nat n) @ ys)))"
  have "reader_on r (le4 METADATA_SIGNATURE @ (le2 mj @ (le2 mn @ (le4 0 @ ?v))))"
    using assms(1) by (simp add: root_bytes_def)
  then obtain r1 where r1: "reads_to reader_u32 r METADATA_SIGNATURE 4 (le2 mj @ (le2 mn @ (le4 0 @ ?v))) r1"
    using step_u32 by blast
  obtain r2 where r2: "reads_to reader_u16 r1 mj 2 (le2 mn @ (le4 0 @ ?v)) r2"
    using step_u16 [OF reads_toD(2) [OF r1]] .
  obtain r3 where r3: "reads_to reader_u16 r2 mn 2 (le4 0 @ ?v) r3" using step_u16 [OF reads_toD(2) [OF r2]] .
  obtain r4 where r4: "reads_to reader_u32 r3 0 4 ?v r4" using step_u32 [OF reads_toD(2) [OF r3]] .
  obtain r5 where r5: "read_version st r4 = Ok ((ver, []), r5)" "reader_on r5 (le2 fl @ (le2 (of_nat n) @ ys))"
    using read_written_version [OF reads_toD(2) [OF r4] assms(2-4)] by blast
  obtain r6 where r6: "reads_to reader_u16 r5 fl 2 (le2 (of_nat n) @ ys) r6" using step_u16 [OF r5(2)] .
  obtain r7 where r7: "reads_to reader_u16 r6 (of_nat n) 2 ys r7" using step_u16 [OF reads_toD(2) [OF r6]] .
  note all = r1 r2 r3 r4 r6 r7
  have "read_root base st r = Ok ((\<lparr>rh_major_version = mj, rh_minor_version = mn,
      rh_version_bytes = ver, rh_flags = fl, rh_stream_count = of_nat n\<rparr>, []), r7)"
    by (simp add: read_root_def all [THEN reads_toD(1)] r5(1))
  then show thesis by (rule that) (rule reads_toD(2) [OF r7])
qed

lemma dispatch_distinct:
  assumes "distinct (map sh_name_bytes ss)" and "set (di_seen d) \<inter> sh_name_bytes ` set ss = {}"
  shows "\<exists>d'. res_fold (dispatch_stream st base) ss d = Ok d' \<and> di_diagnostics d' = di_diagnostics d"
  using assms
proof (induction ss arbitrary: d)
  case (Cons s ss)
  define e where "e = dispatch_name s (saturating_add base (unat (sh_offset s))) (d\<lparr>di_seen := di_seen d @ [sh_name_bytes s]\<rparr>)"
  have st: "dispatch_stream st base s d = Ok e" using Cons.prems(2) by (simp add: dispatch_stream_def Let_def e_def)
  have dg: "di_diagnostics e = di_diagnostics d" by (simp add: e_def dispatch_name_def Let_def)
  have "set (di_seen e) = insert (sh_name_bytes s) (set (di_seen d))" by (simp add: e_def dispatch_name_fields)
  with Cons.prems have "set (di_seen e) \<inter> sh_name_bytes ` set ss = {}" by auto
  with Cons.IH [of e] Cons.prems(1) show ?case by (simp add: st dg)
qed simp

lemma placed_names: "map sh_name_bytes (placed_streams at ss) = map fst ss"
  by (induction at ss rule: placed_streams.induct) auto

definition written_metadata ::
    "u16 \<Rightarrow> u16 \<Rightarrow> u16 \<Rightarrow> bytes \<Rightarrow> nat \<Rightarrow> (bytes \<times> bytes) list \<Rightarrow> nat \<Rightarrow> Strictness \<Rightarrow> Tables \<times> diagnostic list \<Rightarrow> Metadata"
  where
  "written_metadata mj mn fl ver pad ss base st td =
     (let ps = placed_streams (streams_at ver pad ss) ss in
      \<lparr>md_bytes = metadata_bytes mj mn fl ver pad ss, md_base = base, md_strictness = st, md_diagnostics = snd td,
       md_major_version = mj, md_minor_version = mn, md_flags = fl, md_version_bytes = ver, md_streams = ps,
       md_strings = heap_of base STRINGS_NAME ps, md_user_strings = heap_of base US_NAME ps,
       md_blobs = heap_of base BLOB_NAME ps, md_guids = heap_of base GUID_NAME ps, md_tables = fst td,
       md_has_pdb_stream = (PDB_NAME \<in> set (map fst ss))\<rparr>)"

lemma parse_written_metadata:
  assumes "region_ok ver pad ss"
  shows "metadata_parse_at (metadata_bytes mj mn fl ver pad ss) base st =
     res_bind (parse_table_stream st base (table_stream_of base (placed_streams (streams_at ver pad ss) ss)) [])
       (\<lambda>td. Ok (written_metadata mj mn fl ver pad ss base st td))"
proof -
  let ?bs = "metadata_bytes mj mn fl ver pad ss"
  let ?at = "streams_at ver pad ss"
  let ?ps = "placed_streams ?at ss"
  have len: "length ?bs = ?at + length (concat (map snd ss))" by (rule length_metadata)
  have ok: "0 < pad" "0 \<notin> set ver" "list_all (\<lambda>(nm, d). name_ok nm) ss" "distinct (map fst ss)"
      "length ss < 2 ^ 16" "?at + length (concat (map snd ss)) \<le> u32_max"
    using assms by (simp_all add: region_ok_def length_metadata)
  have fit: "length ver + pad \<le> u32_max" "length ?bs \<le> u32_max" "?at \<le> length ?bs"
    using ok(6) by (simp_all add: len) (simp add: streams_at_def)
  have "slice_ok ?bs" using fit(2) by (simp add: slice_ok_def isize_max_def u32_max_def)
  then have "reader_on (reader_new ?bs base CTX_METADATA)
      (root_bytes mj mn fl ver pad (length ss) @ (directory_bytes ?at ss @ concat (map snd ss)))"
    by (simp add: metadata_bytes_def)
  then obtain r1 where root: "read_root base st (reader_new ?bs base CTX_METADATA) =
      Ok ((\<lparr>rh_major_version = mj, rh_minor_version = mn, rh_version_bytes = ver, rh_flags = fl,
           rh_stream_count = of_nat (length ss)\<rparr>, []), r1)"
    and r1: "reader_on r1 (directory_bytes ?at ss @ concat (map snd ss))"
    using read_written_root [OF _ ok(1,2) fit(1)] by blast
  have "?at = length (root_bytes mj mn fl ver pad (length ss) @ directory_bytes ?at ss)"
    using length_directory [of ?at ss 0] by (simp add: streams_at_def)
  then have data: "drop ?at ?bs = concat (map snd ss)"
    unfolding metadata_bytes_def append_assoc [symmetric] by (metis append_eq_conv_conj)
  have cnt: "unat (of_nat (length ss) :: u16) = length ss" using ok(5) by (simp add: unat_of_nat)
  note streams = read_written_streams [OF r1 fit(2) data fit(3) ok(3), of st base "[]"]
  obtain d where d: "res_fold (dispatch_stream st base) ?ps (dispatch_start []) = Ok d"
    and dg: "di_diagnostics d = []"
    using dispatch_distinct [of ?ps "dispatch_start []" st base] ok(4)
    by (auto simp: placed_names dispatch_start_def)
  have names: "sh_name_bytes ` set ?ps = fst ` set ss"
    using arg_cong [OF placed_names [of ?at ss], of set] by simp
  show ?thesis
    using dispatch_streams(1) [OF d] unfolding dispatched_def
    by (simp add: metadata_parse_at_def root streams cnt d dg written_metadata_def Let_def names case_prod_beta')
qed

section \<open>The metadata of an image\<close>

lemma take_own_length: "xs = take n ys \<Longrightarrow> xs = take (length xs) ys"
  by (cases "n \<le> length ys") simp_all

lemma pe_metadata_wf:
  assumes "pe_wf img"
  shows "no_panic (pe_metadata img)"
    and "pe_metadata img = Ok m \<Longrightarrow> metadata_wf m \<and> md_strictness m = pe_strictness img
      \<and> md_bytes m = take (length (md_bytes m)) (drop (md_base m) (pe_bytes img))
      \<and> md_base m + length (md_bytes m) \<le> length (pe_bytes img)"
proof -
  have fit: "base + u32_max + length bs \<le> usize_max" if "base + length bs \<le> length (pe_bytes img)" for base and bs :: bytes
    using that assms slice_ok_length [of "pe_bytes img"] by (simp add: pe_wf_def u32_max_def usize_max_def)
  have p: "slice_ok bs \<and> base + u32_max + length bs \<le> usize_max" if "metadata_region img = Ok (bs, base)" for bs base
    using metadata_region_in_file(2,3) [OF assms that] fit by blast
  show "no_panic (pe_metadata img)"
    using metadata_region_backing(1) [OF assms] metadata_parse_at_wf(1) p
    by (auto simp: pe_metadata_def res_iff)
  assume "pe_metadata img = Ok m"
  then obtain bs base where r: "metadata_region img = Ok (bs, base)"
    and q: "metadata_parse_at bs base (pe_strictness img) = Ok m"
    by (auto simp: pe_metadata_def res_iff)
  have "slice_ok bs" "base + u32_max + length bs \<le> usize_max" using p [OF r] by auto
  from metadata_parse_at_wf(2) [OF this q] metadata_region_in_file(1,2) [OF assms r]
  show "metadata_wf m \<and> md_strictness m = pe_strictness img
      \<and> md_bytes m = take (length (md_bytes m)) (drop (md_base m) (pe_bytes img))
      \<and> md_base m + length (md_bytes m) \<le> length (pe_bytes img)" by simp
qed

section \<open>The sample region\<close>

definition sample_streams :: "(bytes \<times> bytes) list" where
  "sample_streams = [(TABLES_NAME, stream_bytes 2 0 0 0 0 (\<lambda>_. 0) []), (STRINGS_NAME, [0, 97, 0, 0])]"

lemma empty_stream_bytes:
  "stream_bytes 2 0 0 0 0 (\<lambda>_. 0) [] = [0, 0, 0, 0, 2, 0, 0, 1] @ replicate 16 0"
  by code_simp

lemma sample_region: "sample_metadata = metadata_bytes 1 1 0 [118, 52] 2 sample_streams"
  unfolding sample_streams_def empty_stream_bytes by code_simp

lemma sample_region_ok: "region_ok [118, 52] 2 sample_streams"
proof -
  have "length (metadata_bytes 0 0 0 [118, 52] 2 sample_streams) = 84"
    by (simp add: length_metadata streams_at_def sample_streams_def empty_stream_bytes name_field_def name_defs)
  then show ?thesis
    by (simp add: region_ok_def u32_max_def) (simp add: sample_streams_def name_ok_def name_defs)
qed

lemma empty_stream_parses:
  "\<exists>t ds. tables_parse (stream_bytes 2 0 0 0 0 (\<lambda>_. 0) []) base unc st diags = Ok (t, ds)
     \<and> (\<forall>table. row_count t table = 0)"
proof -
  have rc: "declared_counts 0 (\<lambda>_. 0) ! slot_of t = 0" for t
    using slot_of_less [of t] by (simp add: declared_counts_def)
  have "stream_ok 0 0 (\<lambda>_. 0) []" by (simp add: stream_ok_def table_bytes_def rc list_all_iff)
  moreover have "slice_ok (stream_bytes 2 0 0 0 0 (\<lambda>_. 0) [])"
    by (simp add: empty_stream_bytes slice_ok_def isize_max_def)
  ultimately show ?thesis using stream_parses [of 0 0 "\<lambda>_. 0" "[]" 2 0 0 st base unc diags] by (auto simp: rc)
qed

lemma sample_parses:
  obtains m where "metadata_parse_at sample_metadata base st = Ok m"
    and "map sh_name_bytes (md_streams m) = [TABLES_NAME, STRINGS_NAME]"
    and "md_strings m = span_new [0, 97, 0, 0] (saturating_add base 80)"
    and "md_version_bytes m = [118, 52]" and "row_count (md_tables m) T_Module = 0"
proof -
  define ps where "ps = placed_streams (streams_at [118, 52] 2 sample_streams) sample_streams"
  have at: "streams_at [118, 52] 2 sample_streams = 56"
    by (simp add: streams_at_def sample_streams_def name_field_def name_defs)
  obtain t ds where t: "tables_parse (stream_bytes 2 0 0 0 0 (\<lambda>_. 0) []) (saturating_add base 56) False st [] = Ok (t, ds)"
    and rows: "row_count t T_Module = 0" using empty_stream_parses by blast
  have tab: "table_stream_of base ps = Some (stream_bytes 2 0 0 0 0 (\<lambda>_. 0) [], saturating_add base 56, False)"
    unfolding ps_def at by (simp add: sample_streams_def table_stream_of_def first_named_def name_defs)
  have str: "heap_of base STRINGS_NAME ps = span_new [0, 97, 0, 0] (saturating_add base 80)"
    unfolding ps_def at by (simp add: sample_streams_def heap_of_def first_named_def name_defs empty_stream_bytes)
  have "metadata_parse_at sample_metadata base st = Ok (written_metadata 1 1 0 [118, 52] 2 sample_streams base st (t, ds))"
    using parse_written_metadata [OF sample_region_ok, of 1 1 0 base st]
    by (simp add: sample_region parse_table_stream_def tab [unfolded ps_def] t)
  then show thesis
    by (rule that) (simp_all add: written_metadata_def Let_def placed_names str [unfolded ps_def] rows,
      simp add: sample_streams_def)
qed

section \<open>Properties\<close>

text \<open>C39: Parsing a metadata region never panics when its absolute offsets fit. In what it returns,
  every stream holds exactly the bytes its offset and size select, cut to the region; each heap is
  the first stream of its name in the order of the directory; the tables are those of the first
  table stream of either kind; a Portable PDB is reported exactly when its stream is there; and a
  strict parse has accepted no duplicate name.\<close>

theorem metadata_dispatch_exact:
  assumes "slice_ok bs" and "base + u32_max + length bs \<le> usize_max"
  shows "no_panic (metadata_parse_at bs base st)
     \<and> (\<forall>m. metadata_parse_at bs base st = Ok m \<longrightarrow>
          metadata_wf m \<and> md_bytes m = bs \<and> md_base m = base
          \<and> (is_strict st \<longrightarrow> distinct (map sh_name_bytes (md_streams m))))"
  using metadata_parse_at_wf [OF assms, of st] by blast

theorem metadata_dispatch_exact_witness:
  "\<exists>m. metadata_parse_at sample_metadata 0 Strict = Ok m \<and> metadata_wf m
     \<and> distinct (map sh_name_bytes (md_streams m)) \<and> length (md_streams m) = 2"
proof -
  have "slice_ok sample_metadata" "0 + u32_max + length sample_metadata \<le> usize_max"
    by (simp_all add: sample_metadata_def slice_ok_def isize_max_def u32_max_def usize_max_def)
  from metadata_dispatch_exact [OF this, of Strict] sample_parses [of 0 Strict] show ?thesis
    by (metis length_map list.size(3,4) One_nat_def add_2_eq_Suc' is_strict.simps(1) add_Suc_right add_0_right numeral_2_eq_2)
qed

text \<open>C6: A region that is laid out by the rules parses back, strict or lenient: the version, the
  flags and the directory come back as they were written, every stream with its own bytes, the heaps
  are the streams of their names, and only the table stream decides whether the parse succeeds.\<close>

theorem metadata_roundtrip:
  assumes "region_ok ver pad ss"
  shows "metadata_parse_at (metadata_bytes mj mn fl ver pad ss) base st =
     res_bind (parse_table_stream st base (table_stream_of base (placed_streams (streams_at ver pad ss) ss)) [])
       (\<lambda>td. Ok (written_metadata mj mn fl ver pad ss base st td))"
  by (rule parse_written_metadata [OF assms])

theorem metadata_roundtrip_witness:
  "\<exists>td. region_ok [118, 52] 2 sample_streams
     \<and> metadata_parse_at (metadata_bytes 1 1 0 [118, 52] 2 sample_streams) 0 Strict =
        Ok (written_metadata 1 1 0 [118, 52] 2 sample_streams 0 Strict td)"
proof -
  obtain m where "metadata_parse_at (metadata_bytes 1 1 0 [118, 52] 2 sample_streams) 0 Strict = Ok m"
    using sample_parses [of 0 Strict] unfolding sample_region by blast
  then show ?thesis
    using metadata_roundtrip [OF sample_region_ok, of 1 1 0 0 Strict] sample_region_ok by (auto simp: res_bind_Ok_iff)
qed

text \<open>C20: From a file to its metadata: for every image that parses, loading the metadata never panics,
  and what it returns lies in the file. The region is the run of file bytes at the base offset, and
  every stream the part of the file at base plus its declared offset.\<close>

theorem image_metadata_in_file:
  assumes "slice_ok file" and "pe_parse_with file st = Ok img"
  shows "no_panic (pe_metadata img)
     \<and> (\<forall>m. pe_metadata img = Ok m \<longrightarrow>
          metadata_wf m \<and> md_strictness m = st \<and> md_base m + length (md_bytes m) \<le> length file
          \<and> md_bytes m = take (length (md_bytes m)) (drop (md_base m) file)
          \<and> (\<forall>s \<in> set (md_streams m).
               sh_data s = take (length (sh_data s)) (drop (md_base m + unat (sh_offset s)) file)))"
proof -
  have w: "pe_wf img" and f: "pe_bytes img = file" and st: "pe_strictness img = st"
    using pe_parse_wf(2) [OF assms] by auto
  have "sh_data s = take (length (sh_data s)) (drop (md_base m + unat (sh_offset s)) file)"
    if m: "pe_metadata img = Ok m" and s: "s \<in> set (md_streams m)" for m s
  proof -
    have d: "sh_data s = take (unat (sh_size s)) (drop (unat (sh_offset s)) (md_bytes m))"
      using pe_metadata_wf(2) [OF w m] s by (simp add: metadata_wf_def stream_in_def list_all_iff)
    have b: "md_bytes m = take (length (md_bytes m)) (drop (md_base m) file)"
      using pe_metadata_wf(2) [OF w m] by (simp add: f)
    have "sh_data s = take (unat (sh_size s)) (drop (unat (sh_offset s)) (take (length (md_bytes m)) (drop (md_base m) file)))"
      using d b by simp
    also have "\<dots> = take (min (unat (sh_size s)) (length (md_bytes m) - unat (sh_offset s)))
        (drop (md_base m + unat (sh_offset s)) file)"
      by (simp add: drop_take take_take add.commute)
    finally show ?thesis by (rule take_own_length)
  qed
  then show ?thesis using pe_metadata_wf [OF w] by (simp add: f st)
qed

theorem image_metadata_in_file_witness:
  "\<exists>m. pe_metadata sample_pe = Ok m \<and> md_base m + length (md_bytes m) \<le> length sample_image
     \<and> map sh_name_bytes (md_streams m) = [TABLES_NAME, STRINGS_NAME]
     \<and> md_strings m = span_new [0, 97, 0, 0] 500"
proof -
  obtain m where "metadata_parse_at sample_metadata 420 Strict = Ok m"
    "map sh_name_bytes (md_streams m) = [TABLES_NAME, STRINGS_NAME]"
    "md_strings m = span_new [0, 97, 0, 0] (saturating_add 420 80)" using sample_parses .
  moreover have "pe_strictness sample_pe = Strict" by (simp add: sample_pe_def)
  ultimately show ?thesis
    using image_metadata_in_file [OF sample_image_slice sample_pe_parses]
    by (auto simp: pe_metadata_def sample_metadata_region saturating_add_def usize_max_def)
qed

end
