(* ===== verification/Signature.thy ===== *)
theory Signature
  imports Compressed Token
begin

text \<open>
  Blob signatures (\<open>src/signature.rs\<close>): the types and signatures, the parser state and its
  primitive reads, and the recursive-descent parser with its recursion limit.

  The parser of the source recurses through \<open>type_\<close> and \<open>method_sig\<close>, and every such call
  passes through \<open>enter\<close>, which counts the nesting in \<open>depth\<close> and fails behind the limit.
  Here \<open>type_inner\<close> and \<open>method_sig_inner\<close> take the two recursive calls as arguments, and
  \<open>parse_type\<close> and \<open>parse_method\<close> tie the knot with a bound on the number of nested calls;
  a call behind that bound would be a \<open>Panic\<close> (the stack). The entry points allow
  \<open>limit + 1\<close> nested calls, and \<open>parser_total\<close> shows that no input needs more.
\<close>

section \<open>Element types and calling conventions\<close>

definition ET_END :: u8 where "ET_END = 0x00"
definition ET_VOID :: u8 where "ET_VOID = 0x01"
definition ET_BOOLEAN :: u8 where "ET_BOOLEAN = 0x02"
definition ET_CHAR :: u8 where "ET_CHAR = 0x03"
definition ET_I1 :: u8 where "ET_I1 = 0x04"
definition ET_U1 :: u8 where "ET_U1 = 0x05"
definition ET_I2 :: u8 where "ET_I2 = 0x06"
definition ET_U2 :: u8 where "ET_U2 = 0x07"
definition ET_I4 :: u8 where "ET_I4 = 0x08"
definition ET_U4 :: u8 where "ET_U4 = 0x09"
definition ET_I8 :: u8 where "ET_I8 = 0x0A"
definition ET_U8 :: u8 where "ET_U8 = 0x0B"
definition ET_R4 :: u8 where "ET_R4 = 0x0C"
definition ET_R8 :: u8 where "ET_R8 = 0x0D"
definition ET_STRING :: u8 where "ET_STRING = 0x0E"
definition ET_PTR :: u8 where "ET_PTR = 0x0F"
definition ET_BYREF :: u8 where "ET_BYREF = 0x10"
definition ET_VALUETYPE :: u8 where "ET_VALUETYPE = 0x11"
definition ET_CLASS :: u8 where "ET_CLASS = 0x12"
definition ET_VAR :: u8 where "ET_VAR = 0x13"
definition ET_ARRAY :: u8 where "ET_ARRAY = 0x14"
definition ET_GENERICINST :: u8 where "ET_GENERICINST = 0x15"
definition ET_TYPEDBYREF :: u8 where "ET_TYPEDBYREF = 0x16"
definition ET_I :: u8 where "ET_I = 0x18"
definition ET_U :: u8 where "ET_U = 0x19"
definition ET_FNPTR :: u8 where "ET_FNPTR = 0x1B"
definition ET_OBJECT :: u8 where "ET_OBJECT = 0x1C"
definition ET_SZARRAY :: u8 where "ET_SZARRAY = 0x1D"
definition ET_MVAR :: u8 where "ET_MVAR = 0x1E"
definition ET_CMOD_REQD :: u8 where "ET_CMOD_REQD = 0x1F"
definition ET_CMOD_OPT :: u8 where "ET_CMOD_OPT = 0x20"
definition ET_INTERNAL :: u8 where "ET_INTERNAL = 0x21"
definition ET_MODIFIER :: u8 where "ET_MODIFIER = 0x40"
definition ET_SENTINEL :: u8 where "ET_SENTINEL = 0x41"
definition ET_PINNED :: u8 where "ET_PINNED = 0x45"

lemmas et_defs = ET_END_def ET_VOID_def ET_BOOLEAN_def ET_CHAR_def ET_I1_def ET_U1_def ET_I2_def ET_U2_def
  ET_I4_def ET_U4_def ET_I8_def ET_U8_def ET_R4_def ET_R8_def ET_STRING_def ET_PTR_def ET_BYREF_def
  ET_VALUETYPE_def ET_CLASS_def ET_VAR_def ET_ARRAY_def ET_GENERICINST_def ET_TYPEDBYREF_def ET_I_def
  ET_U_def ET_FNPTR_def ET_OBJECT_def ET_SZARRAY_def ET_MVAR_def ET_CMOD_REQD_def ET_CMOD_OPT_def
  ET_INTERNAL_def ET_MODIFIER_def ET_SENTINEL_def ET_PINNED_def

definition CONV_DEFAULT :: u8 where "CONV_DEFAULT = 0x00"
definition CONV_C :: u8 where "CONV_C = 0x01"
definition CONV_STDCALL :: u8 where "CONV_STDCALL = 0x02"
definition CONV_THISCALL :: u8 where "CONV_THISCALL = 0x03"
definition CONV_FASTCALL :: u8 where "CONV_FASTCALL = 0x04"
definition CONV_VARARG :: u8 where "CONV_VARARG = 0x05"
definition CONV_FIELD :: u8 where "CONV_FIELD = 0x06"
definition CONV_LOCAL_SIG :: u8 where "CONV_LOCAL_SIG = 0x07"
definition CONV_PROPERTY :: u8 where "CONV_PROPERTY = 0x08"
definition CONV_UNMANAGED :: u8 where "CONV_UNMANAGED = 0x09"
definition CONV_GENERICINST :: u8 where "CONV_GENERICINST = 0x0A"
definition CONV_NATIVEVARARG :: u8 where "CONV_NATIVEVARARG = 0x0B"
definition CONV_MASK :: u8 where "CONV_MASK = 0x0F"
definition CONV_GENERIC :: u8 where "CONV_GENERIC = 0x10"
definition CONV_HASTHIS :: u8 where "CONV_HASTHIS = 0x20"
definition CONV_EXPLICITTHIS :: u8 where "CONV_EXPLICITTHIS = 0x40"

lemmas conv_defs = CONV_DEFAULT_def CONV_C_def CONV_STDCALL_def CONV_THISCALL_def CONV_FASTCALL_def
  CONV_VARARG_def CONV_FIELD_def CONV_LOCAL_SIG_def CONV_PROPERTY_def CONV_UNMANAGED_def CONV_GENERICINST_def
  CONV_NATIVEVARARG_def CONV_MASK_def CONV_GENERIC_def CONV_HASTHIS_def CONV_EXPLICITTHIS_def

section \<open>Types and signatures\<close>

record CustomMod =
  cm_required :: bool
  cm_type_token :: Token

record ArrayShape =
  as_rank :: u32
  as_sizes :: "u32 list"
  as_lo_bounds :: "int list"

datatype CallConv =
    CC_Default | CC_VarArg | CC_Generic u32 | CC_C | CC_StdCall | CC_ThisCall | CC_FastCall
  | CC_Unmanaged | CC_NativeVarArg | CC_Field | CC_LocalSig | CC_Property | CC_GenericInst

text \<open>\<open>Type\<close>, \<open>Param\<close> and \<open>MethodSig\<close> are mutually recursive, through \<open>FnPtr\<close>.\<close>

datatype Type =
    Ty_Void | Ty_Boolean | Ty_Char | Ty_I1 | Ty_U1 | Ty_I2 | Ty_U2 | Ty_I4 | Ty_U4 | Ty_I8 | Ty_U8
  | Ty_R4 | Ty_R8 | Ty_String | Ty_Object | Ty_TypedByRef | Ty_IntPtr | Ty_UIntPtr
  | Ty_Ptr "CustomMod list" Type
  | Ty_ByRef Type
  | Ty_ValueType Token
  | Ty_Class Token
  | Ty_Var u32
  | Ty_MVar u32
  | Ty_Array Type ArrayShape
  | Ty_SzArray "CustomMod list" Type
  | Ty_GenericInst bool Token "Type list"
  | Ty_FnPtr MethodSig
  | Ty_Modified "CustomMod list" Type
  | Ty_Pinned Type
  | Ty_Sentinel
  | Ty_Internal nat
and Param =
    Param (pa_custom_mods: "CustomMod list") (pa_by_ref: bool) (pa_type: Type)
and MethodSig =
    MethodSig (ms_raw: bytes) (ms_calling_convention: CallConv) (ms_has_this: bool) (ms_explicit_this: bool)
      (ms_return_type: Param) (ms_params: "Param list") (ms_vararg_params: "Param list")

record FieldSig =
  fs_raw :: bytes
  fs_custom_mods :: "CustomMod list"
  fs_type :: Type

record LocalVar =
  lv_custom_mods :: "CustomMod list"
  lv_pinned :: bool
  lv_by_ref :: bool
  lv_type :: Type

record LocalVarSig =
  ls_raw :: bytes
  ls_locals :: "LocalVar list"

record PropertySig =
  prs_raw :: bytes
  prs_has_this :: bool
  prs_return_type :: Param
  prs_params :: "Param list"

record MethodSpecSig =
  mss_raw :: bytes
  mss_args :: "Type list"

record TypeSpecSig =
  tss_raw :: bytes
  tss_type :: Type

fun primitive_width :: "u16 \<Rightarrow> Type \<Rightarrow> u16 option" where
  "primitive_width pointer_bits (Ty_Modified _ inner) = primitive_width pointer_bits inner"
| "primitive_width pointer_bits (Ty_Pinned inner) = primitive_width pointer_bits inner"
| "primitive_width pointer_bits t =
     (if t \<in> {Ty_Boolean, Ty_I1, Ty_U1} then Some 8
      else if t \<in> {Ty_Char, Ty_I2, Ty_U2} then Some 16
      else if t \<in> {Ty_I4, Ty_U4, Ty_R4} then Some 32
      else if t \<in> {Ty_I8, Ty_U8, Ty_R8} then Some 64
      else case t of
          Ty_IntPtr \<Rightarrow> Some pointer_bits | Ty_UIntPtr \<Rightarrow> Some pointer_bits | Ty_Ptr _ _ \<Rightarrow> Some pointer_bits
        | Ty_ByRef _ \<Rightarrow> Some pointer_bits | Ty_FnPtr _ \<Rightarrow> Some pointer_bits
        | Ty_String \<Rightarrow> Some pointer_bits | Ty_Object \<Rightarrow> Some pointer_bits | Ty_Class _ \<Rightarrow> Some pointer_bits
        | Ty_SzArray _ _ \<Rightarrow> Some pointer_bits | Ty_Array _ _ \<Rightarrow> Some pointer_bits
        | _ \<Rightarrow> None)"

definition is_primitive :: "Type \<Rightarrow> bool" where
  "is_primitive t \<longleftrightarrow>
     t \<in> {Ty_Boolean, Ty_Char, Ty_I1, Ty_U1, Ty_I2, Ty_U2, Ty_I4, Ty_U4, Ty_I8, Ty_U8, Ty_R4, Ty_R8,
          Ty_IntPtr, Ty_UIntPtr}"

fun unwrap_modifiers :: "Type \<Rightarrow> Type" where
  "unwrap_modifiers (Ty_Modified _ inner) = unwrap_modifiers inner"
| "unwrap_modifiers (Ty_Pinned inner) = unwrap_modifiers inner"
| "unwrap_modifiers t = t"

definition conv_is_unmanaged :: "CallConv \<Rightarrow> bool" where
  "conv_is_unmanaged c \<longleftrightarrow> c \<in> {CC_C, CC_StdCall, CC_ThisCall, CC_FastCall, CC_Unmanaged, CC_NativeVarArg}"

definition generic_param_count :: "CallConv \<Rightarrow> u32" where
  "generic_param_count c = (case c of CC_Generic n \<Rightarrow> n | _ \<Rightarrow> 0)"

definition param_is_void :: "Param \<Rightarrow> bool" where
  "param_is_void p \<longleftrightarrow> pa_type p = Ty_Void"

definition param_count :: "MethodSig \<Rightarrow> nat" where
  "param_count m = length (ms_params m) + length (ms_vararg_params m)"

definition has_return :: "MethodSig \<Rightarrow> bool" where
  "has_return m \<longleftrightarrow> \<not> param_is_void (ms_return_type m)"

definition arg_count_with_this :: "MethodSig \<Rightarrow> nat" where
  "arg_count_with_this m = param_count m + (if ms_has_this m then 1 else 0)"

section \<open>The parser state\<close>

text \<open>\<open>SignatureOptions\<close> is its recursion limit.\<close>

definition default_recursion_limit :: nat where
  "default_recursion_limit = 64"

record parser =
  ps_data :: bytes
  ps_pos :: nat
  ps_depth :: nat
  ps_limit :: nat
  ps_pinned_seen :: bool

definition parser_new :: "bytes \<Rightarrow> nat \<Rightarrow> parser" where
  "parser_new dat limit = \<lparr>ps_data = dat, ps_pos = 0, ps_depth = 0, ps_limit = limit, ps_pinned_seen = False\<rparr>"

definition sig_error :: "ErrorKind \<Rightarrow> parser \<Rightarrow> error" where
  "sig_error kind p = error_new kind (ps_pos p) ''signature''"

definition sig_error_at :: "ErrorKind \<Rightarrow> nat \<Rightarrow> error" where
  "sig_error_at kind pos = error_new kind pos ''signature''"

definition sig_remaining :: "parser \<Rightarrow> nat" where
  "sig_remaining p = saturating_sub (length (ps_data p)) (ps_pos p)"

definition sig_advance :: "nat \<Rightarrow> parser \<Rightarrow> parser result" where
  "sig_advance n p = res_bind (usize_add (ps_pos p) n) (\<lambda>e. Ok (p\<lparr>ps_pos := e\<rparr>))"

definition sig_u8 :: "parser \<Rightarrow> (u8 \<times> parser) result" where
  "sig_u8 p =
     res_bind (ok_or (get_at (ps_data p) (ps_pos p)) (sig_error Truncated p)) (\<lambda>b.
     res_bind (sig_advance 1 p) (\<lambda>p. Ok (b, p)))"

definition sig_peek :: "parser \<Rightarrow> u8 result" where
  "sig_peek p = ok_or (get_at (ps_data p) (ps_pos p)) (sig_error Truncated p)"

definition sig_compressed :: "(bytes \<Rightarrow> ('a \<times> nat) result) \<Rightarrow> parser \<Rightarrow> ('a \<times> parser) result" where
  "sig_compressed rd p =
     (let at = ps_pos p in
      res_bind (index_from (ps_data p) (min (ps_pos p) (length (ps_data p)))) (\<lambda>rest.
      res_bind (map_err (\<lambda>e. error_rebase e at) (rd rest)) (\<lambda>(v, used).
      res_bind (sig_advance used p) (\<lambda>p. Ok (v, p)))))"

definition sig_cu32 :: "parser \<Rightarrow> (u32 \<times> parser) result" where
  "sig_cu32 = sig_compressed read_compressed_u32"

definition sig_ci32 :: "parser \<Rightarrow> (int \<times> parser) result" where
  "sig_ci32 = sig_compressed read_compressed_i32"

definition bounded_count :: "parser \<Rightarrow> (nat \<times> parser) result" where
  "bounded_count p =
     (let at = ps_pos p in
      res_bind (sig_cu32 p) (\<lambda>(count, p).
      if sig_remaining p < unat count then Err (sig_error_at Malformed at) else Ok (unat count, p)))"

definition expect_convention :: "u8 \<Rightarrow> parser \<Rightarrow> (u8 \<times> parser) result" where
  "expect_convention expected p =
     (let at = ps_pos p in
      res_bind (sig_u8 p) (\<lambda>(byte, p).
      if byte AND CONV_MASK \<noteq> expected then Err (sig_error_at Malformed at) else Ok (byte, p)))"

definition type_token :: "parser \<Rightarrow> (Token \<times> parser) result" where
  "type_token p =
     (let at = ps_pos p in
      res_bind (sig_cu32 p) (\<lambda>(v, p).
      let tag = v AND 0x03 in
      if tag = 0 then Ok (token_new T_TypeDef (drop_bit 2 v), p)
      else if tag = 1 then Ok (token_new T_TypeRef (drop_bit 2 v), p)
      else if tag = 2 then Ok (token_new T_TypeSpec (drop_bit 2 v), p)
      else Err (sig_error_at Malformed at)))"

text \<open>
  The loop over custom modifiers: a failing \<open>peek\<close> ends it, and so does any other byte. It
  collects more than the limit at most by one, which bounds it.
\<close>

definition mod_kind :: "u8 \<Rightarrow> bool option" where
  "mod_kind b = (if b = ET_CMOD_REQD then Some True else if b = ET_CMOD_OPT then Some False else None)"

function custom_mods_loop :: "nat \<Rightarrow> CustomMod list \<Rightarrow> parser \<Rightarrow> (CustomMod list \<times> parser) result" where
  "custom_mods_loop limit mods p =
     (case Option.bind (res_ok (sig_peek p)) mod_kind of
        None \<Rightarrow> Ok (mods, p)
      | Some required \<Rightarrow>
          res_bind (sig_advance 1 p) (\<lambda>p.
          res_bind (type_token p) (\<lambda>(tok, p).
          let mods' = mods @ [\<lparr>cm_required = required, cm_type_token = tok\<rparr>] in
          if limit < length mods' then Err (sig_error RecursionLimit p)
          else custom_mods_loop limit mods' p)))"
  by pat_completeness auto
termination
  by (relation "measure (\<lambda>(limit, mods, p). limit - length mods)") auto

declare custom_mods_loop.simps [simp del]

definition custom_mods :: "parser \<Rightarrow> (CustomMod list \<times> parser) result" where
  "custom_mods p = custom_mods_loop (ps_limit p) [] p"

definition sig_enter :: "parser \<Rightarrow> parser result" where
  "sig_enter p =
     res_bind (u32_add (ps_depth p) 1) (\<lambda>d.
     let p = p\<lparr>ps_depth := d\<rparr> in
     if ps_limit p < ps_depth p then Err (sig_error RecursionLimit p) else Ok p)"

definition sig_leave :: "parser \<Rightarrow> parser" where
  "sig_leave p = p\<lparr>ps_depth := saturating_sub (ps_depth p) 1\<rparr>"

text \<open>
  \<open>type_\<close> and \<open>method_sig\<close>: the inner parser between \<open>enter\<close> and \<open>leave\<close>. (An error leaves
  the state of the parser behind; every caller passes it on.)
\<close>

definition nested :: "(parser \<Rightarrow> ('a \<times> parser) result) \<Rightarrow> parser \<Rightarrow> ('a \<times> parser) result" where
  "nested inner p =
     res_bind (sig_enter p) (\<lambda>p. res_bind (inner p) (\<lambda>(x, p). Ok (x, sig_leave p)))"

section \<open>The grammar\<close>

type_synonym type_parser = "parser \<Rightarrow> (Type \<times> parser) result"
type_synonym method_parser = "parser \<Rightarrow> (MethodSig \<times> parser) result"

fun sig_times :: "nat \<Rightarrow> (parser \<Rightarrow> ('a \<times> parser) result) \<Rightarrow> parser \<Rightarrow> ('a list \<times> parser) result" where
  "sig_times 0 f p = Ok ([], p)"
| "sig_times (Suc n) f p =
     res_bind (f p) (\<lambda>(x, p). res_bind (sig_times n f p) (\<lambda>(xs, p). Ok (x # xs, p)))"

definition array_shape :: "parser \<Rightarrow> (ArrayShape \<times> parser) result" where
  "array_shape p =
     res_bind (sig_cu32 p) (\<lambda>(rank, p).
     res_bind (usize_add (sig_remaining p) 1) (\<lambda>most.
     if most < unat rank then Err (sig_error Malformed p)
     else
     res_bind (bounded_count p) (\<lambda>(num_sizes, p).
     res_bind (sig_times num_sizes sig_cu32 p) (\<lambda>(sizes, p).
     res_bind (bounded_count p) (\<lambda>(num_lo_bounds, p).
     res_bind (sig_times num_lo_bounds sig_ci32 p) (\<lambda>(lo_bounds, p).
     Ok (\<lparr>as_rank = rank, as_sizes = sizes, as_lo_bounds = lo_bounds\<rparr>, p)))))))"

text \<open>The element types that stand alone.\<close>

definition simple_types :: "(u8 \<times> Type) list" where
  "simple_types =
     [(ET_VOID, Ty_Void), (ET_BOOLEAN, Ty_Boolean), (ET_CHAR, Ty_Char), (ET_I1, Ty_I1), (ET_U1, Ty_U1),
      (ET_I2, Ty_I2), (ET_U2, Ty_U2), (ET_I4, Ty_I4), (ET_U4, Ty_U4), (ET_I8, Ty_I8), (ET_U8, Ty_U8),
      (ET_R4, Ty_R4), (ET_R8, Ty_R8), (ET_STRING, Ty_String), (ET_OBJECT, Ty_Object),
      (ET_TYPEDBYREF, Ty_TypedByRef), (ET_I, Ty_IntPtr), (ET_U, Ty_UIntPtr)]"

definition generic_inst :: "type_parser \<Rightarrow> type_parser" where
  "generic_inst rt p =
     res_bind (sig_u8 p) (\<lambda>(kind, p).
     if kind \<noteq> ET_VALUETYPE \<and> kind \<noteq> ET_CLASS then
       res_bind (usize_sub (ps_pos p) 1) (\<lambda>at. Err (sig_error_at Malformed at))
     else
     res_bind (type_token p) (\<lambda>(tok, p).
     res_bind (bounded_count p) (\<lambda>(count, p).
     res_bind (sig_times count rt p) (\<lambda>(args, p).
     Ok (Ty_GenericInst (kind = ET_VALUETYPE) tok args, p)))))"

definition modified_type :: "(CustomMod list \<Rightarrow> Type \<Rightarrow> Type) \<Rightarrow> type_parser \<Rightarrow> type_parser" where
  "modified_type con rt p =
     res_bind (custom_mods p) (\<lambda>(mods, p). res_bind (rt p) (\<lambda>(t, p). Ok (con mods t, p)))"

definition pinned_type :: "type_parser \<Rightarrow> nat \<Rightarrow> type_parser" where
  "pinned_type rt at p =
     (if ps_pinned_seen p then Err (sig_error_at Malformed at)
      else
      res_bind (rt (p\<lparr>ps_pinned_seen := True\<rparr>)) (\<lambda>(t, p).
      Ok (Ty_Pinned t, p\<lparr>ps_pinned_seen := False\<rparr>)))"

definition array_type :: "type_parser \<Rightarrow> type_parser" where
  "array_type rt p =
     res_bind (rt p) (\<lambda>(element, p).
     res_bind (array_shape p) (\<lambda>(shape, p). Ok (Ty_Array element shape, p)))"

definition then_type :: "('a \<Rightarrow> Type) \<Rightarrow> (parser \<Rightarrow> ('a \<times> parser) result) \<Rightarrow> type_parser" where
  "then_type con f p = res_bind (f p) (\<lambda>(x, p). Ok (con x, p))"

definition compound_type :: "type_parser \<Rightarrow> method_parser \<Rightarrow> nat \<Rightarrow> u8 \<Rightarrow> type_parser" where
  "compound_type rt rm at byte p =
     (if byte = ET_PTR then modified_type Ty_Ptr rt p
      else if byte = ET_BYREF then then_type Ty_ByRef rt p
      else if byte = ET_VALUETYPE then then_type Ty_ValueType type_token p
      else if byte = ET_CLASS then then_type Ty_Class type_token p
      else if byte = ET_VAR then then_type Ty_Var sig_cu32 p
      else if byte = ET_MVAR then then_type Ty_MVar sig_cu32 p
      else if byte = ET_SZARRAY then modified_type Ty_SzArray rt p
      else if byte = ET_ARRAY then array_type rt p
      else if byte = ET_GENERICINST then generic_inst rt p
      else if byte = ET_FNPTR then then_type Ty_FnPtr rm p
      else if byte = ET_PINNED then pinned_type rt at p
      else if byte = ET_INTERNAL then Err (sig_error_at Unsupported at)
      else Err (sig_error_at Malformed at))"

definition type_inner :: "type_parser \<Rightarrow> method_parser \<Rightarrow> type_parser" where
  "type_inner rt rm p =
     res_bind (custom_mods p) (\<lambda>(leading, p).
     if leading \<noteq> [] then then_type (Ty_Modified leading) rt p
     else
     let at = ps_pos p in
     res_bind (sig_u8 p) (\<lambda>(byte, p).
     case map_of simple_types byte of
       Some t \<Rightarrow> Ok (t, p)
     | None \<Rightarrow> compound_type rt rm at byte p))"

text \<open>An optional \<open>byte\<close>: consumed when it is next.\<close>

definition sig_accept :: "u8 \<Rightarrow> parser \<Rightarrow> (bool \<times> parser) result" where
  "sig_accept byte p =
     res_bind (sig_peek p) (\<lambda>b.
     if b = byte then res_bind (sig_advance 1 p) (\<lambda>p. Ok (True, p)) else Ok (False, p))"

definition sig_param :: "type_parser \<Rightarrow> parser \<Rightarrow> (Param \<times> parser) result" where
  "sig_param rt p =
     res_bind (custom_mods p) (\<lambda>(mods, p).
     res_bind (sig_accept ET_BYREF p) (\<lambda>(by_ref, p).
     res_bind (rt p) (\<lambda>(t, p). Ok (Param mods by_ref t, p))))"

definition local_var :: "type_parser \<Rightarrow> parser \<Rightarrow> (LocalVar \<times> parser) result" where
  "local_var rt p =
     res_bind (sig_accept ET_TYPEDBYREF p) (\<lambda>(alone, p).
     if alone then
       Ok (\<lparr>lv_custom_mods = [], lv_pinned = False, lv_by_ref = False, lv_type = Ty_TypedByRef\<rparr>, p)
     else
     res_bind (custom_mods p) (\<lambda>(mods, p).
     res_bind (sig_accept ET_PINNED p) (\<lambda>(pinned, p).
     res_bind (if pinned then custom_mods p else Ok ([], p)) (\<lambda>(more_mods, p).
     res_bind (sig_accept ET_BYREF p) (\<lambda>(by_ref, p).
     res_bind (rt p) (\<lambda>(t, p).
     case t of
       Ty_Pinned _ \<Rightarrow> Err (sig_error Malformed p)
     | _ \<Rightarrow> Ok (\<lparr>lv_custom_mods = mods @ more_mods, lv_pinned = pinned, lv_by_ref = by_ref, lv_type = t\<rparr>, p)))))))"

definition call_conv_of :: "u8 \<Rightarrow> bool \<Rightarrow> u32 \<Rightarrow> CallConv option" where
  "call_conv_of conv generic generic_count =
     (if conv = CONV_DEFAULT then Some (if generic then CC_Generic generic_count else CC_Default)
      else map_of
        [(CONV_C, CC_C), (CONV_STDCALL, CC_StdCall), (CONV_THISCALL, CC_ThisCall), (CONV_FASTCALL, CC_FastCall),
         (CONV_VARARG, CC_VarArg), (CONV_UNMANAGED, CC_Unmanaged), (CONV_NATIVEVARARG, CC_NativeVarArg)] conv)"

fun sig_params ::
    "type_parser \<Rightarrow> nat \<Rightarrow> bool \<Rightarrow> Param list \<Rightarrow> Param list \<Rightarrow> parser
     \<Rightarrow> ((Param list \<times> Param list) \<times> parser) result" where
  "sig_params rt 0 past params varargs p = Ok ((params, varargs), p)"
| "sig_params rt (Suc n) past params varargs p =
     res_bind (sig_peek p) (\<lambda>b.
     if b = ET_SENTINEL \<and> past then Err (sig_error Malformed p)
     else
     res_bind (if b = ET_SENTINEL then sig_advance 1 p else Ok p) (\<lambda>p.
     let past = (past \<or> b = ET_SENTINEL) in
     res_bind (sig_param rt p) (\<lambda>(param, p).
     if past then sig_params rt n past params (varargs @ [param]) p
     else sig_params rt n past (params @ [param]) varargs p)))"

definition method_sig_inner :: "type_parser \<Rightarrow> method_parser" where
  "method_sig_inner rt p =
     (let start = ps_pos p in
      res_bind (sig_u8 p) (\<lambda>(byte, p).
      let generic = (byte AND CONV_GENERIC \<noteq> 0) in
      res_bind (if generic then sig_cu32 p else Ok (0, p)) (\<lambda>(generic_count, p).
      res_bind (ok_or (call_conv_of (byte AND CONV_MASK) generic generic_count) (sig_error_at Malformed start)) (\<lambda>conv.
      res_bind (bounded_count p) (\<lambda>(count, p).
      res_bind (sig_param rt p) (\<lambda>(return_type, p).
      res_bind (sig_params rt count False [] [] p) (\<lambda>((params, varargs), p).
      let raw = (case get_range (ps_data p) start (ps_pos p) of Some r \<Rightarrow> r | None \<Rightarrow> ps_data p) in
      Ok (MethodSig raw conv (byte AND CONV_HASTHIS \<noteq> 0) (byte AND CONV_EXPLICITTHIS \<noteq> 0)
            return_type params varargs, p))))))))"

fun parse_type :: "nat \<Rightarrow> type_parser"
and parse_method :: "nat \<Rightarrow> method_parser" where
  "parse_type 0 p = Panic"
| "parse_type (Suc n) p = nested (type_inner (parse_type n) (parse_method n)) p"
| "parse_method 0 p = Panic"
| "parse_method (Suc n) p = nested (method_sig_inner (parse_type n)) p"

section \<open>The entry points\<close>

definition method_sig_parse_with :: "bytes \<Rightarrow> nat \<Rightarrow> MethodSig result" where
  "method_sig_parse_with blob limit =
     res_bind (parse_method (limit + 1) (parser_new blob limit)) (\<lambda>(sig, _). Ok sig)"

definition method_sig_parse :: "bytes \<Rightarrow> MethodSig result" where
  "method_sig_parse blob = method_sig_parse_with blob default_recursion_limit"

definition field_sig_parse_with :: "bytes \<Rightarrow> nat \<Rightarrow> FieldSig result" where
  "field_sig_parse_with blob limit =
     res_bind (expect_convention CONV_FIELD (parser_new blob limit)) (\<lambda>(_, p).
     res_bind (custom_mods p) (\<lambda>(mods, p).
     res_bind (parse_type (limit + 1) p) (\<lambda>(t, p).
     Ok \<lparr>fs_raw = blob, fs_custom_mods = mods, fs_type = t\<rparr>)))"

definition field_sig_parse :: "bytes \<Rightarrow> FieldSig result" where
  "field_sig_parse blob = field_sig_parse_with blob default_recursion_limit"

definition local_var_sig_parse_with :: "bytes \<Rightarrow> nat \<Rightarrow> LocalVarSig result" where
  "local_var_sig_parse_with blob limit =
     res_bind (expect_convention CONV_LOCAL_SIG (parser_new blob limit)) (\<lambda>(_, p).
     res_bind (bounded_count p) (\<lambda>(count, p).
     res_bind (sig_times count (local_var (parse_type (limit + 1))) p) (\<lambda>(locals, p).
     Ok \<lparr>ls_raw = blob, ls_locals = locals\<rparr>)))"

definition local_var_sig_parse :: "bytes \<Rightarrow> LocalVarSig result" where
  "local_var_sig_parse blob = local_var_sig_parse_with blob default_recursion_limit"

definition property_sig_parse_with :: "bytes \<Rightarrow> nat \<Rightarrow> PropertySig result" where
  "property_sig_parse_with blob limit =
     res_bind (sig_u8 (parser_new blob limit)) (\<lambda>(byte, p).
     if byte AND CONV_MASK \<noteq> CONV_PROPERTY then Err (sig_error_at Malformed 0)
     else
     res_bind (bounded_count p) (\<lambda>(count, p).
     res_bind (sig_param (parse_type (limit + 1)) p) (\<lambda>(return_type, p).
     res_bind (sig_times count (sig_param (parse_type (limit + 1))) p) (\<lambda>(params, p).
     Ok \<lparr>prs_raw = blob, prs_has_this = (byte AND CONV_HASTHIS \<noteq> 0), prs_return_type = return_type,
         prs_params = params\<rparr>))))"

definition property_sig_parse :: "bytes \<Rightarrow> PropertySig result" where
  "property_sig_parse blob = property_sig_parse_with blob default_recursion_limit"

definition method_spec_sig_parse_with :: "bytes \<Rightarrow> nat \<Rightarrow> MethodSpecSig result" where
  "method_spec_sig_parse_with blob limit =
     res_bind (expect_convention CONV_GENERICINST (parser_new blob limit)) (\<lambda>(_, p).
     res_bind (bounded_count p) (\<lambda>(count, p).
     res_bind (sig_times count (parse_type (limit + 1)) p) (\<lambda>(args, p).
     Ok \<lparr>mss_raw = blob, mss_args = args\<rparr>)))"

definition method_spec_sig_parse :: "bytes \<Rightarrow> MethodSpecSig result" where
  "method_spec_sig_parse blob = method_spec_sig_parse_with blob default_recursion_limit"

definition type_spec_sig_parse_with :: "bytes \<Rightarrow> nat \<Rightarrow> TypeSpecSig result" where
  "type_spec_sig_parse_with blob limit =
     res_bind (parse_type (limit + 1) (parser_new blob limit)) (\<lambda>(t, _).
     Ok \<lparr>tss_raw = blob, tss_type = t\<rparr>)"

definition type_spec_sig_parse :: "bytes \<Rightarrow> TypeSpecSig result" where
  "type_spec_sig_parse blob = type_spec_sig_parse_with blob default_recursion_limit"

section \<open>Parsers that keep the state\<close>

text \<open>
  \<open>runs n Q f\<close>: with room for \<open>n\<close> nested calls, \<open>f\<close> does not panic, and when it succeeds it has
  moved the cursor forward inside the blob, changed nothing else, and returned a value with \<open>Q\<close>,
  which may speak of the nesting that is left below the limit.
\<close>

definition parser_wf :: "parser \<Rightarrow> bool" where
  "parser_wf p \<longleftrightarrow> slice_ok (ps_data p) \<and> ps_pos p \<le> length (ps_data p) \<and> ps_depth p \<le> ps_limit p
     \<and> ps_limit p < u32_max"

definition moved :: "parser \<Rightarrow> parser \<Rightarrow> bool" where
  "moved p p' \<longleftrightarrow> p' = p\<lparr>ps_pos := ps_pos p'\<rparr> \<and> ps_pos p \<le> ps_pos p' \<and> ps_pos p' \<le> length (ps_data p)"

definition runs :: "nat \<Rightarrow> (nat \<Rightarrow> 'a \<Rightarrow> bool) \<Rightarrow> (parser \<Rightarrow> ('a \<times> parser) result) \<Rightarrow> bool" where
  "runs n Q f \<longleftrightarrow> (\<forall>p. parser_wf p \<longrightarrow> ps_limit p < ps_depth p + n \<longrightarrow> no_panic (f p) \<and>
     (\<forall>x p'. f p = Ok (x, p') \<longrightarrow> moved p p' \<and> Q (ps_limit p - ps_depth p) x))"

declare One_nat_def [simp del]

named_theorems runs_intro \<open>parsers that keep the state\<close>

lemma runsD:
  assumes "runs n Q f" and "parser_wf p" and "ps_limit p < ps_depth p + n"
  shows "no_panic (f p)" and "f p = Ok (x, p') \<Longrightarrow> moved p p' \<and> Q (ps_limit p - ps_depth p) x"
  using assms unfolding runs_def by blast+

lemma runsI:
  assumes "\<And>p. parser_wf p \<Longrightarrow> ps_limit p < ps_depth p + n \<Longrightarrow> no_panic (f p)"
    and "\<And>p x p'. parser_wf p \<Longrightarrow> ps_limit p < ps_depth p + n \<Longrightarrow> f p = Ok (x, p')
      \<Longrightarrow> moved p p' \<and> Q (ps_limit p - ps_depth p) x"
  shows "runs n Q f"
  using assms unfolding runs_def by blast

lemma movedD:
  assumes "moved p p'"
  shows "ps_data p' = ps_data p" "ps_limit p' = ps_limit p" "ps_depth p' = ps_depth p"
    "ps_pinned_seen p' = ps_pinned_seen p" "ps_pos p \<le> ps_pos p'" "ps_pos p' \<le> length (ps_data p)"
proof -
  have e: "p' = p\<lparr>ps_pos := ps_pos p'\<rparr>" using assms by (simp add: moved_def)
  show "ps_data p' = ps_data p" by (subst e) simp
  show "ps_limit p' = ps_limit p" by (subst e) simp
  show "ps_depth p' = ps_depth p" by (subst e) simp
  show "ps_pinned_seen p' = ps_pinned_seen p" by (subst e) simp
  show "ps_pos p \<le> ps_pos p'" "ps_pos p' \<le> length (ps_data p)" using assms by (simp_all add: moved_def)
qed

lemma movedI:
  assumes "ps_data p' = ps_data p" "ps_limit p' = ps_limit p" "ps_depth p' = ps_depth p"
    "ps_pinned_seen p' = ps_pinned_seen p" "ps_pos p \<le> ps_pos p'" "ps_pos p' \<le> length (ps_data p)"
  shows "moved p p'"
  using assms unfolding moved_def by (cases p; cases p') auto

lemma moved_trans: "moved p q \<Longrightarrow> moved q r \<Longrightarrow> moved p r"
  using movedD [of p q] movedD [of q r] by (intro movedI) simp_all

lemma moved_refl: "parser_wf p \<Longrightarrow> moved p p"
  by (simp add: moved_def parser_wf_def)

lemma moved_wf: "parser_wf p \<Longrightarrow> moved p p' \<Longrightarrow> parser_wf p'"
  by (auto simp: parser_wf_def movedD)

lemma runs_mono: "runs n P f \<Longrightarrow> (\<And>room x. P room x \<Longrightarrow> Q room x) \<Longrightarrow> runs n Q f"
  unfolding runs_def by blast

lemma runs_return [runs_intro]: "(\<And>room. Q room x) \<Longrightarrow> runs n Q (\<lambda>p. Ok (x, p))"
  by (rule runsI) (auto simp: moved_refl)

lemma runs_value [runs_intro]: "(\<And>room p. Q room (h p)) \<Longrightarrow> runs n Q (\<lambda>p. Ok (h p, p))"
  by (rule runsI) (auto simp: moved_refl)

lemma runs_pair [runs_intro]: "(\<And>a b. x = (a, b) \<Longrightarrow> runs n Q (f a b)) \<Longrightarrow> runs n Q (case x of (a, b) \<Rightarrow> f a b)"
  by (cases x) simp

lemma runs_fail [runs_intro]: "runs n Q (\<lambda>p. Err (e p))"
  by (simp add: runs_def)

lemma runs_bind [runs_intro]:
  assumes f: "runs n P f" and g: "\<And>x. runs n (\<lambda>room y. P room x \<longrightarrow> Q room y) (g x)"
  shows "runs n Q (\<lambda>p. res_bind (f p) (\<lambda>(x, p). g x p))"
proof (rule runsI)
  fix p assume w: "parser_wf p" "ps_limit p < ps_depth p + n"
  have q: "parser_wf q" "ps_limit q < ps_depth q + n" "moved p q" "P (ps_limit p - ps_depth p) x"
    if "f p = Ok (x, q)" for x q
    using runsD(2) [OF f w that] moved_wf [OF w(1)] w(2) movedD(2,3) [of p q] by auto
  show "no_panic (res_bind (f p) (\<lambda>(x, p). g x p))"
    using runsD(1) [OF f w] runsD(1) [OF g] q(1,2) by (cases "f p") auto
  fix y r assume "res_bind (f p) (\<lambda>(x, p). g x p) = Ok (y, r)"
  then obtain x p1 where 1: "f p = Ok (x, p1)" "g x p1 = Ok (y, r)" by (auto simp: res_iff)
  from runsD(2) [OF g q(1,2) [OF 1(1)] 1(2)] q(3,4) [OF 1(1)]
  show "moved p r \<and> Q (ps_limit p - ps_depth p) y"
    using moved_trans movedD(2,3) [OF q(3) [OF 1(1)]] by auto
qed

lemma runs_if [runs_intro]: "(b \<Longrightarrow> runs n Q f) \<Longrightarrow> (\<not> b \<Longrightarrow> runs n Q g) \<Longrightarrow> runs n Q (\<lambda>p. if b then f p else g p)"
  by (cases b) auto

lemma runs_test [runs_intro]: "runs n Q f \<Longrightarrow> runs n Q g \<Longrightarrow> runs n Q (\<lambda>p. if b p then f p else g p)"
  unfolding runs_def by auto

lemma runs_let [runs_intro]: "(\<And>a. runs n Q (f a)) \<Longrightarrow> runs n Q (\<lambda>p. let a = h p in f a p)"
  unfolding runs_def Let_def by blast

lemma runs_option [runs_intro]:
  "(\<And>x. opt = Some x \<Longrightarrow> runs n Q (f x)) \<Longrightarrow> (opt = None \<Longrightarrow> runs n Q g)
   \<Longrightarrow> runs n Q (\<lambda>p. case opt of Some x \<Rightarrow> f x p | None \<Rightarrow> g p)"
  by (cases opt) auto

lemma runs_prod [runs_intro]: "(\<And>a b. runs n Q (f a b)) \<Longrightarrow> runs n Q (\<lambda>p. case x of (a, b) \<Rightarrow> f a b p)"
  by (cases x) simp

lemma runs_ok_or [runs_intro]:
  "(\<And>x. runs n Q (f x)) \<Longrightarrow> runs n Q (\<lambda>p. res_bind (ok_or opt e) (\<lambda>x. f x p))"
  by (cases opt) (auto simp: runs_def)

lemma runs_peek [runs_intro]:
  "(\<And>b. runs n Q (f b)) \<Longrightarrow> runs n Q (\<lambda>p. res_bind (sig_peek p) (\<lambda>b. f b p))"
  unfolding runs_def sig_peek_def by (auto simp: res_iff)

section \<open>The primitive reads\<close>

abbreviation anything :: "nat \<Rightarrow> 'a \<Rightarrow> bool" where
  "anything \<equiv> \<lambda>_ _. True"

lemma wf_pos: "parser_wf p \<Longrightarrow> ps_pos p + 1 \<le> usize_max \<and> length (ps_data p) \<le> usize_max"
  using slice_ok_length [of "ps_data p"] by (auto simp: parser_wf_def usize_max_def)

lemma sig_advance_wf:
  assumes "parser_wf p" and "ps_pos p + k \<le> length (ps_data p)"
  shows "sig_advance k p = Ok (p\<lparr>ps_pos := ps_pos p + k\<rparr>)" and "moved p (p\<lparr>ps_pos := ps_pos p + k\<rparr>)"
  using assms wf_pos [OF assms(1)] by (simp_all add: sig_advance_def usize_add_def moved_def)

lemma sig_u8_eq:
  assumes "parser_wf p"
  shows "sig_u8 p = (if ps_pos p < length (ps_data p)
      then Ok (ps_data p ! ps_pos p, p\<lparr>ps_pos := ps_pos p + 1\<rparr>) else Err (sig_error Truncated p))"
  using sig_advance_wf(1) [OF assms, of 1] by (simp add: sig_u8_def get_at_def)

lemma runs_u8 [runs_intro]: "runs n anything sig_u8"
  by (rule runsI) (auto simp: sig_u8_eq moved_def split: if_splits)

lemma runs_compressed:
  assumes "\<And>bs. no_panic (rd bs)" and "\<And>bs v k. rd bs = Ok (v, k) \<Longrightarrow> k \<le> length bs"
  shows "runs n anything (sig_compressed rd)"
proof (rule runsI)
  fix p assume w: "parser_wf p"
  let ?rest = "drop (ps_pos p) (ps_data p)"
  have eq: "sig_compressed rd p = res_bind (map_err (\<lambda>e. error_rebase e (ps_pos p)) (rd ?rest))
      (\<lambda>(v, used). res_bind (sig_advance used p) (\<lambda>p. Ok (v, p)))"
    using w by (simp add: sig_compressed_def Let_def index_from_def get_from_def parser_wf_def)
  have adv: "sig_advance k p = Ok (p\<lparr>ps_pos := ps_pos p + k\<rparr>)" "moved p (p\<lparr>ps_pos := ps_pos p + k\<rparr>)"
    if "rd ?rest = Ok (v, k)" for v k
  proof -
    have "ps_pos p + k \<le> length (ps_data p)" using assms(2) [OF that] w unfolding parser_wf_def length_drop by linarith
    then show "sig_advance k p = Ok (p\<lparr>ps_pos := ps_pos p + k\<rparr>)" "moved p (p\<lparr>ps_pos := ps_pos p + k\<rparr>)"
      using sig_advance_wf [OF w] by simp_all
  qed
  show "no_panic (sig_compressed rd p)" using assms(1) adv(1) by (auto simp: eq res_iff)
  fix v p' assume "sig_compressed rd p = Ok (v, p')"
  then show "moved p p' \<and> True" using adv by (auto simp: eq res_iff)
qed

lemma runs_cu32 [runs_intro]: "runs n anything sig_cu32"
  unfolding sig_cu32_def by (rule runs_compressed) (auto simp: no_panic_read_compressed dest: read_compressed_width)

lemma runs_ci32 [runs_intro]: "runs n anything sig_ci32"
  unfolding sig_ci32_def
  by (rule runs_compressed) (auto simp: read_compressed_i32_eq res_iff no_panic_read_compressed dest: read_compressed_width)

lemma runs_count [runs_intro]: "runs n anything bounded_count"
  unfolding bounded_count_def [abs_def] by (rule runs_intro | simp)+

lemma runs_convention [runs_intro]: "runs n anything (expect_convention c)"
  unfolding expect_convention_def [abs_def] by (rule runs_intro | simp)+

lemma runs_token [runs_intro]: "runs n anything type_token"
  unfolding type_token_def [abs_def] by (rule runs_intro | simp)+

lemma runs_times [runs_intro]:
  assumes "runs n Q f"
  shows "runs n (\<lambda>room xs. list_all (Q room) xs) (sig_times k f)"
proof (induction k)
  case (Suc k)
  have "runs n (\<lambda>room xs. list_all (Q room) xs)
      (\<lambda>p. res_bind (f p) (\<lambda>(x, p). (\<lambda>x p. res_bind (sig_times k f p) (\<lambda>(xs, p). (\<lambda>xs p. Ok (x # xs, p)) xs p)) x p))"
    by (rule runs_bind [OF assms] runs_bind [OF Suc] runs_return | simp)+
  then show ?case by simp
qed (simp add: runs_return)

lemma runs_shape [runs_intro]: "runs n anything array_shape"
proof -
  have "runs n anything (\<lambda>p. res_bind (usize_add (sig_remaining p) 1) (\<lambda>most. f most p))"
    if f: "\<And>m. runs n anything (f m)" for f :: "nat \<Rightarrow> parser \<Rightarrow> (ArrayShape \<times> parser) result"
  proof (rule runsI)
    fix p assume w: "parser_wf p" "ps_limit p < ps_depth p + n"
    have "usize_add (sig_remaining p) 1 = (Ok (sig_remaining p + 1) :: nat result)"
      using slice_ok_length [of "ps_data p"] w(1)
      by (auto simp: usize_add_def sig_remaining_def saturating_sub_def parser_wf_def usize_max_def)
    then show "no_panic (res_bind (usize_add (sig_remaining p) 1) (\<lambda>most. f most p))"
      and "\<And>x p'. res_bind (usize_add (sig_remaining p) 1) (\<lambda>most. f most p) = Ok (x, p') \<Longrightarrow> moved p p' \<and> True"
      using runsD [OF f w] by auto
  qed
  note step = this
  show ?thesis unfolding array_shape_def [abs_def] by (rule runs_intro step | simp)+
qed

text \<open>Consuming a byte that \<open>peek\<close> has seen.\<close>

lemma advance_behind:
  assumes "parser_wf p" and "sig_peek p = Ok b"
  shows "\<exists>q. sig_advance 1 p = Ok q \<and> moved p q \<and> ps_pos q = ps_pos p + 1 \<and> parser_wf q"
proof -
  have "ps_pos p + 1 \<le> length (ps_data p)" using assms(2) by (auto simp: sig_peek_def res_iff)
  from sig_advance_wf [OF assms(1) this] moved_wf [OF assms(1)] show ?thesis by auto
qed

lemma runs_behind:
  assumes "runs n Q f" and "parser_wf p" and "ps_limit p < ps_depth p + n" and "sig_peek p = Ok b"
  shows "no_panic (res_bind (sig_advance 1 p) f)"
    and "res_bind (sig_advance 1 p) f = Ok (x, p') \<Longrightarrow> moved p p' \<and> Q (ps_limit p - ps_depth p) x"
proof -
  obtain q where q: "sig_advance 1 p = Ok q" "moved p q" "parser_wf q"
    using advance_behind [OF assms(2,4)] by blast
  note d = movedD(2,3) [OF q(2)]
  show "no_panic (res_bind (sig_advance 1 p) f)" using runsD(1) [OF assms(1) q(3)] assms(3) by (simp add: q(1) d)
  show "res_bind (sig_advance 1 p) f = Ok (x, p') \<Longrightarrow> moved p p' \<and> Q (ps_limit p - ps_depth p) x"
    using runsD(2) [OF assms(1) q(3)] assms(3) moved_trans [OF q(2)] by (simp add: q(1) d)
qed

lemma runs_next_mod:
  assumes "\<And>r. runs n Q (f r)" and "runs n Q g"
  shows "runs n Q (\<lambda>p. case Option.bind (res_ok (sig_peek p)) mod_kind of
      None \<Rightarrow> g p | Some r \<Rightarrow> res_bind (sig_advance 1 p) (f r))"
proof (rule runsI)
  fix p assume w: "parser_wf p" "ps_limit p < ps_depth p + n"
  note seen = runs_behind [OF assms(1) w]
  show "no_panic (case Option.bind (res_ok (sig_peek p)) mod_kind of
      None \<Rightarrow> g p | Some r \<Rightarrow> res_bind (sig_advance 1 p) (f r))"
    using runsD(1) [OF assms(2) w] seen(1)
    by (auto simp: bind_eq_Some_conv res_iff split: option.split)
  fix x p' assume "(case Option.bind (res_ok (sig_peek p)) mod_kind of
      None \<Rightarrow> g p | Some r \<Rightarrow> res_bind (sig_advance 1 p) (f r)) = Ok (x, p')"
  then show "moved p p' \<and> Q (ps_limit p - ps_depth p) x"
    using runsD(2) [OF assms(2) w] seen(2)
    by (cases "Option.bind (res_ok (sig_peek p)) mod_kind")
      (auto simp: bind_eq_Some_conv res_ok_iff simp del: res_bind.simps)
qed

lemma runs_mods_loop: "runs n anything (custom_mods_loop limit mods)"
proof (induction "limit - length mods" arbitrary: mods rule: less_induct)
  case less
  have "runs n Q (\<lambda>p. if limit < length (mods @ [m]) then Err (sig_error RecursionLimit p)
      else custom_mods_loop limit (mods @ [m]) p)" if "\<And>room y. Q room y" for m Q
    using runs_mono [OF less [of "mods @ [m]"], of Q] that
    by (cases "limit < Suc (length mods)") (auto intro: runs_fail)
  note step = this
  show ?case
    by (subst custom_mods_loop.simps [abs_def], unfold Let_def) (rule step runs_next_mod runs_intro | simp)+
qed

lemma runs_mods [runs_intro]: "runs n anything custom_mods"
  unfolding custom_mods_def [abs_def]
  by (rule runsI) (use runsD [OF runs_mods_loop] in blast)+

lemma runs_accept [runs_intro]: "runs n anything (sig_accept b)"
proof (rule runsI)
  fix p assume w: "parser_wf p" "ps_limit p < ps_depth p + n"
  note seen = runs_behind [OF runs_return [where Q = anything and x = True] w]
  show "no_panic (sig_accept b p)" using seen(1) by (auto simp: sig_accept_def sig_peek_def res_iff)
  fix x p' assume "sig_accept b p = Ok (x, p')"
  then show "moved p p' \<and> True"
    using seen(2) moved_refl [OF w(1)] by (auto simp: sig_accept_def res_iff split: if_splits)
qed

section \<open>The nesting stays below the limit\<close>

text \<open>A type whose nesting fits below \<open>n\<close> levels.\<close>

fun type_fits :: "nat \<Rightarrow> Type \<Rightarrow> bool"
and method_fits :: "nat \<Rightarrow> MethodSig \<Rightarrow> bool" where
  "type_fits 0 t = False"
| "type_fits (Suc n) t =
     (case t of
        Ty_Ptr _ u \<Rightarrow> type_fits n u | Ty_ByRef u \<Rightarrow> type_fits n u | Ty_Array u _ \<Rightarrow> type_fits n u
      | Ty_SzArray _ u \<Rightarrow> type_fits n u | Ty_Modified _ u \<Rightarrow> type_fits n u | Ty_Pinned u \<Rightarrow> type_fits n u
      | Ty_GenericInst _ _ args \<Rightarrow> list_all (type_fits n) args
      | Ty_FnPtr m \<Rightarrow> method_fits n m
      | _ \<Rightarrow> True)"
| "method_fits 0 m = False"
| "method_fits (Suc n) m =
     (type_fits n (pa_type (ms_return_type m))
      \<and> list_all (\<lambda>q. type_fits n (pa_type q)) (ms_params m @ ms_vararg_params m))"

lemma runs_nested:
  assumes "runs n P f" and "\<And>room x. P room x \<Longrightarrow> Q (Suc room) x"
  shows "runs (Suc n) Q (nested f)"
proof (rule runsI)
  fix p assume w: "parser_wf p" "ps_limit p < ps_depth p + Suc n"
  have d: "ps_depth p + 1 \<le> u32_max" using w(1) by (simp add: parser_wf_def)
  let ?p = "p\<lparr>ps_depth := ps_depth p + 1\<rparr>"
  have e: "sig_enter p = (if ps_limit p < ps_depth p + 1 then Err (sig_error RecursionLimit ?p) else Ok ?p)"
    using d by (simp add: sig_enter_def u32_add_def Let_def)
  show "no_panic (nested f p)"
  proof (cases "ps_limit p < ps_depth p + 1")
    case False
    then have "no_panic (f ?p)" using runsD(1) [OF assms(1), of ?p] w by (simp add: parser_wf_def)
    then show ?thesis by (auto simp: nested_def e False res_iff)
  qed (simp add: nested_def e)
  fix x p' assume "nested f p = Ok (x, p')"
  then obtain q where lim: "ps_depth p + 1 \<le> ps_limit p" and q: "f ?p = Ok (x, q)" "p' = sig_leave q"
    by (auto simp: nested_def e res_iff split: if_splits)
  have m: "moved ?p q" "P (ps_limit p - (ps_depth p + 1)) x"
    using runsD(2) [OF assms(1) _ _ q(1)] w lim by (auto simp: parser_wf_def)
  have "moved p p'"
    using movedD [OF m(1)] by (intro movedI) (simp_all add: q(2) sig_leave_def saturating_sub_def)
  moreover have "Q (ps_limit p - ps_depth p) x"
  proof -
    have "Suc (ps_limit p - (ps_depth p + 1)) = ps_limit p - ps_depth p" using lim by linarith
    then show ?thesis using assms(2) [OF m(2)] by simp
  qed
  ultimately show "moved p p' \<and> Q (ps_limit p - ps_depth p) x" ..
qed

lemma runs_pinned:
  assumes "runs n P rt"
  shows "runs n (\<lambda>room t. \<exists>u. t = Ty_Pinned u \<and> P room u) (pinned_type rt at)"
proof (rule runsI)
  fix p assume w: "parser_wf p" "ps_limit p < ps_depth p + n"
  let ?p = "p\<lparr>ps_pinned_seen := True\<rparr>"
  have w1: "parser_wf ?p" "ps_limit ?p < ps_depth ?p + n" using w by (simp_all add: parser_wf_def)
  show "no_panic (pinned_type rt at p)" using runsD(1) [OF assms w1] by (auto simp: pinned_type_def res_iff)
  fix t p' assume "pinned_type rt at p = Ok (t, p')"
  then obtain u q where q: "\<not> ps_pinned_seen p" "rt ?p = Ok (u, q)" "t = Ty_Pinned u" "p' = q\<lparr>ps_pinned_seen := False\<rparr>"
    by (auto simp: pinned_type_def res_iff split: if_splits)
  have m: "moved ?p q" "P (ps_limit p - ps_depth p) u" using runsD(2) [OF assms w1 q(2)] by auto
  have "moved p p'" using movedD [OF m(1)] q(1,4) by (intro movedI) simp_all
  then show "moved p p' \<and> (\<exists>u. t = Ty_Pinned u \<and> P (ps_limit p - ps_depth p) u)" using m(2) q(3) by blast
qed

lemma runs_u8_or_fail:
  assumes "\<And>b. runs n Q (f b)"
  shows "runs n Q (\<lambda>p. res_bind (sig_u8 p) (\<lambda>(b, p).
      if c b then res_bind (usize_sub (ps_pos p) 1) (\<lambda>at. Err (e at)) else f b p))"
proof -
  have "(\<lambda>(b, p). if c b then res_bind (usize_sub (ps_pos p) 1) (\<lambda>at. Err (e at)) else f b p) (b, q)
      = (if c b then Err (e (ps_pos q - 1)) else f b q)" if "parser_wf p" "sig_u8 p = Ok (b, q)" for p b q
    using that by (auto simp: sig_u8_eq usize_sub_def split: if_splits)
  then have eq: "res_bind (sig_u8 p) (\<lambda>(b, p).
      if c b then res_bind (usize_sub (ps_pos p) 1) (\<lambda>at. Err (e at)) else f b p)
      = res_bind (sig_u8 p) (\<lambda>(b, p). if c b then Err (e (ps_pos p - 1)) else f b p)" if "parser_wf p" for p
    using that by (intro res_bind_cong) auto
  have "runs n Q (\<lambda>p. res_bind (sig_u8 p) (\<lambda>(b, p). if c b then Err (e (ps_pos p - 1)) else f b p))"
    by (rule runs_intro assms | simp)+
  then show ?thesis unfolding runs_def by (auto simp: eq)
qed

lemma runs_generic_inst:
  assumes "runs n type_fits rt"
  shows "runs n (\<lambda>room. type_fits (Suc room)) (generic_inst rt)"
  unfolding generic_inst_def [abs_def] by (rule runs_u8_or_fail runs_intro assms | simp)+

lemma runs_modified:
  assumes "runs n type_fits rt" and "\<And>room mods t. type_fits room t \<Longrightarrow> type_fits (Suc room) (con mods t)"
  shows "runs n (\<lambda>room. type_fits (Suc room)) (modified_type con rt)"
  unfolding modified_type_def [abs_def] by (rule runs_intro assms(1) | simp add: assms(2) del: type_fits.simps)+

lemma runs_then:
  assumes "runs n P f" and "\<And>room x. P room x \<Longrightarrow> Q room (con x)"
  shows "runs n Q (then_type con f)"
  unfolding then_type_def [abs_def] by (rule runs_intro assms(1) | simp add: assms(2))+

lemma runs_array:
  assumes "runs n type_fits rt"
  shows "runs n (\<lambda>room. type_fits (Suc room)) (array_type rt)"
  unfolding array_type_def [abs_def] by (rule runs_intro assms | simp)+

lemma runs_compound:
  assumes rt: "runs n type_fits rt" and rm: "runs n method_fits rm"
  shows "runs n (\<lambda>room. type_fits (Suc room)) (compound_type rt rm at b)"
proof -
  have pinned: "runs n (\<lambda>room. type_fits (Suc room)) (pinned_type rt at)"
    by (rule runs_mono [OF runs_pinned [OF rt]]) auto
  have byref: "runs n (\<lambda>room. type_fits (Suc room)) (then_type Ty_ByRef rt)" by (rule runs_then [OF rt]) simp
  have fnptr: "runs n (\<lambda>room. type_fits (Suc room)) (then_type Ty_FnPtr rm)" by (rule runs_then [OF rm]) simp
  have leaf: "runs n (\<lambda>room. type_fits (Suc room)) (then_type con f)"
    if "runs n anything f" "\<And>room x. type_fits (Suc room) (con x)" for con and f :: "parser \<Rightarrow> ('b \<times> parser) result"
    by (rule runs_then [OF that(1)]) (rule that(2))
  show ?thesis
    unfolding compound_type_def [abs_def]
    by (intro runs_if runs_fail runs_generic_inst [OF rt] runs_array [OF rt] runs_modified [OF rt] pinned byref fnptr
        leaf runs_token runs_cu32) simp_all
qed

lemma simple_types_fit: "map_of simple_types b = Some t \<Longrightarrow> type_fits (Suc n) t"
  by (auto simp: simple_types_def split: if_splits)

lemma runs_type_inner:
  assumes rt: "runs n type_fits rt" and rm: "runs n method_fits rm"
  shows "runs n (\<lambda>room. type_fits (Suc room)) (type_inner rt rm)"
proof -
  have lead: "runs n (\<lambda>room. type_fits (Suc room)) (then_type (Ty_Modified l) rt)" for l
    by (rule runs_then [OF rt]) simp
  show ?thesis
    unfolding type_inner_def [abs_def]
    by (rule lead runs_compound [OF rt rm] runs_intro | simp add: simple_types_fit del: type_fits.simps)+
qed

lemma runs_param:
  assumes "runs n type_fits rt"
  shows "runs n (\<lambda>room q. type_fits room (pa_type q)) (sig_param rt)"
  unfolding sig_param_def [abs_def] by (rule runs_intro assms | simp)+

lemma sig_peek_total: "no_panic (sig_peek p)"
  by (simp add: sig_peek_def no_panic_ok_or)

lemma runs_peek_accept:
  assumes "\<And>b. runs n Q (f b)" and "\<And>b. runs n Q (g b)"
  shows "runs n Q (\<lambda>p. res_bind (sig_peek p) (\<lambda>b. if c b then Err (e b p)
      else res_bind (if d b then sig_advance 1 p else Ok p) (f b)))"
proof (rule runsI)
  fix p assume w: "parser_wf p" "ps_limit p < ps_depth p + n"
  note seen = runs_behind [OF assms(1) w]
  show "no_panic (res_bind (sig_peek p) (\<lambda>b. if c b then Err (e b p)
      else res_bind (if d b then sig_advance 1 p else Ok p) (f b)))"
    using seen(1) runsD(1) [OF assms(1) w] sig_peek_total [of p] by (cases "sig_peek p") auto
  fix x p' assume "res_bind (sig_peek p) (\<lambda>b. if c b then Err (e b p)
      else res_bind (if d b then sig_advance 1 p else Ok p) (f b)) = Ok (x, p')"
  then show "moved p p' \<and> Q (ps_limit p - ps_depth p) x"
    using seen(2) runsD(2) [OF assms(1) w] by (cases "sig_peek p") (auto split: if_splits)
qed

abbreviation params_fit :: "nat \<Rightarrow> Param list \<Rightarrow> bool" where
  "params_fit room \<equiv> list_all (\<lambda>q. type_fits room (pa_type q))"

lemma runs_params:
  assumes "runs n type_fits rt"
  shows "runs n (\<lambda>room (ps, vs). params_fit room pre \<longrightarrow> params_fit room post \<longrightarrow> params_fit room (ps @ vs))
    (sig_params rt k past pre post)"
proof (induction k arbitrary: past pre post)
  case (Suc k)
  have step: "runs n (\<lambda>room (ps, vs). params_fit room pre \<longrightarrow> params_fit room post \<longrightarrow> params_fit room (ps @ vs))
      (\<lambda>p. res_bind (sig_param rt p) (\<lambda>(q, p).
         if past' then sig_params rt k past' pre (post @ [q]) p else sig_params rt k past' (pre @ [q]) post p))" for past'
    by (rule runs_bind [OF runs_param [OF assms]], cases past') (auto intro!: runs_mono [OF Suc])
  show ?case
    unfolding sig_params.simps(2) [abs_def] Let_def
    by (rule runs_peek_accept) (rule step)+
next
  case 0
  show ?case by (rule runsI) (auto simp: moved_refl)
qed

lemma runs_method_inner:
  assumes "runs n type_fits rt"
  shows "runs n (\<lambda>room. method_fits (Suc room)) (method_sig_inner rt)"
proof -
  have gen: "runs n anything (\<lambda>p. if g then sig_cu32 p else Ok (0, p))" for g
    by (cases g) (simp_all add: runs_cu32 runs_return)
  show ?thesis
    unfolding method_sig_inner_def [abs_def]
    by (rule gen runs_params [OF assms] runs_param [OF assms] runs_intro | simp)+
qed

lemma runs_parse: "runs n type_fits (parse_type n) \<and> runs n method_fits (parse_method n)"
proof (induction n)
  case 0
  show ?case by (auto simp: runs_def parser_wf_def)
next
  case (Suc n)
  then have t: "runs (Suc n) type_fits (nested (type_inner (parse_type n) (parse_method n)))"
    and m: "runs (Suc n) method_fits (nested (method_sig_inner (parse_type n)))"
    using runs_nested [OF runs_type_inner] runs_nested [OF runs_method_inner] by blast+
  then show ?case by (simp add: runs_def)
qed

text \<open>The local \<open>TYPEDBYREF\<close> stands alone and is read without entering a type.\<close>

definition local_fits :: "nat \<Rightarrow> LocalVar \<Rightarrow> bool" where
  "local_fits n v \<longleftrightarrow> type_fits n (lv_type v)
     \<or> v = \<lparr>lv_custom_mods = [], lv_pinned = False, lv_by_ref = False, lv_type = Ty_TypedByRef\<rparr>"

lemma runs_local_var:
  assumes "runs n type_fits rt"
  shows "runs n local_fits (local_var rt)"
proof -
  have opt: "runs n anything (\<lambda>p. if g then custom_mods p else Ok ([], p))" for g
    by (cases g) (simp_all add: runs_mods runs_return)
  have pin: "runs n Q (\<lambda>p. case t of Ty_Pinned _ \<Rightarrow> Err (e p) | _ \<Rightarrow> Ok (v, p))" if "\<And>room. Q room v" for Q t v e
    using that by (cases t) (simp_all add: runs_return runs_fail)
  show ?thesis
    unfolding local_var_def [abs_def]
    by (rule opt pin assms runs_intro | simp add: local_fits_def)+
qed

section \<open>The entry points return\<close>

definition sig_entry :: "(parser \<Rightarrow> ('a \<times> parser) result) \<Rightarrow> bytes \<Rightarrow> nat \<Rightarrow> 'a result" where
  "sig_entry f blob limit = res_bind (f (parser_new blob limit)) (\<lambda>(x, _). Ok x)"

lemma entry_total:
  assumes "runs (limit + 1) Q f" and "slice_ok blob" and "limit < u32_max"
  shows "no_panic (sig_entry f blob limit)" and "sig_entry f blob limit = Ok x \<Longrightarrow> Q limit x"
proof -
  have w: "parser_wf (parser_new blob limit)" "ps_limit (parser_new blob limit) < ps_depth (parser_new blob limit) + (limit + 1)"
    using assms(2,3) by (simp_all add: parser_wf_def parser_new_def)
  show "no_panic (sig_entry f blob limit)" using runsD(1) [OF assms(1) w] by (auto simp: sig_entry_def res_iff)
  show "sig_entry f blob limit = Ok x \<Longrightarrow> Q limit x"
    using runsD(2) [OF assms(1) w] by (auto simp: sig_entry_def res_iff parser_new_def)
qed

lemmas parse_runs = runs_parse [THEN conjunct1] runs_parse [THEN conjunct2]

lemma entry_eqs:
  "method_sig_parse_with = sig_entry (\<lambda>p. parse_method (ps_limit p + 1) p)"
  "type_spec_sig_parse_with blob limit = sig_entry (\<lambda>p. res_bind (parse_type (limit + 1) p)
     (\<lambda>(t, p). Ok (\<lparr>tss_raw = blob, tss_type = t\<rparr>, p))) blob limit"
  "field_sig_parse_with blob limit = sig_entry (\<lambda>p. res_bind (expect_convention CONV_FIELD p) (\<lambda>(_, p).
     res_bind (custom_mods p) (\<lambda>(mods, p). res_bind (parse_type (limit + 1) p) (\<lambda>(t, p).
     Ok (\<lparr>fs_raw = blob, fs_custom_mods = mods, fs_type = t\<rparr>, p))))) blob limit"
  "local_var_sig_parse_with blob limit = sig_entry (\<lambda>p. res_bind (expect_convention CONV_LOCAL_SIG p) (\<lambda>(_, p).
     res_bind (bounded_count p) (\<lambda>(count, p). res_bind (sig_times count (local_var (parse_type (limit + 1))) p)
     (\<lambda>(locals, p). Ok (\<lparr>ls_raw = blob, ls_locals = locals\<rparr>, p))))) blob limit"
  "method_spec_sig_parse_with blob limit = sig_entry (\<lambda>p. res_bind (expect_convention CONV_GENERICINST p) (\<lambda>(_, p).
     res_bind (bounded_count p) (\<lambda>(count, p). res_bind (sig_times count (parse_type (limit + 1)) p)
     (\<lambda>(args, p). Ok (\<lparr>mss_raw = blob, mss_args = args\<rparr>, p))))) blob limit"
  by (simp_all add: fun_eq_iff sig_entry_def parser_new_def res_bind_assoc case_prod_beta' method_sig_parse_with_def
      type_spec_sig_parse_with_def field_sig_parse_with_def local_var_sig_parse_with_def
      method_spec_sig_parse_with_def)

lemma property_entry_eq:
  "property_sig_parse_with blob limit = sig_entry (\<lambda>p. res_bind (sig_u8 p) (\<lambda>(byte, p).
     if byte AND CONV_MASK \<noteq> CONV_PROPERTY then Err (sig_error_at Malformed 0)
     else res_bind (bounded_count p) (\<lambda>(count, p). res_bind (sig_param (parse_type (limit + 1)) p) (\<lambda>(return_type, p).
     res_bind (sig_times count (sig_param (parse_type (limit + 1))) p) (\<lambda>(params, p).
     Ok (\<lparr>prs_raw = blob, prs_has_this = (byte AND CONV_HASTHIS \<noteq> 0), prs_return_type = return_type,
         prs_params = params\<rparr>, p)))))) blob limit"
  unfolding sig_entry_def property_sig_parse_with_def res_bind_assoc
  by (intro res_bind_cong refl) (auto simp: res_bind_assoc case_prod_beta')

lemma signature_totals:
  assumes "slice_ok blob" and "limit < u32_max"
  shows "no_panic (method_sig_parse_with blob limit)" "no_panic (type_spec_sig_parse_with blob limit)"
    "no_panic (field_sig_parse_with blob limit)" "no_panic (local_var_sig_parse_with blob limit)"
    "no_panic (property_sig_parse_with blob limit)" "no_panic (method_spec_sig_parse_with blob limit)"
proof -
  note pt = parse_runs(1) [of "limit + 1"]
  have m: "runs (limit + 1) anything (\<lambda>p. parse_method (limit + 1) p)"
    by (rule runs_mono [OF parse_runs(2)]) simp
  show "no_panic (method_sig_parse_with blob limit)"
    using entry_total(1) [OF m assms] by (simp add: method_sig_parse_with_def sig_entry_def)
  have a: "runs (limit + 1) anything (parse_type (limit + 1))" by (rule runs_mono [OF pt]) simp
  have v: "runs (limit + 1) anything (local_var (parse_type (limit + 1)))" by (rule runs_mono [OF runs_local_var [OF pt]]) simp
  have q: "runs (limit + 1) anything (sig_param (parse_type (limit + 1)))" by (rule runs_mono [OF runs_param [OF pt]]) simp
  show "no_panic (type_spec_sig_parse_with blob limit)" "no_panic (field_sig_parse_with blob limit)"
    "no_panic (local_var_sig_parse_with blob limit)" "no_panic (property_sig_parse_with blob limit)"
    "no_panic (method_spec_sig_parse_with blob limit)"
    unfolding entry_eqs property_entry_eq
    by (rule entry_total(1) [where Q = anything, OF _ assms], (rule a v q runs_intro | simp)+)+
qed

lemma signature_fits:
  assumes "slice_ok blob" and "limit < u32_max"
  shows "method_sig_parse_with blob limit = Ok m \<Longrightarrow> method_fits limit m"
    and "type_spec_sig_parse_with blob limit = Ok t \<Longrightarrow> type_fits limit (tss_type t)"
    and "field_sig_parse_with blob limit = Ok f \<Longrightarrow> type_fits limit (fs_type f)"
    and "local_var_sig_parse_with blob limit = Ok ls \<Longrightarrow> list_all (local_fits limit) (ls_locals ls)"
    and "property_sig_parse_with blob limit = Ok s \<Longrightarrow> params_fit limit (prs_return_type s # prs_params s)"
    and "method_spec_sig_parse_with blob limit = Ok ms \<Longrightarrow> list_all (type_fits limit) (mss_args ms)"
proof -
  note pt = parse_runs(1) [of "limit + 1"]
  show "method_sig_parse_with blob limit = Ok m \<Longrightarrow> method_fits limit m"
    using entry_total(2) [OF parse_runs(2) assms] by (simp add: method_sig_parse_with_def sig_entry_def)
  have t: "runs (limit + 1) (\<lambda>room s. type_fits room (tss_type s)) (\<lambda>p. res_bind (parse_type (limit + 1) p)
     (\<lambda>(t, p). Ok (\<lparr>tss_raw = blob, tss_type = t\<rparr>, p)))"
    by (rule pt runs_intro | simp)+
  show "type_spec_sig_parse_with blob limit = Ok t \<Longrightarrow> type_fits limit (tss_type t)"
    unfolding entry_eqs by (rule entry_total(2) [OF t assms])
  have f: "runs (limit + 1) (\<lambda>room s. type_fits room (fs_type s)) (\<lambda>p. res_bind (expect_convention CONV_FIELD p) (\<lambda>(_, p).
     res_bind (custom_mods p) (\<lambda>(mods, p). res_bind (parse_type (limit + 1) p) (\<lambda>(t, p).
     Ok (\<lparr>fs_raw = blob, fs_custom_mods = mods, fs_type = t\<rparr>, p)))))"
    by (rule pt runs_intro | simp)+
  show "field_sig_parse_with blob limit = Ok f \<Longrightarrow> type_fits limit (fs_type f)"
    unfolding entry_eqs by (rule entry_total(2) [OF f assms])
  note v = runs_local_var [OF pt] and q = runs_param [OF pt]
  have l: "runs (limit + 1) (\<lambda>room s. list_all (local_fits room) (ls_locals s)) (\<lambda>p. res_bind (expect_convention CONV_LOCAL_SIG p) (\<lambda>(_, p).
     res_bind (bounded_count p) (\<lambda>(count, p). res_bind (sig_times count (local_var (parse_type (limit + 1))) p)
     (\<lambda>(locals, p). Ok (\<lparr>ls_raw = blob, ls_locals = locals\<rparr>, p)))))"
    by (rule v runs_intro | simp)+
  show "local_var_sig_parse_with blob limit = Ok ls \<Longrightarrow> list_all (local_fits limit) (ls_locals ls)"
    unfolding entry_eqs by (rule entry_total(2) [OF l assms])
  have pr: "runs (limit + 1) (\<lambda>room s. params_fit room (prs_return_type s # prs_params s)) (\<lambda>p. res_bind (sig_u8 p) (\<lambda>(byte, p).
     if byte AND CONV_MASK \<noteq> CONV_PROPERTY then Err (sig_error_at Malformed 0)
     else res_bind (bounded_count p) (\<lambda>(count, p). res_bind (sig_param (parse_type (limit + 1)) p) (\<lambda>(return_type, p).
     res_bind (sig_times count (sig_param (parse_type (limit + 1))) p) (\<lambda>(params, p).
     Ok (\<lparr>prs_raw = blob, prs_has_this = (byte AND CONV_HASTHIS \<noteq> 0), prs_return_type = return_type,
         prs_params = params\<rparr>, p))))))"
    by (rule q runs_intro | simp)+
  show "property_sig_parse_with blob limit = Ok s \<Longrightarrow> params_fit limit (prs_return_type s # prs_params s)"
    unfolding property_entry_eq by (rule entry_total(2) [OF pr assms])
  have g: "runs (limit + 1) (\<lambda>room s. list_all (type_fits room) (mss_args s)) (\<lambda>p. res_bind (expect_convention CONV_GENERICINST p) (\<lambda>(_, p).
     res_bind (bounded_count p) (\<lambda>(count, p). res_bind (sig_times count (parse_type (limit + 1)) p)
     (\<lambda>(args, p). Ok (\<lparr>mss_raw = blob, mss_args = args\<rparr>, p)))))"
    by (rule pt runs_intro | simp)+
  show "method_spec_sig_parse_with blob limit = Ok ms \<Longrightarrow> list_all (type_fits limit) (mss_args ms)"
    unfolding entry_eqs by (rule entry_total(2) [OF g assms])
qed

end
