(* ===== verification/SigRoundtrip.thy ===== *)
theory SigRoundtrip
  imports Signature
begin

text \<open>
  Encoding and decoding of blob signatures: the bytes of a type or method signature as
  ECMA-335 II.23.2 lays them out, and the lemmas that the parser of \<open>src/signature.rs\<close> reads
  them back. \<open>decodes\<close> composes along the grammar: every construct of the parser has one rule.
\<close>

section \<open>Written signatures\<close>

text \<open>The shortest encodings of integers, and those of tokens and modifiers.\<close>

definition cu_width :: "u32 \<Rightarrow> nat" where
  "cu_width v = (if v < 2 ^ 7 then 1 else if v < 2 ^ 14 then 2 else 4)"

definition cu_bytes :: "u32 \<Rightarrow> bytes" where
  "cu_bytes v = compress_at (cu_width v) v"

definition ci_width :: "int \<Rightarrow> nat" where
  "ci_width v = (if -64 \<le> v \<and> v < 64 then 1 else if -8192 \<le> v \<and> v < 8192 then 2 else 4)"

definition ci_bytes :: "int \<Rightarrow> bytes" where
  "ci_bytes v = compress_at (ci_width v) (rotated (ci_width v) v)"

definition token_tag :: "Token \<Rightarrow> u32" where
  "token_tag t = (if token_table t = Some T_TypeDef then 0 else if token_table t = Some T_TypeRef then 1 else 2)"

definition token_ok :: "Token \<Rightarrow> bool" where
  "token_ok t \<longleftrightarrow> token_table t \<in> {Some T_TypeDef, Some T_TypeRef, Some T_TypeSpec}"

definition token_bytes :: "Token \<Rightarrow> bytes" where
  "token_bytes t = cu_bytes (push_bit 2 (token_rid t) OR token_tag t)"

definition mod_bytes :: "CustomMod \<Rightarrow> bytes" where
  "mod_bytes m = (if cm_required m then ET_CMOD_REQD else ET_CMOD_OPT) # token_bytes (cm_type_token m)"

definition mods_ok :: "nat \<Rightarrow> CustomMod list \<Rightarrow> bool" where
  "mods_ok limit ms \<longleftrightarrow> length ms \<le> limit \<and> list_all (\<lambda>m. token_ok (cm_type_token m)) ms"

section \<open>Parsers that read back what was written\<close>

text \<open>
  \<open>decodes L n pin f x bs\<close>: below the limit \<open>L\<close> with room for \<open>n\<close> more levels, \<open>f\<close> reads
  \<open>x\<close> from a cursor at \<open>bs\<close>, whatever follows, and ends exactly behind.
\<close>

abbreviation adv :: "parser \<Rightarrow> nat \<Rightarrow> parser" where
  "adv p k \<equiv> p\<lparr>ps_pos := ps_pos p + k\<rparr>"

definition parser_on :: "parser \<Rightarrow> bytes \<Rightarrow> bool" where
  "parser_on p xs \<longleftrightarrow> parser_wf p \<and> drop (ps_pos p) (ps_data p) = xs"

definition room :: "nat \<Rightarrow> nat \<Rightarrow> bool \<Rightarrow> parser \<Rightarrow> bool" where
  "room L n pin p \<longleftrightarrow> ps_limit p = L \<and> ps_depth p + n \<le> L \<and> ps_pinned_seen p = pin"

definition decodes :: "nat \<Rightarrow> nat \<Rightarrow> bool \<Rightarrow> (parser \<Rightarrow> ('a \<times> parser) result) \<Rightarrow> 'a \<Rightarrow> bytes \<Rightarrow> bool" where
  "decodes L n pin f x bs \<longleftrightarrow>
     (\<forall>p ys. parser_on p (bs @ ys) \<longrightarrow> room L n pin p \<longrightarrow> f p = Ok (x, adv p (length bs)))"

lemma parser_on_len: "parser_on p xs \<Longrightarrow> ps_pos p + length xs = length (ps_data p)"
  by (auto simp: parser_on_def parser_wf_def)

lemma parser_on_adv: "parser_on p (xs @ ys) \<Longrightarrow> parser_on (adv p (length xs)) ys"
  using parser_on_len [of p "xs @ ys"]
  by (auto simp: parser_on_def parser_wf_def add.commute simp flip: drop_drop)

lemma room_pos [simp]: "room L n pin (p\<lparr>ps_pos := k\<rparr>) = room L n pin p"
  by (simp add: room_def)

lemma decodesD: "decodes L n pin f x bs \<Longrightarrow> parser_on p (bs @ ys) \<Longrightarrow> room L n pin p \<Longrightarrow> f p = Ok (x, adv p (length bs))"
  unfolding decodes_def by blast

lemma decodesI:
  "(\<And>p ys. parser_on p (bs @ ys) \<Longrightarrow> room L n pin p \<Longrightarrow> f p = Ok (x, adv p (length bs))) \<Longrightarrow> decodes L n pin f x bs"
  unfolding decodes_def by blast

lemma decodes_return: "decodes L n pin (\<lambda>p. Ok (x, p)) x []"
  by (rule decodesI) simp

lemma decodes_bind:
  assumes "decodes L n pin f x bs" and "decodes L n pin (g x) y cs"
  shows "decodes L n pin (\<lambda>p. res_bind (f p) (\<lambda>(x, p). g x p)) y (bs @ cs)"
proof (rule decodesI)
  fix p ys assume on: "parser_on p ((bs @ cs) @ ys)" and r: "room L n pin p"
  then have 1: "f p = Ok (x, adv p (length bs))" using decodesD [OF assms(1), of p "cs @ ys"] by simp
  have "parser_on (adv p (length bs)) (cs @ ys)" using on parser_on_adv [of p bs "cs @ ys"] by simp
  then show "res_bind (f p) (\<lambda>(x, p). g x p) = Ok (y, adv p (length (bs @ cs)))"
    using decodesD [OF assms(2), of "adv p (length bs)" ys] r by (simp add: 1 add.assoc)
qed

lemma decodes_then:
  assumes "decodes L n pin f x bs"
  shows "decodes L n pin (\<lambda>p. res_bind (f p) (\<lambda>(x, p). Ok (h x, p))) (h x) bs"
  using decodes_bind [OF assms decodes_return, of h] by simp

lemma decodes_let: "(\<And>a. decodes L n pin (f a) x bs) \<Longrightarrow> decodes L n pin (\<lambda>p. let a = h p in f a p) x bs"
  unfolding decodes_def Let_def by blast

lemma decodes_u8: "decodes L n pin sig_u8 b [b]"
proof (rule decodesI)
  fix p ys assume on: "parser_on p ([b] @ ys)"
  then have "ps_pos p < length (ps_data p)" "ps_data p ! ps_pos p = b"
    using parser_on_len [OF on] by (auto simp: parser_on_def nth_via_drop)
  then show "sig_u8 p = Ok (b, adv p (length [b]))" using on by (simp add: sig_u8_eq parser_on_def One_nat_def)
qed

lemma decodes_compressed:
  assumes "\<And>ys. rd (bs @ ys) = Ok (v, length bs)"
  shows "decodes L n pin (sig_compressed rd) v bs"
proof (rule decodesI)
  fix p ys assume on: "parser_on p (bs @ ys)"
  have "sig_advance (length bs) p = Ok (adv p (length bs))"
    using on parser_on_len [OF on] by (intro sig_advance_wf(1)) (auto simp: parser_on_def)
  then show "sig_compressed rd p = Ok (v, adv p (length bs))"
    using on assms by (simp add: sig_compressed_def Let_def index_from_def get_from_def parser_on_def parser_wf_def)
qed

lemma cu_width_ok: "v < 2 ^ 29 \<Longrightarrow> width_ok (cu_width v) \<and> v < 2 ^ width_bits (cu_width v)"
  by (simp add: cu_width_def width_ok_def width_bits_def)

lemma length_cu_bytes: "v < 2 ^ 29 \<Longrightarrow> length (cu_bytes v) = cu_width v"
  using cu_width_ok [of v] by (simp add: cu_bytes_def length_compress_at)

lemma decodes_cu32: "v < 2 ^ 29 \<Longrightarrow> decodes L n pin sig_cu32 v (cu_bytes v)"
  unfolding sig_cu32_def
  by (rule decodes_compressed) (use cu_width_ok [of v] in \<open>simp add: length_cu_bytes, simp add: cu_bytes_def read_compress_at\<close>)

lemma decodes_ci32:
  assumes "- (2 ^ 28) \<le> v" and "v < 2 ^ 28"
  shows "decodes L n pin sig_ci32 v (ci_bytes v)"
proof -
  let ?n = "ci_width v"
  have w: "width_ok ?n" "- (2 ^ (width_bits ?n - 1)) \<le> v" "v < 2 ^ (width_bits ?n - 1)"
    using assms by (auto simp: ci_width_def width_ok_def width_bits_def)
  have "read_compressed_i32 (ci_bytes v @ ys) = Ok (v, length (ci_bytes v))" for ys
    using read_compress_at [OF w(1) rotated_uint(2) [OF w], of ys] rotated_uint(1) [OF w] rotate_sign_inverse [OF w(2,3)]
    by (simp add: read_compressed_i32_eq ci_bytes_def length_compress_at [OF w(1)])
  then show ?thesis unfolding sig_ci32_def by (rule decodes_compressed)
qed

lemma token_code:
  assumes "token_ok t"
  defines "v \<equiv> push_bit 2 (token_rid t) OR token_tag t"
  shows "v < 2 ^ 29" and "v AND 0x03 = token_tag t" and "drop_bit 2 v = token_rid t"
proof -
  have rid: "\<not> bit (token_rid t) n" if "24 \<le> n" for n
    using that by (simp add: token_rid_def and_RID_MASK bit_take_bit_iff)
  have rid': "n < 24" if "bit (token_rid t) n" for n using rid [of n] that by (meson not_le)
  have tag: "token_tag t = 0 \<or> token_tag t = 1 \<or> token_tag t = 2" by (simp add: token_tag_def)
  then have low: "take_bit 2 (token_tag t) = token_tag t"
    by (elim disjE) (simp_all add: take_bit_eq_mask mask_eq_exp_minus_1)
  have tag_bit: "\<not> bit (token_tag t) n" if "2 \<le> n" for n
    by (subst low [symmetric]) (use that in \<open>simp add: bit_take_bit_iff\<close>)
  show "v < 2 ^ 29" unfolding v_def
    by (rule less_pow_bits) (auto simp: bit_or_iff bit_push_bit_iff rid tag_bit)
  have "v AND 0x03 = take_bit 2 v" by (simp add: take_bit_eq_mask mask_eq_exp_minus_1)
  then show "v AND 0x03 = token_tag t" by (simp add: v_def take_bit_or take_bit_push_bit low)
  show "drop_bit 2 v = token_rid t" unfolding v_def
    by (rule bit_word_eqI) (auto simp: bit_drop_bit_eq bit_or_iff bit_push_bit_iff tag_bit dest: rid')
qed

lemma decodes_token:
  assumes "token_ok t"
  shows "decodes L n pin type_token t (token_bytes t)"
proof (rule decodesI)
  note c = token_code [OF assms]
  fix p ys assume on: "parser_on p (token_bytes t @ ys)" and r: "room L n pin p"
  have "sig_cu32 p = Ok (push_bit 2 (token_rid t) OR token_tag t, adv p (length (token_bytes t)))"
    using decodesD [OF decodes_cu32 [OF c(1)] on [unfolded token_bytes_def] r] by (simp add: token_bytes_def)
  moreover obtain u where u: "token_table t = Some u" "u = T_TypeDef \<or> u = T_TypeRef \<or> u = T_TypeSpec"
    using assms by (auto simp: token_ok_def)
  ultimately show "type_token p = Ok (t, adv p (length (token_bytes t)))"
    using c(2,3) token_new_of_table [OF u(1)] by (auto simp: type_token_def Let_def token_tag_def)
qed

lemma token_bytes_nonempty: "token_ok t \<Longrightarrow> token_bytes t \<noteq> []"
  using length_cu_bytes [OF token_code(1)] by (fastforce simp: token_bytes_def cu_width_def split: if_splits)

section \<open>One rule for each construct\<close>

text \<open>A count is accepted because every item takes a byte.\<close>

lemma decodes_count:
  assumes "k \<le> length cs" and "k < 2 ^ 29" and "decodes L n pin (g k) y cs"
  shows "decodes L n pin (\<lambda>p. res_bind (bounded_count p) (\<lambda>(k, p). g k p)) y (cu_bytes (of_nat k) @ cs)"
proof (rule decodesI)
  let ?b = "cu_bytes (of_nat k)"
  have v: "(of_nat k :: u32) < 2 ^ 29" using assms(2) by (simp add: word_less_nat_alt unat_of_nat)
  have u: "unat (of_nat k :: u32) = k" using assms(2) by (simp add: unat_of_nat)
  fix p ys assume on: "parser_on p ((?b @ cs) @ ys)" and r: "room L n pin p"
  have 1: "sig_cu32 p = Ok (of_nat k, adv p (length ?b))"
    using decodesD [OF decodes_cu32 [OF v], of p "cs @ ys"] on r by simp
  have on1: "parser_on (adv p (length ?b)) (cs @ ys)" using on parser_on_adv [of p ?b "cs @ ys"] by simp
  have "\<not> sig_remaining (adv p (length ?b)) < k"
    using parser_on_len [OF on1] assms(1) by (simp add: sig_remaining_def saturating_sub_def)
  then have "bounded_count p = Ok (k, adv p (length ?b))" by (simp add: bounded_count_def 1 Let_def u)
  then show "res_bind (bounded_count p) (\<lambda>(k, p). g k p) = Ok (y, adv p (length (?b @ cs)))"
    using decodesD [OF assms(3) on1] r by (simp add: add.assoc)
qed

lemma decodes_times:
  assumes "\<And>x. x \<in> set xs \<Longrightarrow> decodes L n pin f x (enc x)"
  shows "decodes L n pin (sig_times (length xs) f) xs (concat (map enc xs))"
  using assms
proof (induction xs)
  case (Cons x xs)
  then show ?case by (auto intro!: decodes_bind decodes_then)
qed (simp add: decodes_def)

text \<open>The first byte behind the modifiers ends them.\<close>

definition starts_no_mod :: "bytes \<Rightarrow> bool" where
  "starts_no_mod bs \<longleftrightarrow> bs \<noteq> [] \<and> mod_kind (hd bs) = None"

lemma sig_peek_on: "parser_on p (b # ys) \<Longrightarrow> sig_peek p = Ok b"
  using parser_on_len [of p "b # ys"] by (auto simp: sig_peek_def parser_on_def get_at_def nth_via_drop)

lemma sig_advance_on: "parser_on p (b # ys) \<Longrightarrow> sig_advance 1 p = Ok (adv p 1) \<and> parser_on (adv p 1) ys"
  using parser_on_len [of p "b # ys"] parser_on_adv [of p "[b]" ys] sig_advance_wf(1) [of p 1]
  by (auto simp: parser_on_def One_nat_def)

lemma mods_loop_reads:
  assumes "parser_on p (concat (map mod_bytes ms) @ ys)" and "starts_no_mod ys"
    and "length acc + length ms \<le> limit" and "list_all (\<lambda>m. token_ok (cm_type_token m)) ms"
  shows "custom_mods_loop limit acc p = Ok (acc @ ms, adv p (length (concat (map mod_bytes ms))))"
  using assms
proof (induction ms arbitrary: acc p)
  case Nil
  then obtain b zs where "ys = b # zs" by (cases ys) (auto simp: starts_no_mod_def)
  with Nil sig_peek_on [of p b zs] show ?case by (subst custom_mods_loop.simps) (simp add: starts_no_mod_def)
next
  case (Cons m ms)
  obtain b where b: "mod_bytes m = b # token_bytes (cm_type_token m)" "mod_kind b = Some (cm_required m)"
    by (auto simp: mod_bytes_def mod_kind_def et_defs)
  let ?t = "token_bytes (cm_type_token m)" and ?rest = "concat (map mod_bytes ms) @ ys"
  have on: "parser_on p (b # (?t @ ?rest))" using Cons.prems(1) b by simp
  have a: "sig_advance 1 p = Ok (adv p 1)" "parser_on (adv p 1) (?t @ ?rest)" using sig_advance_on [OF on] by auto
  have tok: "token_ok (cm_type_token m)" using Cons.prems(4) by simp
  have t: "type_token (adv p 1) = Ok (cm_type_token m, adv (adv p 1) (length ?t))"
    using decodesD [OF decodes_token [OF tok, of "ps_limit p" 0 "ps_pinned_seen p"] a(2)] Cons.prems(1)
    by (simp add: room_def parser_on_def parser_wf_def)
  have on2: "parser_on (adv (adv p 1) (length ?t)) ?rest" by (rule parser_on_adv [OF a(2)])
  have m: "\<lparr>cm_required = cm_required m, cm_type_token = cm_type_token m\<rparr> = m" by simp
  have "custom_mods_loop limit acc p = custom_mods_loop limit (acc @ [m]) (adv (adv p 1) (length ?t))"
    using Cons.prems(3) by (subst custom_mods_loop.simps) (simp add: sig_peek_on [OF on] b a(1) t Let_def m)
  also have "\<dots> = Ok ((acc @ [m]) @ ms, adv (adv (adv p 1) (length ?t)) (length (concat (map mod_bytes ms))))"
    using Cons.IH [OF on2 Cons.prems(2), of "acc @ [m]"] Cons.prems(3,4) by simp
  also have "\<dots> = Ok (acc @ m # ms, adv p (1 + length ?t + length (concat (map mod_bytes ms))))"
    by (simp add: add.assoc)
  also have "1 + length ?t + length (concat (map mod_bytes ms)) = length (concat (map mod_bytes (m # ms)))"
    by (simp add: b)
  finally show ?case .
qed

abbreviation mods_bytes :: "CustomMod list \<Rightarrow> bytes" where
  "mods_bytes ms \<equiv> concat (map mod_bytes ms)"

lemma decodes_mods:
  assumes "mods_ok L ms" and "starts_no_mod bs" and "decodes L n pin (g ms) y bs"
  shows "decodes L n pin (\<lambda>p. res_bind (custom_mods p) (\<lambda>(ms, p). g ms p)) y (mods_bytes ms @ bs)"
proof (rule decodesI)
  fix p ys assume on: "parser_on p ((mods_bytes ms @ bs) @ ys)" and r: "room L n pin p"
  have ok: "length [] + length ms \<le> L" "list_all (\<lambda>m. token_ok (cm_type_token m)) ms"
    using assms(1) by (simp_all add: mods_ok_def)
  have "starts_no_mod (bs @ ys)" using assms(2) by (simp add: starts_no_mod_def)
  from mods_loop_reads [OF _ this ok, of p] on r
  have 1: "custom_mods p = Ok (ms, adv p (length (mods_bytes ms)))" by (simp add: custom_mods_def room_def)
  have "parser_on (adv p (length (mods_bytes ms))) (bs @ ys)" using on parser_on_adv [of p "mods_bytes ms"] by simp
  from decodesD [OF assms(3) this] r
  show "res_bind (custom_mods p) (\<lambda>(ms, p). g ms p) = Ok (y, adv p (length (mods_bytes ms @ bs)))"
    by (simp add: 1 add.assoc)
qed

lemma decodes_accept_yes:
  assumes "decodes L n pin (g True) y bs"
  shows "decodes L n pin (\<lambda>p. res_bind (sig_accept b p) (\<lambda>(x, p). g x p)) y (b # bs)"
proof (rule decodesI)
  fix p ys assume on: "parser_on p ((b # bs) @ ys)" and r: "room L n pin p"
  then have on': "parser_on p (b # (bs @ ys))" by simp
  from sig_advance_on [OF on'] have a: "sig_advance 1 p = Ok (adv p 1)" "parser_on (adv p 1) (bs @ ys)" by auto
  have "g True (adv p 1) = Ok (y, adv (adv p 1) (length bs))" using decodesD [OF assms a(2)] r by simp
  then show "res_bind (sig_accept b p) (\<lambda>(x, p). g x p) = Ok (y, adv p (length (b # bs)))"
    by (simp add: sig_accept_def sig_peek_on [OF on'] a(1))
qed

lemma decodes_accept_no:
  assumes "decodes L n pin (g False) y bs" and "bs \<noteq> []" and "hd bs \<noteq> b"
  shows "decodes L n pin (\<lambda>p. res_bind (sig_accept b p) (\<lambda>(x, p). g x p)) y bs"
proof (rule decodesI)
  fix p ys assume on: "parser_on p (bs @ ys)" and r: "room L n pin p"
  obtain c cs where c: "bs = c # cs" using assms(2) by (cases bs) auto
  have "sig_peek p = Ok c" using sig_peek_on [of p c "cs @ ys"] on by (simp add: c)
  then show "res_bind (sig_accept b p) (\<lambda>(x, p). g x p) = Ok (y, adv p (length bs))"
    using decodesD [OF assms(1) on r] assms(3) by (simp add: sig_accept_def c)
qed

lemma decodes_nested:
  assumes "decodes L n pin f x bs"
  shows "decodes L (Suc n) pin (nested f) x bs"
proof (rule decodesI)
  fix p ys assume on: "parser_on p (bs @ ys)" and r: "room L (Suc n) pin p"
  let ?p = "p\<lparr>ps_depth := ps_depth p + 1\<rparr>"
  have e: "sig_enter p = Ok ?p"
    using on r by (simp add: sig_enter_def u32_add_def Let_def room_def parser_on_def parser_wf_def)
  have "parser_on ?p (bs @ ys)" "room L n pin ?p"
    using on r by (auto simp: parser_on_def parser_wf_def room_def)
  from decodesD [OF assms this] have "f ?p = Ok (x, adv ?p (length bs))" .
  then show "nested f p = Ok (x, adv p (length bs))"
    by (simp add: nested_def e sig_leave_def saturating_sub_def)
qed

lemma decodes_pinned:
  assumes "decodes L n True rt u bs"
  shows "decodes L n False (pinned_type rt at) (Ty_Pinned u) bs"
proof (rule decodesI)
  fix p ys assume on: "parser_on p (bs @ ys)" and r: "room L n False p"
  let ?p = "p\<lparr>ps_pinned_seen := True\<rparr>"
  have "parser_on ?p (bs @ ys)" "room L n True ?p" using on r by (auto simp: parser_on_def parser_wf_def room_def)
  from decodesD [OF assms this] have "rt ?p = Ok (u, adv ?p (length bs))" .
  moreover have "(adv ?p k)\<lparr>ps_pinned_seen := False\<rparr> = adv p k" for k using r by (cases p) (simp add: room_def)
  ultimately show "pinned_type rt at p = Ok (Ty_Pinned u, adv p (length bs))"
    using r by (simp add: pinned_type_def room_def)
qed

section \<open>The encoding\<close>

definition shape_tail :: "ArrayShape \<Rightarrow> bytes" where
  "shape_tail s = cu_bytes (of_nat (length (as_sizes s))) @ concat (map cu_bytes (as_sizes s))
     @ cu_bytes (of_nat (length (as_lo_bounds s))) @ concat (map ci_bytes (as_lo_bounds s))"

definition shape_bytes :: "ArrayShape \<Rightarrow> bytes" where
  "shape_bytes s = cu_bytes (as_rank s) @ shape_tail s"

text \<open>
  The grammar lets a shape stop short of its rank; the parser holds the rank against the bytes behind
  it. A shape is \<open>rank_covered\<close> when its own sizes and bounds take at least \<open>rank - 1\<close> bytes, so that it
  passes whatever follows. (Each dimension with a size or a bound of its own takes one byte or more, and
  the two counts take two: every shape that gives sizes or bounds for its dimensions, and every shape
  of rank three or less, is covered.)
\<close>

definition rank_covered :: "ArrayShape \<Rightarrow> bool" where
  "rank_covered s \<longleftrightarrow> unat (as_rank s) \<le> length (shape_tail s) + 1"

definition shape_ok :: "ArrayShape \<Rightarrow> bool" where
  "shape_ok s \<longleftrightarrow>
     rank_covered s \<and> as_rank s < 2 ^ 29
     \<and> length (as_sizes s) < 2 ^ 29 \<and> list_all (\<lambda>v. v < 2 ^ 29) (as_sizes s)
     \<and> length (as_lo_bounds s) < 2 ^ 29 \<and> list_all (\<lambda>v. - (2 ^ 28) \<le> v \<and> v < 2 ^ 28) (as_lo_bounds s)"

fun conv_byte :: "CallConv \<Rightarrow> u8" where
  "conv_byte (CC_Generic _) = CONV_GENERIC"
| "conv_byte CC_C = CONV_C"
| "conv_byte CC_StdCall = CONV_STDCALL"
| "conv_byte CC_ThisCall = CONV_THISCALL"
| "conv_byte CC_FastCall = CONV_FASTCALL"
| "conv_byte CC_VarArg = CONV_VARARG"
| "conv_byte CC_Unmanaged = CONV_UNMANAGED"
| "conv_byte CC_NativeVarArg = CONV_NATIVEVARARG"
| "conv_byte _ = CONV_DEFAULT"

definition method_head :: "CallConv \<Rightarrow> bool \<Rightarrow> bool \<Rightarrow> bytes" where
  "method_head cc this explicit =
     (conv_byte cc OR (if this then CONV_HASTHIS else 0) OR (if explicit then CONV_EXPLICITTHIS else 0))
     # (case cc of CC_Generic k \<Rightarrow> cu_bytes k | _ \<Rightarrow> [])"

definition simple_bytes :: "Type \<Rightarrow> bytes" where
  "simple_bytes t = (case map_of (map (\<lambda>(b, t). (t, b)) simple_types) t of Some b \<Rightarrow> [b] | None \<Rightarrow> [])"

fun type_bytes :: "Type \<Rightarrow> bytes"
and param_bytes :: "Param \<Rightarrow> bytes"
and method_bytes :: "MethodSig \<Rightarrow> bytes" where
  "type_bytes (Ty_Ptr ms u) = ET_PTR # mods_bytes ms @ type_bytes u"
| "type_bytes (Ty_ByRef u) = ET_BYREF # type_bytes u"
| "type_bytes (Ty_ValueType tok) = ET_VALUETYPE # token_bytes tok"
| "type_bytes (Ty_Class tok) = ET_CLASS # token_bytes tok"
| "type_bytes (Ty_Var k) = ET_VAR # cu_bytes k"
| "type_bytes (Ty_MVar k) = ET_MVAR # cu_bytes k"
| "type_bytes (Ty_Array u s) = ET_ARRAY # type_bytes u @ shape_bytes s"
| "type_bytes (Ty_SzArray ms u) = ET_SZARRAY # mods_bytes ms @ type_bytes u"
| "type_bytes (Ty_GenericInst is_val tok args) =
     ET_GENERICINST # (if is_val then ET_VALUETYPE else ET_CLASS) # token_bytes tok
     @ cu_bytes (of_nat (length args)) @ concat (map type_bytes args)"
| "type_bytes (Ty_FnPtr m) = ET_FNPTR # method_bytes m"
| "type_bytes (Ty_Modified ms u) = mods_bytes ms @ type_bytes u"
| "type_bytes (Ty_Pinned u) = ET_PINNED # type_bytes u"
| "type_bytes t = simple_bytes t"
| "param_bytes (Param ms by_ref t) = mods_bytes ms @ (if by_ref then [ET_BYREF] else []) @ type_bytes t"
| "method_bytes (MethodSig raw cc this explicit ret ps vs) =
     method_head cc this explicit @ cu_bytes (of_nat (length ps + length vs)) @ param_bytes ret
     @ concat (map param_bytes ps)
     @ (if vs = [] then [] else ET_SENTINEL # concat (map param_bytes vs))"

text \<open>
  The signatures a writer produces below the limit: modifiers stand where the grammar puts them,
  integers fit 29 bits, \<open>PINNED\<close> is not nested, array shapes are \<open>rank_covered\<close>, and the raw bytes of
  a method signature are its own.
\<close>

fun is_modified :: "Type \<Rightarrow> bool" where
  "is_modified (Ty_Modified _ _) = True"
| "is_modified _ = False"

fun is_byref :: "Type \<Rightarrow> bool" where
  "is_byref (Ty_ByRef _) = True"
| "is_byref _ = False"

definition conv_ok :: "CallConv \<Rightarrow> bool" where
  "conv_ok cc \<longleftrightarrow> (case cc of CC_Generic k \<Rightarrow> k < 2 ^ 29 | _ \<Rightarrow> cc \<notin> {CC_Field, CC_LocalSig, CC_Property, CC_GenericInst})"

definition param_form :: "nat \<Rightarrow> Param \<Rightarrow> bool" where
  "param_form L q \<longleftrightarrow> mods_ok L (pa_custom_mods q)
     \<and> (pa_by_ref q \<or> \<not> is_modified (pa_type q) \<and> \<not> is_byref (pa_type q))"

fun type_ok :: "nat \<Rightarrow> nat \<Rightarrow> bool \<Rightarrow> Type \<Rightarrow> bool"
and method_ok :: "nat \<Rightarrow> nat \<Rightarrow> bool \<Rightarrow> MethodSig \<Rightarrow> bool" where
  "type_ok L 0 pin t = False"
| "type_ok L (Suc n) pin t =
     (case t of
        Ty_Ptr ms u \<Rightarrow> mods_ok L ms \<and> \<not> is_modified u \<and> type_ok L n pin u
      | Ty_ByRef u \<Rightarrow> type_ok L n pin u
      | Ty_ValueType tok \<Rightarrow> token_ok tok
      | Ty_Class tok \<Rightarrow> token_ok tok
      | Ty_Var k \<Rightarrow> k < 2 ^ 29
      | Ty_MVar k \<Rightarrow> k < 2 ^ 29
      | Ty_Array u s \<Rightarrow> type_ok L n pin u \<and> shape_ok s
      | Ty_SzArray ms u \<Rightarrow> mods_ok L ms \<and> \<not> is_modified u \<and> type_ok L n pin u
      | Ty_GenericInst _ tok args \<Rightarrow> token_ok tok \<and> length args < 2 ^ 29 \<and> list_all (type_ok L n pin) args
      | Ty_FnPtr m \<Rightarrow> method_ok L n pin m
      | Ty_Modified ms u \<Rightarrow> ms \<noteq> [] \<and> mods_ok L ms \<and> \<not> is_modified u \<and> type_ok L n pin u
      | Ty_Pinned u \<Rightarrow> \<not> pin \<and> type_ok L n True u
      | Ty_Sentinel \<Rightarrow> False
      | Ty_Internal _ \<Rightarrow> False
      | _ \<Rightarrow> True)"
| "method_ok L 0 pin m = False"
| "method_ok L (Suc n) pin m =
     (ms_raw m = method_bytes m \<and> conv_ok (ms_calling_convention m)
      \<and> length (ms_params m) + length (ms_vararg_params m) < 2 ^ 29
      \<and> list_all (\<lambda>q. param_form L q \<and> type_ok L n pin (pa_type q))
          (ms_return_type m # ms_params m @ ms_vararg_params m))"

section \<open>The grammar reads the encoding\<close>

lemma length_cu_list: "list_all (\<lambda>v. v < 2 ^ 29) vs \<Longrightarrow> length vs \<le> length (concat (map cu_bytes vs))"
  by (induction vs) (auto simp: length_cu_bytes cu_width_def)

lemma length_ci_list: "length vs \<le> length (concat (map ci_bytes vs))"
proof (induction vs)
  case (Cons v vs)
  have "1 \<le> length (ci_bytes v)" by (simp add: ci_bytes_def length_compress_at width_ok_def ci_width_def)
  with Cons show ?case by simp
qed simp

lemma decodes_shape:
  assumes "shape_ok s"
  shows "decodes L n pin array_shape s (shape_bytes s)"
proof -
  let ?sz = "as_sizes s" and ?lo = "as_lo_bounds s"
  have ok: "as_rank s < 2 ^ 29" "unat (as_rank s) \<le> length (shape_tail s) + 1" "length ?sz < 2 ^ 29" "length ?lo < 2 ^ 29"
    "list_all (\<lambda>v. v < 2 ^ 29) ?sz"
    using assms by (simp_all add: shape_ok_def rank_covered_def)
  define tail where "tail = (\<lambda>rank p. res_bind (bounded_count p) (\<lambda>(num_sizes, p).
     res_bind (sig_times num_sizes sig_cu32 p) (\<lambda>(sizes, p).
     res_bind (bounded_count p) (\<lambda>(num_lo_bounds, p).
     res_bind (sig_times num_lo_bounds sig_ci32 p) (\<lambda>(lo_bounds, p).
     (Ok (\<lparr>as_rank = rank, as_sizes = sizes, as_lo_bounds = lo_bounds\<rparr>, p) :: (ArrayShape \<times> parser) result))))))"
  have sz: "decodes L n pin (sig_times (length ?sz) sig_cu32) ?sz (concat (map cu_bytes ?sz))"
    using ok(5) by (intro decodes_times decodes_cu32) (auto simp: list_all_iff)
  have lo: "decodes L n pin (sig_times (length ?lo) sig_ci32) ?lo (concat (map ci_bytes ?lo))"
    using assms by (intro decodes_times decodes_ci32) (auto simp: list_all_iff shape_ok_def)
  have "decodes L n pin (tail (as_rank s)) \<lparr>as_rank = as_rank s, as_sizes = ?sz, as_lo_bounds = ?lo\<rparr> (shape_tail s)"
    unfolding tail_def shape_tail_def
    using length_cu_list [OF ok(5)] length_ci_list [of ?lo] ok(3,4)
    by (intro decodes_count decodes_bind [OF sz] decodes_then [OF lo]) auto
  moreover have "\<lparr>as_rank = as_rank s, as_sizes = ?sz, as_lo_bounds = ?lo\<rparr> = s" by simp
  ultimately have t: "decodes L n pin (tail (as_rank s)) s (shape_tail s)" by (simp only:)
  show ?thesis
  proof (rule decodesI)
    fix p ys assume on: "parser_on p (shape_bytes s @ ys)" and r: "room L n pin p"
    let ?q = "adv p (length (cu_bytes (as_rank s)))"
    have on1: "parser_on p (cu_bytes (as_rank s) @ (shape_tail s @ ys))" using on by (simp add: shape_bytes_def)
    have 1: "sig_cu32 p = Ok (as_rank s, ?q)" by (rule decodesD [OF decodes_cu32 [OF ok(1)] on1 r])
    have on2: "parser_on ?q (shape_tail s @ ys)" by (rule parser_on_adv [OF on1])
    have "sig_remaining ?q + 1 \<le> usize_max"
      using on2 slice_ok_length [of "ps_data p"]
      by (auto simp: sig_remaining_def saturating_sub_def parser_on_def parser_wf_def usize_max_def)
    moreover have "\<not> sig_remaining ?q + 1 < unat (as_rank s)"
      using parser_on_len [OF on2] ok(2) by (simp add: sig_remaining_def saturating_sub_def)
    moreover have "tail (as_rank s) ?q = Ok (s, adv ?q (length (shape_tail s)))"
      using decodesD [OF t on2] r by simp
    ultimately show "array_shape p = Ok (s, adv p (length (shape_bytes s)))"
      by (simp add: array_shape_def 1 usize_add_def tail_def shape_bytes_def add.assoc)
  qed
qed

lemma simple_bytes_decode:
  assumes "simple_bytes t \<noteq> []"
  obtains b where "simple_bytes t = [b]" "map_of simple_types b = Some t" "mod_kind b = None"
    "b \<noteq> ET_SENTINEL" "b \<noteq> ET_BYREF"
  using assms that
  by (auto simp: simple_bytes_def simple_types_def mod_kind_def et_defs split: if_splits)

lemma type_head:
  assumes "type_ok L n pin t"
  obtains b bs where "type_bytes t = b # bs" "b \<noteq> ET_SENTINEL" "\<not> is_modified t \<Longrightarrow> mod_kind b = None"
    "\<not> is_byref t \<Longrightarrow> b \<noteq> ET_BYREF"
proof -
  have "\<exists>b bs. type_bytes t = b # bs \<and> b \<noteq> ET_SENTINEL \<and> (\<not> is_modified t \<longrightarrow> mod_kind b = None)
      \<and> (\<not> is_byref t \<longrightarrow> b \<noteq> ET_BYREF)"
    using assms
  proof (cases n)
    case (Suc m)
    show ?thesis
    proof (cases t)
      case (Ty_Modified ms u)
      then obtain m' ms' where "ms = m' # ms'" using assms Suc by (cases ms) auto
      then show ?thesis by (simp add: Ty_Modified mod_bytes_def et_defs)
    qed (use assms Suc in \<open>simp_all add: mod_kind_def et_defs simple_bytes_def simple_types_def\<close>)
  qed simp
  then show thesis using that by blast
qed

text \<open>A parameter, given that its type reads back.\<close>

lemma param_reads:
  assumes "decodes L n pin rt (pa_type q) (type_bytes (pa_type q))" and "type_ok L k pin (pa_type q)" and "param_form L q"
  shows "decodes L n pin (sig_param rt) q (param_bytes q)" and "param_bytes q \<noteq> []" and "hd (param_bytes q) \<noteq> ET_SENTINEL"
proof -
  obtain ms br t where q: "q = Param ms br t" by (cases q)
  obtain b bs where hd: "type_bytes t = b # bs" "b \<noteq> ET_SENTINEL" "\<not> is_modified t \<Longrightarrow> mod_kind b = None"
    "\<not> is_byref t \<Longrightarrow> b \<noteq> ET_BYREF" using type_head assms(2) by (metis Param.sel(3) q)
  have form: "mods_ok L ms" "br \<or> \<not> is_modified t \<and> \<not> is_byref t" using assms(3) by (simp_all add: param_form_def q)
  let ?rest = "(if br then [ET_BYREF] else []) @ type_bytes t"
  define g where "g = (\<lambda>by_ref p. res_bind (rt p) (\<lambda>(t, p). Ok (Param ms by_ref t, p)) :: (Param \<times> parser) result)"
  have g: "decodes L n pin (g br) q (type_bytes t)"
    unfolding g_def using decodes_then [OF assms(1), of "Param ms br"] by (simp add: q)
  have "starts_no_mod ?rest"
    using hd form(2) by (cases br) (auto simp: starts_no_mod_def mod_kind_def et_defs)
  moreover have "decodes L n pin (\<lambda>p. res_bind (sig_accept ET_BYREF p) (\<lambda>(by_ref, p). g by_ref p)) q ?rest"
  proof (cases br)
    case True
    then show ?thesis using decodes_accept_yes [of L n pin g q "type_bytes t" ET_BYREF] g by simp
  next
    case False
    then show ?thesis
      using decodes_accept_no [of L n pin g q "type_bytes t" ET_BYREF] g hd form(2) by simp
  qed
  moreover have "param_bytes q = mods_bytes ms @ ?rest" by (simp add: q)
  ultimately show "decodes L n pin (sig_param rt) q (param_bytes q)"
    unfolding sig_param_def [abs_def] by (simp only:) (rule decodes_mods [OF form(1)], simp_all add: g_def)
  show "param_bytes q \<noteq> []" by (simp add: q hd)
  show "hd (param_bytes q) \<noteq> ET_SENTINEL"
    using hd by (cases ms) (auto simp: q mod_bytes_def et_defs)
qed

definition reads_params :: "nat \<Rightarrow> nat \<Rightarrow> bool \<Rightarrow> type_parser \<Rightarrow> Param list \<Rightarrow> bool" where
  "reads_params L n pin rt qs \<longleftrightarrow>
     list_all (\<lambda>q. decodes L n pin (sig_param rt) q (param_bytes q) \<and> param_bytes q \<noteq> [] \<and> hd (param_bytes q) \<noteq> ET_SENTINEL) qs"

text \<open>One round of the loop: past the sentinel or not, the next parameter joins its list.\<close>

lemma params_step:
  assumes "decodes L n pin (sig_param rt) q (param_bytes q)" and "param_bytes q \<noteq> []" and "hd (param_bytes q) \<noteq> ET_SENTINEL"
    and "decodes L n pin (if past then sig_params rt k past pre (post @ [q]) else sig_params rt k past (pre @ [q]) post) y bs"
  shows "decodes L n pin (sig_params rt (Suc k) past pre post) y (param_bytes q @ bs)"
proof (rule decodesI)
  fix p ys assume on: "parser_on p ((param_bytes q @ bs) @ ys)" and r: "room L n pin p"
  obtain b xs where b: "param_bytes q = b # xs" "b \<noteq> ET_SENTINEL" using assms(2,3) by (cases "param_bytes q") auto
  have pk: "sig_peek p = Ok b" using sig_peek_on [of p b "xs @ bs @ ys"] on b by simp
  have 1: "sig_param rt p = Ok (q, adv p (length (param_bytes q)))"
    using decodesD [OF assms(1), of p "bs @ ys"] on r by simp
  have "parser_on (adv p (length (param_bytes q))) (bs @ ys)" using on parser_on_adv [of p "param_bytes q"] by simp
  from decodesD [OF assms(4) this] r
  show "sig_params rt (Suc k) past pre post p = Ok (y, adv p (length (param_bytes q @ bs)))"
    using b(2) by (cases past) (simp_all add: pk 1 Let_def add.assoc)
qed

lemma params_past:
  assumes "reads_params L n pin rt vs"
  shows "decodes L n pin (sig_params rt (length vs) True pre post) (pre, post @ vs) (concat (map param_bytes vs))"
  using assms
proof (induction vs arbitrary: post)
  case (Cons v vs)
  then have "decodes L n pin (sig_params rt (length vs) True pre (post @ [v])) (pre, (post @ [v]) @ vs) (concat (map param_bytes vs))"
    using Cons.IH [of "post @ [v]"] by (simp add: reads_params_def)
  then have "decodes L n pin (sig_params rt (Suc (length vs)) True pre post) (pre, post @ v # vs)
      (param_bytes v @ concat (map param_bytes vs))"
    using Cons.prems by (intro params_step) (simp_all add: reads_params_def)
  then show ?case by (simp del: sig_params.simps)
qed (simp add: decodes_def)

lemma params_read:
  assumes "reads_params L n pin rt ps" and "reads_params L n pin rt vs"
  shows "decodes L n pin (sig_params rt (length ps + length vs) False pre []) (pre @ ps, vs)
    (concat (map param_bytes ps) @ (if vs = [] then [] else ET_SENTINEL # concat (map param_bytes vs)))"
  using assms(1)
proof (induction ps arbitrary: pre)
  case (Cons q ps)
  have "decodes L n pin (sig_params rt (Suc (length ps + length vs)) False pre []) (pre @ q # ps, vs)
      (param_bytes q @ (concat (map param_bytes ps) @ (if vs = [] then [] else ET_SENTINEL # concat (map param_bytes vs))))"
    using Cons.IH [of "pre @ [q]"] Cons.prems by (intro params_step) (simp_all add: reads_params_def)
  then show ?case by (simp del: sig_params.simps)
next
  case Nil
  show ?case
  proof (cases vs)
    case (Cons v vs')
    show ?thesis
    proof (rule decodesI)
      fix p ys assume on: "parser_on p ((concat (map param_bytes []) @ (if vs = [] then [] else ET_SENTINEL # concat (map param_bytes vs))) @ ys)"
        and r: "room L n pin p"
      have v: "decodes L n pin (sig_param rt) v (param_bytes v)" "reads_params L n pin rt vs'"
        using assms(2) Cons by (simp_all add: reads_params_def)
      have on': "parser_on p (ET_SENTINEL # (param_bytes v @ (concat (map param_bytes vs') @ ys)))" using on Cons by simp
      have a: "sig_advance 1 p = Ok (adv p 1)" "parser_on (adv p 1) (param_bytes v @ (concat (map param_bytes vs') @ ys))"
        using sig_advance_on [OF on'] by auto
      let ?q = "adv (adv p 1) (length (param_bytes v))"
      have 1: "sig_param rt (adv p 1) = Ok (v, ?q)" using decodesD [OF v(1) a(2)] r by simp
      have 2: "sig_params rt (length vs') True pre [v] ?q = Ok ((pre, vs), adv ?q (length (concat (map param_bytes vs'))))"
        using decodesD [OF params_past [OF v(2), of pre "[v]"] parser_on_adv [OF a(2)]] r Cons by simp
      have "sig_params rt (length vs) False pre [] p = sig_params rt (length vs') True pre [v] ?q"
        unfolding Cons list.size add_Suc_right add_0_right sig_params.simps by (simp add: sig_peek_on [OF on'] a(1) 1 Let_def)
      also have "\<dots> = Ok ((pre, vs), adv p (1 + length (param_bytes v) + length (concat (map param_bytes vs'))))"
        unfolding 2 by (simp add: add.assoc)
      finally show "sig_params rt (length [] + length vs) False pre [] p = Ok ((pre @ [], vs),
          adv p (length (concat (map param_bytes []) @ (if vs = [] then [] else ET_SENTINEL # concat (map param_bytes vs)))))"
        by (simp add: Cons add.assoc)
    qed
  qed (simp add: decodes_def)
qed

text \<open>The head byte of a method signature holds the convention and the flags.\<close>

definition generic_of :: "CallConv \<Rightarrow> u32" where
  "generic_of cc = (case cc of CC_Generic k \<Rightarrow> k | _ \<Rightarrow> 0)"

lemma head_byte:
  fixes this explicit :: bool
  assumes "conv_ok cc"
  defines "b \<equiv> conv_byte cc OR (if this then CONV_HASTHIS else 0) OR (if explicit then CONV_EXPLICITTHIS else 0)"
  shows "(b AND CONV_HASTHIS \<noteq> 0) = this" and "(b AND CONV_EXPLICITTHIS \<noteq> 0) = explicit"
    and "b AND CONV_GENERIC \<noteq> 0 \<longleftrightarrow> (\<exists>k. cc = CC_Generic k)"
    and "call_conv_of (b AND CONV_MASK) (b AND CONV_GENERIC \<noteq> 0) (generic_of cc) = Some cc"
  using assms(1) unfolding b_def
  by (cases cc; cases this; cases explicit; simp add: conv_ok_def conv_defs call_conv_of_def generic_of_def)+

lemma conv_ok_generic: "conv_ok (CC_Generic k) \<Longrightarrow> k < 2 ^ 29"
  by (simp add: conv_ok_def)

definition method_parts :: "type_parser \<Rightarrow> nat \<Rightarrow> parser \<Rightarrow> ((bytes \<Rightarrow> MethodSig) \<times> parser) result" where
  "method_parts rt start p =
     res_bind (sig_u8 p) (\<lambda>(byte, p).
     res_bind (if byte AND CONV_GENERIC \<noteq> 0 then sig_cu32 p else Ok (0, p)) (\<lambda>(generic_count, p).
     res_bind (ok_or (call_conv_of (byte AND CONV_MASK) (byte AND CONV_GENERIC \<noteq> 0) generic_count)
         (sig_error_at Malformed start)) (\<lambda>conv.
     res_bind (bounded_count p) (\<lambda>(count, p).
     res_bind (sig_param rt p) (\<lambda>(return_type, p).
     res_bind (sig_params rt count False [] [] p) (\<lambda>(pv, p).
     Ok (\<lambda>raw. MethodSig raw conv (byte AND CONV_HASTHIS \<noteq> 0) (byte AND CONV_EXPLICITTHIS \<noteq> 0)
            return_type (fst pv) (snd pv), p)))))))"

lemma method_inner_parts:
  "method_sig_inner rt p = res_bind (method_parts rt (ps_pos p) p) (\<lambda>(m, q).
     Ok (m (case get_range (ps_data q) (ps_pos p) (ps_pos q) of Some r \<Rightarrow> r | None \<Rightarrow> ps_data q), q))"
  by (simp add: method_sig_inner_def method_parts_def res_bind_assoc case_prod_beta' Let_def cong: option.case_cong)

lemma length_params: "reads_params L n pin rt qs \<Longrightarrow> length qs \<le> length (concat (map param_bytes qs))"
proof (induction qs)
  case (Cons q qs)
  then show ?case by (cases "param_bytes q") (auto simp: reads_params_def)
qed simp

lemma method_reads:
  assumes m: "m = MethodSig raw cc this explicit ret ps vs" and raw: "raw = method_bytes m" and cc: "conv_ok cc"
    and len: "length ps + length vs < 2 ^ 29" and qs: "reads_params L n pin rt (ret # ps @ vs)"
  shows "decodes L n pin (method_sig_inner rt) m (method_bytes m)"
proof -
  let ?b = "conv_byte cc OR (if this then CONV_HASTHIS else 0) OR (if explicit then CONV_EXPLICITTHIS else 0)"
  let ?k = "case cc of CC_Generic k \<Rightarrow> cu_bytes k | _ \<Rightarrow> []"
  let ?ps = "concat (map param_bytes ps) @ (if vs = [] then [] else ET_SENTINEL # concat (map param_bytes vs))"
  let ?r = "\<lambda>raw. MethodSig raw cc this explicit ret ps vs"
  note head = head_byte [OF cc, of this explicit]
  have q: "decodes L n pin (sig_param rt) ret (param_bytes ret)" "reads_params L n pin rt ps" "reads_params L n pin rt vs"
    using qs by (simp_all add: reads_params_def)
  have gen: "decodes L n pin (\<lambda>p. if ?b AND CONV_GENERIC \<noteq> 0 then sig_cu32 p else Ok (0, p)) (generic_of cc) ?k"
  proof (cases "\<exists>k. cc = CC_Generic k")
    case True
    then obtain k where k: "cc = CC_Generic k" ..
    have "decodes L n pin sig_cu32 k (cu_bytes k)" using cc k conv_ok_generic decodes_cu32 by blast
    then show ?thesis using head(3) True by (simp add: k generic_of_def)
  next
    case False
    then have "generic_of cc = 0" "?k = []" by (simp_all add: generic_of_def split: CallConv.split)
    then show ?thesis using head(3) False by (simp add: decodes_def)
  qed
  have count: "length ps + length vs \<le> length (param_bytes ret @ ?ps)"
    using length_params [OF q(2)] length_params [OF q(3)] by (cases vs) auto
  have body: "decodes L n pin (\<lambda>p. res_bind (sig_param rt p) (\<lambda>(return_type, p).
      res_bind (sig_params rt (length ps + length vs) False [] [] p) (\<lambda>(pv, p).
      Ok (\<lambda>raw. MethodSig raw cc this explicit return_type (fst pv) (snd pv), p)))) ?r (param_bytes ret @ ?ps)"
    using decodes_then [OF params_read [OF q(2,3), of "[]"], of "\<lambda>pv raw. MethodSig raw cc this explicit ret (fst pv) (snd pv)"]
    by (intro decodes_bind [OF q(1)]) simp
  have "decodes L n pin (method_parts rt start) ?r ([?b] @ (?k @ (cu_bytes (of_nat (length ps + length vs)) @ (param_bytes ret @ ?ps))))"
    for start
    unfolding method_parts_def [abs_def]
    by (rule decodes_bind [OF decodes_u8], rule decodes_bind [OF gen], simp only: head(4) ok_or.simps res_bind.simps head(1,2))
      (rule decodes_count, rule count, rule len, rule body)
  then have parts: "decodes L n pin (method_parts rt start) ?r (method_bytes m)" for start
    by (simp add: m method_head_def)
  show ?thesis
  proof (rule decodesI)
    fix p ys assume on: "parser_on p (method_bytes m @ ys)" and r: "room L n pin p"
    have "method_parts rt (ps_pos p) p = Ok (?r, adv p (length (method_bytes m)))" by (rule decodesD [OF parts on r])
    moreover have "get_range (ps_data p) (ps_pos p) (ps_pos p + length (method_bytes m)) = Some (method_bytes m)"
      using on parser_on_len [OF on] by (simp add: get_range_def parser_on_def)
    moreover have "?r (method_bytes m) = m" unfolding raw [symmetric] by (rule m [symmetric])
    ultimately show "method_sig_inner rt p = Ok (m, adv p (length (method_bytes m)))"
      unfolding method_inner_parts by simp
  qed
qed

lemma type_inner_leaf:
  assumes "starts_no_mod bs" and "\<And>at. decodes L n pin (\<lambda>p. res_bind (sig_u8 p) (\<lambda>(byte, p).
      case map_of simple_types byte of Some t \<Rightarrow> Ok (t, p) | None \<Rightarrow> compound_type rt rm at byte p)) t bs"
  shows "decodes L n pin (type_inner rt rm) t bs"
proof -
  have "decodes L n pin (type_inner rt rm) t (mods_bytes [] @ bs)"
    unfolding type_inner_def [abs_def]
  proof (rule decodes_mods)
    show "mods_ok L []" by (simp add: mods_ok_def)
    show "starts_no_mod bs" by (rule assms(1))
    show "decodes L n pin (\<lambda>p. if [] \<noteq> [] then then_type (Ty_Modified []) rt p
        else let at = ps_pos p in res_bind (sig_u8 p) (\<lambda>(byte, p).
          case map_of simple_types byte of Some t \<Rightarrow> Ok (t, p) | None \<Rightarrow> compound_type rt rm at byte p)) t bs"
      by (simp only: simp_thms if_False) (rule decodes_let, rule assms(2))
  qed
  then show ?thesis by simp
qed

text \<open>A type that starts with its element type byte.\<close>

lemma type_inner_compound:
  assumes "map_of simple_types b = None" and "mod_kind b = None" and "\<And>at. decodes L n pin (compound_type rt rm at b) t bs"
  shows "decodes L n pin (type_inner rt rm) t (b # bs)"
proof (rule type_inner_leaf)
  show "starts_no_mod (b # bs)" using assms(2) by (simp add: starts_no_mod_def)
  fix at
  have "decodes L n pin (\<lambda>p. res_bind (sig_u8 p) (\<lambda>(byte, p).
      case map_of simple_types byte of Some t \<Rightarrow> Ok (t, p) | None \<Rightarrow> compound_type rt rm at byte p)) t ([b] @ bs)"
    by (rule decodes_bind [OF decodes_u8]) (simp add: assms(1,3))
  then show "decodes L n pin (\<lambda>p. res_bind (sig_u8 p) (\<lambda>(byte, p).
      case map_of simple_types byte of Some t \<Rightarrow> Ok (t, p) | None \<Rightarrow> compound_type rt rm at byte p)) t (b # bs)" by simp
qed

lemma simple_inner:
  assumes "simple_bytes t \<noteq> []"
  shows "decodes L n pin (type_inner rt rm) t (simple_bytes t)"
proof -
  obtain b where b: "simple_bytes t = [b]" "map_of simple_types b = Some t" "mod_kind b = None"
    using simple_bytes_decode [OF assms] by blast
  have "decodes L n pin (\<lambda>p. res_bind (sig_u8 p) (\<lambda>(byte, p).
      case map_of simple_types byte of Some t \<Rightarrow> Ok (t, p) | None \<Rightarrow> compound_type rt rm at byte p)) t ([b] @ [])" for at
    by (rule decodes_bind [OF decodes_u8]) (simp add: b(2) decodes_return)
  then show ?thesis using b(1,3) by (intro type_inner_leaf) (simp_all add: starts_no_mod_def)
qed

lemma decodes_modified:
  assumes "mods_ok L ms" and "type_ok L k pin u" and "\<not> is_modified u" and "decodes L n pin rt u (type_bytes u)"
  shows "decodes L n pin (modified_type con rt) (con ms u) (mods_bytes ms @ type_bytes u)"
proof -
  obtain b bs where "type_bytes u = b # bs" "mod_kind b = None" using type_head [OF assms(2)] assms(3) by metis
  then have "starts_no_mod (type_bytes u)" by (simp add: starts_no_mod_def)
  then show ?thesis
    unfolding modified_type_def [abs_def]
    by (rule decodes_mods [OF assms(1)]) (rule decodes_then [OF assms(4)])
qed

lemma decodes_then_type: "decodes L n pin f x bs \<Longrightarrow> decodes L n pin (then_type con f) (con x) bs"
  unfolding then_type_def [abs_def] by (rule decodes_then)

lemma decodes_array:
  assumes "decodes L n pin rt u (type_bytes u)" and "shape_ok s"
  shows "decodes L n pin (array_type rt) (Ty_Array u s) (type_bytes u @ shape_bytes s)"
  unfolding array_type_def [abs_def] by (intro decodes_bind [OF assms(1)] decodes_then decodes_shape assms(2))

lemma decodes_generic_inst:
  assumes "token_ok tok" and "length args < 2 ^ 29" and "\<And>u. u \<in> set args \<Longrightarrow> decodes L n pin rt u (type_bytes u) \<and> type_bytes u \<noteq> []"
  shows "decodes L n pin (generic_inst rt) (Ty_GenericInst is_val tok args)
    ((if is_val then ET_VALUETYPE else ET_CLASS) # token_bytes tok @ cu_bytes (of_nat (length args)) @ concat (map type_bytes args))"
proof -
  let ?b = "if is_val then ET_VALUETYPE else ET_CLASS"
  have len: "length args \<le> length (concat (map type_bytes args))"
    using assms(3)
  proof (induction args)
    case (Cons u us)
    then show ?case by (cases "type_bytes u") auto
  qed simp
  have t: "decodes L n pin (sig_times (length args) rt) args (concat (map type_bytes args))"
    using assms(3) by (intro decodes_times) simp
  have "decodes L n pin (generic_inst rt) (Ty_GenericInst (?b = ET_VALUETYPE) tok args)
      ([?b] @ (token_bytes tok @ (cu_bytes (of_nat (length args)) @ concat (map type_bytes args))))"
    unfolding generic_inst_def [abs_def]
    by (rule decodes_bind [OF decodes_u8])
      (simp add: et_defs [of] decodes_bind [OF decodes_token [OF assms(1)]] decodes_count [OF len assms(2)] decodes_then [OF t])
  moreover have "(?b = ET_VALUETYPE) = is_val" by (simp add: et_defs)
  ultimately show ?thesis by simp
qed

section \<open>Every level of the recursion\<close>

definition level_reads :: "nat \<Rightarrow> nat \<Rightarrow> nat \<Rightarrow> bool" where
  "level_reads L n k \<longleftrightarrow>
     (\<forall>pin t. type_ok L n pin t \<longrightarrow> decodes L n pin (parse_type k) t (type_bytes t))
     \<and> (\<forall>pin m. method_ok L n pin m \<longrightarrow> decodes L n pin (parse_method k) m (method_bytes m))"

lemma type_level:
  assumes "level_reads L n k" and ok: "type_ok L (Suc n) pin t"
  shows "decodes L n pin (type_inner (parse_type k) (parse_method k)) t (type_bytes t)"
proof -
  have rt: "decodes L n pin' (parse_type k) u (type_bytes u)" if "type_ok L n pin' u" for pin' u
    using assms(1) that by (simp add: level_reads_def)
  have rm: "decodes L n pin (parse_method k) m (method_bytes m)" if "method_ok L n pin m" for m
    using assms(1) that by (simp add: level_reads_def)
  have args: "decodes L n pin (parse_type k) u (type_bytes u) \<and> type_bytes u \<noteq> []"
    if "list_all (type_ok L n pin) us" "u \<in> set us" for u us
    using that rt type_head [of L n pin u] by (metis list.discI list_all_iff)
  show ?thesis
  proof (cases "simple_bytes t = []")
    case False
    then have "type_bytes t = simple_bytes t"
      by (cases t) (simp_all add: simple_bytes_def simple_types_def)
    then show ?thesis using simple_inner [OF False] by simp
  next
    case True
    note intros = type_inner_compound decodes_modified decodes_then_type decodes_array decodes_generic_inst
      decodes_pinned decodes_token decodes_cu32 rt rm args
    show ?thesis
    proof (cases t)
      case (Ty_Modified ms u)
      then have m: "ms \<noteq> []" "mods_ok L ms" "\<not> is_modified u" "type_ok L n pin u" using ok by simp_all
      obtain b bs where "type_bytes u = b # bs" "mod_kind b = None" using type_head [OF m(4)] m(3) by metis
      then have "starts_no_mod (type_bytes u)" by (simp add: starts_no_mod_def)
      moreover have "decodes L n pin (\<lambda>p. if ms \<noteq> [] then then_type (Ty_Modified ms) (parse_type k) p
          else let at = ps_pos p in res_bind (sig_u8 p) (\<lambda>(byte, p).
            case map_of simple_types byte of Some t \<Rightarrow> Ok (t, p) | None \<Rightarrow> compound_type (parse_type k) (parse_method k) at byte p))
          t (type_bytes u)"
        using m(1) decodes_then_type [OF rt [OF m(4)]] Ty_Modified by simp
      ultimately show ?thesis
        unfolding type_inner_def [abs_def] Ty_Modified type_bytes.simps by (rule decodes_mods [OF m(2)])
    next
      case (Ty_Pinned u)
      then have p: "pin = False" "type_ok L n True u" using ok by simp_all
      have "decodes L n pin (compound_type (parse_type k) (parse_method k) at ET_PINNED) t (type_bytes u)" for at
        unfolding compound_type_def [abs_def] using decodes_pinned [OF rt [OF p(2)], of at] Ty_Pinned p(1)
        by (simp add: et_defs)
      then show ?thesis unfolding Ty_Pinned type_bytes.simps
        by (intro type_inner_compound) (simp_all add: Ty_Pinned simple_types_def mod_kind_def et_defs)
    next
      case (Ty_Ptr ms u)
      then show ?thesis using ok
        by (auto intro!: intros simp: compound_type_def [abs_def] simple_types_def mod_kind_def et_defs)
    next
      case (Ty_ByRef u)
      then show ?thesis using ok
        by (auto intro!: intros simp: compound_type_def [abs_def] simple_types_def mod_kind_def et_defs)
    next
      case (Ty_ValueType tok)
      then show ?thesis using ok
        by (auto intro!: intros simp: compound_type_def [abs_def] simple_types_def mod_kind_def et_defs)
    next
      case (Ty_Class tok)
      then show ?thesis using ok
        by (auto intro!: intros simp: compound_type_def [abs_def] simple_types_def mod_kind_def et_defs)
    next
      case (Ty_Var j)
      then show ?thesis using ok
        by (auto intro!: intros simp: compound_type_def [abs_def] simple_types_def mod_kind_def et_defs)
    next
      case (Ty_MVar j)
      then show ?thesis using ok
        by (auto intro!: intros simp: compound_type_def [abs_def] simple_types_def mod_kind_def et_defs)
    next
      case (Ty_Array u s)
      then show ?thesis using ok
        by (auto intro!: intros simp: compound_type_def [abs_def] simple_types_def mod_kind_def et_defs)
    next
      case (Ty_SzArray ms u)
      then show ?thesis using ok
        by (auto intro!: intros simp: compound_type_def [abs_def] simple_types_def mod_kind_def et_defs)
    next
      case (Ty_GenericInst is_val tok us)
      then have g: "decodes L n pin (generic_inst (parse_type k)) t
          ((if is_val then ET_VALUETYPE else ET_CLASS) # token_bytes tok @ cu_bytes (of_nat (length us)) @ concat (map type_bytes us))"
      proof -
        have h: "token_ok tok" "length us < 2 ^ 29" "list_all (type_ok L n pin) us" using ok Ty_GenericInst by simp_all
        show ?thesis unfolding Ty_GenericInst by (rule decodes_generic_inst [OF h(1,2) args [OF h(3)]])
      qed
      have "type_bytes t = ET_GENERICINST # (if is_val then ET_VALUETYPE else ET_CLASS) # token_bytes tok
          @ cu_bytes (of_nat (length us)) @ concat (map type_bytes us)" by (simp add: Ty_GenericInst)
      then show ?thesis
        by (simp only:) (rule type_inner_compound, insert g, simp_all add: compound_type_def [abs_def] simple_types_def mod_kind_def et_defs)
    next
      case (Ty_FnPtr m)
      then show ?thesis using ok
        by (auto intro!: intros simp: compound_type_def [abs_def] simple_types_def mod_kind_def et_defs)
    qed (use True ok in \<open>simp_all add: simple_bytes_def simple_types_def\<close>)
  qed
qed

lemma params_level:
  assumes "level_reads L n k" and "list_all (\<lambda>q. param_form L q \<and> type_ok L n pin (pa_type q)) qs"
  shows "reads_params L n pin (parse_type k) qs"
proof -
  have "decodes L n pin (sig_param (parse_type k)) q (param_bytes q) \<and> param_bytes q \<noteq> [] \<and> hd (param_bytes q) \<noteq> ET_SENTINEL"
    if "q \<in> set qs" for q
  proof -
    have q: "param_form L q" "type_ok L n pin (pa_type q)" using assms(2) that by (simp_all add: list_all_iff)
    have "decodes L n pin (parse_type k) (pa_type q) (type_bytes (pa_type q))"
      using assms(1) q(2) by (simp add: level_reads_def)
    then show ?thesis using param_reads [OF _ q(2,1)] by blast
  qed
  then show ?thesis by (simp add: reads_params_def list_all_iff)
qed

lemma method_level:
  assumes "level_reads L n k" and ok: "method_ok L (Suc n) pin m"
  shows "decodes L n pin (method_sig_inner (parse_type k)) m (method_bytes m)"
proof (cases m)
  case (MethodSig raw cc this explicit ret ps vs)
  then have h: "raw = method_bytes m" "conv_ok cc" "length ps + length vs < 2 ^ 29"
    "list_all (\<lambda>q. param_form L q \<and> type_ok L n pin (pa_type q)) (ret # ps @ vs)" using ok by simp_all
  show ?thesis by (rule method_reads [OF MethodSig h(1,2,3) params_level [OF assms(1) h(4)]])
qed

text \<open>Every level reads what fits below it: the bound on the calls is at least the nesting.\<close>

lemma every_level: "n \<le> k \<Longrightarrow> level_reads L n k"
proof (induction n arbitrary: k)
  case 0
  show ?case by (simp add: level_reads_def)
next
  case (Suc n)
  then obtain k' where k: "k = Suc k'" "n \<le> k'" by (cases k) auto
  note ih = Suc.IH [OF k(2)]
  have "parse_type k = nested (type_inner (parse_type k') (parse_method k'))"
    "parse_method k = nested (method_sig_inner (parse_type k'))" by (simp_all add: k(1) fun_eq_iff)
  then show ?case unfolding level_reads_def
    by (simp del: type_ok.simps method_ok.simps) (blast intro: decodes_nested type_level [OF ih] method_level [OF ih])
qed

lemma type_reads: "type_ok L L pin t \<Longrightarrow> decodes L L pin (parse_type (L + 1)) t (type_bytes t)"
  and method_reads_back: "method_ok L L pin m \<Longrightarrow> decodes L L pin (parse_method (L + 1)) m (method_bytes m)"
  using every_level [of L "L + 1" L] by (simp_all add: level_reads_def)

end
