(* ===== verification/SigEntries.thy ===== *)
theory SigEntries
  imports SigRoundtrip
begin

text \<open>
  The signature entry points (\<open>src/src/signature.rs\<close>, the \<open>parse_with\<close> functions): what they read
  back, what they bound, what they reject. The grammar lemmas of \<open>SigRoundtrip\<close> carry the round
  trips, the \<open>runs\<close> lemmas of \<open>Signature\<close> the bounds.
\<close>

section \<open>Whole blobs\<close>

lemma entry_reads:
  assumes "decodes L L False f x bs" and "slice_ok (bs @ post)" and "L < u32_max"
  shows "sig_entry f (bs @ post) L = Ok x"
proof -
  have "parser_on (parser_new (bs @ post) L) (bs @ post)" "room L L False (parser_new (bs @ post) L)"
    using assms(2,3) by (simp_all add: parser_on_def parser_wf_def parser_new_def room_def)
  from decodesD [OF assms(1) this] show ?thesis by (simp add: sig_entry_def)
qed

lemma method_entry_eq: "method_sig_parse_with blob L = sig_entry (parse_method (L + 1)) blob L"
  by (simp add: method_sig_parse_with_def sig_entry_def)

text \<open>The first byte of a type tells the types that locals treat apart.\<close>

lemma type_first_byte:
  assumes "type_ok L n pin t" and "type_bytes t = b # bs"
  shows "b = ET_PINNED \<Longrightarrow> \<exists>u. t = Ty_Pinned u" and "b = ET_TYPEDBYREF \<Longrightarrow> t = Ty_TypedByRef"
proof -
  have "(b = ET_PINNED \<longrightarrow> (\<exists>u. t = Ty_Pinned u)) \<and> (b = ET_TYPEDBYREF \<longrightarrow> t = Ty_TypedByRef)"
  proof (cases t)
    case (Ty_Modified ms u)
    then obtain m' ms' where "ms = m' # ms'" using assms(1) by (cases n; cases ms) auto
    then show ?thesis using assms(2) by (auto simp: Ty_Modified mod_bytes_def et_defs split: if_splits)
  qed (use assms in \<open>auto simp: et_defs simple_bytes_def simple_types_def\<close>)
  then show "b = ET_PINNED \<Longrightarrow> \<exists>u. t = Ty_Pinned u" "b = ET_TYPEDBYREF \<Longrightarrow> t = Ty_TypedByRef" by auto
qed

lemma args_nonempty: "list_all (type_ok L n pin) ts \<Longrightarrow> length ts \<le> length (concat (map type_bytes ts))"
proof (induction ts)
  case (Cons t ts)
  then show ?case using type_head [of L n pin t] by (cases "type_bytes t") auto
qed simp

section \<open>The other encodings\<close>

definition field_bytes :: "FieldSig \<Rightarrow> bytes" where
  "field_bytes f = CONV_FIELD # mods_bytes (fs_custom_mods f) @ type_bytes (fs_type f)"

definition field_ok :: "nat \<Rightarrow> FieldSig \<Rightarrow> bool" where
  "field_ok L f \<longleftrightarrow> mods_ok L (fs_custom_mods f) \<and> \<not> is_modified (fs_type f) \<and> type_ok L L False (fs_type f)"

definition local_bytes :: "LocalVar \<Rightarrow> bytes" where
  "local_bytes v = mods_bytes (lv_custom_mods v) @ (if lv_pinned v then [ET_PINNED] else [])
     @ (if lv_by_ref v then [ET_BYREF] else []) @ type_bytes (lv_type v)"

definition local_ok :: "nat \<Rightarrow> LocalVar \<Rightarrow> bool" where
  "local_ok L v \<longleftrightarrow> mods_ok L (lv_custom_mods v) \<and> type_ok L L False (lv_type v)
     \<and> (\<forall>u. lv_type v \<noteq> Ty_Pinned u)
     \<and> (lv_by_ref v \<or> \<not> is_modified (lv_type v) \<and> \<not> is_byref (lv_type v))"

definition locals_bytes :: "LocalVar list \<Rightarrow> bytes" where
  "locals_bytes vs = CONV_LOCAL_SIG # cu_bytes (of_nat (length vs)) @ concat (map local_bytes vs)"

definition property_bytes :: "PropertySig \<Rightarrow> bytes" where
  "property_bytes s = (CONV_PROPERTY OR (if prs_has_this s then CONV_HASTHIS else 0))
     # cu_bytes (of_nat (length (prs_params s))) @ param_bytes (prs_return_type s)
     @ concat (map param_bytes (prs_params s))"

definition method_spec_bytes :: "Type list \<Rightarrow> bytes" where
  "method_spec_bytes ts = CONV_GENERICINST # cu_bytes (of_nat (length ts)) @ concat (map type_bytes ts)"

lemma decodes_convention:
  assumes "b AND CONV_MASK = c" and "decodes L n pin (g b) y bs"
  shows "decodes L n pin (\<lambda>p. res_bind (expect_convention c p) (\<lambda>(b, p). g b p)) y (b # bs)"
proof (rule decodesI)
  fix p ys assume on: "parser_on p ((b # bs) @ ys)" and r: "room L n pin p"
  have 1: "sig_u8 p = Ok (b, adv p (length [b]))" using decodesD [OF decodes_u8, of p b "bs @ ys"] on r by simp
  have "parser_on (adv p (length [b])) (bs @ ys)" using parser_on_adv [of p "[b]" "bs @ ys"] on by simp
  from decodesD [OF assms(2) this] r
  show "res_bind (expect_convention c p) (\<lambda>(b, p). g b p) = Ok (y, adv p (length (b # bs)))"
    by (simp add: expect_convention_def 1 assms(1) One_nat_def)
qed

text \<open>A field: its modifiers, then its type.\<close>

lemma field_reads:
  assumes "field_ok L f" and "fs_raw f = field_bytes f @ post" and "slice_ok (field_bytes f @ post)" and "L < u32_max"
  shows "field_sig_parse_with (field_bytes f @ post) L = Ok f"
proof -
  let ?ms = "fs_custom_mods f" and ?t = "fs_type f" and ?blob = "field_bytes f @ post"
  have ok: "mods_ok L ?ms" "\<not> is_modified ?t" "type_ok L L False ?t" using assms(1) by (simp_all add: field_ok_def)
  obtain b bs where "type_bytes ?t = b # bs" "mod_kind b = None" using type_head [OF ok(3)] ok(2) by metis
  then have h: "starts_no_mod (type_bytes ?t)" by (simp add: starts_no_mod_def)
  have f: "\<lparr>fs_raw = ?blob, fs_custom_mods = ?ms, fs_type = ?t\<rparr> = f" using assms(2) by simp
  have "decodes L L False (\<lambda>p. res_bind (expect_convention CONV_FIELD p) (\<lambda>(_, p).
     res_bind (custom_mods p) (\<lambda>(mods, p). res_bind (parse_type (L + 1) p) (\<lambda>(t, p).
     Ok (\<lparr>fs_raw = ?blob, fs_custom_mods = mods, fs_type = t\<rparr>, p)))))
     \<lparr>fs_raw = ?blob, fs_custom_mods = ?ms, fs_type = ?t\<rparr> (CONV_FIELD # (mods_bytes ?ms @ type_bytes ?t))"
    by (rule decodes_convention, simp add: conv_defs)
      (rule decodes_mods [OF ok(1) h], rule decodes_then [OF type_reads [OF ok(3)]])
  from entry_reads [OF this, of post] assms(3,4) show ?thesis
    unfolding entry_eqs f by (simp add: field_bytes_def)
qed

text \<open>Counted lists of types.\<close>

lemma method_spec_reads:
  assumes "list_all (type_ok L L False) ts" and "length ts < 2 ^ 29" and "slice_ok (method_spec_bytes ts @ post)" and "L < u32_max"
  shows "method_spec_sig_parse_with (method_spec_bytes ts @ post) L = Ok \<lparr>mss_raw = method_spec_bytes ts @ post, mss_args = ts\<rparr>"
proof -
  let ?blob = "method_spec_bytes ts @ post"
  have t: "decodes L L False (sig_times (length ts) (parse_type (L + 1))) ts (concat (map type_bytes ts))"
    using assms(1) type_reads by (intro decodes_times) (simp add: list_all_iff)
  have "decodes L L False (\<lambda>p. res_bind (expect_convention CONV_GENERICINST p) (\<lambda>(_, p).
     res_bind (bounded_count p) (\<lambda>(count, p). res_bind (sig_times count (parse_type (L + 1)) p)
     (\<lambda>(args, p). Ok (\<lparr>mss_raw = ?blob, mss_args = args\<rparr>, p)))))
     \<lparr>mss_raw = ?blob, mss_args = ts\<rparr> (CONV_GENERICINST # (cu_bytes (of_nat (length ts)) @ concat (map type_bytes ts)))"
    by (rule decodes_convention, simp add: conv_defs)
      (rule decodes_count [OF args_nonempty [OF assms(1)] assms(2)], rule decodes_then [OF t])
  from entry_reads [OF this, of post] assms(3,4) show ?thesis
    unfolding entry_eqs by (simp add: method_spec_bytes_def)
qed

text \<open>An optional byte in front.\<close>

lemma decodes_flag:
  assumes "decodes L n pin (g flag) y bs" and "bs \<noteq> []" and "\<not> flag \<Longrightarrow> hd bs \<noteq> b"
  shows "decodes L n pin (\<lambda>p. res_bind (sig_accept b p) (\<lambda>(x, p). g x p)) y ((if flag then [b] else []) @ bs)"
proof (cases flag)
  case True
  then have "decodes L n pin (g True) y bs" using assms(1) by simp
  from decodes_accept_yes [where g = g, OF this, of b] True show ?thesis by simp
next
  case False
  then have "decodes L n pin (g False) y bs" "hd bs \<noteq> b" using assms(1,3) by simp_all
  from decodes_accept_no [where g = g, OF this(1) assms(2) this(2)] False show ?thesis by simp
qed

lemma not_pinned_case: "(\<And>u. t \<noteq> Ty_Pinned u) \<Longrightarrow> (case t of Ty_Pinned _ \<Rightarrow> a | _ \<Rightarrow> b) = b"
  by (cases t) auto

text \<open>A local: the modifiers in front, then the constraint, the reference and the type.\<close>

lemma local_reads:
  assumes "local_ok L v"
  shows "decodes L L False (local_var (parse_type (L + 1))) v (local_bytes v) \<and> local_bytes v \<noteq> []"
proof -
  let ?ms = "lv_custom_mods v" and ?t = "lv_type v" and ?pin = "lv_pinned v" and ?ref = "lv_by_ref v"
  have ok: "mods_ok L ?ms" "type_ok L L False ?t" "\<And>u. ?t \<noteq> Ty_Pinned u" "?ref \<or> \<not> is_modified ?t \<and> \<not> is_byref ?t"
    using assms by (simp_all add: local_ok_def)
  obtain b bs where hd: "type_bytes ?t = b # bs" "\<not> is_modified ?t \<Longrightarrow> mod_kind b = None" "\<not> is_byref ?t \<Longrightarrow> b \<noteq> ET_BYREF"
    using type_head [OF ok(2)] by metis
  have b: "b \<noteq> ET_PINNED" "b = ET_TYPEDBYREF \<Longrightarrow> ?t = Ty_TypedByRef"
    using type_first_byte [OF ok(2) hd(1)] ok(3) by auto
  let ?tail = "(if ?ref then [ET_BYREF] else []) @ type_bytes ?t"
  let ?rest = "(if ?pin then [ET_PINNED] else []) @ ?tail"
  let ?v = "\<lambda>ms pin ref t. \<lparr>lv_custom_mods = ms, lv_pinned = pin, lv_by_ref = ref, lv_type = t\<rparr>"
  define last where "last = (\<lambda>ms pin ref p. res_bind (parse_type (L + 1) p) (\<lambda>(t, p).
    case t of Ty_Pinned _ \<Rightarrow> Err (sig_error Malformed p) | _ \<Rightarrow> Ok (?v ms pin ref t, p)))"
  have v: "?v ?ms ?pin ?ref ?t = v" by simp
  have reads: "decodes L L False (last ?ms ?pin ?ref) v (type_bytes ?t)"
  proof -
    have "decodes L L False (\<lambda>p. case ?t of Ty_Pinned _ \<Rightarrow> Err (sig_error Malformed p) | _ \<Rightarrow> Ok (?v ?ms ?pin ?ref ?t, p)) v []"
      unfolding not_pinned_case [OF ok(3)] v by (rule decodes_return)
    then have "decodes L L False (last ?ms ?pin ?ref) v (type_bytes ?t @ [])"
      unfolding last_def by (rule decodes_bind [OF type_reads [OF ok(2)]])
    then show ?thesis by simp
  qed
  have ref: "decodes L L False (\<lambda>p. res_bind (sig_accept ET_BYREF p) (\<lambda>(ref, p). last ?ms ?pin ref p)) v ?tail"
    by (rule decodes_flag [where g = "last ?ms ?pin", OF reads]) (use hd ok(4) in auto)
  let ?after = "\<lambda>ms pin p. res_bind (if pin then custom_mods p else Ok ([], p)) (\<lambda>(more, p).
    res_bind (sig_accept ET_BYREF p) (\<lambda>(ref, p). last (ms @ more) pin ref p))"
  have tail: "starts_no_mod ?tail" using hd ok(4) by (cases ?ref) (auto simp: starts_no_mod_def mod_kind_def et_defs)
  have after: "decodes L L False (?after ?ms ?pin) v ?tail"
  proof (cases ?pin)
    case True
    have "decodes L L False (\<lambda>p. res_bind (custom_mods p) (\<lambda>(more, p).
        res_bind (sig_accept ET_BYREF p) (\<lambda>(ref, p). last (?ms @ more) True ref p))) v (mods_bytes [] @ ?tail)"
      by (rule decodes_mods [OF _ tail]) (use ref True in \<open>simp_all add: mods_ok_def\<close>)
    then show ?thesis using True by simp
  qed (use ref in simp)
  have pinned: "decodes L L False (\<lambda>p. res_bind (sig_accept ET_PINNED p) (\<lambda>(pin, p). ?after ?ms pin p)) v ?rest"
    by (rule decodes_flag [where g = "?after ?ms", OF after]) (use hd(1) b(1) in \<open>auto simp: et_defs\<close>)
  have rest: "starts_no_mod ?rest"
    using tail by (cases ?pin) (simp_all add: starts_no_mod_def mod_kind_def et_defs del: if_splits)
  have bytes: "local_bytes v = mods_bytes ?ms @ ?rest" by (simp add: local_bytes_def)
  let ?g = "\<lambda>alone p. if alone then Ok (?v [] False False Ty_TypedByRef, p)
    else res_bind (custom_mods p) (\<lambda>(ms, p). res_bind (sig_accept ET_PINNED p) (\<lambda>(pin, p). ?after ms pin p))"
  have whole: "decodes L L False (?g False) v (mods_bytes ?ms @ ?rest)"
    by (simp only: simp_thms if_False) (rule decodes_mods [OF ok(1) rest], rule pinned)
  have "decodes L L False (\<lambda>p. res_bind (sig_accept ET_TYPEDBYREF p) (\<lambda>(alone, p). ?g alone p)) v (mods_bytes ?ms @ ?rest)"
  proof (cases "hd (mods_bytes ?ms @ ?rest) = ET_TYPEDBYREF")
    case False
    then show ?thesis using decodes_accept_no [of L L False ?g] whole hd(1) by simp
  next
    case True
    then have ms: "?ms = []" "\<not> ?pin" "\<not> ?ref" "?t = Ty_TypedByRef"
      using b(2) hd(1) by (cases ?ms; auto simp: mod_bytes_def et_defs split: if_splits)+
    then have "mods_bytes ?ms @ ?rest = [ET_TYPEDBYREF]" by (simp add: simple_bytes_def simple_types_def et_defs)
    moreover have "decodes L L False (?g True) v []" using ms by (cases v) (simp add: decodes_return)
    ultimately show ?thesis using decodes_accept_yes [of L L False ?g v "[]" ET_TYPEDBYREF] by simp
  qed
  then show ?thesis unfolding local_var_def [abs_def] bytes last_def using hd(1) by simp
qed

lemma locals_reads:
  assumes "list_all (local_ok L) vs" and "length vs < 2 ^ 29" and "slice_ok (locals_bytes vs @ post)" and "L < u32_max"
  shows "local_var_sig_parse_with (locals_bytes vs @ post) L = Ok \<lparr>ls_raw = locals_bytes vs @ post, ls_locals = vs\<rparr>"
proof -
  let ?blob = "locals_bytes vs @ post"
  have each: "decodes L L False (local_var (parse_type (L + 1))) v (local_bytes v) \<and> local_bytes v \<noteq> []" if "v \<in> set vs" for v
    using assms(1) that by (intro local_reads) (simp add: list_all_iff)
  have len: "length vs \<le> length (concat (map local_bytes vs))"
    using each
  proof (induction vs)
    case (Cons v vs)
    then show ?case by (cases "local_bytes v") auto
  qed simp
  have t: "decodes L L False (sig_times (length vs) (local_var (parse_type (L + 1)))) vs (concat (map local_bytes vs))"
    using each by (intro decodes_times) simp
  have "decodes L L False (\<lambda>p. res_bind (expect_convention CONV_LOCAL_SIG p) (\<lambda>(_, p).
     res_bind (bounded_count p) (\<lambda>(count, p). res_bind (sig_times count (local_var (parse_type (L + 1))) p)
     (\<lambda>(locals, p). Ok (\<lparr>ls_raw = ?blob, ls_locals = locals\<rparr>, p)))))
     \<lparr>ls_raw = ?blob, ls_locals = vs\<rparr> (CONV_LOCAL_SIG # (cu_bytes (of_nat (length vs)) @ concat (map local_bytes vs)))"
    by (rule decodes_convention, simp add: conv_defs)
      (rule decodes_count [OF len assms(2)], rule decodes_then [OF t])
  from entry_reads [OF this, of post] assms(3,4) show ?thesis
    unfolding entry_eqs by (simp add: locals_bytes_def)
qed

definition property_ok :: "nat \<Rightarrow> PropertySig \<Rightarrow> bool" where
  "property_ok L s \<longleftrightarrow> length (prs_params s) < 2 ^ 29
     \<and> list_all (\<lambda>q. param_form L q \<and> type_ok L L False (pa_type q)) (prs_return_type s # prs_params s)"

lemma property_reads:
  assumes "property_ok L s"
    and raw: "prs_raw s = property_bytes s @ post" and "slice_ok (property_bytes s @ post)" and "L < u32_max"
  shows "property_sig_parse_with (property_bytes s @ post) L = Ok s"
proof -
  let ?b = "CONV_PROPERTY OR (if prs_has_this s then CONV_HASTHIS else 0)" and ?ps = "prs_params s" and ?ret = "prs_return_type s"
    and ?blob = "property_bytes s @ post"
  have ok: "list_all (\<lambda>q. param_form L q \<and> type_ok L L False (pa_type q)) (?ret # ?ps)" and len: "length ?ps < 2 ^ 29"
    using assms(1) by (simp_all add: property_ok_def)
  have b: "?b AND CONV_MASK = CONV_PROPERTY" "(?b AND CONV_HASTHIS \<noteq> 0) = prs_has_this s"
    by (cases "prs_has_this s"; simp add: conv_defs)+
  have s: "\<lparr>prs_raw = ?blob, prs_has_this = prs_has_this s, prs_return_type = ?ret, prs_params = ?ps\<rparr> = s"
    using raw by simp
  have q: "reads_params L L False (parse_type (L + 1)) (?ret # ?ps)" by (rule params_level [OF every_level ok]) simp
  then have ret: "decodes L L False (sig_param (parse_type (L + 1))) ?ret (param_bytes ?ret)" and qs: "reads_params L L False (parse_type (L + 1)) ?ps"
    by (simp_all add: reads_params_def)
  have ps: "decodes L L False (sig_times (length ?ps) (sig_param (parse_type (L + 1)))) ?ps (concat (map param_bytes ?ps))"
    using qs by (intro decodes_times) (simp add: reads_params_def list_all_iff)
  have n: "length ?ps \<le> length (param_bytes ?ret @ concat (map param_bytes ?ps))" using length_params [OF qs] by simp
  have "decodes L L False (\<lambda>p. res_bind (sig_u8 p) (\<lambda>(byte, p).
     if byte AND CONV_MASK \<noteq> CONV_PROPERTY then Err (sig_error_at Malformed 0)
     else res_bind (bounded_count p) (\<lambda>(count, p). res_bind (sig_param (parse_type (L + 1)) p) (\<lambda>(return_type, p).
     res_bind (sig_times count (sig_param (parse_type (L + 1))) p) (\<lambda>(params, p).
     Ok (\<lparr>prs_raw = ?blob, prs_has_this = (byte AND CONV_HASTHIS \<noteq> 0), prs_return_type = return_type,
         prs_params = params\<rparr>, p))))))
     s ([?b] @ (cu_bytes (of_nat (length ?ps)) @ (param_bytes ?ret @ concat (map param_bytes ?ps))))"
    by (rule decodes_bind [OF decodes_u8], simp only: b simp_thms if_False,
        rule decodes_count [OF n len], rule decodes_bind [OF ret], subst s [symmetric], rule decodes_then [OF ps])
  from entry_reads [OF this, of post] assms(3,4) show ?thesis
    unfolding property_entry_eq by (simp add: property_bytes_def)
qed

lemma type_spec_reads:
  assumes "type_ok L L False t" and "slice_ok (type_bytes t @ post)" and "L < u32_max"
  shows "type_spec_sig_parse_with (type_bytes t @ post) L = Ok \<lparr>tss_raw = type_bytes t @ post, tss_type = t\<rparr>"
  using entry_reads [OF type_reads [OF assms(1)] assms(2,3)]
  by (auto simp: type_spec_sig_parse_with_def sig_entry_def res_iff)

lemma method_sig_reads:
  assumes "method_ok L L False m" and "slice_ok (method_bytes m @ post)" and "L < u32_max"
  shows "method_sig_parse_with (method_bytes m @ post) L = Ok m"
  unfolding method_entry_eq by (rule entry_reads [OF method_reads_back [OF assms(1)] assms(2,3)])

section \<open>Array ranks\<close>

text \<open>
  A rank is held against the bytes that follow it, one more at most, although the grammar lets a
  shape stop short of its rank: the two counts may be zero whatever the rank is.
\<close>

definition plain_array :: "u32 \<Rightarrow> bytes" where
  "plain_array rank = ET_ARRAY # ET_I4 # cu_bytes rank @ [0, 0]"

lemma parser_on_new: "slice_ok bs \<Longrightarrow> limit < u32_max \<Longrightarrow> parser_on (parser_new bs limit) bs"
  by (simp add: parser_on_def parser_wf_def parser_new_def)

lemma sig_u8_on: "parser_on p (b # ys) \<Longrightarrow> sig_u8 p = Ok (b, adv p 1) \<and> parser_on (adv p 1) ys"
  using decodesD [OF decodes_u8, of p b ys "ps_limit p" 0 "ps_pinned_seen p"] parser_on_adv [of p "[b]" ys]
  by (simp add: room_def parser_on_def parser_wf_def One_nat_def)

lemma no_mods_on: "parser_on p (b # ys) \<Longrightarrow> mod_kind b = None \<Longrightarrow> custom_mods p = Ok ([], p)"
  unfolding custom_mods_def by (subst custom_mods_loop.simps) (simp add: sig_peek_on)

lemma nested_on:
  assumes "ps_depth p < ps_limit p" and "parser_wf p"
  shows "nested f p = res_bind (f (p\<lparr>ps_depth := ps_depth p + 1\<rparr>)) (\<lambda>(x, p). Ok (x, sig_leave p))"
  using assms by (simp add: nested_def sig_enter_def u32_add_def parser_wf_def Let_def)

lemma array_type_on:
  assumes "parser_on p (ET_ARRAY # ys)" and "ps_depth p < ps_limit p" and "0 < k"
  shows "parse_type k p = res_bind (array_type (parse_type (k - 1)) (adv (p\<lparr>ps_depth := ps_depth p + 1\<rparr>) 1))
     (\<lambda>(x, p). Ok (x, sig_leave p))"
proof -
  let ?p = "p\<lparr>ps_depth := ps_depth p + 1\<rparr>"
  obtain k' where k: "k = Suc k'" using assms(3) by (cases k) auto
  have w: "parser_wf p" "parser_on ?p (ET_ARRAY # ys)" using assms(1,2) by (auto simp: parser_on_def parser_wf_def)
  have "type_inner (parse_type k') (parse_method k') ?p = array_type (parse_type k') (adv ?p 1)"
    using no_mods_on [OF w(2)] sig_u8_on [OF w(2)]
    by (simp add: type_inner_def compound_type_def mod_kind_def simple_types_def et_defs Let_def)
  then show ?thesis unfolding k parse_type.simps nested_on [OF assms(2) w(1)] by simp
qed

lemma cu_zero: "cu_bytes 0 = [0]"
  by (simp add: cu_bytes_def cu_width_def compress_at_def)

lemma plain_array_parses:
  assumes "slice_ok (plain_array rank)" and "2 \<le> limit" and "limit < u32_max" and "rank < 2 ^ 29"
  shows "type_spec_sig_parse_with (plain_array rank) limit =
     (if unat rank \<le> 3
      then Ok \<lparr>tss_raw = plain_array rank, tss_type = Ty_Array Ty_I4 \<lparr>as_rank = rank, as_sizes = [], as_lo_bounds = []\<rparr>\<rparr>
      else Err (error_new Malformed (2 + length (cu_bytes rank)) ''signature''))"
proof -
  let ?p = "parser_new (plain_array rank) limit"
  let ?q = "adv (?p\<lparr>ps_depth := 1\<rparr>) 1" and ?s = "\<lparr>as_rank = rank, as_sizes = [], as_lo_bounds = []\<rparr>"
  have on: "parser_on ?p (ET_ARRAY # ([ET_I4] @ (cu_bytes rank @ [0, 0])))"
    using parser_on_new [OF assms(1,3)] by (simp add: plain_array_def)
  have q: "parser_on ?q ([ET_I4] @ (cu_bytes rank @ [0, 0]))"
    using sig_advance_on [OF on] assms(2) by (auto simp: parser_on_def parser_wf_def parser_new_def)
  have r: "room limit 1 False ?q" using assms(2) by (simp add: room_def parser_new_def)
  have "type_ok limit 1 False Ty_I4" by (simp add: One_nat_def)
  then have "decodes limit 1 False (parse_type limit) Ty_I4 (type_bytes Ty_I4)"
    using every_level [of 1 limit limit] assms(2) unfolding level_reads_def by (simp del: type_ok.simps type_bytes.simps)
  moreover have "type_bytes Ty_I4 = [ET_I4]" by (simp add: simple_bytes_def simple_types_def et_defs)
  ultimately have "decodes limit 1 False (parse_type limit) Ty_I4 [ET_I4]" by simp
  from decodesD [OF this q r] have 1: "parse_type limit ?q = Ok (Ty_I4, adv ?q 1)" by (simp add: One_nat_def)
  have q1: "parser_on (adv ?q 1) (cu_bytes rank @ [0, 0])" using parser_on_adv [OF q] by (simp add: One_nat_def)
  let ?n = "length (cu_bytes rank)"
  have 2: "sig_cu32 (adv ?q 1) = Ok (rank, adv (adv ?q 1) ?n)"
    by (rule decodesD [OF decodes_cu32 [OF assms(4)] q1]) (use r in simp)
  have q2: "parser_on (adv (adv ?q 1) ?n) [0, 0]" by (rule parser_on_adv [OF q1])
  have rem: "sig_remaining (adv (adv ?q 1) ?n) = 2"
    using parser_on_len [OF q2] by (simp add: sig_remaining_def saturating_sub_def)
  have pos: "ps_pos (adv (adv ?q 1) ?n) = 2 + ?n" by (simp add: parser_new_def)
  have "array_shape (adv ?q 1) = (if unat rank \<le> 3 then Ok (?s, adv (adv (adv ?q 1) ?n) 2) else Err (error_new Malformed (2 + ?n) ''signature''))"
  proof (cases "unat rank \<le> 3")
    case True
    then have s: "shape_ok ?s" using assms(4) by (simp add: shape_ok_def rank_covered_def shape_tail_def cu_zero)
    have "shape_bytes ?s = cu_bytes rank @ [0, 0]" by (simp add: shape_bytes_def shape_tail_def cu_zero)
    then show ?thesis using decodesD [OF decodes_shape [OF s], of "adv ?q 1" "[]"] q1 r True by (simp add: add.assoc)
  next
    case False
    define a c where "a = adv ?q 1" and "c = adv (adv ?q 1) ?n"
    have "sig_cu32 a = Ok (rank, c)" "sig_remaining c = 2" "ps_pos c = 2 + ?n"
      unfolding a_def c_def by (rule 2 rem pos)+
    with False have "array_shape a = Err (error_new Malformed (2 + ?n) ''signature'')"
      by (simp add: array_shape_def usize_add_def sig_error_def usize_max_def)
    with False show ?thesis by (simp add: a_def)
  qed
  note shape = this
  have elem: "array_type (parse_type limit) ?q = res_bind (array_shape (adv ?q 1)) (\<lambda>(shape, p). Ok (Ty_Array Ty_I4 shape, p))"
    unfolding array_type_def 1 by simp
  have whole: "parse_type (limit + 1) ?p = res_bind (array_type (parse_type limit) ?q) (\<lambda>(x, p). Ok (x, sig_leave p))"
    using array_type_on [OF on, of "limit + 1"] assms(2) by (simp add: parser_new_def)
  show ?thesis
    unfolding type_spec_sig_parse_with_def whole elem shape by (cases "unat rank \<le> 3") simp_all
qed

section \<open>Blobs from the tests, and two the grammar forbids\<close>

lemma vararg_blob:
  "method_sig_parse [0x05, 0x02, 0x08, 0x08, 0x41, 0x0E] =
     Ok (MethodSig [0x05, 0x02, 0x08, 0x08, 0x41, 0x0E] CC_VarArg False False (Param [] False Ty_I4)
       [Param [] False Ty_I4] [Param [] False Ty_String])" (is "_ = Ok ?m")
proof -
  have b: "method_bytes ?m = [0x05, 0x02, 0x08, 0x08, 0x41, 0x0E]"
    by (simp add: method_head_def conv_defs et_defs cu_bytes_def cu_width_def compress_at_def simple_bytes_def simple_types_def)
  have "method_ok (Suc (Suc n)) (Suc (Suc n)) False ?m" for n
    using b by (simp add: conv_ok_def param_form_def mods_ok_def)
  from this [of 62] have "method_ok 64 64 False ?m" by (simp add: numeral_eq_Suc del: method_ok.simps)
  from method_sig_reads [OF this, of "[]"] show ?thesis
    unfolding b by (simp add: method_sig_parse_def default_recursion_limit_def slice_ok_def isize_max_def u32_max_def)
qed

text \<open>A pinned pointer to a pinned type, which the grammar does not have, reads as a local.\<close>

lemma local_pinned_twice:
  "local_var_sig_parse [0x07, 0x01, 0x45, 0x0F, 0x45, 0x08] =
     Ok \<lparr>ls_raw = [0x07, 0x01, 0x45, 0x0F, 0x45, 0x08],
         ls_locals = [\<lparr>lv_custom_mods = [], lv_pinned = True, lv_by_ref = False, lv_type = Ty_Ptr [] (Ty_Pinned Ty_I4)\<rparr>]\<rparr>"
  (is "_ = Ok \<lparr>ls_raw = _, ls_locals = [?v]\<rparr>")
proof -
  have b: "locals_bytes [?v] = [0x07, 0x01, 0x45, 0x0F, 0x45, 0x08]"
    by (simp add: locals_bytes_def local_bytes_def conv_defs et_defs cu_bytes_def cu_width_def compress_at_def
        simple_bytes_def simple_types_def)
  have "local_ok (Suc (Suc (Suc n))) ?v" for n by (simp add: local_ok_def mods_ok_def)
  from this [of 61] have "local_ok 64 ?v" by (simp add: numeral_eq_Suc)
  with locals_reads [of 64 "[?v]" "[]"] b show ?thesis
    by (simp add: local_var_sig_parse_def default_recursion_limit_def slice_ok_def isize_max_def u32_max_def)
qed

text \<open>The signature \<open>void Foo<T>(!!0 modopt(TypeRef 2), method int32(int32[]))\<close>.\<close>

definition sample_callee :: MethodSig where
  "sample_callee = MethodSig [0x00, 0x01, 0x08, 0x1D, 0x08] CC_Default False False (Param [] False Ty_I4)
     [Param [] False (Ty_SzArray [] Ty_I4)] []"

definition sample_method :: MethodSig where
  "sample_method = MethodSig [0x10, 0x01, 0x02, 0x01, 0x20, 0x09, 0x1E, 0x00, 0x1B, 0x00, 0x01, 0x08, 0x1D, 0x08]
     (CC_Generic 1) False False (Param [] False Ty_Void)
     [Param [\<lparr>cm_required = False, cm_type_token = token_new T_TypeRef 2\<rparr>] False (Ty_MVar 0),
      Param [] False (Ty_FnPtr sample_callee)] []"

lemma sample_method_bytes: "method_bytes sample_method = ms_raw sample_method" "method_bytes sample_callee = ms_raw sample_callee"
  by (simp_all add: sample_method_def sample_callee_def method_head_def conv_defs et_defs cu_bytes_def cu_width_def
      compress_at_def simple_bytes_def simple_types_def mod_bytes_def token_bytes_def token_tag_def token_new_rid push_bit_eq_mult)

lemma sample_method_ok: "method_ok 64 64 False sample_method"
proof -
  have "method_ok (Suc k) (Suc (Suc (Suc (Suc (Suc n))))) False sample_method" for k n
    using sample_method_bytes by (simp add: sample_method_def sample_callee_def conv_ok_def param_form_def mods_ok_def token_ok_def)
  from this [of 63 59] show ?thesis by (simp add: numeral_eq_Suc del: method_ok.simps)
qed

section \<open>The properties of the signatures\<close>

text \<open>C13: Whatever the bytes of a blob are, and for every recursion limit below \<open>u32::MAX\<close> (where the
  depth counter cannot overflow), every signature entry point returns a value or an error, never a
  panic. What it accepts nests no deeper than the limit: the types of a method, its parameters and
  its return type, of a field, of a property, of the arguments of an instantiation, of a type
  specification and of every local; a lone \<open>TYPEDBYREF\<close> local, which is read without entering a type,
  is accepted under every limit.\<close>

theorem signatures_total:
  assumes "slice_ok blob" and "limit < u32_max"
  shows "no_panic (method_sig_parse_with blob limit) \<and> no_panic (field_sig_parse_with blob limit)
     \<and> no_panic (local_var_sig_parse_with blob limit) \<and> no_panic (property_sig_parse_with blob limit)
     \<and> no_panic (method_spec_sig_parse_with blob limit) \<and> no_panic (type_spec_sig_parse_with blob limit)
     \<and> (\<forall>m. method_sig_parse_with blob limit = Ok m \<longrightarrow> method_fits limit m)
     \<and> (\<forall>t. type_spec_sig_parse_with blob limit = Ok t \<longrightarrow> type_fits limit (tss_type t))
     \<and> (\<forall>f. field_sig_parse_with blob limit = Ok f \<longrightarrow> type_fits limit (fs_type f))
     \<and> (\<forall>ls. local_var_sig_parse_with blob limit = Ok ls \<longrightarrow> list_all (local_fits limit) (ls_locals ls))
     \<and> (\<forall>s. property_sig_parse_with blob limit = Ok s \<longrightarrow> params_fit limit (prs_return_type s # prs_params s))
     \<and> (\<forall>ms. method_spec_sig_parse_with blob limit = Ok ms \<longrightarrow> list_all (type_fits limit) (mss_args ms))"
  using signature_totals [OF assms] signature_fits [OF assms] by blast

theorem signatures_total_witness:
  "\<exists>m. method_sig_parse_with [0x05, 0x02, 0x08, 0x08, 0x41, 0x0E] 64 = Ok m \<and> method_fits 64 m"
proof -
  have "slice_ok [0x05, 0x02, 0x08, 0x08, 0x41, 0x0E]" "64 < u32_max" by (simp_all add: slice_ok_def isize_max_def u32_max_def)
  from signatures_total [OF this] vararg_blob show ?thesis
    unfolding method_sig_parse_def default_recursion_limit_def by blast
qed

text \<open>C3: A method signature or a type reads back from the bytes it is written to, with every nested
  type, modifier, count and convention in place, and whatever follows it in the blob is left alone.
  It has to keep to the grammar, to the limit (below \<open>u32::MAX\<close>), to 29-bit integers, and every array
  in it to a rank that its own sizes and bounds cover, \<open>rank \<le> bytes of the two lists + 1\<close>: the parser
  rejects arrays the grammar allows when fewer bytes are left (C30).\<close>

theorem method_signature_roundtrip:
  assumes "slice_ok blob" and "limit < u32_max"
  shows "(\<forall>m post. method_ok limit limit False m \<and> blob = method_bytes m @ post
        \<longrightarrow> method_sig_parse_with blob limit = Ok m)
     \<and> (\<forall>t post. type_ok limit limit False t \<and> blob = type_bytes t @ post
        \<longrightarrow> type_spec_sig_parse_with blob limit = Ok \<lparr>tss_raw = blob, tss_type = t\<rparr>)"
  using method_sig_reads type_spec_reads assms by blast

theorem method_signature_roundtrip_witness:
  "method_sig_parse_with (ms_raw sample_method) 64 = Ok sample_method
   \<and> type_spec_sig_parse_with [0x0F, 0x1D, 0x05] 64 = Ok \<lparr>tss_raw = [0x0F, 0x1D, 0x05], tss_type = Ty_Ptr [] (Ty_SzArray [] Ty_U1)\<rparr>"
proof -
  let ?t = "Ty_Ptr [] (Ty_SzArray [] Ty_U1)"
  have s: "slice_ok (ms_raw sample_method)" "slice_ok [0x0F, 0x1D, 0x05]" "64 < u32_max"
    by (simp_all add: sample_method_def slice_ok_def isize_max_def u32_max_def)
  have m: "ms_raw sample_method = method_bytes sample_method @ []" by (simp add: sample_method_bytes)
  have t: "[0x0F, 0x1D, 0x05] = type_bytes ?t @ []" by (simp add: et_defs simple_bytes_def simple_types_def)
  have "type_ok k (Suc (Suc (Suc n))) False ?t" for k n by (simp add: mods_ok_def)
  from this [of 64 61] have ok: "type_ok 64 64 False ?t" by (simp add: numeral_eq_Suc del: type_ok.simps)
  show ?thesis
    using method_signature_roundtrip [OF s(1,3)] sample_method_ok m method_signature_roundtrip [OF s(2,3)] ok t by blast
qed

text \<open>C29: Field, local, property and instantiation signatures read back from the bytes they are written
  to, whatever follows in the blob, under the conditions of C3: types within the grammar and the limit,
  29-bit integers and counts, and array ranks covered by the bytes of their sizes and bounds. A local
  keeps its constraint, its reference and its modifiers apart from those of its type.\<close>

theorem other_signatures_roundtrip:
  assumes "slice_ok blob" and "limit < u32_max"
  shows "(\<forall>f post. field_ok limit f \<and> blob = field_bytes f @ post \<and> fs_raw f = blob
        \<longrightarrow> field_sig_parse_with blob limit = Ok f)
     \<and> (\<forall>vs post. list_all (local_ok limit) vs \<and> length vs < 2 ^ 29 \<and> blob = locals_bytes vs @ post
        \<longrightarrow> local_var_sig_parse_with blob limit = Ok \<lparr>ls_raw = blob, ls_locals = vs\<rparr>)
     \<and> (\<forall>s post. property_ok limit s \<and> blob = property_bytes s @ post \<and> prs_raw s = blob
        \<longrightarrow> property_sig_parse_with blob limit = Ok s)
     \<and> (\<forall>ts post. list_all (type_ok limit limit False) ts \<and> length ts < 2 ^ 29 \<and> blob = method_spec_bytes ts @ post
        \<longrightarrow> method_spec_sig_parse_with blob limit = Ok \<lparr>mss_raw = blob, mss_args = ts\<rparr>)"
proof (intro conjI)
  show "\<forall>s post. property_ok limit s \<and> blob = property_bytes s @ post \<and> prs_raw s = blob
      \<longrightarrow> property_sig_parse_with blob limit = Ok s"
    using property_reads assms by blast
qed (use field_reads locals_reads method_spec_reads assms in blast)+

theorem other_signatures_roundtrip_witness:
  "local_var_sig_parse_with [0x07, 0x01, 0x45, 0x10, 0x08] 64 =
     Ok \<lparr>ls_raw = [0x07, 0x01, 0x45, 0x10, 0x08],
         ls_locals = [\<lparr>lv_custom_mods = [], lv_pinned = True, lv_by_ref = True, lv_type = Ty_I4\<rparr>]\<rparr>"
  (is "_ = Ok \<lparr>ls_raw = _, ls_locals = [?v]\<rparr>")
proof -
  have s: "slice_ok [0x07, 0x01, 0x45, 0x10, 0x08]" "64 < u32_max" by (simp_all add: slice_ok_def isize_max_def u32_max_def)
  have b: "[0x07, 0x01, 0x45, 0x10, 0x08] = locals_bytes [?v] @ []"
    by (simp add: locals_bytes_def local_bytes_def conv_defs et_defs cu_bytes_def cu_width_def compress_at_def
        simple_bytes_def simple_types_def)
  have "local_ok (Suc n) ?v" for n by (simp add: local_ok_def mods_ok_def)
  from this [of 63] have "list_all (local_ok 64) [?v]" by (simp add: numeral_eq_Suc)
  then show ?thesis using other_signatures_roundtrip [OF s, THEN conjunct2, THEN conjunct1, rule_format, of "[?v]" "[]"] b by simp
qed

text \<open>C30: An array shape is held to the bytes behind its rank: an array of rank four or more that ends
  its blob without sizes and bounds, as the standard's own example of rank seven does, is rejected as
  malformed at the byte behind the rank. Up to rank three it reads back.\<close>

theorem array_rank_bound:
  assumes "rank < 2 ^ 29" and "2 \<le> limit" and "limit < u32_max"
  shows "type_spec_sig_parse_with (plain_array rank) limit =
     (if unat rank \<le> 3
      then Ok \<lparr>tss_raw = plain_array rank, tss_type = Ty_Array Ty_I4 \<lparr>as_rank = rank, as_sizes = [], as_lo_bounds = []\<rparr>\<rparr>
      else Err (error_new Malformed (2 + length (cu_bytes rank)) ''signature''))"
proof (rule plain_array_parses [OF _ assms(2,3,1)])
  show "slice_ok (plain_array rank)"
    using length_cu_bytes [OF assms(1)] by (simp add: slice_ok_def plain_array_def isize_max_def cu_width_def)
qed

theorem array_rank_bound_witness:
  "type_spec_sig_parse_with [0x14, 0x08, 0x07, 0x00, 0x00] 64 = Err (error_new Malformed 3 ''signature'')"
proof -
  have "plain_array 7 = [0x14, 0x08, 0x07, 0x00, 0x00]" "length (cu_bytes 7) = 1"
    by (simp_all add: plain_array_def et_defs cu_bytes_def cu_width_def compress_at_def)
  with array_rank_bound [of 7 64] show ?thesis by (simp add: u32_max_def)
qed

end
