(* ===== verification/Display.thy ===== *)
theory Display
  imports Format Lookup Metadata SigEntries
begin

text \<open>
  Readable names (\<open>src/src/display.rs\<close>). Rendering a type is structural recursion over the
  signature; the hop from a token to the signature of a \<open>TypeSpec\<close> and back is what
  \<open>Names::MAX_DEPTH\<close> bounds, so the token renderers recurse on the hops that are left. Rows are read as the accessors
  of \<open>Tables\<close> read them (\<open>row_indirect\<close>), through \<open>MethodPtr\<close> and \<open>FieldPtr\<close> where the image has them. A renderer
  that cannot fail in the code still has a \<open>result\<close> here, so that a panic of what it reads would
  show; the lemmas show that there is none.
\<close>

section \<open>Preliminaries\<close>

lemma res_map_cong [fundef_cong]:
  assumes "xs = ys" and "\<And>x. x \<in> set ys \<Longrightarrow> f x = g x"
  shows "res_map f xs = res_map g ys"
  using assms(2) unfolding assms(1) by (induction ys) auto

definition or_else :: "'a result \<Rightarrow> (error \<Rightarrow> 'a result) \<Rightarrow> 'a result" where
  "or_else r f = (case r of Ok x \<Rightarrow> Ok x | Err e \<Rightarrow> f e | Panic \<Rightarrow> Panic)"

definition qualify :: "bytes \<Rightarrow> bytes \<Rightarrow> bytes" where
  "qualify namespace name = (if namespace = [] then name else namespace @ ascii ''.'' @ name)"

section \<open>Array shapes\<close>

definition get_nth :: "'a list \<Rightarrow> nat \<Rightarrow> 'a option" where
  "get_nth xs n = (if n < length xs then Some (xs ! n) else None)"

definition dimension_string :: "int option \<Rightarrow> u32 option \<Rightarrow> bytes" where
  "dimension_string low extent =
     (case (low, extent) of
        (Some lo, Some n) \<Rightarrow> dec_int lo @ ascii ''...'' @ dec_int (lo + int (unat n) - 1)
      | (Some lo, None) \<Rightarrow> dec_int lo @ ascii ''...''
      | (None, Some n) \<Rightarrow> dec (unat n)
      | (None, None) \<Rightarrow> [])"

definition shape_string :: "ArrayShape \<Rightarrow> bytes" where
  "shape_string shape =
     ascii ''['' @ joined (ascii '','') (map (\<lambda>dimension.
        dimension_string (get_nth (as_lo_bounds shape) dimension) (get_nth (as_sizes shape) dimension))
       [0..<unat (as_rank shape)]) @ ascii '']''"

section \<open>Types and signatures, given the names of tokens\<close>

type_synonym namer = "Token \<Rightarrow> bytes result"

definition mods_string :: "namer \<Rightarrow> CustomMod list \<Rightarrow> bytes result" where
  "mods_string tok mods =
     res_bind (res_map (\<lambda>m. res_bind (tok (cm_type_token m)) (\<lambda>name.
         Ok (ascii (if cm_required m then '' modreq('' else '' modopt('') @ name @ ascii '')''))) (rev mods))
       (\<lambda>parts. Ok (concat parts))"

definition conv_string :: "CallConv \<Rightarrow> bytes" where
  "conv_string conv = ascii
     (case conv of
        CC_Default \<Rightarrow> '''' | CC_Generic _ \<Rightarrow> '''' | CC_VarArg \<Rightarrow> ''vararg '' | CC_C \<Rightarrow> ''unmanaged cdecl ''
      | CC_StdCall \<Rightarrow> ''unmanaged stdcall '' | CC_ThisCall \<Rightarrow> ''unmanaged thiscall ''
      | CC_FastCall \<Rightarrow> ''unmanaged fastcall '' | CC_Unmanaged \<Rightarrow> ''unmanaged ''
      | CC_NativeVarArg \<Rightarrow> ''unmanaged vararg '' | CC_Field \<Rightarrow> ''field '' | CC_LocalSig \<Rightarrow> ''locals ''
      | CC_Property \<Rightarrow> ''property '' | CC_GenericInst \<Rightarrow> ''generic '')"

definition generic_suffix :: "CallConv \<Rightarrow> bytes" where
  "generic_suffix conv = (case conv of CC_Generic count \<Rightarrow> ascii ''<'' @ dec (unat count) @ ascii ''>'' | _ \<Rightarrow> [])"

fun type_string :: "namer \<Rightarrow> Type \<Rightarrow> bytes result"
and param_string :: "namer \<Rightarrow> Param \<Rightarrow> bytes result"
and method_string :: "namer \<Rightarrow> MethodSig \<Rightarrow> bytes \<Rightarrow> bytes result" where
  "type_string tok Ty_Void = Ok (ascii ''void'')"
| "type_string tok Ty_Boolean = Ok (ascii ''bool'')"
| "type_string tok Ty_Char = Ok (ascii ''char'')"
| "type_string tok Ty_I1 = Ok (ascii ''int8'')"
| "type_string tok Ty_U1 = Ok (ascii ''uint8'')"
| "type_string tok Ty_I2 = Ok (ascii ''int16'')"
| "type_string tok Ty_U2 = Ok (ascii ''uint16'')"
| "type_string tok Ty_I4 = Ok (ascii ''int32'')"
| "type_string tok Ty_U4 = Ok (ascii ''uint32'')"
| "type_string tok Ty_I8 = Ok (ascii ''int64'')"
| "type_string tok Ty_U8 = Ok (ascii ''uint64'')"
| "type_string tok Ty_R4 = Ok (ascii ''float32'')"
| "type_string tok Ty_R8 = Ok (ascii ''float64'')"
| "type_string tok Ty_String = Ok (ascii ''string'')"
| "type_string tok Ty_Object = Ok (ascii ''object'')"
| "type_string tok Ty_TypedByRef = Ok (ascii ''typedref'')"
| "type_string tok Ty_IntPtr = Ok (ascii ''native int'')"
| "type_string tok Ty_UIntPtr = Ok (ascii ''native uint'')"
| "type_string tok (Ty_Ptr mods inner) =
     res_bind (type_string tok inner) (\<lambda>t. res_bind (mods_string tok mods) (\<lambda>m. Ok (t @ m @ ascii ''*'')))"
| "type_string tok (Ty_ByRef inner) = res_bind (type_string tok inner) (\<lambda>t. Ok (t @ ascii ''&''))"
| "type_string tok (Ty_ValueType t) = res_bind (tok t) (\<lambda>name. Ok (ascii ''valuetype '' @ name))"
| "type_string tok (Ty_Class t) = res_bind (tok t) (\<lambda>name. Ok (ascii ''class '' @ name))"
| "type_string tok (Ty_Var i) = Ok (ascii ''!'' @ dec (unat i))"
| "type_string tok (Ty_MVar i) = Ok (ascii ''!!'' @ dec (unat i))"
| "type_string tok (Ty_SzArray mods inner) =
     res_bind (type_string tok inner) (\<lambda>t. res_bind (mods_string tok mods) (\<lambda>m. Ok (t @ m @ ascii ''[]'')))"
| "type_string tok (Ty_Array inner shape) = res_bind (type_string tok inner) (\<lambda>t. Ok (t @ shape_string shape))"
| "type_string tok (Ty_GenericInst is_value_type def args) =
     res_bind (res_map (type_string tok) args) (\<lambda>args.
     res_bind (tok def) (\<lambda>d.
     Ok (ascii (if is_value_type then ''valuetype '' else ''class '') @ d @ ascii ''<''
         @ joined (ascii '', '') args @ ascii ''>'')))"
| "type_string tok (Ty_FnPtr sig) = res_bind (method_string tok sig []) (\<lambda>s. Ok (ascii ''method '' @ s))"
| "type_string tok (Ty_Modified mods inner) =
     res_bind (type_string tok inner) (\<lambda>t. res_bind (mods_string tok mods) (\<lambda>m. Ok (t @ m)))"
| "type_string tok (Ty_Pinned inner) = res_bind (type_string tok inner) (\<lambda>t. Ok (t @ ascii '' pinned''))"
| "type_string tok Ty_Sentinel = Ok (ascii ''...'')"
| "type_string tok (Ty_Internal v) = Ok (ascii ''internal('' @ hex v @ ascii '')'')"
| "param_string tok (Param mods by_ref t) =
     res_bind (type_string tok t) (\<lambda>out. res_bind (mods_string tok mods) (\<lambda>m.
     Ok (out @ (if by_ref then ascii ''&'' else []) @ m)))"
| "method_string tok (MethodSig raw conv has_this explicit_this ret params varargs) name =
     res_bind (param_string tok ret) (\<lambda>ret.
     res_bind (res_map (param_string tok) params) (\<lambda>parts.
     res_bind (res_map (param_string tok) varargs) (\<lambda>more.
     Ok ((if has_this then ascii ''instance '' else []) @ (if explicit_this then ascii ''explicit '' else [])
         @ conv_string conv @ ret @ ascii '' '' @ name @ generic_suffix conv
         @ ascii ''('' @ joined (ascii '', '') (parts @ (if varargs = [] then [] else ascii ''...'' # more)) @ ascii '')''))))"

definition field_string :: "namer \<Rightarrow> FieldSig \<Rightarrow> bytes result" where
  "field_string tok sig =
     res_bind (type_string tok (fs_type sig)) (\<lambda>out. res_bind (mods_string tok (fs_custom_mods sig)) (\<lambda>m. Ok (out @ m)))"

definition local_string :: "namer \<Rightarrow> LocalVar \<Rightarrow> bytes result" where
  "local_string tok l =
     res_bind (type_string tok (lv_type l)) (\<lambda>out. res_bind (mods_string tok (lv_custom_mods l)) (\<lambda>m.
     Ok (out @ (if lv_by_ref l then ascii ''&'' else []) @ (if lv_pinned l then ascii '' pinned'' else []) @ m)))"

section \<open>Names bound to a metadata region\<close>

definition MAX_DEPTH :: nat where "MAX_DEPTH = 32"

text \<open>\<open>Names\<close>: the region and the number of hops followed so far.\<close>

record Names =
  nm_metadata :: Metadata
  nm_depth :: nat

definition names_new :: "Metadata \<Rightarrow> Names" where
  "names_new md = \<lparr>nm_metadata = md, nm_depth = 0\<rparr>"

definition names_deeper :: "Names \<Rightarrow> Names" where
  "names_deeper names = \<lparr>nm_metadata = nm_metadata names, nm_depth = nm_depth names + 1\<rparr>"

definition names_string :: "Metadata \<Rightarrow> u32 \<Rightarrow> bytes result" where
  "names_string md index = or_else (strings_lossy (md_strings md) (unat index)) (\<lambda>_. Ok [])"

definition type_def_row :: "Metadata \<Rightarrow> u32 \<Rightarrow> TypeDefRow result" where
  "type_def_row md rid = row_indirect (md_tables md) T_TypeDef TypeDefRow_decode (unat rid)"

definition qualified_name :: "Metadata \<Rightarrow> u32 \<Rightarrow> u32 \<Rightarrow> bytes result" where
  "qualified_name md namespace name =
     res_bind (names_string md namespace) (\<lambda>ns. res_bind (names_string md name) (\<lambda>n. Ok (qualify ns n)))"

text \<open>The walk outwards through \<open>NestedClass\<close>, at most one step for each of its rows.\<close>

fun outer_names :: "Metadata \<Rightarrow> nat \<Rightarrow> u32 \<Rightarrow> bytes \<Rightarrow> bytes result" where
  "outer_names md 0 current name = Ok name"
| "outer_names md (Suc n) current name =
     res_bind (enclosing_type (md_tables md) current) (\<lambda>outer.
     case outer of
       None \<Rightarrow> Ok name
     | Some outer \<Rightarrow>
         if outer = 0 \<or> outer = current then Ok name
         else
         res_bind (type_def_row md outer) (\<lambda>row.
         res_bind (qualified_name md (type_def_type_namespace row) (type_def_type_name row)) (\<lambda>outer_name.
         outer_names md n outer (outer_name @ ascii ''/'' @ name))))"

definition type_def_name :: "Metadata \<Rightarrow> u32 \<Rightarrow> bytes result" where
  "type_def_name md rid =
     res_bind (type_def_row md rid) (\<lambda>row.
     res_bind (qualified_name md (type_def_type_namespace row) (type_def_type_name row)) (\<lambda>name.
     outer_names md (row_count (md_tables md) T_NestedClass) rid name))"

text \<open>\<open>type_ref\<close> with \<open>n\<close> hops left.\<close>

fun type_ref_name :: "Metadata \<Rightarrow> nat \<Rightarrow> u32 \<Rightarrow> bytes result" where
  "type_ref_name md 0 rid = Err (error_detached RecursionLimit ''TypeRef'')"
| "type_ref_name md (Suc n) rid =
     (let tables = md_tables md in
      res_bind (row_indirect tables T_TypeRef TypeRefRow_decode (unat rid)) (\<lambda>row.
      res_bind (qualified_name md (type_ref_type_namespace row) (type_ref_type_name row)) (\<lambda>name.
      let scope = type_ref_resolution_scope row in
      if token_table scope = Some T_AssemblyRef \<and> \<not> token_is_null scope then
        res_bind (row_indirect tables T_AssemblyRef AssemblyRefRow_decode (unat (token_rid scope))) (\<lambda>assembly.
        res_bind (names_string md (assembly_ref_name assembly)) (\<lambda>a.
        Ok (ascii ''['' @ a @ ascii '']'' @ name)))
      else if token_table scope = Some T_ModuleRef \<and> \<not> token_is_null scope then
        res_bind (row_indirect tables T_ModuleRef ModuleRefRow_decode (unat (token_rid scope))) (\<lambda>m.
        res_bind (names_string md (module_ref_name m)) (\<lambda>a.
        Ok (ascii ''[.module '' @ a @ ascii '']'' @ name)))
      else if token_table scope = Some T_TypeRef \<and> \<not> token_is_null scope then
        res_bind (type_ref_name md n (token_rid scope)) (\<lambda>outer.
        Ok (outer @ ascii ''/'' @ name))
      else Ok name)))"

definition unresolved :: "Token \<Rightarrow> bytes" where
  "unresolved tok =
     (case token_table tok of
        Some table \<Rightarrow> row_name table (unat (token_rid tok))
      | None \<Rightarrow> token_display tok)"

text \<open>A member and the type that owns it.\<close>

definition member_name :: "Metadata \<Rightarrow> nat option result \<Rightarrow> u32 \<Rightarrow> bytes result" where
  "member_name md owner name =
     res_bind owner (\<lambda>owner.
     res_bind (case owner of Some type_def \<Rightarrow> type_def_name md (of_nat type_def) | None \<Rightarrow> Ok (ascii ''?'')) (\<lambda>owner.
     res_bind (names_string md name) (\<lambda>n.
     Ok (owner @ ascii ''::'' @ n))))"

text \<open>
  \<open>try_token\<close> with one hop or more left: \<open>deeper\<close> names the tokens one hop below, \<open>n\<close> is what is
  left there.
\<close>

definition resolve_token :: "Metadata \<Rightarrow> nat \<Rightarrow> namer \<Rightarrow> namer" where
  "resolve_token md n deeper tok =
     (let tables = md_tables md; rid = token_rid tok in
      case token_table tok of
        Some T_TypeDef \<Rightarrow> type_def_name md rid
      | Some T_TypeRef \<Rightarrow> type_ref_name md n rid
      | Some T_TypeSpec \<Rightarrow>
          res_bind (row_indirect tables T_TypeSpec TypeSpecRow_decode (unat rid)) (\<lambda>row.
          res_bind (blob_get (md_blobs md) (unat (type_spec_signature row))) (\<lambda>blob.
          case type_spec_sig_parse blob of
            Ok sig \<Rightarrow> type_string deeper (tss_type sig)
          | Err _ \<Rightarrow> Ok (ascii ''TypeSpec['' @ dec (unat rid) @ ascii '']'')
          | Panic \<Rightarrow> Panic))
      | Some T_MethodDef \<Rightarrow>
          res_bind (row_indirect tables T_MethodDef MethodDefRow_decode (unat rid)) (\<lambda>row.
          member_name md (type_of_method tables (unat rid)) (method_def_name row))
      | Some T_Field \<Rightarrow>
          res_bind (row_indirect tables T_Field FieldRow_decode (unat rid)) (\<lambda>row.
          member_name md (type_of_field tables (unat rid)) (field_name row))
      | Some T_MemberRef \<Rightarrow>
          res_bind (row_indirect tables T_MemberRef MemberRefRow_decode (unat rid)) (\<lambda>row.
          res_bind (deeper (member_ref_class row)) (\<lambda>parent.
          res_bind (names_string md (member_ref_name row)) (\<lambda>n.
          Ok (parent @ ascii ''::'' @ n))))
      | Some T_MethodSpec \<Rightarrow>
          res_bind (row_indirect tables T_MethodSpec MethodSpecRow_decode (unat rid)) (\<lambda>row.
          res_bind (deeper (method_spec_method row)) (\<lambda>base.
          res_bind (blob_get (md_blobs md) (unat (method_spec_instantiation row))) (\<lambda>blob.
          case method_spec_sig_parse blob of
            Ok sig \<Rightarrow>
              res_bind (res_map (type_string deeper) (mss_args sig)) (\<lambda>args.
              Ok (base @ ascii ''<'' @ joined (ascii '', '') args @ ascii ''>''))
          | Err _ \<Rightarrow> Ok base
          | Panic \<Rightarrow> Panic)))
      | Some T_ModuleRef \<Rightarrow>
          res_bind (row_indirect tables T_ModuleRef ModuleRefRow_decode (unat rid)) (\<lambda>row.
          res_bind (names_string md (module_ref_name row)) (\<lambda>n.
          Ok (ascii ''[.module '' @ n @ ascii '']'')))
      | Some T_AssemblyRef \<Rightarrow>
          res_bind (row_indirect tables T_AssemblyRef AssemblyRefRow_decode (unat rid)) (\<lambda>row.
          res_bind (names_string md (assembly_ref_name row)) (\<lambda>n.
          Ok (ascii ''['' @ n @ ascii '']'')))
      | Some T_StandAloneSig \<Rightarrow> Ok (ascii ''StandAloneSig['' @ dec (unat rid) @ ascii '']'')
      | Some table \<Rightarrow> Ok (row_name table (unat rid))
      | None \<Rightarrow> Ok (token_display tok))"

text \<open>\<open>try_token\<close> and \<open>token\<close> with \<open>n\<close> hops left.\<close>

fun try_token_name :: "Metadata \<Rightarrow> nat \<Rightarrow> namer"
and token_name :: "Metadata \<Rightarrow> nat \<Rightarrow> namer" where
  "try_token_name md 0 tok = Err (error_detached RecursionLimit ''token'')"
| "try_token_name md (Suc n) tok = resolve_token md n (token_name md n) tok"
| "token_name md n tok = or_else (try_token_name md n tok) (\<lambda>_. Ok (unresolved tok))"

section \<open>The operations of \<open>Names\<close>\<close>

definition hops_left :: "Names \<Rightarrow> nat" where
  "hops_left names = MAX_DEPTH - nm_depth names"

lemma hops_deeper: "hops_left names = Suc (hops_left (names_deeper names))" if "nm_depth names < MAX_DEPTH"
  using that by (simp add: hops_left_def names_deeper_def)

definition names_type_def :: "Names \<Rightarrow> u32 \<Rightarrow> bytes result" where
  "names_type_def names rid = type_def_name (nm_metadata names) rid"

definition names_type_ref :: "Names \<Rightarrow> u32 \<Rightarrow> bytes result" where
  "names_type_ref names rid = type_ref_name (nm_metadata names) (hops_left names) rid"

definition names_token :: "Names \<Rightarrow> Token \<Rightarrow> bytes result" where
  "names_token names tok = token_name (nm_metadata names) (hops_left names) tok"

definition names_try_token :: "Names \<Rightarrow> Token \<Rightarrow> bytes result" where
  "names_try_token names tok = try_token_name (nm_metadata names) (hops_left names) tok"

definition names_type :: "Names \<Rightarrow> Type \<Rightarrow> bytes result" where
  "names_type names t = type_string (names_token names) t"

definition names_method_sig :: "Names \<Rightarrow> MethodSig \<Rightarrow> bytes \<Rightarrow> bytes result" where
  "names_method_sig names sig name = method_string (names_token names) sig name"

definition names_field_sig :: "Names \<Rightarrow> FieldSig \<Rightarrow> bytes result" where
  "names_field_sig names sig = field_string (names_token names) sig"

definition names_local :: "Names \<Rightarrow> LocalVar \<Rightarrow> bytes result" where
  "names_local names l = local_string (names_token names) l"

definition names_param :: "Names \<Rightarrow> Param \<Rightarrow> bytes result" where
  "names_param names p = param_string (names_token names) p"

definition method_def_full :: "Names \<Rightarrow> u32 \<Rightarrow> bytes result" where
  "method_def_full names rid =
     (let md = nm_metadata names in
      res_bind (row_indirect (md_tables md) T_MethodDef MethodDefRow_decode (unat rid)) (\<lambda>row.
      res_bind (blob_get (md_blobs md) (unat (method_def_signature row))) (\<lambda>blob.
      res_bind (names_token names (token_new T_MethodDef rid)) (\<lambda>name.
      case method_sig_parse blob of
        Ok sig \<Rightarrow> names_method_sig names sig name
      | Err _ \<Rightarrow> Ok name
      | Panic \<Rightarrow> Panic))))"

section \<open>Renderers return\<close>

definition is_ok :: "'a result \<Rightarrow> bool" where
  "is_ok r \<longleftrightarrow> (\<exists>x. r = Ok x)"

lemma is_ok_Ok [simp]: "is_ok (Ok x)" and is_ok_Err [simp]: "\<not> is_ok (Err e)" and is_ok_Panic [simp]: "\<not> is_ok Panic"
  by (simp_all add: is_ok_def)

lemma is_ok_bind [intro!]: "is_ok r \<Longrightarrow> (\<And>x. r = Ok x \<Longrightarrow> is_ok (f x)) \<Longrightarrow> is_ok (res_bind r f)"
  by (auto simp: is_ok_def)

lemma is_ok_res_map [intro!]: "(\<And>x. x \<in> set xs \<Longrightarrow> is_ok (f x)) \<Longrightarrow> is_ok (res_map f xs)"
  by (induction xs) auto

lemma is_ok_no_panic: "is_ok r \<Longrightarrow> no_panic r"
  by (auto simp: is_ok_def)

lemma is_ok_or_else: "no_panic r \<Longrightarrow> (\<And>e. is_ok (f e)) \<Longrightarrow> is_ok (or_else r f)"
  by (cases r) (auto simp: or_else_def)

text \<open>A type is rendered whenever its tokens are.\<close>

lemma mods_string_ok: "(\<And>t. is_ok (tok t)) \<Longrightarrow> is_ok (mods_string tok ms)"
  by (auto simp: mods_string_def)

lemma type_string_ok:
  assumes "\<And>t. is_ok (tok t)"
  shows "is_ok (type_string tok t)" and "is_ok (param_string tok q)" and "is_ok (method_string tok m name)"
proof -
  note mods = mods_string_ok [of tok, OF assms]
  have "is_ok (type_string tok t)" and "is_ok (param_string tok q)" and "\<forall>name. is_ok (method_string tok m name)"
    by (induction t and q and m) (auto simp: assms intro!: is_ok_bind is_ok_res_map mods)
  then show "is_ok (type_string tok t)" "is_ok (param_string tok q)" "is_ok (method_string tok m name)" by auto
qed

lemma names_string_ok: "is_ok (names_string md i)"
  by (auto simp: names_string_def strings_lossy_def strings_bytes_eq intro!: is_ok_or_else)

lemma qualified_name_ok: "is_ok (qualified_name md i j)"
  by (auto simp: qualified_name_def intro!: is_ok_bind names_string_ok)

text \<open>What the renderers need of the tables: reads that return.\<close>

definition tables_total :: "Tables \<Rightarrow> bool" where
  "tables_total t \<longleftrightarrow>
     (\<forall>rid. no_panic (row_indirect t T_TypeDef TypeDefRow_decode rid) \<and> no_panic (row_indirect t T_TypeRef TypeRefRow_decode rid)
        \<and> no_panic (row_indirect t T_AssemblyRef AssemblyRefRow_decode rid) \<and> no_panic (row_indirect t T_ModuleRef ModuleRefRow_decode rid)
        \<and> no_panic (row_indirect t T_TypeSpec TypeSpecRow_decode rid) \<and> no_panic (row_indirect t T_MethodDef MethodDefRow_decode rid)
        \<and> no_panic (row_indirect t T_Field FieldRow_decode rid) \<and> no_panic (row_indirect t T_MemberRef MemberRefRow_decode rid)
        \<and> no_panic (row_indirect t T_MethodSpec MethodSpecRow_decode rid))
     \<and> (\<forall>rid. no_panic (enclosing_type t rid))
     \<and> (\<forall>rid. no_panic (type_of_method t rid) \<and> no_panic (type_of_field t rid))"

definition names_ready :: "Metadata \<Rightarrow> bool" where
  "names_ready md \<longleftrightarrow> slice_ok (span_data (md_blobs md)) \<and> tables_total (md_tables md)"

text \<open>Rows read behind an indirection.\<close>

lemma resolve_indirection_total: "tables_wf w t \<Longrightarrow> no_panic (resolve_indirection t table rid)"
  by (auto simp: resolve_exact split: option.split)

lemma resolve_indirection_empty: "(\<And>table. row_count t table = 0) \<Longrightarrow> resolve_indirection t table rid = Ok rid"
  by (simp add: resolve_indirection_def split: option.split)

lemma row_indirect_plain: "TableId_ptr_source table = None \<Longrightarrow> row_indirect t table decode rid = row_of t table decode rid"
  by (simp add: row_indirect_def resolve_indirection_def)

context row_type
begin

lemma row_indirect_total: "tables_wf w t \<Longrightarrow> no_panic (row_indirect t table decode rid)"
  by (auto simp: row_indirect_def res_iff resolve_indirection_total row_total)

lemma row_indirect_empty: "(\<And>table. row_count t table = 0) \<Longrightarrow> no_panic (row_indirect t table decode rid)"
  by (simp add: row_indirect_def resolve_indirection_empty row_out_of_range)

end

lemma tables_total_wf:
  assumes "tables_wf w t" and "is_sorted t T_NestedClass \<longrightarrow> key_sorted t T_NestedClass" and "row_count t T_NestedClass < u32_max"
    and "row_count t T_TypeDef < u32_max"
  shows "tables_total t"
proof -
  note rows = r_type_def.row_indirect_total r_type_ref.row_indirect_total r_assembly_ref.row_indirect_total
    r_module_ref.row_indirect_total r_type_spec.row_indirect_total r_method_def.row_indirect_total
    r_field.row_indirect_total r_member_ref.row_indirect_total r_method_spec.row_indirect_total
  have key: "sort_key_column T_NestedClass = Some 0" by (simp add: sort_key_column_def)
  have "no_panic (raw_column t table rid j)" for table rid j
    by (metis raw_column_cell [OF assms(1)] raw_column_err [OF assms(1)] res.distinct(3,5))
  then have "no_panic (enclosing_type t rid)" for rid
    using rows_with_key_all [OF assms(1-3) key, of rid]
    by (auto simp: enclosing_type_def first_then_def first_row_with_key_def res_iff split: option.splits)
  moreover have "no_panic (type_of_method t m)" "no_panic (type_of_field t m)" for m
    using owner_of_list_spec [OF assms(1) _ assms(4), of 5 T_MethodDef m] owner_of_list_spec [OF assms(1) _ assms(4), of 4 T_Field m]
    by (auto simp: type_of_method_def type_of_field_def row_defs)
  ultimately show ?thesis unfolding tables_total_def using rows [OF assms(1)] by blast
qed

lemma tables_total_empty: "(\<And>table. row_count t table = 0) \<Longrightarrow> tables_total t"
  unfolding tables_total_def
  by (auto simp: r_type_def.row_indirect_empty r_type_ref.row_indirect_empty r_assembly_ref.row_indirect_empty
      r_module_ref.row_indirect_empty r_type_spec.row_indirect_empty r_method_def.row_indirect_empty
      r_field.row_indirect_empty r_member_ref.row_indirect_empty r_method_spec.row_indirect_empty enclosing_type_def
      first_then_def first_row_with_key_def rows_with_key_def sort_key_column_def get_at_def type_of_method_def
      type_of_field_def owner_of_list_def Let_def)

lemma tables_totalD:
  assumes "tables_total t"
  shows "no_panic (row_indirect t T_TypeDef TypeDefRow_decode rid)" "no_panic (row_indirect t T_TypeRef TypeRefRow_decode rid)"
    "no_panic (row_indirect t T_AssemblyRef AssemblyRefRow_decode rid)" "no_panic (row_indirect t T_ModuleRef ModuleRefRow_decode rid)"
    "no_panic (row_indirect t T_TypeSpec TypeSpecRow_decode rid)" "no_panic (row_indirect t T_MethodDef MethodDefRow_decode rid)"
    "no_panic (row_indirect t T_Field FieldRow_decode rid)" "no_panic (row_indirect t T_MemberRef MemberRefRow_decode rid)"
    "no_panic (row_indirect t T_MethodSpec MethodSpecRow_decode rid)" "no_panic (enclosing_type t r)"
    "no_panic (type_of_method t rid)" "no_panic (type_of_field t rid)"
  using assms by (auto simp: tables_total_def)

lemma entry_slice: "slice_ok d \<Longrightarrow> entry_at d i = Some (used, b) \<Longrightarrow> slice_ok b"
  by (auto simp: entry_at_def slice_ok_def split: res.splits if_splits)

lemma names_string_total: "no_panic (names_string md i)" and qualified_name_total: "no_panic (qualified_name md i j)"
  by (rule is_ok_no_panic [OF names_string_ok], rule is_ok_no_panic [OF qualified_name_ok])

lemma outer_names_total: "tables_total (md_tables md) \<Longrightarrow> no_panic (outer_names md n current name)"
  by (induction n arbitrary: current name)
    (auto simp: type_def_row_def tables_totalD qualified_name_total res_iff split: option.splits if_splits)

lemma type_def_name_total: "tables_total (md_tables md) \<Longrightarrow> no_panic (type_def_name md rid)"
  by (auto simp: type_def_name_def type_def_row_def tables_totalD qualified_name_total outer_names_total res_iff)

lemma type_ref_name_total: "tables_total (md_tables md) \<Longrightarrow> no_panic (type_ref_name md n rid)"
proof (induction n arbitrary: rid)
  case (Suc n)
  then show ?case
    by (auto simp: Let_def tables_totalD qualified_name_total names_string_total res_iff split: if_splits)
qed simp

lemma member_name_total: "tables_total (md_tables md) \<Longrightarrow> no_panic owner \<Longrightarrow> no_panic (member_name md owner name)"
  by (auto simp: member_name_def type_def_name_total names_string_total res_iff split: option.splits)

lemma resolve_token_total:
  assumes "names_ready md" and deeper: "\<And>t. is_ok (deeper t)"
  shows "no_panic (resolve_token md n deeper tok)"
proof -
  have t: "tables_total (md_tables md)" and b: "slice_ok (span_data (md_blobs md))" using assms(1) by (simp_all add: names_ready_def)
  note str = type_string_ok(1) [of deeper, OF deeper]
  have "no_panic (type_spec_sig_parse blob)" "no_panic (method_spec_sig_parse blob)" if "slice_ok blob" for blob
    using signature_totals [OF that, of default_recursion_limit]
    by (simp_all add: type_spec_sig_parse_def method_spec_sig_parse_def default_recursion_limit_def u32_max_def)
  then have sigs: "no_panic (case type_spec_sig_parse blob of Ok sig \<Rightarrow> type_string deeper (tss_type sig) | Err _ \<Rightarrow> Ok x | Panic \<Rightarrow> Panic)"
    "no_panic (case method_spec_sig_parse blob of Ok sig \<Rightarrow> res_bind (res_map (type_string deeper) (mss_args sig)) (\<lambda>args. Ok (f args))
       | Err _ \<Rightarrow> Ok x | Panic \<Rightarrow> Panic)" if "slice_ok blob" for blob x and f :: "bytes list \<Rightarrow> bytes"
    using that is_ok_no_panic [OF str] is_ok_no_panic [OF is_ok_res_map [of _ "type_string deeper"], OF str]
    by (auto simp: res_iff split: res.splits)
  note totals = tables_totalD [OF t] type_def_name_total [OF t] type_ref_name_total [OF t] member_name_total [OF t]
    names_string_total is_ok_no_panic [OF deeper] sigs
  show ?thesis
    unfolding resolve_token_def Let_def
    by (auto simp: totals res_iff dest!: entry_slice [OF b] split: option.split TableId.split)
qed

lemma token_name_ok:
  assumes "names_ready md"
  shows "no_panic (try_token_name md n tok)" and "is_ok (token_name md n tok)"
proof -
  have or: "is_ok (token_name md n tok)" if "no_panic (try_token_name md n tok)" for n tok
    using that by (auto intro!: is_ok_or_else)
  have "\<forall>tok. no_panic (try_token_name md n tok)"
  proof (induction n)
    case (Suc n)
    then have "is_ok (token_name md n tok)" for tok using or by blast
    then show ?case using resolve_token_total [OF assms] by (simp del: token_name.simps)
  qed simp
  then show "no_panic (try_token_name md n tok)" "is_ok (token_name md n tok)" using or by auto
qed

text \<open>The rows of a table stream are at least two bytes long, and a stream declares its size in 32 bits.\<close>

lemma row_count_fits:
  assumes "tables_wf w t" and "length (tb_data t) \<le> u32_max"
  shows "row_count t table < u32_max"
proof -
  note l = tables_wfD(1) [OF assms(1)] tables_wfD(3,4) [OF assms(1), of table]
  have "2 * row_count t table \<le> tl_row_size (table_layout t table) * row_count t table"
    by (rule mult_le_mono1 [OF row_size_bounds(1) [OF l(2,1)]])
  also have "\<dots> = byte_size (table_layout t table)" by (simp add: byte_size_def row_count_def)
  also have "\<dots> \<le> u32_max" using l(3) assms(2) by (simp add: table_end_def)
  finally show ?thesis by (simp add: u32_max_def)
qed

text \<open>What a parsed region gives its readers: heaps and tables of at most 32-bit size.\<close>

definition tables_ready :: "Tables \<Rightarrow> bool" where
  "tables_ready t \<longleftrightarrow> t = tables_empty
     \<or> (\<exists>w. tables_wf w t \<and> (\<forall>table. is_sorted t table \<longrightarrow> key_sorted t table)
          \<and> (\<forall>table. row_count t table < u32_max))"

lemma row_count_empty [simp]: "row_count tables_empty table = 0"
  by (cases table) (simp_all add: tables_empty_def row_count_def table_layout_def table_layout_default_def slot_of_def TABLE_SLOTS_def)

lemma tables_ready_total: "tables_ready t \<Longrightarrow> tables_total t"
  using tables_total_wf tables_total_empty by (auto simp: tables_ready_def)

lemma tables_ready_count: "tables_ready t \<Longrightarrow> row_count t table < u32_max"
  by (auto simp: tables_ready_def u32_max_def)

definition span_ready :: "span \<Rightarrow> bool" where
  "span_ready h \<longleftrightarrow> slice_ok (span_data h) \<and> length (span_data h) \<le> u32_max"

lemma metadata_parts:
  assumes "slice_ok bs" and "base + u32_max + length bs \<le> usize_max" and "metadata_parse_at bs base st = Ok md"
  shows "span_ready (md_strings md)" "span_ready (md_user_strings md)" "span_ready (md_blobs md)"
    "span_ready (md_guids md)" and "tables_ready (md_tables md)"
proof -
  have w: "metadata_wf md" "md_bytes md = bs" "md_base md = base" using metadata_parse_at_wf(2) [OF assms] by auto
  then have ins: "list_all (stream_in bs) (md_streams md)" by (simp add: metadata_wf_def)
  have fits: "slice_ok (sh_data s) \<and> length (sh_data s) \<le> u32_max" if "s \<in> set (md_streams md)" for s
  proof -
    have d: "sh_data s = take (unat (sh_size s)) (drop (unat (sh_offset s)) bs)"
      using ins that by (simp add: list_all_iff stream_in_def)
    have "unat (sh_size s) \<le> u32_max" using unsigned_less [of "sh_size s", where ?'a = nat] by (simp add: u32_max_def)
    then show ?thesis using assms(1) by (auto simp: d slice_ok_def isize_max_def u32_max_def)
  qed
  have "span_ready (heap_of base name (md_streams md))" for name
    using fits by (auto simp: heap_of_def first_named_def heap_empty_def span_new_def span_ready_def split: option.split dest!: find_in)
  then show "span_ready (md_strings md)" "span_ready (md_user_strings md)" "span_ready (md_blobs md)"
    "span_ready (md_guids md)"
    using w by (simp_all add: metadata_wf_def)
  show "tables_ready (md_tables md)"
  proof (cases "table_stream_of base (md_streams md)")
    case None
    then show ?thesis using w by (simp add: metadata_wf_def tables_ready_def)
  next
    case (Some r)
    then obtain dat at unc where r: "table_stream_of base (md_streams md) = Some (dat, at, unc)" by (cases r) auto
    then obtain ds0 ds where p: "tables_parse dat at unc (md_strictness md) ds0 = Ok (md_tables md, ds)"
      using w by (auto simp: metadata_wf_def)
    have dat: "length dat \<le> u32_max"
      using r fits by (auto simp: table_stream_of_def first_named_def dest!: find_in)
    note wf = tables_parse_wf(2) [OF table_stream_fits [OF ins assms(1,2) r] p]
    then show ?thesis unfolding tables_ready_def using row_count_fits dat by metis
  qed
qed

lemma metadata_names_ready:
  assumes "slice_ok bs" and "base + u32_max + length bs \<le> usize_max" and "metadata_parse_at bs base st = Ok md"
  shows "names_ready md"
  using metadata_parts(3,5) [OF assms] tables_ready_total by (simp add: names_ready_def span_ready_def)

section \<open>How long a name can get\<close>

text \<open>
  A \<open>TypeSpec\<close> whose signature is a generic instance that names the same \<open>TypeSpec\<close> twice as an
  argument. The hops are bounded, but each hop renders its arguments again, so every hop that is left
  doubles the name.
\<close>

definition names_itself_twice :: "Metadata \<Rightarrow> Token \<Rightarrow> bool" where
  "names_itself_twice md tok \<longleftrightarrow> token_table tok = Some T_TypeSpec
     \<and> (\<exists>row blob raw is_val def. row_of (md_tables md) T_TypeSpec TypeSpecRow_decode (unat (token_rid tok)) = Ok row
          \<and> blob_get (md_blobs md) (unat (type_spec_signature row)) = Ok blob
          \<and> type_spec_sig_parse blob = Ok \<lparr>tss_raw = raw, tss_type = Ty_GenericInst is_val def [Ty_Class tok, Ty_Class tok]\<rparr>)"

lemma name_doubles:
  assumes "names_ready md" and "names_itself_twice md tok"
  shows "\<exists>s. token_name md n tok = Ok s \<and> 2 ^ n \<le> length s"
proof (induction n)
  case 0
  have "0 < length (unresolved tok)"
    using assms(2) by (simp add: unresolved_def names_itself_twice_def row_name_def ascii_def)
  then show ?case by (simp add: or_else_def Suc_leI)
next
  case (Suc n)
  then obtain s where s: "token_name md n tok = Ok s" "2 ^ n \<le> length s" by blast
  have plain: "TableId_ptr_source T_TypeSpec = None" by (simp add: TableId_ptr_source_def)
  obtain is_val def where r: "resolve_token md n (token_name md n) tok =
      type_string (token_name md n) (Ty_GenericInst is_val def [Ty_Class tok, Ty_Class tok])"
    using assms(2) unfolding names_itself_twice_def resolve_token_def Let_def row_indirect_plain [OF plain] by fastforce
  obtain d where d: "token_name md n def = Ok d" using token_name_ok(2) [OF assms(1)] by (auto simp: is_ok_def)
  let ?c = "ascii ''class '' @ s"
  have "type_string (token_name md n) (Ty_GenericInst is_val def [Ty_Class tok, Ty_Class tok]) =
      Ok (ascii (if is_val then ''valuetype '' else ''class '') @ d @ ascii ''<'' @ (?c @ ascii '', '' @ ?c) @ ascii ''>'')"
    using s(1) d by (simp del: token_name.simps)
  then have "token_name md (Suc n) tok =
      Ok (ascii (if is_val then ''valuetype '' else ''class '') @ d @ ascii ''<'' @ (?c @ ascii '', '' @ ?c) @ ascii ''>'')"
    by (simp add: r or_else_def del: token_name.simps add: token_name.simps [of md "Suc n"])
  then show ?case using s(2) by simp
qed

text \<open>Such a region: one \<open>TypeSpec\<close> row, and its signature in the blob heap.\<close>

definition looping_spec :: Type where
  "looping_spec = (let tok = Token 0x1B000001 in Ty_GenericInst False tok [Ty_Class tok, Ty_Class tok])"

definition looping_blob :: bytes where
  "looping_blob = [0x15, 0x12, 0x06, 0x02, 0x12, 0x06, 0x12, 0x06]"

definition looping_streams :: "(bytes \<times> bytes) list" where
  "looping_streams = [(TABLES_NAME, stream_bytes 2 0 0 0x8000000 0 (\<lambda>_. 1) [1, 0]), (BLOB_NAME, 0 # 8 # looping_blob)]"

definition looping_metadata :: bytes where
  "looping_metadata = metadata_bytes 1 1 0 [118, 52] 2 looping_streams"

lemma looping_token: "token_table (Token 0x1B000001) = Some T_TypeSpec" "token_rid (Token 0x1B000001) = 1"
  by code_simp+

lemma looping_sig: "type_spec_sig_parse looping_blob = Ok \<lparr>tss_raw = looping_blob, tss_type = looping_spec\<rparr>"
proof -
  have tok: "token_ok (Token 0x1B000001)" "token_bytes (Token 0x1B000001) = [6]"
    by (simp_all add: token_ok_def token_bytes_def token_tag_def looping_token cu_bytes_def cu_width_def compress_at_def push_bit_eq_mult)
  have b: "type_bytes looping_spec = looping_blob"
    by (simp add: looping_spec_def looping_blob_def Let_def tok et_defs cu_bytes_def cu_width_def compress_at_def)
  have "type_ok L (Suc (Suc n)) False looping_spec" for L n by (simp add: looping_spec_def Let_def tok)
  from this [of 64 62] have "type_ok 64 64 False looping_spec" by (simp add: numeral_eq_Suc del: type_ok.simps)
  from type_spec_reads [OF this, of "[]"] show ?thesis
    by (simp add: b type_spec_sig_parse_def default_recursion_limit_def looping_blob_def slice_ok_def isize_max_def u32_max_def)
qed

lemma bit_27: "bit (0x8000000 :: u64) n \<longleftrightarrow> n = 27"
proof -
  have "(0x8000000 :: u64) = 2 ^ 27" by simp
  then show ?thesis by (simp only: bit_exp_iff) auto
qed

lemma looping_counts: "declared_counts 0x8000000 (\<lambda>_. 1) = replicate 27 0 @ [1] @ replicate 36 0"
  by (rule nth_equalityI)
    (auto simp: declared_counts_def TABLE_SLOTS_def nth_Cons' nth_append bit_27 simp del: bit_numeral_word_iff)

lemma looping_stream_ok: "stream_ok 0 0x8000000 (\<lambda>_. 1) [1, 0]"
proof -
  have "list_all (\<lambda>s. bit (0x8000000 :: u64) s \<longrightarrow> TableId_from_u8 (of_nat s) \<noteq> None) [0..<TABLE_SLOTS]"
    by (auto simp: list_all_iff TableId_from_u8_def bit_27 simp del: bit_numeral_word_iff)
  then show ?thesis
    by (simp add: stream_ok_def table_bytes_def slot_of_def TableId_ALL_def row_defs stream_width_def
        column_width_def offset_of_def looping_counts nth_append nth_Cons' map_filter_simps)
qed

lemma looping_stream_length: "length (stream_bytes 2 0 0 0x8000000 0 (\<lambda>_. 1) [1, 0]) = 30"
  by (simp add: stream_bytes_def count_bytes_def TABLE_SLOTS_def length_concat upt_rec bit_27 del: bit_numeral_word_iff)

lemma looping_region_ok: "region_ok [118, 52] 2 looping_streams"
proof -
  have "length (metadata_bytes 0 0 0 [118, 52] 2 looping_streams) \<le> u32_max"
    by (simp add: length_metadata streams_at_def looping_streams_def looping_stream_length looping_blob_def name_field_def
        name_defs u32_max_def)
  then show ?thesis
    by (simp add: region_ok_def) (simp add: looping_streams_def name_ok_def name_defs)
qed

lemma looping_size: "length looping_metadata = 92"
  by (simp add: looping_metadata_def length_metadata streams_at_def looping_streams_def looping_stream_length
      looping_blob_def name_field_def name_defs)

lemma looping_parses:
  obtains md where "metadata_parse_at looping_metadata 0 Strict = Ok md" and "names_itself_twice md (Token 0x1B000001)"
proof -
  let ?body = "stream_bytes 2 0 0 0x8000000 0 (\<lambda>_. 1) [1, 0]"
  define ps where "ps = placed_streams (streams_at [118, 52] 2 looping_streams) looping_streams"
  have at: "streams_at [118, 52] 2 looping_streams = 52"
    by (simp add: streams_at_def looping_streams_def name_field_def name_defs)
  have sl: "slice_ok ?body" by (simp add: slice_ok_def looping_stream_length isize_max_def)
  obtain t ds where t: "tables_parse ?body (saturating_add 0 52) False Strict [] = Ok (t, ds)"
    and wf: "tables_wf (stream_width 0 (declared_counts 0x8000000 (\<lambda>_. 1))) t"
    and rows: "row_count t T_TypeSpec = 1"
    and bytes: "drop (tl_data_offset (table_layout t T_TypeSpec)) (tb_data t)
      = drop (table_start 0 (declared_counts 0x8000000 (\<lambda>_. 1)) T_TypeSpec) [1, 0]"
    using stream_parses [OF looping_stream_ok sl, of Strict "saturating_add 0 52" False "[]"]
    by (auto simp: looping_counts slot_of_def nth_append)
  have tab: "table_stream_of 0 ps = Some (?body, saturating_add 0 52, False)"
    unfolding ps_def at by (simp add: looping_streams_def table_stream_of_def first_named_def name_defs)
  have blobs: "span_data (heap_of 0 BLOB_NAME ps) = 0 # 8 # looping_blob"
    unfolding ps_def at by (simp add: looping_streams_def heap_of_def first_named_def name_defs)
  let ?md = "written_metadata 1 1 0 [118, 52] 2 looping_streams 0 Strict (t, ds)"
  have parse: "metadata_parse_at looping_metadata 0 Strict = Ok ?md"
    using parse_written_metadata [OF looping_region_ok, of 1 1 0 0 Strict]
    by (simp add: looping_metadata_def parse_table_stream_def tab [unfolded ps_def] t)
  have "table_start 0 (declared_counts 0x8000000 (\<lambda>_. 1)) T_TypeSpec = 0"
    by (simp add: table_start_def TableId_ALL_def table_bytes_def slot_of_def looping_counts nth_append nth_Cons')
  then have cell: "cell t T_TypeSpec 1 0 = 1"
    using bytes tables_wfD(3) [OF wf, of T_TypeSpec]
    by (simp add: cell_def cell_offset_def layout_ok_def row_defs Let_def)
  have "column_values t T_TypeSpec 1 = Ok [CV_Uint 1]"
    by (simp add: column_values_def column_value_def row_defs upt_rec cell cell [unfolded One_nat_def])
  then have row: "row_of t T_TypeSpec TypeSpecRow_decode 1 = Ok \<lparr>type_spec_signature = 1\<rparr>"
    using r_type_spec.row_exact [OF wf, of 1] rows by simp
  have rd: "read_compressed_u32 (8 # looping_blob) = Ok (8, 1)"
    by (simp add: looping_blob_def read_compressed_u32_def get_at_def)
  have "span_data (md_blobs ?md) = 0 # 8 # looping_blob" by (simp add: written_metadata_def Let_def blobs [unfolded ps_def])
  then have "blob_get (md_blobs ?md) 1 = Ok looping_blob"
    unfolding blob_get_iff entry_at_def by (simp add: rd One_nat_def) (simp add: looping_blob_def)
  then have "names_itself_twice ?md (Token 0x1B000001)"
    using row looping_sig
    by (auto simp: names_itself_twice_def looping_token written_metadata_def Let_def looping_spec_def)
  with parse show thesis by (rule that)
qed

section \<open>Fallback names\<close>

text \<open>The fallback name of a token tells the token.\<close>

lemma unresolved_inj:
  assumes "unresolved a = unresolved b"
  shows "a = b"
proof -
  have hd: "hd (row_name t n) \<noteq> hd (hex_padded 8 m)" for t n m
    using table_name_letters [of t] by (cases "ascii (TableId_name t)") (auto simp: row_name_def letters_def hex_padded_cut)
  then have ne: "row_name t n \<noteq> hex_padded 8 m" for t n m by metis
  show ?thesis
  proof (cases "token_table a"; cases "token_table b")
    fix t u assume "token_table a = Some t" "token_table b = Some u"
    moreover from this have "t = u \<and> token_rid a = token_rid b"
      using assms row_name_inj [of t "unat (token_rid a)" u "unat (token_rid b)"] by (simp add: unresolved_def word_unat_eq_iff)
    ultimately show ?thesis using token_eq_iff by blast
  next
    assume "token_table a = None" "token_table b = None"
    then have "token_value a = token_value b"
      using assms hex_padded_inj [of 8 "unat (token_value a)" "unat (token_value b)"] by (simp add: unresolved_def token_display_def word_unat_eq_iff)
    then show ?thesis by (cases a; cases b) simp
  qed (use assms ne ne [symmetric] in \<open>simp_all add: unresolved_def token_display_def\<close>)
qed

section \<open>Renderings of the tests\<close>

lemma renders_method:
  "method_string tok (MethodSig raw CC_Default True False (Param [] False Ty_Void)
     [Param [] False Ty_I4, Param [] False Ty_String] []) (ascii ''Foo'')
   = Ok (ascii ''instance void Foo(int32, string)'')"
  by (simp add: mods_string_def conv_string_def generic_suffix_def ascii_def)

lemma renders_vararg:
  "method_string tok (MethodSig raw CC_VarArg False False (Param [] False Ty_I4)
     [Param [] False Ty_I4] [Param [] False Ty_String]) (ascii ''Bar'')
   = Ok (ascii ''vararg int32 Bar(int32, ..., string)'')"
  by (simp add: mods_string_def conv_string_def generic_suffix_def ascii_def)

lemma renders_shapes:
  "shape_string \<lparr>as_rank = 2, as_sizes = [], as_lo_bounds = []\<rparr> = ascii ''[,]''"
  "shape_string \<lparr>as_rank = 1, as_sizes = [5], as_lo_bounds = [1]\<rparr> = ascii ''[1...5]''"
  "shape_string \<lparr>as_rank = 1, as_sizes = [], as_lo_bounds = [2]\<rparr> = ascii ''[2...]''"
  by (simp_all add: shape_string_def dimension_string_def get_nth_def ascii_def upt_rec dec_int_def dec_def digits_in.simps
      digit_of_def)

text \<open>Every call of \<open>Names\<close> on metadata that is ready for it.\<close>

lemma names_ready_calls:
  assumes "names_ready (nm_metadata names)"
  shows "(\<exists>s. names_token names tok = Ok s) \<and> (\<exists>s. names_type names t = Ok s)
     \<and> (\<exists>s. names_param names q = Ok s) \<and> (\<exists>s. names_method_sig names m nm = Ok s)
     \<and> (\<exists>s. names_field_sig names f = Ok s) \<and> (\<exists>s. names_local names l = Ok s)
     \<and> no_panic (names_try_token names tok) \<and> no_panic (names_type_def names rid)
     \<and> no_panic (names_type_ref names rid) \<and> no_panic (method_def_full names rid)"
proof -
  let ?md = "nm_metadata names"
  note r = assms
  from r have tb: "tables_total (md_tables ?md)" and bl: "slice_ok (span_data (md_blobs ?md))" by (simp_all add: names_ready_def)
  have tok: "is_ok (names_token names tok)" for tok using token_name_ok(2) [OF r] by (simp add: names_token_def)
  note str = type_string_ok [of "names_token names", OF tok] mods_string_ok [of "names_token names", OF tok]
  have "no_panic (method_sig_parse blob)" if "slice_ok blob" for blob
    using signature_totals(1) [OF that, of default_recursion_limit]
    by (simp add: method_sig_parse_def default_recursion_limit_def u32_max_def)
  then have "no_panic (method_def_full names rid)"
    using is_ok_no_panic [OF tok] is_ok_no_panic [OF str(3)]
    by (auto simp: method_def_full_def Let_def res_iff tables_totalD [OF tb] names_method_sig_def
        dest!: entry_slice [OF bl] split: res.splits)
  moreover have "is_ok (names_field_sig names f)" "is_ok (names_local names l)"
    by (auto simp: names_field_sig_def names_local_def field_string_def local_string_def str)
  ultimately show ?thesis
    using tok str type_def_name_total [OF tb] type_ref_name_total [OF tb] token_name_ok(1) [OF r]
    by (simp add: names_type_def names_param_def names_method_sig_def names_type_def_def names_type_ref_def
        names_try_token_def is_ok_def [symmetric] del: type_ref_name.simps try_token_name.simps)
qed

section \<open>The properties of the names\<close>

text \<open>C14: On every metadata region that parses, the name of a token, a type or a signature can be
  rendered: nothing panics, and the operations that have no error return a string, whatever cycles
  the tables and signatures hold.\<close>

theorem names_total:
  assumes "slice_ok bs" and "base + u32_max + length bs \<le> usize_max" and "metadata_parse_at bs base st = Ok md"
    and "nm_metadata names = md"
  shows "(\<exists>s. names_token names tok = Ok s) \<and> (\<exists>s. names_type names t = Ok s)
     \<and> (\<exists>s. names_param names q = Ok s) \<and> (\<exists>s. names_method_sig names m nm = Ok s)
     \<and> (\<exists>s. names_field_sig names f = Ok s) \<and> (\<exists>s. names_local names l = Ok s)
     \<and> no_panic (names_try_token names tok) \<and> no_panic (names_type_def names rid)
     \<and> no_panic (names_type_ref names rid) \<and> no_panic (method_def_full names rid)"
  using names_ready_calls metadata_names_ready [OF assms(1-3)] assms(4) by simp

theorem names_total_witness:
  "\<exists>md s. metadata_parse_at looping_metadata 0 Strict = Ok md \<and> names_token (names_new md) (Token 0x0A000001) = Ok s"
proof -
  obtain md where p: "metadata_parse_at looping_metadata 0 Strict = Ok md" by (rule looping_parses)
  have s: "slice_ok looping_metadata" "0 + u32_max + length looping_metadata \<le> usize_max"
    by (simp_all add: looping_size slice_ok_def isize_max_def u32_max_def usize_max_def)
  from names_total [OF s p, of "names_new md"] show ?thesis using p by (auto simp: names_new_def)
qed

text \<open>C27: The bound on the hops bounds the time of a name, but not to anything usable: in a region of
  some ninety bytes a type specification that names itself twice has a name of more than two to the
  thirty-second bytes.\<close>

theorem name_blows_up:
  assumes "slice_ok bs" and "base + u32_max + length bs \<le> usize_max" and "metadata_parse_at bs base st = Ok md"
    and "names_itself_twice md tok"
  shows "\<exists>s. names_token (names_new md) tok = Ok s \<and> 2 ^ 32 \<le> length s"
  using name_doubles [OF metadata_names_ready [OF assms(1-3)] assms(4), of 32]
  by (simp add: names_token_def names_new_def hops_left_def MAX_DEPTH_def del: token_name.simps)

theorem name_blows_up_witness:
  "length looping_metadata = 92
   \<and> (\<exists>md s. metadata_parse_at looping_metadata 0 Strict = Ok md
        \<and> names_token (names_new md) (Token 0x1B000001) = Ok s \<and> 2 ^ 32 \<le> length s)"
proof -
  obtain md where p: "metadata_parse_at looping_metadata 0 Strict = Ok md" "names_itself_twice md (Token 0x1B000001)"
    by (rule looping_parses)
  have s: "slice_ok looping_metadata" "0 + u32_max + length looping_metadata \<le> usize_max"
    by (simp_all add: looping_size slice_ok_def isize_max_def u32_max_def usize_max_def)
  from name_blows_up [OF s p] show ?thesis using p(1) looping_size by blast
qed

text \<open>The name of a token that cannot be resolved is the table with the row id, or the number in
  hexadecimal when no table has its byte: it tells the token.\<close>

lemma fallback_name_tells_token:
  "unresolved a = unresolved b \<longleftrightarrow> a = b"
  using unresolved_inj by blast

end
