(* ===== verification/FuzzParse.thy ===== *)
theory FuzzParse
  imports Fuzz Display
begin

text \<open>
  The fuzz targets \<open>signature\<close> and \<open>pe\<close> (\<open>src/fuzz/fuzz_targets/\<close>): the first feeds one blob to
  every signature parser under several recursion limits and asserts how long the results can be; the
  second opens an image and walks from it to every method body and through its instructions.
\<close>

section \<open>The target \<open>signature\<close>\<close>

definition fuzz_method_sig :: "bytes \<Rightarrow> nat \<Rightarrow> unit result" where
  "fuzz_method_sig dat limit =
     when_ok (method_sig_parse_with dat limit) (\<lambda>sig.
       res_bind (assert_that (length (ms_raw sig) \<le> length dat)) (\<lambda>_.
       res_bind (assert_that (param_count sig = length (ms_params sig) + length (ms_vararg_params sig))) (\<lambda>_.
       res_bind (touch (has_return sig)) (\<lambda>_.
       res_bind (touch (arg_count_with_this sig)) (\<lambda>_.
       each (\<lambda>param. res_bind (touch (primitive_width 64 (pa_type param))) (\<lambda>_.
                touch (unwrap_modifiers (pa_type param))))
         (ms_params sig @ ms_vararg_params sig))))))"

definition fuzz_signature :: "bytes \<Rightarrow> unit result" where
  "fuzz_signature dat =
     res_bind (each (\<lambda>limit.
       res_bind (fuzz_method_sig dat limit) (\<lambda>_.
       res_bind (when_ok (field_sig_parse_with dat limit) (\<lambda>sig.
         res_bind (touch (primitive_width 32 (fs_type sig))) (\<lambda>_. touch (is_primitive (fs_type sig))))) (\<lambda>_.
       res_bind (when_ok (local_var_sig_parse_with dat limit) (\<lambda>sig.
         res_bind (assert_that (length (ls_locals sig) \<le> length dat)) (\<lambda>_.
         each (\<lambda>local. touch (primitive_width 64 (lv_type local))) (ls_locals sig)))) (\<lambda>_.
       res_bind (when_ok (property_sig_parse_with dat limit) (\<lambda>sig.
         assert_that (length (prs_params sig) \<le> length dat))) (\<lambda>_.
       res_bind (when_ok (method_spec_sig_parse_with dat limit) (\<lambda>sig.
         assert_that (length (mss_args sig) \<le> length dat))) (\<lambda>_.
       when_ok (type_spec_sig_parse_with dat limit) (\<lambda>sig. touch (primitive_width 64 (tss_type sig)))))))))
       [1, 4, 64, 1024]) (\<lambda>_.
     res_bind (discard (read_compressed_u32 dat)) (\<lambda>_.
     discard (read_compressed_i32 dat)))"

text \<open>The bytes a method signature keeps are a range of the blob.\<close>

lemma method_raw_length:
  "method_sig_inner rt p = Ok (m, q) \<Longrightarrow> length (ms_raw m) \<le> length (ps_data q)"
  by (auto simp: method_sig_inner_def Let_def res_bind_Ok_iff get_range_iff split: option.splits)

lemma method_sig_raw:
  assumes "slice_ok blob" and "limit < u32_max" and "method_sig_parse_with blob limit = Ok m"
  shows "length (ms_raw m) \<le> length blob"
proof -
  let ?p = "parser_new blob limit"
  obtain q where q: "parse_method (limit + 1) ?p = Ok (m, q)"
    using assms(3) by (auto simp: method_sig_parse_with_def res_iff)
  have "parser_wf ?p" "ps_limit ?p < ps_depth ?p + (limit + 1)" using assms(1,2) by (simp_all add: parser_new_def parser_wf_def)
  from runsD(2) [OF parse_runs(2) this q] have "ps_data q = blob"
    using movedD(1) [of ?p q] by (simp add: parser_new_def)
  moreover from q obtain p' r where "method_sig_inner (parse_type limit) p' = Ok (m, r)" and "q = sig_leave r"
    by (auto simp: nested_def res_bind_Ok_iff)
  ultimately show ?thesis using method_raw_length by (fastforce simp: sig_leave_def)
qed

text \<open>A count never passes the bytes there are, and each of the lists has as many items as counted.\<close>

lemma sig_advance_data: "sig_advance n p = Ok q \<Longrightarrow> ps_data q = ps_data p"
  by (auto simp: sig_advance_def res_iff)

lemma cu32_data: "sig_cu32 p = Ok (v, q) \<Longrightarrow> ps_data q = ps_data p"
  by (auto simp: sig_cu32_def sig_compressed_def Let_def res_bind_Ok_iff dest: sig_advance_data)

lemma sig_u8_data: "sig_u8 p = Ok (v, q) \<Longrightarrow> ps_data q = ps_data p"
  by (auto simp: sig_u8_def res_bind_Ok_iff dest: sig_advance_data)

lemma convention_data: "expect_convention c p = Ok (v, q) \<Longrightarrow> ps_data q = ps_data p"
  by (auto simp: expect_convention_def Let_def res_bind_Ok_iff split: if_splits dest: sig_u8_data)

lemma count_fits: "bounded_count p = Ok (n, q) \<Longrightarrow> n \<le> length (ps_data p)"
  by (auto simp: bounded_count_def Let_def res_bind_Ok_iff sig_remaining_def saturating_sub_def
      split: if_splits dest!: cu32_data)

lemma sig_times_length: "sig_times n f p = Ok (xs, q) \<Longrightarrow> length xs = n"
  by (induction n arbitrary: p xs q) (auto simp: res_bind_Ok_iff)

lemma sig_list_lengths:
  "local_var_sig_parse_with blob limit = Ok l \<Longrightarrow> length (ls_locals l) \<le> length blob"
  "property_sig_parse_with blob limit = Ok pr \<Longrightarrow> length (prs_params pr) \<le> length blob"
  "method_spec_sig_parse_with blob limit = Ok ms \<Longrightarrow> length (mss_args ms) \<le> length blob"
  by (auto simp: local_var_sig_parse_with_def property_sig_parse_with_def method_spec_sig_parse_with_def
      res_bind_Ok_iff parser_new_def split: if_splits
      dest!: sig_times_length count_fits convention_data sig_u8_data)

lemma fuzz_method_sig_Ok:
  assumes "slice_ok dat" and "limit < u32_max"
  shows "fuzz_method_sig dat limit = Ok ()"
  using signature_totals(1) [OF assms] method_sig_raw [OF assms]
  by (auto simp: fuzz_method_sig_def param_count_def intro!: when_ok_Ok each_Ok)

section \<open>The target \<open>pe\<close>\<close>

definition stop_on_err :: "'x result \<Rightarrow> unit \<Rightarrow> unit flow result" where
  "stop_on_err item acc = (case item of Ok _ \<Rightarrow> Ok (Continue ()) | Err _ \<Rightarrow> Ok (Break ()) | Panic \<Rightarrow> Panic)"

definition fuzz_image_body :: "MethodBody \<Rightarrow> unit result" where
  "fuzz_image_body b =
     (let code = mb_code b in
      res_bind (discard (validate_handlers b)) (\<lambda>_.
      res_bind (for_in (length code) (take_next instruction_iter_next) stop_on_err
                  (65536, instruction_iter_new code) ()) (\<lambda>_.
      for_in (length code) (take_next folded_iter_next) stop_on_err (65536, instruction_iter_new code) ())))"

definition fuzz_image_row :: "PeImage \<Rightarrow> nat \<times> MethodDefRow result \<Rightarrow> unit \<Rightarrow> unit flow result" where
  "fuzz_image_row img item acc =
     res_bind (when_ok (snd item) (\<lambda>row.
       when_ok (from_image img row) (\<lambda>body.
       case body of
         None \<Rightarrow> Ok ()
       | Some b \<Rightarrow> fuzz_image_body b))) (\<lambda>_.
     Ok (Continue ()))"

definition fuzz_image :: "PeImage \<Rightarrow> unit result" where
  "fuzz_image img =
     res_bind (touch (length (pe_diagnostics img))) (\<lambda>_.
     res_bind (discard (cli_header_diagnostics img)) (\<lambda>_.
     res_bind (each (\<lambda>section.
         res_bind (touch (section_name section)) (\<lambda>_.
         res_bind (touch (rva_to_offset img (sec_virtual_address section))) (\<lambda>_.
         discard (rva_rest img (sec_virtual_address section)))))
       (pe_sections img)) (\<lambda>_.
     res_bind (discard (entry_point_token img)) (\<lambda>_.
     when_ok (pe_metadata img) (\<lambda>metadata.
     let tables = md_tables metadata in
     res_bind (tables_iter tables T_MethodDef) (\<lambda>rows.
     for_in (row_count tables T_MethodDef) (take_next (row_iter_next (row_of tables T_MethodDef MethodDefRow_decode)))
       (fuzz_image_row img) (4096, rows) ()))))))"

definition fuzz_pe :: "bytes \<Rightarrow> unit result" where
  "fuzz_pe dat = each (\<lambda>strictness. when_ok (pe_parse_with dat strictness) fuzz_image) [Permissive, Strict]"

lemma drain_items:
  assumes "\<And>s x s'. nxt s = Ok (Some (x, s')) \<Longrightarrow> P x" and "drain n nxt s = Ok (Some xs)"
  shows "list_all P xs"
  using assms(2)
proof (induction n arbitrary: s xs)
  case 0
  then show ?case by (auto simp: res_iff split: option.splits)
next
  case (Suc n)
  then show ?case using assms(1) by (fastforce simp: res_iff split: option.splits)
qed

lemma folded_item: "folded_loop p f it = Ok (Some (x, it')) \<Longrightarrow> no_panic x"
proof (induction "ii_left it" arbitrary: p f it rule: less_induct)
  case less
  show ?case
  proof (cases "instruction_iter_next it")
    case (Ok r)
    show ?thesis
    proof (cases r)
      case None
      then show ?thesis using Ok less.prems by (auto simp: folded_loop_None split: option.splits)
    next
      case (Some y)
      then obtain item it1 where st: "instruction_iter_next it = Ok (Some (item, it1))" using Ok by (cases y) simp
      from ii_next_items [OF st] consider (e) e where "item = Err e" | (p) i where "item = Ok i" "is_prefix (in_opcode i)"
        | (i) i where "item = Ok i" "\<not> is_prefix (in_opcode i)" by blast
      then show ?thesis
      proof cases
        case e
        then show ?thesis using less.prems st folded_loop_Err [of it e it1 p f] by auto
      next
        case (p i)
        then show ?thesis
          using less.prems st less.hyps [OF ii_next_left [OF st]]
          by (auto simp: folded_loop_prefix split: res.splits)
      next
        case (i i)
        then show ?thesis
          using less.prems st by (auto simp: folded_loop_item [OF _ _ refl] split: res.splits)
      qed
    qed
  qed (use less.prems in \<open>subst (asm) folded_loop.simps, simp\<close>)+
qed

lemma for_items_unit: "(\<And>x. x \<in> set xs \<Longrightarrow> \<exists>k. body x () = Ok k) \<Longrightarrow> for_items body xs () = Ok ()"
proof (induction xs)
  case (Cons x xs)
  from Cons.prems [of x] obtain k where "body x () = Ok k" by auto
  with Cons show ?case by (cases k) simp_all
qed simp

lemma stop_on_err_items: "list_all (\<lambda>x. no_panic x) xs \<Longrightarrow> for_items stop_on_err (take k xs) () = Ok ()"
  by (rule for_items_unit) (auto simp: stop_on_err_def list_all_iff dest!: in_set_takeD split: res.split)

lemma fuzz_image_body_Ok:
  assumes "slice_ok (mb_code b)"
  shows "fuzz_image_body b = Ok ()"
proof -
  let ?code = "mb_code b"
  obtain xs where xs: "drain (length ?code) instruction_iter_next (instruction_iter_new ?code) = Ok (Some xs)"
    and ys: "drain (length ?code) folded_iter_next (instruction_iter_new ?code) = Ok (Some (fold_ref prefixes_default None xs))"
    using code_streams [OF assms] by (auto simp: instructions_def folded_instructions_def)
  have "list_all (\<lambda>x. no_panic x) xs"
    by (rule drain_items [OF _ xs]) (auto dest: ii_next_items)
  moreover have "list_all (\<lambda>x. no_panic x) (fold_ref prefixes_default None xs)"
    by (rule drain_items [OF _ ys]) (auto simp: folded_iter_next_def dest: folded_item)
  ultimately show ?thesis
    by (simp add: fuzz_image_body_def Let_def validate_handlers_total for_in_items [OF take_drain [OF xs]]
        for_in_items [OF take_drain [OF ys]] stop_on_err_items)
qed

text \<open>What an opened image gives: a region of metadata that is ready for its readers, and bodies in the file.\<close>

lemma image_metadata_parts:
  assumes "slice_ok file" and "pe_parse_with file st = Ok img" and "pe_metadata img = Ok md"
  shows "tables_ready (md_tables md)" and "names_ready md"
proof -
  have w: "pe_wf img" and f: "pe_bytes img = file" using pe_parse_wf(2) [OF assms(1,2)] by auto
  obtain bs base where r: "metadata_region img = Ok (bs, base)"
    and q: "metadata_parse_at bs base (pe_strictness img) = Ok md"
    using assms(3) by (auto simp: pe_metadata_def res_iff)
  have fits: "base + length bs \<le> length file" and sl: "slice_ok bs" using metadata_region_in_file(2,3) [OF w r] f by auto
  have "base + u32_max + length bs \<le> usize_max"
    using fits assms(1) by (simp add: slice_ok_def isize_max_def u32_max_def usize_max_def)
  from metadata_parts(5) [OF sl this q] metadata_names_ready [OF sl this q]
  show "tables_ready (md_tables md)" "names_ready md" .
qed

lemma image_body_slice:
  assumes "pe_wf img" and "from_image img meth = Ok (Some b)"
  shows "slice_ok (mb_code b)"
proof -
  obtain n where c: "mb_code b = take (length (mb_code b)) (drop n (pe_bytes img))"
    using from_image_within(2) [OF assms] by auto
  have "slice_ok (pe_bytes img)" using assms(1) by (simp add: pe_wf_def)
  then show ?thesis by (subst c) simp
qed

lemma rows_drain:
  assumes "\<And>rid. no_panic (get rid)" and "row_count t table < u32_max"
  shows "tables_iter t table = Ok \<lparr>ri_rid = 1, ri_end = row_count t table + 1\<rparr>"
    and "drain (row_count t table) (row_iter_next get) \<lparr>ri_rid = 1, ri_end = row_count t table + 1\<rparr>
       = Ok (Some (map (\<lambda>rid. (rid, get rid)) [1..<row_count t table + 1]))"
  using row_iter_all [OF assms(1), where it = "\<lparr>ri_rid = 1, ri_end = row_count t table + 1\<rparr>" and k = "row_count t table"] assms(2)
  by (simp_all add: tables_iter_def u32_add_def)

lemma fuzz_image_Ok:
  assumes "slice_ok dat" and "pe_parse_with dat st = Ok img"
  shows "fuzz_image img = Ok ()"
proof -
  have w: "pe_wf img" using pe_parse_wf(2) [OF assms] by simp
  note head = cli_header_total [OF w]
  have diag: "no_panic (cli_header_diagnostics img)" "no_panic (entry_point_token img)"
    using head by (auto simp: cli_header_diagnostics_def entry_point_token_def Let_def split: res.split)
  have rest: "no_panic (rva_rest img rva)" for rva
    by (auto simp: rva_rest_backing [OF w] split: option.split)
  have "(let tables = md_tables metadata in
     res_bind (tables_iter tables T_MethodDef) (\<lambda>rows.
     for_in (row_count tables T_MethodDef) (take_next (row_iter_next (row_of tables T_MethodDef MethodDefRow_decode)))
       (fuzz_image_row img) (4096, rows) ())) = Ok ()" if "pe_metadata img = Ok metadata" for metadata
  proof -
    let ?t = "md_tables metadata" and ?get = "row_of (md_tables metadata) T_MethodDef MethodDefRow_decode"
    note t = image_metadata_parts(1) [OF assms that]
    have g: "no_panic (?get rid)" for rid
      using t by (auto simp: tables_ready_def r_method_def.row_total r_method_def.row_out_of_range)
    note d = rows_drain [where get = ?get, OF g tables_ready_count [OF t, of T_MethodDef]]
    have "\<exists>k. fuzz_image_row img (rid, ?get rid) () = Ok k" for rid
    proof -
      have "when_ok (?get rid) (\<lambda>row. when_ok (from_image img row) (\<lambda>body.
          case body of None \<Rightarrow> Ok () | Some b \<Rightarrow> fuzz_image_body b)) = Ok ()"
        using g from_image_within(1) [OF w] image_body_slice [OF w] fuzz_image_body_Ok
        by (auto intro!: when_ok_Ok split: option.split)
      then show ?thesis by (simp add: fuzz_image_row_def)
    qed
    then show ?thesis
      unfolding Let_def d(1) res_bind.simps for_in_items [OF take_drain [OF d(2)]]
      by (intro for_items_unit) (auto dest!: in_set_takeD)
  qed
  moreover have "no_panic (pe_metadata img)" using pe_metadata_wf(1) w by blast
  ultimately have "when_ok (pe_metadata img) (\<lambda>metadata. let tables = md_tables metadata in
     res_bind (tables_iter tables T_MethodDef) (\<lambda>rows.
     for_in (row_count tables T_MethodDef) (take_next (row_iter_next (row_of tables T_MethodDef MethodDefRow_decode)))
       (fuzz_image_row img) (4096, rows) ())) = Ok ()"
    by (rule when_ok_Ok [rotated])
  moreover have "each (\<lambda>section. res_bind (touch (section_name section)) (\<lambda>_.
      res_bind (touch (rva_to_offset img (sec_virtual_address section))) (\<lambda>_.
      discard (rva_rest img (sec_virtual_address section))))) (pe_sections img) = Ok ()"
    by (rule each_Ok) (simp add: rest)
  ultimately show ?thesis by (simp add: fuzz_image_def diag)
qed

section \<open>Properties\<close>

text \<open>C24: The fuzz target \<open>signature\<close> cannot fail: whatever the blob, under every limit it tries no
  parser panics, a method signature keeps no more bytes than the blob has, and the locals, parameters
  and type arguments are at most as many as the blob has bytes.\<close>

theorem fuzz_signature_passes:
  assumes "slice_ok dat"
  shows "fuzz_signature dat = Ok ()"
proof -
  have "l < u32_max" if "l \<in> set [1, 4, 64, 1024]" for l :: nat using that by (auto simp: u32_max_def)
  then show ?thesis
    unfolding fuzz_signature_def
    using signature_totals(2-6) [OF assms] fuzz_method_sig_Ok [OF assms] sig_list_lengths
    by (subst each_Ok) (auto simp: no_panic_read_compressed when_ok_Ok each_Ok)
qed

theorem fuzz_signature_passes_witness: "fuzz_signature [0x05, 0x02, 0x08, 0x08, 0x41, 0x0E] = Ok ()"
  by (rule fuzz_signature_passes) (simp add: slice_ok_def isize_max_def)

text \<open>C23: The fuzz target \<open>pe\<close> cannot fail: for every file, in both strictness modes, what it reaches
  from the image (sections, headers, metadata, the rows of \<open>MethodDef\<close>, the bodies they lead to and
  the two instruction streams of each) answers without a panic, and every loop ends.\<close>

theorem fuzz_pe_passes:
  assumes "slice_ok dat"
  shows "fuzz_pe dat = Ok ()"
  unfolding fuzz_pe_def
  by (intro each_Ok when_ok_Ok) (rule pe_parse_wf(1) [OF assms], rule fuzz_image_Ok [OF assms])

theorem fuzz_pe_passes_witness: "fuzz_pe sample_image = Ok ()"
  by (rule fuzz_pe_passes [OF sample_image_slice])

end
