(* ===== verification/FuzzMetadata.thy ===== *)
theory FuzzMetadata
  imports Fuzz Display
begin

text \<open>
  The fuzz target \<open>metadata\<close> (\<open>src/fuzz/fuzz_targets/metadata.rs\<close>): it parses a region and asks
  everything of it: the heaps through their iterators, every column of every row, 29 row types
  through both row iterators (the macro \<open>walk!\<close>), the lookups for every type, method and field, and
  names. It asserts nothing, so the property is that no answer is a panic and that every loop ends.
\<close>

section \<open>The target\<close>

definition ROW_LIMIT :: nat where
  "ROW_LIMIT = 2 ^ 14"

definition NAME_LIMIT :: nat where
  "NAME_LIMIT = 64"

text \<open>\<open>for x in iter.take(k) \{ .. \}\<close> with a body that never breaks.\<close>

definition take_loop :: "nat \<Rightarrow> nat \<Rightarrow> ('s, 'x) stepper \<Rightarrow> ('x \<Rightarrow> unit result) \<Rightarrow> 's \<Rightarrow> unit result" where
  "take_loop fuel k nxt f s =
     for_in fuel (take_next nxt) (\<lambda>x _. res_bind (f x) (\<lambda>_. Ok (Continue ()))) (k, s) ()"

definition walk_rows :: "Tables \<Rightarrow> TableId \<Rightarrow> (RowCursor \<Rightarrow> ('r \<times> RowCursor) result) \<Rightarrow> unit result" where
  "walk_rows t table decode =
     res_bind (tables_iter t table) (\<lambda>rows.
     res_bind (take_loop (row_count t table) ROW_LIMIT (row_iter_next (row_of t table decode)) touch rows) (\<lambda>_.
     if (case TableId_ptr_source table of Some ptr \<Rightarrow> 0 < row_count t ptr | None \<Rightarrow> False) then
       res_bind (tables_iter_indirect t table)
         (take_loop (logical_row_count t table) ROW_LIMIT (indirect_iter_next t table decode) touch)
     else Ok ()))"

definition fuzz_heaps :: "Metadata \<Rightarrow> unit result" where
  "fuzz_heaps md =
     res_bind (take_loop (heap_len (md_strings md) + 1) ROW_LIMIT (strings_iter_next (md_strings md))
       (\<lambda>(_, bs). touch (utf8_valid_up_to bs)) 0) (\<lambda>_.
     res_bind (take_loop (heap_len (md_blobs md)) ROW_LIMIT (blob_iter_next (md_blobs md))
       (\<lambda>(_, blob). touch (length blob)) 0) (\<lambda>_.
     res_bind (take_loop (heap_len (md_user_strings md)) NAME_LIMIT (us_iter_next (md_user_strings md))
       (\<lambda>(_, txt). touch (us_to_string_lossy txt)) 0) (\<lambda>_.
     each touch (take ROW_LIMIT (guid_iter (md_guids md))))))"

definition fuzz_columns :: "Tables \<Rightarrow> unit result" where
  "fuzz_columns t =
     each (\<lambda>id.
       let count = min (row_count t id) ROW_LIMIT;
           columns = tl_column_count (table_layout t id) in
       each (\<lambda>rid.
         res_bind (discard (row_bytes t id rid)) (\<lambda>_.
         each (\<lambda>column. discard (raw_column t id rid column)) [0..<columns])) [1..<count + 1])
       TableId_ALL"

definition fuzz_rows :: "Tables \<Rightarrow> unit result" where
  "fuzz_rows t =
     each (\<lambda>walked. walked)
       [walk_rows t T_Module ModuleRow_decode, walk_rows t T_TypeRef TypeRefRow_decode,
        walk_rows t T_TypeDef TypeDefRow_decode, walk_rows t T_Field FieldRow_decode,
        walk_rows t T_MethodDef MethodDefRow_decode, walk_rows t T_Param ParamRow_decode,
        walk_rows t T_InterfaceImpl InterfaceImplRow_decode, walk_rows t T_MemberRef MemberRefRow_decode,
        walk_rows t T_Constant ConstantRow_decode, walk_rows t T_CustomAttribute CustomAttributeRow_decode,
        walk_rows t T_ClassLayout ClassLayoutRow_decode, walk_rows t T_FieldLayout FieldLayoutRow_decode,
        walk_rows t T_StandAloneSig StandAloneSigRow_decode, walk_rows t T_Event EventRow_decode,
        walk_rows t T_Property PropertyRow_decode, walk_rows t T_MethodSemantics MethodSemanticsRow_decode,
        walk_rows t T_MethodImpl MethodImplRow_decode, walk_rows t T_TypeSpec TypeSpecRow_decode,
        walk_rows t T_ImplMap ImplMapRow_decode, walk_rows t T_FieldRva FieldRvaRow_decode,
        walk_rows t T_Assembly AssemblyRow_decode, walk_rows t T_AssemblyRef AssemblyRefRow_decode,
        walk_rows t T_ExportedType ExportedTypeRow_decode, walk_rows t T_ManifestResource ManifestResourceRow_decode,
        walk_rows t T_NestedClass NestedClassRow_decode, walk_rows t T_GenericParam GenericParamRow_decode,
        walk_rows t T_MethodSpec MethodSpecRow_decode,
        walk_rows t T_GenericParamConstraint GenericParamConstraintRow_decode,
        walk_rows t T_CustomDebugInformation CustomDebugInformationRow_decode]"

definition fuzz_type_lookups :: "Names \<Rightarrow> Tables \<Rightarrow> nat \<Rightarrow> unit result" where
  "fuzz_type_lookups names t rid =
     res_bind (discard (field_range t rid)) (\<lambda>_.
     res_bind (discard (method_range t rid)) (\<lambda>_.
     res_bind (discard (class_layout_of t (of_nat rid))) (\<lambda>_.
     res_bind (discard (interface_impls t (of_nat rid))) (\<lambda>_.
     res_bind (discard (enclosing_type t (of_nat rid))) (\<lambda>_.
     if rid \<le> NAME_LIMIT then discard (names_type_def names (of_nat rid)) else Ok ())))))"

definition fuzz_method_lookups :: "Names \<Rightarrow> Tables \<Rightarrow> nat \<Rightarrow> unit result" where
  "fuzz_method_lookups names t rid =
     (let tok = rid_token T_MethodDef (of_nat rid) in
      res_bind (discard (param_range t rid)) (\<lambda>_.
      res_bind (discard (type_of_method t rid)) (\<lambda>_.
      res_bind (discard (generic_params t tok)) (\<lambda>_.
      res_bind (discard (impl_map_of t tok)) (\<lambda>_.
      if rid \<le> NAME_LIMIT then discard (method_def_full names (of_nat rid)) else Ok ())))))"

definition fuzz_field_lookups :: "Tables \<Rightarrow> nat \<Rightarrow> unit result" where
  "fuzz_field_lookups t rid =
     res_bind (discard (type_of_field t rid)) (\<lambda>_.
     res_bind (discard (field_rva_of t (of_nat rid))) (\<lambda>_.
     discard (field_layout_of t (of_nat rid))))"

definition fuzz_parsed_metadata :: "Metadata \<Rightarrow> unit result" where
  "fuzz_parsed_metadata md =
     (let tables = md_tables md; names = names_new md;
          upto = (\<lambda>id. [1..<min (row_count tables id) ROW_LIMIT + 1]) in
      res_bind (touch (version_string md)) (\<lambda>_.
      res_bind (touch (md_has_pdb_stream md)) (\<lambda>_.
      res_bind (each (\<lambda>stream. touch (stream_name_lossy stream)) (md_streams md)) (\<lambda>_.
      res_bind (fuzz_heaps md) (\<lambda>_.
      res_bind (fuzz_columns tables) (\<lambda>_.
      res_bind (fuzz_rows tables) (\<lambda>_.
      res_bind (each (fuzz_type_lookups names tables) (upto T_TypeDef)) (\<lambda>_.
      res_bind (each (fuzz_method_lookups names tables) (upto T_MethodDef)) (\<lambda>_.
      res_bind (each (fuzz_field_lookups tables) (upto T_Field)) (\<lambda>_.
      each (\<lambda>id.
          each (\<lambda>rid. discard (names_token names (token_new id (of_nat rid))))
            [1..<min (row_count tables id) 4 + 1])
        TableId_ALL))))))))))"

definition fuzz_metadata :: "bytes \<Rightarrow> unit result" where
  "fuzz_metadata dat =
     each (\<lambda>strictness. when_ok (metadata_parse_with dat strictness) fuzz_parsed_metadata) [Permissive, Strict]"

section \<open>Loops over iterators that end\<close>

context shrinking_iter
begin

lemma take_loop_ends:
  assumes "inv s" and "left s \<le> n" and "\<And>x. f x = Ok ()"
  shows "take_loop n k nxt f s = Ok ()"
proof -
  obtain xs where "drain n nxt s = Ok (Some xs)" using ends [OF assms(1,2)] by blast
  note d = take_drain [OF this, of k]
  have "for_items (\<lambda>x _. res_bind (f x) (\<lambda>_. Ok (Continue ()))) ys () = Ok ()" for ys
    by (induction ys) (simp_all add: assms(3))
  then show ?thesis by (simp add: take_loop_def for_in_items [OF d])
qed

end

text \<open>The user-string iterator ends on heaps of any size; its items tile only what a token can address.\<close>

interpretation us_any: shrinking_iter "us_iter_next h" "\<lambda>p. p \<le> length (span_data h)"
    "\<lambda>p. length (span_data h) - p" for h
proof unfold_locales
  fix s x s' assume n: "us_iter_next h s = Ok (Some (x, s'))"
  then have b: "s < s' \<and> s' \<le> length (span_data h)"
    by (cases x) (auto simp: us_iter_next_iff dest: entry_at_bounds)
  then show "s' \<le> length (span_data h)" "length (span_data h) - s' < length (span_data h) - s" by linarith+
qed (simp_all add: entry_iter_total)

lemma fuzz_heaps_Ok:
  assumes "span_ready (md_strings md)" "span_ready (md_blobs md)" "span_ready (md_user_strings md)"
  shows "fuzz_heaps md = Ok ()"
proof -
  have "take_loop (heap_len (md_strings md) + 1) ROW_LIMIT (strings_iter_next (md_strings md))
      (\<lambda>(_, bs). touch (utf8_valid_up_to bs)) 0 = Ok ()"
    by (rule strs.walk.take_loop_ends) (use assms in \<open>auto simp: span_ready_def heap_len_def\<close>)
  moreover have "take_loop (heap_len (md_blobs md)) ROW_LIMIT (blob_iter_next (md_blobs md))
      (\<lambda>(_, blob). touch (length blob)) 0 = Ok ()"
    by (rule blob.walk.take_loop_ends) (auto simp: heap_len_def)
  moreover have "take_loop (heap_len (md_user_strings md)) NAME_LIMIT (us_iter_next (md_user_strings md))
      (\<lambda>(_, txt). touch (us_to_string_lossy txt)) 0 = Ok ()"
    by (rule us_any.take_loop_ends) (auto simp: heap_len_def)
  ultimately show ?thesis by (simp add: fuzz_heaps_def each_Ok)
qed

section \<open>Tables whose lookups return\<close>

lemma ready_cases:
  assumes "tables_ready t"
  obtains "\<And>table. row_count t table = 0"
    | w where "tables_wf w t" "\<And>table. is_sorted t table \<longrightarrow> key_sorted t table" "\<And>table. row_count t table < u32_max"
  using assms by (auto simp: tables_ready_def)

lemma ready_row_bytes: "tables_ready t \<Longrightarrow> no_panic (row_bytes t table rid)"
  by (erule ready_cases; cases "1 \<le> rid \<and> rid \<le> row_count t table")
    (auto simp: row_bytes_ok row_bytes_err)

lemma ready_column: "tables_ready t \<Longrightarrow> no_panic (raw_column t table rid j)"
proof (erule ready_cases)
  assume "\<And>table. row_count t table = 0"
  then show ?thesis using row_bytes_err [of rid t table] by (simp add: raw_column_def Let_def)
next
  fix w assume "tables_wf w t"
  then show ?thesis
    by (metis raw_column_cell raw_column_err res.distinct(3,5))
qed

lemma ready_keys: "tables_ready t \<Longrightarrow> no_panic (rows_with_key t table key)"
proof (erule ready_cases)
  assume "\<And>table. row_count t table = 0"
  then show ?thesis by (simp add: rows_with_key_def Let_def res_iff)
next
  fix w assume w: "tables_wf w t" "\<And>table. is_sorted t table \<longrightarrow> key_sorted t table" "\<And>table. row_count t table < u32_max"
  show ?thesis
  proof (cases "sort_key_column table")
    case (Some c)
    show ?thesis using rows_with_key_all [OF w(1,2,3) Some] by simp
  qed (simp add: rows_with_key_def)
qed

lemma ready_parents: "tables_ready t \<Longrightarrow> no_panic (rows_for_parent t table parent)"
  by (simp add: rows_for_parent_def ready_keys split: option.split)

lemma ready_first: "tables_ready t \<Longrightarrow> no_panic (first_row_with_key t table key)"
  by (simp add: first_row_with_key_def res_iff ready_keys)

lemma ready_first_then:
  "tables_ready t \<Longrightarrow> (\<And>rid. no_panic (f rid)) \<Longrightarrow> no_panic (first_then (first_row_with_key t table key) f)"
  using ready_first [of t table key] by (auto simp: first_then_def res_iff split: option.splits)

lemma ready_list_range: "tables_ready t \<Longrightarrow> no_panic (list_range t owner rid c target)"
  by (auto simp: list_range_def Let_def res_iff ready_column u32_clamp_def u32_max_def)

lemma ready_owner:
  assumes "tables_ready t" and "c < length (columns_of owner)"
  shows "no_panic (owner_of_list t owner c target m)"
  using assms(1)
proof (cases rule: ready_cases)
  case 1
  then show ?thesis by (simp add: owner_of_list_def)
next
  case (2 w)
  then show ?thesis using owner_of_list_spec [OF 2(1) assms(2) 2(3), of target m] by auto
qed

lemma ready_indirection: "tables_ready t \<Longrightarrow> no_panic (resolve_indirection t table rid)"
  by (erule ready_cases) (auto simp: resolve_indirection_empty resolve_indirection_total)

text \<open>Rows of any type, and the walk over them.\<close>

context row_type
begin

lemma row_ready: "tables_ready t \<Longrightarrow> no_panic (row_of t table decode rid)"
  by (erule ready_cases) (auto simp: row_out_of_range row_total)

lemma row_indirect_ready: "tables_ready t \<Longrightarrow> no_panic (row_indirect t table decode rid)"
  by (auto simp: row_indirect_def res_iff row_ready ready_indirection)

lemma walk_ready:
  assumes "tables_ready t"
  shows "walk_rows t table decode = Ok ()"
proof -
  have n: "logical_row_count t table < u32_max"
    using tables_ready_count [OF assms] by (auto simp: logical_row_count_def split: option.split)
  have rows: "take_loop n k (row_iter_next get) touch \<lparr>ri_rid = 1, ri_end = n + 1\<rparr> = Ok ()"
    if "\<And>rid. no_panic (get rid)" and "n < u32_max" for n k and get :: "nat \<Rightarrow> 'a result"
    by (rule rows.walk.take_loop_ends [where last = "n + 1"]) (use that in auto)
  have "tables_iter t table = Ok \<lparr>ri_rid = 1, ri_end = row_count t table + 1\<rparr>"
    "tables_iter_indirect t table = Ok \<lparr>ri_rid = 1, ri_end = logical_row_count t table + 1\<rparr>"
    using n tables_ready_count [OF assms, of table] by (simp_all add: tables_iter_def tables_iter_indirect_def u32_add_def)
  then show ?thesis
    using rows [OF row_ready [OF assms] tables_ready_count [OF assms]] rows [OF row_indirect_ready [OF assms] n]
    by (simp add: walk_rows_def indirect_iter_next_def)
qed

end

lemmas walks_ready =
  r_mod.walk_ready r_type_ref.walk_ready r_type_def.walk_ready r_field.walk_ready r_method_def.walk_ready
  r_param.walk_ready r_interface_impl.walk_ready r_member_ref.walk_ready r_constant.walk_ready
  r_custom_attribute.walk_ready r_class_layout.walk_ready r_field_layout.walk_ready r_stand_alone_sig.walk_ready
  r_event.walk_ready r_property.walk_ready r_method_semantics.walk_ready r_method_impl.walk_ready
  r_type_spec.walk_ready r_impl_map.walk_ready r_field_rva.walk_ready r_assembly.walk_ready
  r_assembly_ref.walk_ready r_exported_type.walk_ready r_manifest_resource.walk_ready r_nested_class.walk_ready
  r_generic_param.walk_ready r_method_spec.walk_ready r_generic_param_constraint.walk_ready
  r_custom_debug_information.walk_ready

lemma fuzz_rows_Ok: "tables_ready t \<Longrightarrow> fuzz_rows t = Ok ()"
  by (simp add: fuzz_rows_def walks_ready)

lemma fuzz_columns_Ok: "tables_ready t \<Longrightarrow> fuzz_columns t = Ok ()"
  by (simp add: fuzz_columns_def Let_def ready_row_bytes ready_column each_Ok)

section \<open>The lookups of the target\<close>

lemma fuzz_type_lookups_Ok:
  assumes "tables_ready t" and "\<And>rid. no_panic (names_type_def names rid)"
  shows "fuzz_type_lookups names t rid = Ok ()"
proof -
  have "no_panic (class_layout_of t k)" "no_panic (enclosing_type t k)" for k
    using assms(1) by (simp_all add: class_layout_of_def enclosing_type_def ready_first_then ready_column
        r_class_layout.row_ready)
  then show ?thesis
    using assms by (simp add: fuzz_type_lookups_def field_range_def method_range_def ready_list_range
        interface_impls_def ready_keys)
qed

lemma fuzz_method_lookups_Ok:
  assumes "tables_ready t" and "\<And>rid. no_panic (method_def_full names rid)"
  shows "fuzz_method_lookups names t rid = Ok ()"
proof -
  have "no_panic (impl_map_of t tok)" for tok
    using assms(1) by (simp add: impl_map_of_def keyed_then_def ready_first_then r_impl_map.row_ready
        split: option.split)
  moreover have "no_panic (generic_params t tok)" for tok
    using assms(1) by (auto simp: generic_params_def res_iff ready_parents ready_column intro!: no_panic_res_map)
  moreover have "no_panic (type_of_method t m)" for m
    using assms(1) by (simp add: type_of_method_def ready_owner row_defs)
  ultimately show ?thesis
    using assms by (simp add: fuzz_method_lookups_def Let_def param_range_def ready_list_range)
qed

lemma fuzz_field_lookups_Ok:
  assumes "tables_ready t"
  shows "fuzz_field_lookups t rid = Ok ()"
proof -
  have "no_panic (field_rva_of t k)" "no_panic (field_layout_of t k)" for k
    using assms by (simp_all add: field_rva_of_def field_layout_of_def ready_first_then ready_column)
  moreover have "no_panic (type_of_field t m)" for m
    using assms by (simp add: type_of_field_def ready_owner row_defs)
  ultimately show ?thesis by (simp add: fuzz_field_lookups_def)
qed

lemma fuzz_parsed_metadata_Ok:
  assumes "slice_ok bs" and "base + u32_max + length bs \<le> usize_max" and "metadata_parse_at bs base st = Ok md"
  shows "fuzz_parsed_metadata md = Ok ()"
proof -
  note parts = metadata_parts [OF assms]
  have names: "no_panic (names_type_def (names_new md) rid)" "no_panic (method_def_full (names_new md) rid)"
    "no_panic (names_token (names_new md) tok)" for rid tok
  proof -
    have r: "names_ready (nm_metadata (names_new md))"
      using metadata_names_ready [OF assms] by (simp add: names_new_def)
    note calls = names_ready_calls [OF r]
    show "no_panic (names_type_def (names_new md) rid)" "no_panic (method_def_full (names_new md) rid)"
      using calls by simp_all
    from calls [of tok] obtain s where "names_token (names_new md) tok = Ok s" by blast
    then show "no_panic (names_token (names_new md) tok)" by simp
  qed
  show ?thesis
    unfolding fuzz_parsed_metadata_def Let_def
    by (simp add: fuzz_heaps_Ok parts fuzz_columns_Ok fuzz_rows_Ok each_Ok fuzz_type_lookups_Ok names
        fuzz_method_lookups_Ok fuzz_field_lookups_Ok)
qed

section \<open>Properties\<close>

text \<open>C15: No answer the fuzz target \<open>metadata\<close> asks for is a panic: for every region, in both
  strictness modes, every heap iterator and both row iterators of 29 row types end, and no column, no
  lookup for a type, a method or a field, and no name panics. (How much memory a name takes is not
  part of the model; the theory \<open>Display\<close> says how long one can get.)\<close>

theorem fuzz_metadata_passes:
  assumes "slice_ok dat"
  shows "fuzz_metadata dat = Ok ()"
proof -
  have "0 + u32_max + length dat \<le> usize_max"
    using assms by (simp add: slice_ok_def isize_max_def u32_max_def usize_max_def)
  note m = assms this
  show ?thesis
    unfolding fuzz_metadata_def metadata_parse_with_def
    by (intro each_Ok when_ok_Ok) (rule metadata_parse_at_wf(1) [OF m], rule fuzz_parsed_metadata_Ok [OF m])
qed

theorem fuzz_metadata_passes_witness: "fuzz_metadata sample_metadata = Ok ()"
  by (rule fuzz_metadata_passes) (simp add: sample_metadata_def slice_ok_def isize_max_def)

end
