(* ===== verification/Corpus.thy ===== *)
theory Corpus
  imports Iter "HOL-Library.List_Lexorder"
begin

text \<open>
  The corpus packer (\<open>src/examples/corpus-pack.rs\<close>), which keeps the inputs of the fuzz targets in
  the repository: a pack is the inputs, each behind its length in four bytes, without duplicates and
  in the order of their contents (a \<open>BTreeSet\<close> of byte vectors, so lexicographic order, which is the
  order of lists in \<open>List_Lexorder\<close>). The files the packer reads and writes are not modelled; what it
  makes of their contents is.
\<close>

definition pack_input :: "bytes \<Rightarrow> bytes" where
  "pack_input inp = to_le_bytes 4 (of_nat (length inp) :: u32) @ inp"

text \<open>\<open>pack\<close> of the contents of the files, in the order the directory lists them.\<close>

definition pack :: "bytes list \<Rightarrow> bytes" where
  "pack files = concat (map pack_input (sorted_list_of_set (set files)))"

text \<open>The closure in \<open>unpack\<close>, as a function of the position it captures, and the iterator exhausted.\<close>

definition unpack_next :: "bytes \<Rightarrow> (nat, bytes) stepper" where
  "unpack_next bs pos =
     res_bind (usize_add pos 4) (\<lambda>start.
     case get_range bs pos start of
       None \<Rightarrow> Ok None
     | Some header \<Rightarrow>
         (let len = unat (from_le_bytes header :: u32) in
          case Option.bind (checked_add start len) (get_range bs start) of
            None \<Rightarrow> Ok None
          | Some inp \<Rightarrow> res_bind (usize_add start len) (\<lambda>pos. Ok (Some (inp, pos)))))"

definition unpack :: "bytes \<Rightarrow> bytes list option result" where
  "unpack bs = drain (length bs) (unpack_next bs) 0"

section \<open>One record\<close>

lemma length_pack_input [simp]: "length (pack_input inp) = 4 + length inp"
  by (simp add: pack_input_def)

lemma pack_input_not_Nil [simp]: "pack_input inp \<noteq> []"
  using length_pack_input [of inp] by fastforce

text \<open>No addition of the closure overflows: a length of 32 bits behind a position inside a slice.\<close>

lemma unpack_next_eq:
  assumes "slice_ok bs" and "pos \<le> length bs"
  shows "unpack_next bs pos =
    (let n = unat (from_le_bytes (take 4 (drop pos bs)) :: u32) in
     if length bs < pos + 4 \<or> length bs < pos + 4 + n then Ok None
     else Ok (Some (take n (drop (pos + 4) bs), pos + 4 + n)))"
proof -
  let ?n = "unat (from_le_bytes (take 4 (drop pos bs)) :: u32)"
  note l = slice_ok_length [OF assms(1)]
  have "?n \<le> u32_max" using unsigned_less [of "from_le_bytes (take 4 (drop pos bs)) :: u32", where ?'a = nat]
    by (simp add: u32_max_def)
  then have fits: "pos + 4 \<le> usize_max" "pos + 4 + ?n \<le> usize_max"
    using l assms(2) by (simp_all add: u32_max_def usize_max_def)
  show ?thesis
  proof (cases "length bs < pos + 4")
    case True
    then show ?thesis using fits by (simp add: unpack_next_def usize_add_def get_range_def Let_def)
  next
    case False
    then have g: "get_range bs pos (pos + 4) = Some (take 4 (drop pos bs))" by (simp add: get_range_def)
    have "get_range bs (pos + 4) (pos + 4 + ?n) =
        (if length bs < pos + 4 + ?n then None else Some (take ?n (drop (pos + 4) bs)))"
      by (simp add: get_range_def)
    with False fits g show ?thesis
      by (simp add: unpack_next_def usize_add_def checked_add_def Let_def)
  qed
qed

lemma unpack_next_total:
  assumes "slice_ok bs" and "pos \<le> length bs"
  shows "\<exists>r. unpack_next bs pos = Ok r"
  by (simp add: unpack_next_eq [OF assms] Let_def)

text \<open>An item is yielded exactly where a record starts, and the position moves behind that record.\<close>

lemma unpack_next_iff:
  assumes "slice_ok bs" and "pos \<le> length bs"
  shows "unpack_next bs pos = Ok (Some (inp, pos')) \<longleftrightarrow>
     length inp \<le> u32_max \<and> (\<exists>rest. drop pos bs = pack_input inp @ rest) \<and> pos' = pos + 4 + length inp"
proof
  assume "unpack_next bs pos = Ok (Some (inp, pos'))"
  moreover define n where n: "n = unat (from_le_bytes (take 4 (drop pos bs)) :: u32)"
  ultimately have fit: "pos + 4 + n \<le> length bs" and i: "inp = take n (drop (pos + 4) bs)" and p: "pos' = pos + 4 + n"
    unfolding unpack_next_eq [OF assms] Let_def n [symmetric] by (simp_all split: if_split_asm)
  have len: "length inp = n" using fit i by simp
  have n': "n \<le> u32_max" using unsigned_less [of "from_le_bytes (take 4 (drop pos bs)) :: u32", where ?'a = nat]
    by (simp add: n u32_max_def)
  have "of_nat n = (from_le_bytes (take 4 (drop pos bs)) :: u32)" by (simp add: n)
  then have "to_le_bytes 4 (of_nat n :: u32) = take 4 (drop pos bs)"
    using to_from_le_bytes [of "take 4 (drop pos bs)", where ?'a = 32] fit by simp
  then have "pack_input inp = take (4 + n) (drop pos bs)"
    using len i by (simp only: pack_input_def take_add drop_drop add.commute [of 4 pos])
  then have "drop pos bs = pack_input inp @ drop (4 + n) (drop pos bs)"
    by (simp only: append_take_drop_id)
  with len n' p show "length inp \<le> u32_max \<and> (\<exists>rest. drop pos bs = pack_input inp @ rest) \<and> pos' = pos + 4 + length inp"
    by blast
next
  assume r: "length inp \<le> u32_max \<and> (\<exists>rest. drop pos bs = pack_input inp @ rest) \<and> pos' = pos + 4 + length inp"
  then obtain rest where d: "drop pos bs = pack_input inp @ rest" by blast
  have fit: "pos + 4 + length inp \<le> length bs" using arg_cong [OF d, of length] assms(2) by simp
  have h: "take 4 (drop pos bs) = to_le_bytes 4 (of_nat (length inp) :: u32)" by (simp add: d pack_input_def)
  have n: "unat (from_le_bytes (take 4 (drop pos bs)) :: u32) = length inp"
    using r by (simp add: h from_to_le_bytes unat_of_nat take_bit_nat_eq_self u32_max_def)
  have "drop (pos + 4) bs = drop 4 (drop pos bs)" by (simp add: add.commute)
  then have "take (length inp) (drop (pos + 4) bs) = inp" by (simp add: d pack_input_def)
  then show "unpack_next bs pos = Ok (Some (inp, pos'))"
    using fit n r by (simp add: unpack_next_eq [OF assms] Let_def)
qed

interpretation packed: shrinking_iter "unpack_next bs" "\<lambda>p. slice_ok bs \<and> p \<le> length bs" "\<lambda>p. length bs - p" for bs
proof
  fix p x p' assume i: "slice_ok bs \<and> p \<le> length bs"
  then show "\<exists>r. unpack_next bs p = Ok r" using unpack_next_total by blast
  assume "unpack_next bs p = Ok (Some (x, p'))"
  with i obtain rest where d: "drop p bs = pack_input x @ rest" and p': "p' = p + 4 + length x"
    by (auto simp: unpack_next_iff)
  have "p + 4 + length x \<le> length bs" using arg_cong [OF d, of length] i by simp
  then show "slice_ok bs \<and> p' \<le> length bs" "length bs - p' < length bs - p" using p' i by simp_all
qed

section \<open>The whole pack\<close>

text \<open>\<open>unpack\<close> returns the records a slice starts with, up to the first position where none starts.\<close>

lemma unpack_drain:
  assumes "slice_ok bs" and "pos \<le> length bs" and "length bs - pos \<le> n"
    and "drop pos bs = concat (map pack_input inps) @ rest" and "list_all (\<lambda>i. length i \<le> u32_max) inps"
    and "\<And>i ys. length i \<le> u32_max \<Longrightarrow> rest \<noteq> pack_input i @ ys"
  shows "drain n (unpack_next bs) pos = Ok (Some inps)"
  using assms(2-5)
proof (induction inps arbitrary: pos n)
  case Nil
  from unpack_next_total [OF assms(1) Nil(1)] obtain r where r: "unpack_next bs pos = Ok r" by blast
  have "r = None"
  proof (cases r)
    case (Some y)
    obtain i q where "y = (i, q)" by (cases y)
    then have "unpack_next bs pos = Ok (Some (i, q))" using r Some by simp
    then show ?thesis using Nil(3) assms(6) [of i] unfolding unpack_next_iff [OF assms(1) Nil(1)] by auto
  qed simp
  then show ?case using r by (cases n) simp_all
next
  case (Cons i inps)
  let ?p = "pos + 4 + length i"
  have d: "drop pos bs = pack_input i @ (concat (map pack_input inps) @ rest)" using Cons.prems(3) by simp
  with Cons.prems(4) have st: "unpack_next bs pos = Ok (Some (i, ?p))"
    unfolding unpack_next_iff [OF assms(1) Cons.prems(1)] by auto
  have fit: "?p \<le> length bs" using arg_cong [OF d, of length] Cons.prems(1) by simp
  then obtain k where n: "n = Suc k" using Cons.prems(2) by (cases n) simp_all
  have "drop ?p bs = drop (4 + length i) (drop pos bs)" by (simp add: add.commute add.left_commute)
  then have "drop ?p bs = concat (map pack_input inps) @ rest" by (simp add: d)
  from Cons.IH [OF fit _ this] have "drain k (unpack_next bs) ?p = Ok (Some inps)"
    using Cons.prems(2,4) n fit by simp
  then show ?case by (simp add: n st)
qed

text \<open>What \<open>unpack\<close> yields has a length of 32 bits.\<close>

lemma unpacked_fit:
  assumes "slice_ok bs" and "pos \<le> length bs" and "drain n (unpack_next bs) pos = Ok (Some inps)"
  shows "list_all (\<lambda>i. length i \<le> u32_max) inps"
  using assms(2,3)
proof (induction n arbitrary: pos inps)
  case 0
  then show ?case by (cases "unpack_next bs pos") (auto split: option.splits)
next
  case (Suc n)
  from unpack_next_total [OF assms(1) Suc.prems(1)] obtain r where r: "unpack_next bs pos = Ok r" by blast
  show ?case
  proof (cases r)
    case (Some y)
    obtain i p where y: "y = (i, p)" by (cases y)
    with Some r have st: "unpack_next bs pos = Ok (Some (i, p))" by simp
    then obtain more where more: "drain n (unpack_next bs) p = Ok (Some more)" "inps = i # more"
      using Suc.prems(2) by (auto simp: res_bind_Ok_iff)
    have "length i \<le> u32_max" using st unfolding unpack_next_iff [OF assms(1) Suc.prems(1)] by blast
    moreover have "p \<le> length bs" using packed.step_inv [of bs pos] assms(1) Suc.prems(1) st by blast
    ultimately show ?thesis using Suc.IH [OF _ more(1)] more(2) by simp
  qed (use Suc.prems(2) r in simp)
qed

text \<open>C40: The corpus packer: unpacking a pack gives the distinct inputs in the order of their contents
  exactly when every input is shorter than 4 GiB (the length written is the low 32 bits of the
  length, so a longer input is not read back as it was); packing those inputs again gives the same
  bytes, and the pack depends only on which inputs there are; and unpacking any other bytes ends
  without a panic.\<close>

theorem corpus_pack_roundtrip:
  assumes "slice_ok (pack files)" and "slice_ok bs"
  shows "(unpack (pack files) = Ok (Some (sorted_list_of_set (set files)))
        \<longleftrightarrow> list_all (\<lambda>f. length f \<le> u32_max) files)
     \<and> pack (sorted_list_of_set (set files)) = pack files
     \<and> (set files' = set files \<longrightarrow> pack files' = pack files)
     \<and> (\<exists>inps. unpack bs = Ok (Some inps))"
proof -
  let ?read = "drain (length (pack files)) (unpack_next (pack files)) 0 = Ok (Some (sorted_list_of_set (set files)))"
  have ?read if "list_all (\<lambda>f. length f \<le> u32_max) files"
    by (rule unpack_drain [OF assms(1), where rest = "[]"])
      (use that in \<open>auto simp: pack_def list_all_iff\<close>)
  moreover have "list_all (\<lambda>f. length f \<le> u32_max) files" if ?read
    using unpacked_fit [OF assms(1) _ that] by (simp add: list_all_iff)
  moreover have "\<exists>inps. unpack bs = Ok (Some inps)"
    using packed.ends [of bs 0 "length bs"] assms(2) by (auto simp: unpack_def)
  ultimately show ?thesis by (auto simp: unpack_def pack_def)
qed

theorem corpus_pack_roundtrip_witness:
  "unpack (pack [[2], [1, 0], [2]]) = Ok (Some [[1, 0], [2]])"
proof -
  have s: "sorted_list_of_set (set [[2], [1, 0], [2 :: u8]]) = [[1, 0], [2]]"
    unfolding sorted_list_of_set_sort_remdups by simp
  have "list_all (\<lambda>f. length f \<le> u32_max) [[2], [1, 0], [2 :: u8]]" by (simp add: u32_max_def)
  moreover have "slice_ok (pack [[2], [1, 0], [2]])"
    unfolding pack_def s by (simp add: slice_ok_def isize_max_def)
  ultimately have "unpack (pack [[2], [1, 0], [2]]) = Ok (Some (sorted_list_of_set (set [[2], [1, 0], [2]])))"
    using corpus_pack_roundtrip [OF _ slice_ok_Nil] by blast
  then show ?thesis unfolding s .
qed

end
