(* ===== verification/Spec2Isabelle.thy ===== *)
theory Spec2Isabelle
  imports Placement Canonical FoldMachine FuzzParse FuzzMetadata Corpus
begin

text \<open>
  A verification library for \<open>cildec\<close>, a decoder for ECMA-335 metadata and CIL method bodies
  (the Rust crate in \<open>src/\<close>).

  \<^bold>\<open>The program.\<close> \<open>PeImage::parse_with\<close> reads the headers of a PE file and clamps its sections to
  the file. Its CLI header leads to the metadata region, whose root (\<open>Metadata::parse_at\<close>) is a
  directory of named streams: the four heaps and the table stream. \<open>Tables::parse\<close> computes the
  geometry of every table; rows, columns and lookups are decoded on demand. A row of \<open>MethodDef\<close>
  leads back, through its RVA, to a method body in the file (\<open>MethodBody\<close>), whose code the two
  instruction iterators decode, raw or with prefixes folded. Blobs hold signatures, which have a
  recursive grammar of their own (\<open>signature.rs\<close>); \<open>Names\<close> prints tokens, types and signatures.
  Everything is a pure function of the bytes: there is no shared mutable state, and the state of a
  parser or an iterator is a cursor.

  \<^bold>\<open>How it is modelled.\<close> A fallible function returns \<open>'a result\<close>: a value, an error (a record of
  kind, offset and context), or \<open>Panic\<close>, which stands for every abort of the source in a checked
  build: an index or slice out of range, an overflowing \<open>+\<close>, \<open>-\<close> or \<open>*\<close>. Cursors
  are passed and returned. Words keep their width where the source looks at bits or wraps; \<open>usize\<close>
  and counters are \<open>nat\<close>, and each operation on them that can leave the range is written out
  (\<open>usize_add\<close>, \<open>checked_add\<close>, \<open>saturating_add\<close>, in \<open>Prelude\<close>). The sizes are those of a 64-bit
  target. A slice has at most \<open>isize::MAX\<close> bytes, as the language guarantees (\<open>slice_ok\<close>).

  \<^bold>\<open>The theories\<close>, in the order of the dependencies, with their sources under \<open>src/src/\<close>:

  \<^item> \<open>Prelude\<close>: outcomes, machine arithmetic, slices, little-endian bytes. \<open>Errors\<close> (\<open>error.rs\<close>):
    errors, strictness, diagnostics.
  \<^item> \<open>Reader\<close> (\<open>reader.rs\<close>): the bounds-checked cursor; the locale \<open>fixed_read\<close> is the
    contract of a fixed-width read. \<open>Codec\<close>: the writers those reads invert, for the round trips.
  \<^item> \<open>Compressed\<close> (\<open>compressed.rs\<close>), \<open>Token\<close> (\<open>token.rs\<close>), \<open>Coded\<close> (\<open>tables/coded.rs\<close>):
    compressed integers, table ids and tokens, coded indices; each with its round trip and with
    what it does to values outside its range.
  \<^item> \<open>Iter\<close>: what all iterators share: the locales \<open>shrinking_iter\<close> (an exhausted iterator ends
    within a measure of its state) and \<open>tiling_iter\<close> (its items tile an interval). \<open>Heaps\<close>
    (\<open>heaps.rs\<close>): the four heaps, UTF-8 validation, UTF-16 units, their iterators.
  \<^item> \<open>OpTable\<close> (\<open>il/table.rs\<close>): the opcodes, their facts and \<open>canonical_of\<close>. \<open>Il\<close>
    (\<open>il/mod.rs\<close>): \<open>decode_at\<close>, \<open>InstructionIter\<close>, \<open>FoldedIter\<close>. \<open>Canonical\<close>: a short form decodes
    to what its canonical form decodes to. \<open>FoldMachine\<close>: \<open>FoldedIter\<close> as a
    state machine, with its runs, their invariant and their completion. \<open>Body\<close> (\<open>body.rs\<close>): tiny and fat
    bodies, data sections, exception clauses, \<open>validate_handlers\<close>.
  \<^item> \<open>Schema\<close>, \<open>Rows\<close> (\<open>tables/rows.rs\<close>), \<open>Tables\<close> (\<open>tables/mod.rs\<close>), \<open>Lookup\<close>
    (\<open>tables/lookup.rs\<close>): column kinds, the 53 row types with their decoders (one interpretation of
    the locale \<open>row_type\<close> each), the table stream, and the searches by key and by owner, proved
    in the locale \<open>table_column\<close> of what they need of a column. \<open>Placement\<close>: the geometry and the row
    counts \<open>Tables::parse\<close> computes, against the header of the stream, cut or whole.
  \<^item> \<open>Pe\<close> (\<open>pe.rs\<close>): headers, sections, RVA translation, the CLI header. \<open>Metadata\<close>
    (\<open>metadata.rs\<close>): the root, the stream directory, the dispatch of streams.
  \<^item> \<open>Signature\<close> (\<open>signature.rs\<close>): the recursive-descent parser; \<open>SigRoundtrip\<close> and \<open>SigEntries\<close>:
    the encoding of the grammar, and what the six entry points read back, bound and reject.
  \<^item> \<open>Format\<close> and \<open>Display\<close> (\<open>display.rs\<close>, and the text forms in the other files): numbers, GUIDs,
    errors, and the names of tokens, types and signatures.
  \<^item> \<open>Fuzz\<close>, \<open>FuzzParse\<close>, \<open>FuzzMetadata\<close> (\<open>src/fuzz/fuzz_targets/\<close>): the five fuzz targets as
    programs over the crate, with their loops and assertions. \<open>Corpus\<close>
    (\<open>src/examples/corpus-pack.rs\<close>): the format their inputs are kept in.

  \<^bold>\<open>What the lemmas show.\<close> No parser, lookup, iterator or renderer panics, on any input; this file
  puts that together for a whole image. The fuzz targets
  cannot fail: every assertion they make holds of every input (for \<open>il\<close>, of every input of up to
  4 GiB), and the pack format of their corpora reads back the inputs exactly when each of them is
  shorter than 4 GiB. What a parse returns lies in its input, byte for byte
  (bodies, tables, streams, sections, metadata). What is laid out by the rules of the standard is
  read back (integers, tokens, coded indices, user strings, instructions, fat bodies, table streams,
  metadata regions, signatures), and the instruction decoder accepts nothing else. The searches
  agree with a scan of the whole column, the folded instruction stream refines the raw one, a call of its
  \<open>next\<close> is a run of the state machine, every run keeps what was read and what is held in step and
  can be completed, handler validation is equivalent to the nesting rule over all pairs. Error branches are stated with the
  error they return.

  \<^bold>\<open>Bounds.\<close> Loops of the source that count are structural; loops over a cursor are \<open>function\<close>s
  with a measure. An iterator is exhausted by \<open>drain\<close> with as much fuel as its measure (the bytes
  left), and the lemmas show that it has then ended. The mutual recursion of the signature grammar
  takes a bound on nested calls: \<open>parse_type (limit + 1)\<close> is enough because \<open>enter\<close> rejects a
  depth beyond the limit, and running out of the bound is \<open>Panic\<close>, which the theorems exclude. The
  token renderers recurse on the hops left of \<open>Names::MAX_DEPTH\<close>. The loops of the fuzz targets have
  the fuel of the iterator they drive, and would be \<open>Panic\<close> without enough of it; the target \<open>il\<close> is
  taken on inputs of up to 4 GiB, because instruction offsets are 32 bits wide; the code of a body
  needs no such bound, because its length is a field of 32 bits. A lookup is stated for tables of fewer
  than \<open>u32::MAX\<close> rows, the point from which \<open>lo = mid + 1\<close> overflows; a parsed metadata region
  has no larger table. The signature limits are below \<open>u32::MAX\<close> too, where \<open>depth + 1\<close> stays in
  range.

  \<^bold>\<open>Not modelled.\<close> \<open>lib.rs\<close> (module declarations, re-exports, a function that reads a file) has
  no logic; derived trait instances, serde support and accessors that return a field are the
  selectors and equality of the records; floating-point operands are their bit patterns. Allocation
  is not modelled: memory use shows only where a length is stated. The tests and the
  example programs (which read files and print) call the crate and are not modelled, but for the
  pack format of \<open>corpus-pack.rs\<close>; its directory listing and file writing are input and output.
\<close>

section \<open>From a file to names and instructions\<close>

lemma image_body_streams:
  assumes "slice_ok file" and "pe_parse_with file st = Ok img" and "from_image img meth = Ok (Some b)"
  shows "\<exists>xs. instructions (mb_code b) = Ok (Some xs)
     \<and> folded_instructions (mb_code b) = Ok (Some (fold_ref prefixes_default None xs))"
  using pe_parse_wf(2) [OF assms(1,2)] image_body_slice [OF _ assms(3)] code_streams by blast

text \<open>C1: The crate has no reachable panic on a file: for every sequence of bytes, strict or
  permissive, opening the image, loading its metadata and parsing any method body end in a value or
  an error; the instruction streams of a body end, the folded one as the reference folds the raw
  one; and every token of the metadata has a name.\<close>

theorem image_pipeline_total:
  assumes "slice_ok file"
  shows "no_panic (pe_parse_with file st)
     \<and> (\<forall>img. pe_parse_with file st = Ok img \<longrightarrow>
          no_panic (pe_metadata img)
          \<and> (\<forall>md tok. pe_metadata img = Ok md \<longrightarrow> (\<exists>s. names_token (names_new md) tok = Ok s))
          \<and> (\<forall>meth. no_panic (from_image img meth)
               \<and> (\<forall>b. from_image img meth = Ok (Some b) \<longrightarrow>
                    (\<exists>xs. instructions (mb_code b) = Ok (Some xs)
                       \<and> folded_instructions (mb_code b) = Ok (Some (fold_ref prefixes_default None xs))))))"
proof -
  have "\<exists>s. names_token (names_new md) tok = Ok s" if "pe_parse_with file st = Ok img" "pe_metadata img = Ok md" for img md tok
    using token_name_ok(2) [OF image_metadata_parts(2) [OF assms that], of "hops_left (names_new md)" tok]
    by (simp add: names_token_def is_ok_def names_new_def)
  moreover have "no_panic (pe_metadata img) \<and> no_panic (from_image img meth)" if "pe_parse_with file st = Ok img" for img meth
    using pe_parse_wf(2) [OF assms that] pe_metadata_wf(1) from_image_within(1) by blast
  ultimately show ?thesis using pe_parse_wf(1) [OF assms] image_body_streams [OF assms] by blast
qed

theorem image_pipeline_total_witness:
  "pe_parse_with sample_image Strict = Ok sample_pe
   \<and> (\<exists>md s. pe_metadata sample_pe = Ok md \<and> names_token (names_new md) (Token 0x06000001) = Ok s)"
proof -
  obtain md where m: "metadata_parse_at sample_metadata 420 Strict = Ok md"
    using sample_parses by blast
  have "pe_strictness sample_pe = Strict" by (simp add: sample_pe_def)
  then have "pe_metadata sample_pe = Ok md"
    using m by (simp add: pe_metadata_def sample_metadata_region)
  then show ?thesis using image_pipeline_total [OF sample_image_slice, of Strict] sample_pe_parses by blast
qed

end
